(* ===== verification/Prelude.thy ===== *)
theory Prelude
  imports Complex_Main "HOL-Library.Word" "HOL-Library.Monad_Syntax"
begin

text \<open>
  Shared vocabulary of the development: the C integer types the samples use, C's
  conversions and truncating division, and the predicate \<open>returns\<close> in which every
  "this operation is defined and establishes ..." statement is phrased.

  A C function is modelled as a function into an option type: \<open>Some\<close> of the new state
  is a normal return, \<open>None\<close> is an execution whose behaviour C leaves undefined (signed
  overflow, a float that does not fit the integer type it is cast to, reading past the end
  of a message buffer) or a loop that does not end.
\<close>

section \<open>C integer types\<close>

type_synonym u8 = "8 word"
type_synonym u16 = "16 word"
type_synonym u32 = "32 word"

text \<open>
  An \<open>s16_t\<close> is the same 16 bits read as two's complement (\<open>sint\<close>). C's \<open>int\<close>,
  \<open>s32_t\<close> and \<open>s64_t\<close> are \<open>int\<close>; an operation of the code that could leave
  the range of its type carries the check.
\<close>

type_synonym s16 = "16 word"

abbreviation int32_min :: int where "int32_min \<equiv> - (2 ^ 31)"
abbreviation int32_max :: int where "int32_max \<equiv> 2 ^ 31 - 1"

definition s32_checked :: "int \<Rightarrow> int option" where
  "s32_checked i = (if int32_min \<le> i \<and> i \<le> int32_max then Some i else None)"

definition s32_wrap :: "int \<Rightarrow> int" where
  "s32_wrap i = sint (word_of_int i :: 32 word)"

lemma s32_checked_in_range [simp]:
  "int32_min \<le> i \<Longrightarrow> i \<le> int32_max \<Longrightarrow> s32_checked i = Some i"
  by (simp add: s32_checked_def)

lemma s32_checked_eq_Some: "s32_checked i = Some j \<longleftrightarrow> j = i \<and> int32_min \<le> i \<and> i \<le> int32_max"
  by (auto simp: s32_checked_def)

lemma s32_wrap_id:
  assumes "int32_min \<le> i" "i \<le> int32_max"
  shows "s32_wrap i = i"
  unfolding s32_wrap_def
  by (subst sint_sbintrunc', rule signed_take_bit_int_eq_self) (use assms in simp_all)

text \<open>C's integer division truncates towards zero.\<close>

definition c_div :: "int \<Rightarrow> int \<Rightarrow> int" where
  "c_div a b = sgn a * sgn b * (\<bar>a\<bar> div \<bar>b\<bar>)"

lemma c_div_nonneg: "0 \<le> a \<Longrightarrow> 0 < b \<Longrightarrow> c_div a b = a div b"
  by (cases "a = 0") (simp_all add: c_div_def)

lemma c_div_neg: "0 < b \<Longrightarrow> c_div (- a) b = - c_div a b"
  by (simp add: c_div_def)

lemma c_div_abs: "0 < b \<Longrightarrow> \<bar>c_div a b\<bar> = \<bar>a\<bar> div b"
  by (cases "a = 0") (simp_all add: c_div_def abs_mult pos_imp_zdiv_nonneg_iff)

section \<open>Returning normally\<close>

definition returns :: "'a option \<Rightarrow> ('a \<Rightarrow> bool) \<Rightarrow> bool" where
  "returns m Q = (case m of None \<Rightarrow> False | Some x \<Rightarrow> Q x)"

named_theorems returns_rules

lemma returns_Some [simp]: "returns (Some x) Q = Q x"
  by (simp add: returns_def)

lemma returns_None [simp]: "returns None Q = False"
  by (simp add: returns_def)

lemma returns_bind [simp]: "returns (m \<bind> f) Q = returns m (\<lambda>x. returns (f x) Q)"
  by (cases m) simp_all

lemma returns_if: "returns (if b then x else y) Q = ((b \<longrightarrow> returns x Q) \<and> (\<not> b \<longrightarrow> returns y Q))"
  by simp

lemma returns_bindI:
  assumes "returns m P" "\<And>x. P x \<Longrightarrow> returns (f x) Q"
  shows "returns (m \<bind> f) Q"
  using assms by (cases m) simp_all

lemma returns_mono: "returns m Q \<Longrightarrow> (\<And>x. Q x \<Longrightarrow> Q' x) \<Longrightarrow> returns m Q'"
  by (cases m) simp_all

lemma returns_eq_Some: "returns m Q \<longleftrightarrow> (\<exists>x. m = Some x \<and> Q x)"
  by (cases m) simp_all

lemma returnsE:
  assumes "returns m Q" obtains x where "m = Some x" "Q x"
  using assms by (auto simp: returns_eq_Some)

lemma returns_conj: "returns m P \<Longrightarrow> returns m Q \<Longrightarrow> returns m (\<lambda>x. P x \<and> Q x)"
  by (cases m) simp_all

lemma returns_Some_imp: "m = Some x \<Longrightarrow> returns m Q \<Longrightarrow> Q x"
  by simp

section \<open>Iterating an operation\<close>

fun iterate :: "nat \<Rightarrow> ('s \<Rightarrow> 's option) \<Rightarrow> 's \<Rightarrow> 's option" where
  "iterate 0 f s = Some s"
| "iterate (Suc k) f s = f s \<bind> iterate k f"

lemma iterate_add: "iterate (j + k) f s = iterate j f s \<bind> iterate k f"
  by (induction j arbitrary: s) (simp_all split: Option.bind_split)

lemma iterate_invariant:
  assumes "I s" and "\<And>s. I s \<Longrightarrow> returns (f s) I"
  shows "returns (iterate k f s) I"
  using assms(1)
proof (induction k arbitrary: s)
  case 0
  then show ?case by simp
next
  case (Suc k)
  from assms(2)[OF Suc.prems] show ?case
    by (auto simp: returns_eq_Some dest!: Suc.IH)
qed

section \<open>Words\<close>

lemma uint_lt_65536 [simp]: "uint (w :: u16) < 65536"
  using uint_lt2p [of w] by simp

lemma uint_le_65535 [simp]: "uint (w :: u16) \<le> 65535"
proof -
  have "uint w < 65536" using uint_lt2p [of w] by simp
  then show ?thesis by linarith
qed

lemma uint_le_255 [simp]: "uint (w :: u8) \<le> 255"
proof -
  have "uint w < 256" using uint_lt2p [of w] by simp
  then show ?thesis by linarith
qed

lemma sint16_bounds: "- 32768 \<le> sint (w :: s16)" "sint (w :: s16) \<le> 32767"
  using sint_ge [of w] sint_lt [of w] by simp_all

lemma uint_of_int_u16: "0 \<le> i \<Longrightarrow> i \<le> 65535 \<Longrightarrow> uint (word_of_int i :: u16) = i"
  by (simp add: uint_word_of_int)

lemma sint_of_int_s16: "- 32768 \<le> i \<Longrightarrow> i \<le> 32767 \<Longrightarrow> sint (word_of_int i :: s16) = i"
  by (subst sint_sbintrunc', rule signed_take_bit_int_eq_self) simp_all

end
