(* ===== verification/CFloat.thy ===== *)
theory CFloat
  imports Prelude
begin

text \<open>
  C's \<open>float\<close> and \<open>double\<close>: IEEE-754 binary32 and binary64 with round-to-nearest, ties
  to even. A finite value is the rational number it stands for, and rounding takes the exact
  result of an operation to the nearest value of the format: \<open>a + b\<close> on floats is
  \<open>fl (a + b)\<close>. A format is given by the width of its significand and the least and greatest
  exponent of the last place; the least one is that of the subnormal numbers. Overflow to
  infinity is left out: no value the modelled code computes reaches \<open>2 ^ 33\<close>, and a division
  by zero is a separate, explicit case of the code that divides.

  The locale \<open>float_format\<close> proves the laws of rounding once (monotone, exact on the values of
  the format, bounded relative error); both formats interpret it.
\<close>

section \<open>Rounding\<close>

definition rne :: "rat \<Rightarrow> int" where
  "rne x = (let f = \<lfloor>x\<rfloor>; d = x - of_int f in
            if d < 1/2 then f else if 1/2 < d then f + 1 else if even f then f else f + 1)"

definition ulp_exp :: "nat \<Rightarrow> int \<Rightarrow> int \<Rightarrow> rat \<Rightarrow> int" where
  "ulp_exp p lo hi x =
     (case find (\<lambda>e. \<bar>x\<bar> < 2 powi (e + int p)) [lo..hi] of Some e \<Rightarrow> e | None \<Rightarrow> hi)"

definition rnd :: "nat \<Rightarrow> int \<Rightarrow> int \<Rightarrow> rat \<Rightarrow> rat" where
  "rnd p lo hi x = of_int (rne (x / 2 powi ulp_exp p lo hi x)) * 2 powi ulp_exp p lo hi x"

abbreviation fl :: "rat \<Rightarrow> rat" where "fl \<equiv> rnd 24 (-149) 104"
abbreviation fl64 :: "rat \<Rightarrow> rat" where "fl64 \<equiv> rnd 53 (-1074) 971"

text \<open>The conversion of a float to an integer type truncates; it is undefined out of range.\<close>

definition c_trunc :: "rat \<Rightarrow> int" where
  "c_trunc x = (if x < 0 then \<lceil>x\<rceil> else \<lfloor>x\<rfloor>)"

definition float_to_int :: "int \<Rightarrow> int \<Rightarrow> rat \<Rightarrow> int option" where
  "float_to_int lo hi x = (if lo \<le> c_trunc x \<and> c_trunc x \<le> hi then Some (c_trunc x) else None)"

definition float_to_u8 :: "rat \<Rightarrow> u8 option" where
  "float_to_u8 x = map_option word_of_int (float_to_int 0 255 x)"

definition float_to_u16 :: "rat \<Rightarrow> u16 option" where
  "float_to_u16 x = map_option word_of_int (float_to_int 0 65535 x)"

definition float_to_s16 :: "rat \<Rightarrow> s16 option" where
  "float_to_s16 x = map_option word_of_int (float_to_int (- 32768) 32767 x)"

definition float_to_s32 :: "rat \<Rightarrow> int option" where
  "float_to_s32 x = float_to_int int32_min int32_max x"

definition float_to_u32 :: "rat \<Rightarrow> u32 option" where
  "float_to_u32 x = map_option word_of_int (float_to_int 0 (2 ^ 32 - 1) x)"

text \<open>Division of floats; dividing by zero gives an infinity or a NaN, which has no rational value.\<close>

definition fdiv :: "rat \<Rightarrow> rat \<Rightarrow> rat option" where
  "fdiv a b = (if b = 0 then None else Some (fl (a / b)))"


section \<open>Rounding to an integer\<close>

lemma rne_of_int [simp]: "rne (of_int n) = n"
  by (simp add: rne_def)

lemma rne_cases:
  obtains "rne x = \<lfloor>x\<rfloor>" "x - of_int \<lfloor>x\<rfloor> \<le> 1/2" | "rne x = \<lfloor>x\<rfloor> + 1" "1/2 \<le> x - of_int \<lfloor>x\<rfloor>"
  by (force simp: rne_def Let_def split: if_splits)

lemma rne_error: "\<bar>of_int (rne x) - x\<bar> \<le> 1/2"
proof (cases x rule: rne_cases)
  case 1
  moreover have "of_int \<lfloor>x\<rfloor> \<le> x" by simp
  ultimately show ?thesis by linarith
next
  case 2
  moreover have "x < of_int \<lfloor>x\<rfloor> + 1" by linarith
  ultimately show ?thesis by simp
qed

lemma rne_mono: "x \<le> y \<Longrightarrow> rne x \<le> rne y"
proof -
  assume le: "x \<le> y"
  show ?thesis
  proof (cases "\<lfloor>x\<rfloor> = \<lfloor>y\<rfloor>")
    case True
    then show ?thesis using le by (simp add: rne_def Let_def)
  next
    case False
    with floor_mono [OF le] have "\<lfloor>x\<rfloor> + 1 \<le> \<lfloor>y\<rfloor>" by simp
    moreover have "rne x \<le> \<lfloor>x\<rfloor> + 1" "\<lfloor>y\<rfloor> \<le> rne y" by (simp_all add: rne_def Let_def)
    ultimately show ?thesis by linarith
  qed
qed

lemma rne_minus: "rne (- x) = - rne x"
proof (cases "x = of_int \<lfloor>x\<rfloor>")
  case True
  then show ?thesis by (metis of_int_minus rne_of_int)
next
  case False
  then have "\<lfloor>- x\<rfloor> = - \<lfloor>x\<rfloor> - 1" by linarith
  then show ?thesis by (auto simp: rne_def Let_def)
qed

section \<open>The exponent of the last place\<close>

lemma powi_add2: "(2::rat) powi (a + b) = 2 powi a * 2 powi b"
  by (simp add: power_int_add)

lemma powi_mono2: "a \<le> b \<Longrightarrow> (2::rat) powi a \<le> 2 powi b"
  by (simp add: power_int_increasing)

lemma find_upto_Some:
  "find P [a..b] = Some e \<Longrightarrow> P e \<and> a \<le> e \<and> e \<le> b \<and> (\<forall>d. a \<le> d \<and> d < e \<longrightarrow> \<not> P d)"
proof (induction a b rule: upto.induct)
  case (1 i j)
  show ?case
  proof (cases "i \<le> j")
    case True
    show ?thesis
    proof (cases "P i")
      case True
      with \<open>i \<le> j\<close> "1.prems" show ?thesis by (auto simp: upto_rec1)
    next
      case False
      with \<open>i \<le> j\<close> "1.prems" have "find P [i + 1..j] = Some e" by (simp add: upto_rec1)
      with "1.IH" \<open>i \<le> j\<close> have "P e \<and> i + 1 \<le> e \<and> e \<le> j \<and> (\<forall>d. i + 1 \<le> d \<and> d < e \<longrightarrow> \<not> P d)" by blast
      with False show ?thesis by (metis add1_zle_eq order_le_less order_less_imp_le)
    qed
  next
    case False
    with "1.prems" show ?thesis by simp
  qed
qed

lemma find_upto_None: "find P [a..b] = None \<Longrightarrow> a \<le> d \<Longrightarrow> d \<le> b \<Longrightarrow> \<not> P d"
  by (simp add: find_None_iff)

locale float_format =
  fixes p :: nat and lo hi :: int
  assumes lo_less_hi: "lo < hi" and p_pos: "0 < p"
begin

lemma powi_p: "(2::rat) powi (e + int p) = 2 ^ p * 2 powi e"
  by (simp add: powi_add2)

lemma powi_p1: "(2::rat) powi (e + int p - 1) = 2 ^ (p - 1) * 2 powi e"
proof -
  have "int (p - 1) = int p - 1" using p_pos by simp
  then have "e + int p - 1 = e + int (p - 1)" by simp
  then show ?thesis by (simp only: powi_add2 power_int_of_nat mult.commute)
qed

lemma ulp_exp_spec:
  "lo \<le> ulp_exp p lo hi x \<and> ulp_exp p lo hi x \<le> hi \<and> (ulp_exp p lo hi x < hi \<longrightarrow> \<bar>x\<bar> < 2 powi (ulp_exp p lo hi x + int p)) \<and>
   (lo < ulp_exp p lo hi x \<longrightarrow> 2 powi (ulp_exp p lo hi x + int p - 1) \<le> \<bar>x\<bar>)"
proof (cases "find (\<lambda>e. \<bar>x\<bar> < 2 powi (e + int p)) [lo..hi]")
  case None
  from find_upto_None [OF this, of "hi - 1"] lo_less_hi
  have "\<not> \<bar>x\<bar> < 2 powi (hi - 1 + int p)" by simp
  with None lo_less_hi show ?thesis by (simp add: ulp_exp_def algebra_simps)
next
  case (Some e)
  note props = find_upto_Some [OF this]
  then have e: "\<bar>x\<bar> < 2 powi (e + int p)" "lo \<le> e" "e \<le> hi" by blast+
  from props have least: "lo \<le> d \<Longrightarrow> d < e \<Longrightarrow> \<not> \<bar>x\<bar> < 2 powi (d + int p)" for d by blast
  have "2 powi (e + int p - 1) \<le> \<bar>x\<bar>" if "lo < e"
    using least [of "e - 1"] that by (simp add: algebra_simps not_less)
  with e Some show ?thesis by (simp add: ulp_exp_def)
qed

lemma ulp_exp_bounds: "lo \<le> ulp_exp p lo hi x" "ulp_exp p lo hi x \<le> hi"
  and ulp_exp_upper: "ulp_exp p lo hi x < hi \<Longrightarrow> \<bar>x\<bar> < 2 powi (ulp_exp p lo hi x + int p)"
  and ulp_exp_lower: "lo < ulp_exp p lo hi x \<Longrightarrow> 2 powi (ulp_exp p lo hi x + int p - 1) \<le> \<bar>x\<bar>"
  using ulp_exp_spec [of x] by blast+

lemma ulp_exp_le:
  assumes "\<bar>x\<bar> < 2 powi (e + int p)" "lo \<le> e"
  shows "ulp_exp p lo hi x \<le> e"
proof (rule ccontr)
  assume less: "\<not> ?thesis"
  have "2 powi (e + int p) \<le> (2::rat) powi (ulp_exp p lo hi x + int p - 1)" using less by (intro powi_mono2) simp
  also have "\<dots> \<le> \<bar>x\<bar>" using less assms(2) by (intro ulp_exp_lower) simp
  finally show False using assms by simp
qed

lemma ulp_exp_mono:
  assumes "\<bar>x\<bar> \<le> \<bar>y\<bar>"
  shows "ulp_exp p lo hi x \<le> ulp_exp p lo hi y"
proof (cases "ulp_exp p lo hi y < hi")
  case True
  with assms ulp_exp_upper [of y] show ?thesis
    by (intro ulp_exp_le) (simp_all add: ulp_exp_bounds)
next
  case False
  with ulp_exp_bounds(2) [of x] show ?thesis by simp
qed

lemma ulp_exp_minus [simp]: "ulp_exp p lo hi (- x) = ulp_exp p lo hi x"
  by (simp add: ulp_exp_def)


lemma ulp_exp_eqI:
  assumes "2 powi (e + int p - 1) \<le> \<bar>x\<bar>" "\<bar>x\<bar> < 2 powi (e + int p)" "lo \<le> e" "e \<le> hi"
  shows "ulp_exp p lo hi x = e"
proof -
  have "ulp_exp p lo hi x \<le> e" using assms by (intro ulp_exp_le) simp_all
  moreover have "\<not> ulp_exp p lo hi x < e"
  proof
    assume less: "ulp_exp p lo hi x < e"
    then have "\<bar>x\<bar> < 2 powi (ulp_exp p lo hi x + int p)" using assms by (intro ulp_exp_upper) simp
    also have "\<dots> \<le> 2 powi (e + int p - 1)" using less by (intro powi_mono2) simp
    finally show False using assms by simp
  qed
  ultimately show ?thesis by simp
qed

text \<open>Sign, zero.\<close>

lemma rnd_0 [simp]: "rnd p lo hi 0 = 0"
  using rne_of_int [of 0] by (simp add: rnd_def)

lemma rnd_minus: "rnd p lo hi (- x) = - rnd p lo hi x"
  by (simp add: rnd_def rne_minus)

lemma rnd_nonneg: "0 \<le> x \<Longrightarrow> 0 \<le> rnd p lo hi x"
  using rne_mono [of 0 "x / 2 powi ulp_exp p lo hi x"] rne_of_int [of 0] by (simp add: rnd_def)

text \<open>Rounding is monotone.\<close>

lemma rnd_mono_nonneg:
  assumes "0 \<le> x" "x \<le> y"
  shows "rnd p lo hi x \<le> rnd p lo hi y"
proof (cases "ulp_exp p lo hi x = ulp_exp p lo hi y")
  case True
  then show ?thesis using assms
    by (simp add: rnd_def mult_right_mono rne_mono divide_right_mono)
next
  case False
  let ?e = "ulp_exp p lo hi x" and ?d = "ulp_exp p lo hi y"
  have less: "?e < ?d" using ulp_exp_mono [of x y] assms False by simp
  then have "\<bar>x\<bar> < 2 powi (?e + int p)" using ulp_exp_bounds(2) [of y] by (intro ulp_exp_upper) simp
  then have "\<bar>x\<bar> < 2 ^ p * 2 powi ?e" by (simp only: powi_p)
  then have "x / 2 powi ?e \<le> of_int (2 ^ p)" using assms by (simp add: pos_divide_le_eq)
  then have "rne (x / 2 powi ?e) \<le> 2 ^ p" using rne_mono [of _ "of_int (2 ^ p)"] by (metis rne_of_int)
  then have "of_int (rne (x / 2 powi ?e)) \<le> (2 ^ p :: rat)" by (metis of_int_le_iff of_int_numeral of_int_power)
  then have "rnd p lo hi x \<le> 2 ^ p * 2 powi ?e" by (simp add: rnd_def)
  also have "\<dots> = 2 powi (?e + int p)" by (simp add: powi_p)
  also have "\<dots> \<le> 2 powi (?d + int p - 1)" using less by (intro powi_mono2) simp
  also have "\<dots> = 2 ^ (p - 1) * 2 powi ?d" by (rule powi_p1)
  also have "\<dots> \<le> rnd p lo hi y"
  proof -
    have "2 powi (?d + int p - 1) \<le> \<bar>y\<bar>" using less ulp_exp_bounds(1) [of x] by (intro ulp_exp_lower) simp
    then have "2 ^ (p - 1) * 2 powi ?d \<le> \<bar>y\<bar>" by (simp only: powi_p1)
    then have "of_int (2 ^ (p - 1)) \<le> y / 2 powi ?d" using assms by (simp add: pos_le_divide_eq)
    then have "2 ^ (p - 1) \<le> rne (y / 2 powi ?d)" using rne_mono [of "of_int (2 ^ (p - 1))"] by (metis rne_of_int)
    then have "(2 ^ (p - 1) :: rat) \<le> of_int (rne (y / 2 powi ?d))" by (metis of_int_le_iff of_int_numeral of_int_power)
    then show ?thesis by (simp add: rnd_def)
  qed
  finally show ?thesis .
qed

lemma rnd_mono: 
  assumes "x \<le> y"
  shows "rnd p lo hi x \<le> rnd p lo hi y"
proof (cases "0 \<le> x")
  case True
  then show ?thesis using assms by (rule rnd_mono_nonneg)
next
  case neg: False
  show ?thesis
  proof (cases "0 \<le> y")
    case True
    then show ?thesis using neg rnd_nonneg [of "- x"] rnd_nonneg [of y] by (simp add: rnd_minus)
  next
    case False
    then show ?thesis using assms rnd_mono_nonneg [of "- y" "- x"] by (simp add: rnd_minus)
  qed
qed

text \<open>A value of the format is left alone.\<close>

lemma rnd_exact:
  assumes "\<bar>m\<bar> < 2 ^ p" "lo \<le> e"
  shows "rnd p lo hi (of_int m * 2 powi e) = of_int m * 2 powi e"
proof -
  let ?x = "of_int m * 2 powi e :: rat"
  have "\<bar>of_int m\<bar> < (2 ^ p :: rat)" using assms(1) by (metis of_int_abs of_int_less_iff of_int_numeral of_int_power)
  then have "\<bar>?x\<bar> < 2 powi (e + int p)" by (simp add: abs_mult powi_p)
  then have le: "ulp_exp p lo hi ?x \<le> e" using assms(2) by (rule ulp_exp_le)
  then have eq: "(2::rat) powi e = 2 ^ nat (e - ulp_exp p lo hi ?x) * 2 powi ulp_exp p lo hi ?x"
    using powi_add2 [of "e - ulp_exp p lo hi ?x" "ulp_exp p lo hi ?x"] by (simp add: power_int_def)
  have "a * (b * c) / c = a * b" if "c \<noteq> 0" for a b c :: rat using that by simp
  from this [of "2 powi ulp_exp p lo hi ?x" "of_int m" "2 ^ nat (e - ulp_exp p lo hi ?x)"]
  have "?x / 2 powi ulp_exp p lo hi ?x = of_int (m * 2 ^ nat (e - ulp_exp p lo hi ?x))" by (subst eq) simp
  then have "rnd p lo hi ?x = of_int (m * 2 ^ nat (e - ulp_exp p lo hi ?x)) * 2 powi ulp_exp p lo hi ?x"
    unfolding rnd_def by (metis rne_of_int)
  also have "\<dots> = ?x" by (subst (2) eq) simp
  finally show ?thesis .
qed

text \<open>The relative error of one rounding of a number in the normal range.\<close>

lemma rnd_error:
  assumes "2 powi (lo + int p - 1) \<le> \<bar>x\<bar>"
  shows "\<bar>rnd p lo hi x - x\<bar> \<le> \<bar>x\<bar> / 2 ^ p"
proof -
  let ?u = "2 powi ulp_exp p lo hi x :: rat"
  have "rnd p lo hi x - x = (of_int (rne (x / ?u)) - x / ?u) * ?u" by (simp add: rnd_def field_simps)
  then have "\<bar>rnd p lo hi x - x\<bar> = \<bar>of_int (rne (x / ?u)) - x / ?u\<bar> * ?u" by (simp add: abs_mult)
  also have "\<dots> \<le> 1 / 2 * ?u" by (rule mult_right_mono [OF rne_error]) simp
  also have "\<dots> \<le> \<bar>x\<bar> / 2 ^ p"
  proof -
    have "2 powi (ulp_exp p lo hi x + int p - 1) \<le> \<bar>x\<bar>"
    proof (cases "lo < ulp_exp p lo hi x")
      case False
      then have "ulp_exp p lo hi x = lo" using ulp_exp_bounds(1) [of x] by simp
      then show ?thesis using assms by simp
    qed (rule ulp_exp_lower)
    then have "2 ^ (p - 1) * ?u \<le> \<bar>x\<bar>" by (simp only: powi_p1)
    moreover have "(2::rat) ^ p = 2 * 2 ^ (p - 1)" using p_pos by (simp add: power_eq_if)
    ultimately show ?thesis by (simp add: field_simps)
  qed
  finally show ?thesis .
qed

text \<open>An absolute bound, which also covers the subnormal numbers.\<close>

lemma rnd_abs_error:
  assumes "\<bar>x\<bar> \<le> b" "2 powi (lo + int p - 1) \<le> b"
  shows "\<bar>rnd p lo hi x - x\<bar> \<le> b / 2 ^ p"
proof (cases "2 powi (lo + int p - 1) \<le> \<bar>x\<bar>")
  case True
  then have "\<bar>rnd p lo hi x - x\<bar> \<le> \<bar>x\<bar> / 2 ^ p" by (rule rnd_error)
  also have "\<dots> \<le> b / 2 ^ p" using assms by (simp add: divide_right_mono)
  finally show ?thesis .
next
  case False
  have "2 powi (lo + int p - 1) \<le> (2::rat) powi (lo + int p)" by (intro powi_mono2) simp
  with False have "ulp_exp p lo hi x \<le> lo" by (intro ulp_exp_le) simp_all
  then have lo: "ulp_exp p lo hi x = lo" using ulp_exp_bounds(1) [of x] by simp
  have "rnd p lo hi x - x = (of_int (rne (x / 2 powi lo)) - x / 2 powi lo) * 2 powi lo"
    by (simp add: rnd_def lo field_simps)
  then have "\<bar>rnd p lo hi x - x\<bar> = \<bar>of_int (rne (x / 2 powi lo)) - x / 2 powi lo\<bar> * 2 powi lo"
    by (simp add: abs_mult)
  also have "\<dots> \<le> 1 / 2 * 2 powi lo" by (rule mult_right_mono [OF rne_error]) simp
  also have "\<dots> = 2 powi (lo + int p - 1) / 2 ^ p"
  proof -
    have "(2::rat) ^ p = 2 * 2 ^ (p - 1)" using p_pos by (simp add: power_eq_if)
    then show ?thesis by (simp only: powi_p1) simp
  qed
  also have "\<dots> \<le> b / 2 ^ p" using assms by (simp add: divide_right_mono)
  finally show ?thesis .
qed

end

interpretation binary32: float_format 24 "-149" 104
  by unfold_locales simp_all

interpretation binary64: float_format 53 "-1074" 971
  by unfold_locales simp_all

lemma fl_of_int: "\<bar>m\<bar> < 2 ^ 24 \<Longrightarrow> fl (of_int m) = of_int m"
  using binary32.rnd_exact [of m 0] by simp

lemma fl_numeral [simp]: "(numeral k :: int) < 2 ^ 24 \<Longrightarrow> fl (numeral k) = numeral k"
  using fl_of_int [of "numeral k"] by simp

lemma fl_1 [simp]: "fl 1 = 1"
  using fl_of_int [of 1] by simp

lemma fl_quarter:
  assumes "\<bar>m\<bar> < 2 ^ 24"
  shows "fl (of_int m / 16) = of_int m / 16"
proof -
  have "(2::rat) powi -4 = 1 / 16" by (simp add: power_int_def power_one_over)
  then show ?thesis using binary32.rnd_exact [of m "-4"] assms by simp
qed

text \<open>The bounds a computation inherits from exact values around it.\<close>

lemma fl_le_int: "x \<le> of_int m \<Longrightarrow> \<bar>m\<bar> < 2 ^ 24 \<Longrightarrow> fl x \<le> of_int m"
  by (metis binary32.rnd_mono fl_of_int)

lemma fl_ge_int: "of_int m \<le> x \<Longrightarrow> \<bar>m\<bar> < 2 ^ 24 \<Longrightarrow> of_int m \<le> fl x"
  by (metis binary32.rnd_mono fl_of_int)

lemma fl_le_sixteenth: "x \<le> of_int m / 16 \<Longrightarrow> \<bar>m\<bar> < 2 ^ 24 \<Longrightarrow> fl x \<le> of_int m / 16"
  by (metis binary32.rnd_mono fl_quarter)

lemma fl_abs_error:
  assumes "\<bar>x\<bar> \<le> b" "1 / 2 ^ 100 \<le> b"
  shows "\<bar>fl x - x\<bar> \<le> b / 2 ^ 24"
proof -
  have "(2::rat) powi (- 149 + int 24 - 1) \<le> 1 / 2 ^ 100" by (simp add: power_int_def divide_simps)
  then show ?thesis using binary32.rnd_abs_error [of x b] assms by linarith
qed

section \<open>Casting back to an integer\<close>

lemma c_trunc_of_int [simp]: "c_trunc (of_int n) = n"
  by (simp add: c_trunc_def)

lemma c_trunc_minus: "c_trunc (- x) = - c_trunc x"
  by (auto simp: c_trunc_def ceiling_def not_less)

lemma c_trunc_mono: "x \<le> y \<Longrightarrow> c_trunc x \<le> c_trunc y"
proof -
  assume le: "x \<le> y"
  show ?thesis
  proof (cases "x < 0 \<and> \<not> y < 0")
    case True
    then have "\<lceil>x\<rceil> \<le> 0" "0 \<le> \<lfloor>y\<rfloor>" by (simp_all add: ceiling_le_iff)
    then have "\<lceil>x\<rceil> \<le> \<lfloor>y\<rfloor>" by linarith
    with True show ?thesis by (simp add: c_trunc_def)
  next
    case False
    with le show ?thesis by (auto simp: c_trunc_def floor_mono ceiling_mono)
  qed
qed

lemma c_trunc_nonneg: "0 \<le> x \<Longrightarrow> c_trunc x = \<lfloor>x\<rfloor>"
  by (simp add: c_trunc_def)

text \<open>
  Dividing two small integers as floats and truncating is C's integer division: the error of
  the rounding is far below the distance of the quotient from the next integer.
\<close>

lemma c_trunc_fl_div_nonneg:
  assumes "0 \<le> n" "n \<le> 65535" "1 \<le> c" "c \<le> 15"
  shows "c_trunc (fl (of_int n / of_int c)) = n div c"
proof -
  let ?q = "n div c" and ?x = "of_int n / of_int c :: rat"
  have n: "n = ?q * c + n mod c" by simp
  have m: "0 \<le> n mod c" "n mod c \<le> c - 1" using assms by simp_all
  have qc: "?q * c \<le> n" using n m by linarith
  have "0 \<le> ?q" using assms by (simp add: pos_imp_zdiv_nonneg_iff)
  moreover from this have "?q \<le> ?q * c" using assms mult_left_mono [of 1 c ?q] by simp
  ultimately have q: "0 \<le> ?q" "?q \<le> n" using qc by simp_all
  have "of_int (?q * c) \<le> (of_int n :: rat)" using qc by (simp only: of_int_le_iff)
  then have lo: "of_int ?q \<le> ?x" using assms by (simp add: pos_le_divide_eq)
  have "16 * n \<le> (16 * ?q + 15) * c"
  proof -
    have "16 * n = 16 * (?q * c) + 16 * (n mod c)" using n by linarith
    also have "\<dots> \<le> 16 * (?q * c) + 15 * c" using m assms by linarith
    finally show ?thesis by (simp add: algebra_simps)
  qed
  then have "of_int (16 * n) \<le> (of_int ((16 * ?q + 15) * c) :: rat)" by (simp only: of_int_le_iff)
  then have hi: "?x \<le> of_int (16 * ?q + 15) / 16" using assms by (simp add: field_simps)
  have "of_int ?q \<le> fl ?x" using lo q assms by (intro fl_ge_int) auto
  moreover have "fl ?x \<le> of_int (16 * ?q + 15) / 16" using hi q assms by (intro fl_le_sixteenth) auto
  ultimately have "\<lfloor>fl ?x\<rfloor> = ?q" by (intro floor_unique) simp_all
  moreover have "0 \<le> fl ?x" using assms by (intro binary32.rnd_nonneg) simp
  ultimately show ?thesis by (simp add: c_trunc_nonneg)
qed

lemma c_trunc_fl_div:
  assumes "\<bar>n\<bar> \<le> 65535" "1 \<le> c" "c \<le> 15"
  shows "c_trunc (fl (of_int n / of_int c)) = c_div n c"
proof (cases "0 \<le> n")
  case True
  then show ?thesis using assms by (simp add: c_trunc_fl_div_nonneg c_div_nonneg)
next
  case False
  then have "c_trunc (fl (of_int (- n) / of_int c)) = c_div (- n) c"
    using assms by (subst c_trunc_fl_div_nonneg) (simp_all add: c_div_nonneg)
  then show ?thesis using assms by (simp add: binary32.rnd_minus c_trunc_minus c_div_neg)
qed

text \<open>A float strictly between two integers casts to the one nearer to zero.\<close>

lemma c_trunc_less: "x < of_int (m + 1) \<Longrightarrow> 0 \<le> m \<Longrightarrow> c_trunc x \<le> m"
  by (simp add: c_trunc_def floor_le_iff ceiling_le_iff)

lemma c_trunc_ge: "of_int m \<le> x \<Longrightarrow> m \<le> c_trunc x"
  using c_trunc_mono [of "of_int m" x] by simp

lemma c_trunc_error: "\<bar>of_int (c_trunc x) - x\<bar> < 1"
  by (simp add: c_trunc_def) linarith

lemma float_to_int_Some: "lo \<le> c_trunc x \<Longrightarrow> c_trunc x \<le> hi \<Longrightarrow> float_to_int lo hi x = Some (c_trunc x)"
  by (simp add: float_to_int_def)

end
