(* ===== verification/Node.thy ===== *)
theory Node
  imports CFloat
begin

text \<open>
  The state of the Bluetooth mesh lighting node (samples/boards/nrf/mesh/
  onoff_level_lighting_vnd_app): the C structures of device_composition.h and transition.h, the
  globals and function-local statics of the application, and the boundary to the Zephyr services
  the application calls.

  The services are not part of this code and are not given a behaviour here. What a service
  returns is an input (the record \<open>env\<close>), what the application asks of it is an output
  (an \<open>event\<close> appended to the node's trace, in program order).
\<close>

section \<open>Structures\<close>

record lightness =
  lt_current :: u16
  lt_target :: u16
  lt_def :: u16
  lt_last :: u16
  lt_status_code :: u8
  lt_range_min :: u16
  lt_range_max :: u16
  lt_range :: u32
  lt_delta :: int

record temperature =
  tm_current :: u16
  tm_target :: u16
  tm_def :: u16
  tm_status_code :: u8
  tm_range_min :: u16
  tm_range_max :: u16
  tm_range :: u32
  tm_delta :: int

record delta_uv =
  dv_current :: s16
  dv_target :: s16
  dv_def :: s16
  dv_delta :: int

record transition =
  tr_just_started :: bool
  tr_type :: u8
  tr_tt :: u8
  tr_rt :: u8
  tr_delay :: u8
  tr_quo_tt :: u32
  tr_counter :: u32
  tr_total_duration :: u32
  tr_start_timestamp :: int

record vendor_state =
  vn_current :: int
  vn_response :: u32
  vn_last_tid :: u8
  vn_last_src_addr :: u16
  vn_last_dst_addr :: u16
  vn_last_msg_timestamp :: int

abbreviation STATE_OFF :: u8 where "STATE_OFF \<equiv> 0"
abbreviation STATE_ON :: u8 where "STATE_ON \<equiv> 1"
abbreviation STATE_DEFAULT :: u8 where "STATE_DEFAULT \<equiv> 1"
abbreviation STATE_RESTORE :: u8 where "STATE_RESTORE \<equiv> 2"

abbreviation LIGHTNESS_MIN :: u16 where "LIGHTNESS_MIN \<equiv> 1"
abbreviation LIGHTNESS_MAX :: u16 where "LIGHTNESS_MAX \<equiv> 65535"
abbreviation TEMP_MIN :: u16 where "TEMP_MIN \<equiv> 800"
abbreviation TEMP_MAX :: u16 where "TEMP_MAX \<equiv> 20000"
abbreviation DELTA_UV_DEF :: s16 where "DELTA_UV_DEF \<equiv> 0"

abbreviation RANGE_SUCCESSFULLY_UPDATED :: u8 where "RANGE_SUCCESSFULLY_UPDATED \<equiv> 0"
abbreviation CANNOT_SET_RANGE_MIN :: u8 where "CANNOT_SET_RANGE_MIN \<equiv> 1"
abbreviation CANNOT_SET_RANGE_MAX :: u8 where "CANNOT_SET_RANGE_MAX \<equiv> 2"

abbreviation MOVE :: u8 where "MOVE \<equiv> 1"
abbreviation NON_MOVE :: u8 where "NON_MOVE \<equiv> 2"
abbreviation UNKNOWN_VALUE :: u8 where "UNKNOWN_VALUE \<equiv> 63"
abbreviation DEVICE_SPECIFIC_RESOLUTION :: u32 where "DEVICE_SPECIFIC_RESOLUTION \<equiv> 10"

abbreviation UINT16_MAX :: int where "UINT16_MAX \<equiv> 65535"
abbreviation INT16_MIN :: int where "INT16_MIN \<equiv> - 32768"
abbreviation INT16_MAX :: int where "INT16_MAX \<equiv> 32767"

section \<open>Identifiers the application passes to the services\<close>

text \<open>
  The second element's and the vendor's models are indexed as in the arrays \<open>s0_models\<close> and
  \<open>vnd_models\<close>; \<open>Root i\<close> is \<open>&root_models[i]\<close>.
\<close>

datatype model = Root nat | Vnd | S0 nat

datatype opcode = OP_2 u8 u8 | OP_3 u8 u16

fun opcode_len :: "opcode \<Rightarrow> nat" where
  "opcode_len (OP_2 _ _) = 2"
| "opcode_len (OP_3 _ _) = 3"

datatype timer = Transition_Timer | Reset_Counter_Timer | Unsolicited_Timer

datatype work =
    No_Transition_Work | Storage_Work | Unsolicited_Work | Button_Work
  | Onoff_Work | Level_Lightness_Work | Level_Temp_Work | Lightness_Actual_Work
  | Lightness_Linear_Work | Light_Ctl_Work | Light_Ctl_Temp_Work

datatype event =
    K_timer_init timer work
  | K_timer_start timer int int
  | K_timer_stop timer
  | K_work_submit work
  | Mesh_model_send opcode "u8 list"
  | Mesh_model_publish model opcode "u8 list"
  | Mesh_prov_enable
  | Mesh_reset
  | Gpio_pin_set nat int
  | Settings_save_one string "u8 list"
  | Printk string "int list"

text \<open>
  \<open>K_timer_init t w\<close> is \<open>k_timer_init(&t, h, NULL)\<close> where the expiry function \<open>h\<close>
  is the one-line handler that submits the work item \<open>w\<close>.
\<close>

section \<open>Inputs\<close>

text \<open>
  What the services answer while one handler runs: \<open>e_now\<close> is the reading of
  \<open>k_uptime_get()\<close> in the handler's own body, \<open>e_rt_now\<close> the later reading inside
  \<open>calculate_rt\<close>; \<open>e_pub_addr\<close> is the publish address the provisioner configured for a
  model (0 is BT_MESH_ADDR_UNASSIGNED).
\<close>

record env =
  e_now :: int
  e_rt_now :: int
  e_send_err :: int
  e_publish_err :: int
  e_pub_addr :: "model \<Rightarrow> u16"
  e_provisioned :: bool

record msg_ctx =
  cx_addr :: u16
  cx_recv_dst :: u16

section \<open>The node\<close>

text \<open>
  \<open>light\<close>, \<open>temp\<close>, \<open>duv\<close> and \<open>trans\<close> are the four structures that \<open>ctl\<close>
  points to; \<open>c_onpowerup\<close> to \<open>c_last_msg_timestamp\<close> are the scalar fields of
  \<open>struct light_ctl_state\<close>. The four \<open>ll_\<close> fields are the statics \<open>last_level\<close> of the
  four delta handlers, \<open>reset_done\<close> is main.c's \<open>reset\<close>, \<open>button_tid\<close> and
  \<open>button_state\<close> are publisher.c's \<open>tid\<close> and \<open>state\<close>.
\<close>

record node =
  light :: lightness
  temp :: temperature
  duv :: delta_uv
  trans :: transition
  c_onpowerup :: u8
  c_tt :: u8
  c_last_tid :: u8
  c_last_src_addr :: u16
  c_last_dst_addr :: u16
  c_last_msg_timestamp :: int
  vnd_user_data :: vendor_state
  ll_delta_set_unack :: s16
  ll_delta_set :: s16
  ll_delta_set_unack_temp :: s16
  ll_delta_set_temp :: s16
  storage_id :: u8
  reset_counter :: u8
  reset_done :: bool
  button_tid :: u8
  button_state :: u8
  dev_uuid :: "u8 list"
  trace :: "event list"

definition emit :: "event \<Rightarrow> node \<Rightarrow> node" where
  "emit ev n = n\<lparr>trace := trace n @ [ev]\<rparr>"

abbreviation set_light_current :: "u16 \<Rightarrow> node \<Rightarrow> node" where
  "set_light_current v n \<equiv> n\<lparr>light := (light n)\<lparr>lt_current := v\<rparr>\<rparr>"
abbreviation set_light_target :: "u16 \<Rightarrow> node \<Rightarrow> node" where
  "set_light_target v n \<equiv> n\<lparr>light := (light n)\<lparr>lt_target := v\<rparr>\<rparr>"
abbreviation set_light_delta :: "int \<Rightarrow> node \<Rightarrow> node" where
  "set_light_delta v n \<equiv> n\<lparr>light := (light n)\<lparr>lt_delta := v\<rparr>\<rparr>"
abbreviation set_temp_current :: "u16 \<Rightarrow> node \<Rightarrow> node" where
  "set_temp_current v n \<equiv> n\<lparr>temp := (temp n)\<lparr>tm_current := v\<rparr>\<rparr>"
abbreviation set_temp_target :: "u16 \<Rightarrow> node \<Rightarrow> node" where
  "set_temp_target v n \<equiv> n\<lparr>temp := (temp n)\<lparr>tm_target := v\<rparr>\<rparr>"
abbreviation set_temp_delta :: "int \<Rightarrow> node \<Rightarrow> node" where
  "set_temp_delta v n \<equiv> n\<lparr>temp := (temp n)\<lparr>tm_delta := v\<rparr>\<rparr>"
abbreviation set_duv_current :: "s16 \<Rightarrow> node \<Rightarrow> node" where
  "set_duv_current v n \<equiv> n\<lparr>duv := (duv n)\<lparr>dv_current := v\<rparr>\<rparr>"
abbreviation set_duv_target :: "s16 \<Rightarrow> node \<Rightarrow> node" where
  "set_duv_target v n \<equiv> n\<lparr>duv := (duv n)\<lparr>dv_target := v\<rparr>\<rparr>"
abbreviation set_duv_delta :: "int \<Rightarrow> node \<Rightarrow> node" where
  "set_duv_delta v n \<equiv> n\<lparr>duv := (duv n)\<lparr>dv_delta := v\<rparr>\<rparr>"
abbreviation set_counter :: "u32 \<Rightarrow> node \<Rightarrow> node" where
  "set_counter v n \<equiv> n\<lparr>trans := (trans n)\<lparr>tr_counter := v\<rparr>\<rparr>"
abbreviation set_just_started :: "bool \<Rightarrow> node \<Rightarrow> node" where
  "set_just_started v n \<equiv> n\<lparr>trans := (trans n)\<lparr>tr_just_started := v\<rparr>\<rparr>"

lemma emit_simps [simp]:
  "light (emit ev n) = light n" "temp (emit ev n) = temp n" "duv (emit ev n) = duv n"
  "trans (emit ev n) = trans n" "c_onpowerup (emit ev n) = c_onpowerup n" "c_tt (emit ev n) = c_tt n"
  "c_last_tid (emit ev n) = c_last_tid n" "c_last_src_addr (emit ev n) = c_last_src_addr n"
  "c_last_dst_addr (emit ev n) = c_last_dst_addr n"
  "c_last_msg_timestamp (emit ev n) = c_last_msg_timestamp n"
  "vnd_user_data (emit ev n) = vnd_user_data n"
  "ll_delta_set_unack (emit ev n) = ll_delta_set_unack n" "ll_delta_set (emit ev n) = ll_delta_set n"
  "ll_delta_set_unack_temp (emit ev n) = ll_delta_set_unack_temp n"
  "ll_delta_set_temp (emit ev n) = ll_delta_set_temp n"
  "storage_id (emit ev n) = storage_id n" "reset_counter (emit ev n) = reset_counter n"
  "reset_done (emit ev n) = reset_done n" "button_tid (emit ev n) = button_tid n"
  "button_state (emit ev n) = button_state n"
  "dev_uuid (emit ev n) = dev_uuid n"
  "trace (emit ev n) = trace n @ [ev]"
  by (simp_all add: emit_def)

section \<open>The transition timer as the events leave it\<close>

text \<open>
  Which work item the expiry of the transition timer submits, if the timer runs: the events
  determine it. \<open>quiet\<close> relates two states between which an operation only sent, printed or
  saved something and possibly recomputed the remaining time; it is what every status message
  amounts to.
\<close>

fun timer_step :: "event \<Rightarrow> work option \<times> bool \<Rightarrow> work option \<times> bool" where
  "timer_step (K_timer_init Transition_Timer w) s = (Some w, False)"
| "timer_step (K_timer_start Transition_Timer d p) s = (fst s, True)"
| "timer_step (K_timer_stop Transition_Timer) s = (fst s, False)"
| "timer_step _ s = s"

definition timer_state :: "node \<Rightarrow> work option \<times> bool" where
  "timer_state n = fold timer_step (trace n) (None, False)"

definition armed :: "node \<Rightarrow> work option" where
  "armed n = (case timer_state n of (w, running) \<Rightarrow> if running then w else None)"

definition untimed :: "event \<Rightarrow> bool" where
  "untimed ev \<longleftrightarrow> (\<forall>w d p. ev \<noteq> K_timer_init Transition_Timer w \<and>
     ev \<noteq> K_timer_start Transition_Timer d p \<and> ev \<noteq> K_timer_stop Transition_Timer)"

lemma untimed_simps [simp]:
  "untimed (K_work_submit w')" "untimed (Mesh_model_send op bs)" "untimed (Mesh_model_publish m op bs)"
  "untimed Mesh_reset" "untimed Mesh_prov_enable" "untimed (Gpio_pin_set i v)" "untimed (Settings_save_one key bs)"
  "untimed (Printk msg is)" "untimed (K_timer_start Unsolicited_Timer d p)"
  "untimed (K_timer_start Reset_Counter_Timer d p)"
  by (simp_all add: untimed_def)

lemma timer_step_untimed: "untimed ev \<Longrightarrow> timer_step ev s = s"
  by (cases "(ev, s)" rule: timer_step.cases) (simp_all add: untimed_def)

lemma timer_state_emit [simp]: "timer_state (emit ev n) = timer_step ev (timer_state n)"
  by (simp add: timer_state_def)

lemma armed_emit_untimed [simp]: "untimed ev \<Longrightarrow> armed (emit ev n) = armed n"
  by (simp add: armed_def timer_step_untimed)

lemma timer_state_cong: "trace n' = trace n \<Longrightarrow> timer_state n' = timer_state n"
  by (simp add: timer_state_def)

lemma armed_cong: "trace n' = trace n \<Longrightarrow> armed n' = armed n"
  by (simp add: armed_def timer_state_def)

section \<open>The zeroed state, and a node to evaluate on\<close>

text \<open>
  \<open>node_zero\<close> is the initial value of the static storage. \<open>sample_node\<close> is a node that came up
  with nothing stored and OnPowerUp off: dark, with the full ranges of both states.
\<close>

definition node_zero :: node where
  "node_zero =
     \<lparr>light = \<lparr>lt_current = 0, lt_target = 0, lt_def = 0, lt_last = 0, lt_status_code = 0,
               lt_range_min = 0, lt_range_max = 0, lt_range = 0, lt_delta = 0\<rparr>,
      temp = \<lparr>tm_current = 0, tm_target = 0, tm_def = 0, tm_status_code = 0,
              tm_range_min = 0, tm_range_max = 0, tm_range = 0, tm_delta = 0\<rparr>,
      duv = \<lparr>dv_current = 0, dv_target = 0, dv_def = 0, dv_delta = 0\<rparr>,
      trans = \<lparr>tr_just_started = False, tr_type = 0, tr_tt = 0, tr_rt = 0, tr_delay = 0,
               tr_quo_tt = 0, tr_counter = 0, tr_total_duration = 0, tr_start_timestamp = 0\<rparr>,
      c_onpowerup = 0, c_tt = 0, c_last_tid = 0, c_last_src_addr = 0, c_last_dst_addr = 0,
      c_last_msg_timestamp = 0,
      vnd_user_data = \<lparr>vn_current = 0, vn_response = 0, vn_last_tid = 0, vn_last_src_addr = 0,
                        vn_last_dst_addr = 0, vn_last_msg_timestamp = 0\<rparr>,
      ll_delta_set_unack = 0, ll_delta_set = 0, ll_delta_set_unack_temp = 0, ll_delta_set_temp = 0,
      storage_id = 0, reset_counter = 0, reset_done = False, button_tid = 0, button_state = 1,
      dev_uuid = [0xdd, 0xdd, 0, 0, 0, 0, 0, 0, 0, 0, 0, 0, 0, 0, 0, 0], trace = []\<rparr>"

definition sample_node :: node where
  "sample_node = node_zero
     \<lparr>light := (light node_zero)\<lparr>lt_def := LIGHTNESS_MAX, lt_last := LIGHTNESS_MAX, lt_range_min := LIGHTNESS_MIN,
                                  lt_range_max := LIGHTNESS_MAX\<rparr>,
      temp := (temp node_zero)\<lparr>tm_current := TEMP_MAX, tm_target := TEMP_MAX, tm_def := TEMP_MAX,
                                tm_range_min := TEMP_MIN, tm_range_max := TEMP_MAX\<rparr>\<rparr>"

definition sample_env :: env where
  "sample_env = \<lparr>e_now = 10000, e_rt_now = 10001, e_send_err = 0, e_publish_err = 0, e_pub_addr = (\<lambda>m. 0xC000),
     e_provisioned = True\<rparr>"

definition sample_ctx :: msg_ctx where
  "sample_ctx = \<lparr>cx_addr = 0x0002, cx_recv_dst = 0x0001\<rparr>"

lemmas sample_defs = sample_node_def node_zero_def sample_env_def sample_ctx_def

end
