(* ===== verification/MsgBuf.thy ===== *)
theory MsgBuf
  imports Node
begin

text \<open>
  Message buffers and the calls that send them. A received \<open>struct net_buf_simple\<close> is the list
  of its remaining bytes: \<open>net_buf_simple_pull_u8\<close> and its little-endian kin take from the
  front, and pulling from a buffer that is too short is undefined (\<open>None\<close>). A message under
  construction is its opcode and the payload added so far; sending it is undefined when the
  opcode and the payload do not fit the buffer the code declared for it.
\<close>

section \<open>Reading a received message\<close>

fun pull_u8 :: "u8 list \<Rightarrow> (u8 \<times> u8 list) option" where
  "pull_u8 (b # bs) = Some (b, bs)"
| "pull_u8 [] = None"

fun pull_le16 :: "u8 list \<Rightarrow> (u16 \<times> u8 list) option" where
  "pull_le16 (b0 # b1 # bs) = Some (word_of_int (uint b0 + 256 * uint b1), bs)"
| "pull_le16 _ = None"

fun pull_le32 :: "u8 list \<Rightarrow> (u32 \<times> u8 list) option" where
  "pull_le32 (b0 # b1 # b2 # b3 # bs) =
     Some (word_of_int (uint b0 + 256 * uint b1 + 65536 * uint b2 + 16777216 * uint b3), bs)"
| "pull_le32 _ = None"

section \<open>Building a message\<close>

definition le16 :: "u16 \<Rightarrow> u8 list" where
  "le16 w = [word_of_int (uint w), word_of_int (uint w div 256)]"

definition le32 :: "u32 \<Rightarrow> u8 list" where
  "le32 w = [word_of_int (uint w), word_of_int (uint w div 256),
             word_of_int (uint w div 65536), word_of_int (uint w div 16777216)]"

lemma length_le16 [simp]: "length (le16 w) = 2"
  by (simp add: le16_def)

lemma length_le32 [simp]: "length (le32 w) = 4"
  by (simp add: le32_def)

lemma uint_word_of_int_u8: "uint (word_of_int i :: u8) = i mod 256"
  by (simp add: uint_word_of_int)

lemma word_of_int_uint_u16: "word_of_int (uint (w :: u16)) = w"
  by simp

lemma base256_split:
  fixes i :: int
  shows "i = i mod 256 + 256 * (i div 256)"
  by simp

lemma base256_le16:
  fixes i :: int
  assumes "0 \<le> i" "i < 65536"
  shows "i mod 256 + 256 * (i div 256 mod 256) = i"
proof -
  have "0 \<le> i div 256" "i div 256 < 256" using assms base256_split [of i] pos_mod_sign [of 256 i] by linarith+
  then show ?thesis by simp
qed

lemma base256_le32:
  fixes i :: int
  assumes "0 \<le> i" "i < 4294967296"
  shows "i mod 256 + 256 * (i div 256 mod 256) + 65536 * (i div 65536 mod 256)
    + 16777216 * (i div 16777216 mod 256) = i"
proof -
  let ?a = "i div 256" and ?b = "i div 65536" and ?c = "i div 16777216"
  have b: "?b = ?a div 256" and c: "?c = ?b div 256" by (simp_all add: div_mult2_eq [symmetric])
  have "i = i mod 16777216 + 16777216 * ?c" by simp
  then have "0 \<le> ?c" "?c < 256" using assms pos_mod_bound [of 16777216 i] pos_mod_sign [of 16777216 i] by linarith+
  then have "?c mod 256 = ?c" by simp
  then show ?thesis using base256_split [of i] base256_split [of ?a] base256_split [of ?b]
    unfolding b c by linarith
qed

lemma pull_le16_le16 [simp]: "pull_le16 (le16 w @ bs) = Some (w, bs)"
  unfolding le16_def
  by (simp only: append_Cons append_Nil pull_le16.simps uint_word_of_int_u8 base256_le16
      unsigned_greater_eq uint_lt_65536 word_of_int_uint)

lemma pull_le32_le32 [simp]: "pull_le32 (le32 w @ bs) = Some (w, bs)"
proof -
  have "0 \<le> uint w" "uint w < 4294967296" using uint_lt2p [of w] by simp_all
  then show ?thesis unfolding le32_def
    by (simp only: append_Cons append_Nil pull_le32.simps uint_word_of_int_u8 base256_le32 word_of_int_uint)
qed

lemma pull_u8_length: "1 \<le> length bs \<Longrightarrow> returns (pull_u8 bs) (\<lambda>(_, r). length r = length bs - 1)"
  by (cases bs) simp_all

lemma pull_le16_length: "2 \<le> length bs \<Longrightarrow> returns (pull_le16 bs) (\<lambda>(_, r). length r = length bs - 2)"
  by (cases bs rule: pull_le16.cases) simp_all

lemma pull_le32_length: "4 \<le> length bs \<Longrightarrow> returns (pull_le32 bs) (\<lambda>(_, r). length r = length bs - 4)"
  by (cases bs rule: pull_le32.cases) simp_all

section \<open>Sending and publishing\<close>

definition model_send :: "env \<Rightarrow> nat \<Rightarrow> opcode \<Rightarrow> u8 list \<Rightarrow> string \<Rightarrow> node \<Rightarrow> node option" where
  "model_send e cap op payload err n =
     (if opcode_len op + length payload \<le> cap
      then Some (if e_send_err e \<noteq> 0 then emit (Printk err []) (emit (Mesh_model_send op payload) n)
                 else emit (Mesh_model_send op payload) n)
      else None)"

text \<open>
  The size of \<open>model->pub->msg\<close> for the models that have a publication context: the model
  arrays of device_composition.c name the context, BT_MESH_MODEL_PUB_DEFINE gives its cap.
  (Root 0 and 1 are the configuration and health servers, which are not the application's.)
\<close>

fun pub_size :: "model \<Rightarrow> nat option" where
  "pub_size (Root i) =
     (if i = 2 then Some (2 + 3) else if i = 3 then Some (2 + 4)
      else if i = 4 then Some (2 + 5) else if i = 5 then Some (2 + 7)
      else if i = 6 then Some (2 + 1) else if i = 7 then Some (2 + 1)
      else if i = 8 \<or> i = 9 then Some (2 + 1) else if i = 10 then Some (2 + 1)
      else if i = 11 \<or> i = 12 then Some (2 + 5) else if i = 13 then Some (2 + 5)
      else if i = 14 \<or> i = 15 then Some (2 + 9) else if i = 16 then Some (2 + 9) else None)"
| "pub_size Vnd = Some (3 + 6)"
| "pub_size (S0 i) =
     (if i = 0 then Some (2 + 5) else if i = 1 then Some (2 + 7)
      else if i = 2 then Some (2 + 9) else None)"

definition model_publish :: "env \<Rightarrow> model \<Rightarrow> opcode \<Rightarrow> u8 list \<Rightarrow> node \<Rightarrow> node option" where
  "model_publish e m op payload n =
     (case pub_size m of
        None \<Rightarrow> None
      | Some cap \<Rightarrow>
          if opcode_len op + length payload \<le> cap
          then Some (if e_publish_err e \<noteq> 0
                     then emit (Printk ''bt_mesh_model_publish err %d'' [e_publish_err e])
                            (emit (Mesh_model_publish m op payload) n)
                     else emit (Mesh_model_publish m op payload) n)
          else None)"

text \<open>
  What an operation that only reports has done: appended events, none of them about the
  transition timer, and possibly recomputed the remaining time.
\<close>

definition quiet :: "node \<Rightarrow> node \<Rightarrow> bool" where
  "quiet n n' \<longleftrightarrow> (\<exists>evs rt. n' = n\<lparr>trans := (trans n)\<lparr>tr_rt := rt\<rparr>, trace := trace n @ evs\<rparr> \<and>
     list_all untimed evs)"

lemma quietI:
  "n' = n\<lparr>trans := (trans n)\<lparr>tr_rt := rt\<rparr>, trace := trace n @ evs\<rparr> \<Longrightarrow> list_all untimed evs \<Longrightarrow> quiet n n'"
  by (auto simp: quiet_def)

lemma quiet_refl [simp]: "quiet n n"
  by (rule quietI [where rt = "tr_rt (trans n)" and evs = "[]"]) simp_all

lemma quiet_emit: "untimed ev \<Longrightarrow> quiet n (emit ev n)"
  by (rule quietI [where rt = "tr_rt (trans n)" and evs = "[ev]"]) (simp_all add: emit_def)

lemma quietE:
  assumes "quiet n n'"
  obtains evs rt where "n' = n\<lparr>trans := (trans n)\<lparr>tr_rt := rt\<rparr>, trace := trace n @ evs\<rparr>"
    "list_all untimed evs"
  using assms by (auto simp: quiet_def)

lemma quiet_trans:
  assumes "quiet n n'" "quiet n' n''"
  shows "quiet n n''"
proof -
  from assms(1) obtain evs rt where 1: "list_all untimed evs"
    "n' = n\<lparr>trans := (trans n)\<lparr>tr_rt := rt\<rparr>, trace := trace n @ evs\<rparr>" by (blast elim: quietE)
  from assms(2) obtain evs' rt' where 2: "list_all untimed evs'"
    "n'' = n'\<lparr>trans := (trans n')\<lparr>tr_rt := rt'\<rparr>, trace := trace n' @ evs'\<rparr>" by (blast elim: quietE)
  from 1 2 show ?thesis by (intro quietI [where rt = rt' and evs = "evs @ evs'"]) simp_all
qed

lemma quiet_reset_done:
  assumes "quiet n n'"
  shows "quiet (n\<lparr>reset_done := b\<rparr>) (n'\<lparr>reset_done := b\<rparr>)"
proof -
  from assms obtain evs rt where "list_all untimed evs"
    "n' = n\<lparr>trans := (trans n)\<lparr>tr_rt := rt\<rparr>, trace := trace n @ evs\<rparr>" by (blast elim: quietE)
  then show ?thesis by (intro quietI [where rt = rt and evs = evs]) simp_all
qed

lemma quiet_emit_trans: "quiet n n' \<Longrightarrow> untimed ev \<Longrightarrow> quiet n (emit ev n')"
  by (blast intro: quiet_trans quiet_emit)

lemma quiet_rt: "quiet n (n\<lparr>trans := (trans n)\<lparr>tr_rt := rt\<rparr>\<rparr>)"
  by (rule quietI [where evs = "[]"]) simp_all

lemma fold_untimed: "list_all untimed evs \<Longrightarrow> fold timer_step evs s = s"
  by (induction evs) (simp_all add: timer_step_untimed)

lemma quiet_fields:
  assumes "quiet n n'"
  shows "light n' = light n" "temp n' = temp n" "duv n' = duv n" "c_onpowerup n' = c_onpowerup n"
    "c_tt n' = c_tt n" "c_last_tid n' = c_last_tid n" "c_last_src_addr n' = c_last_src_addr n"
    "c_last_dst_addr n' = c_last_dst_addr n" "c_last_msg_timestamp n' = c_last_msg_timestamp n"
    "vnd_user_data n' = vnd_user_data n" "storage_id n' = storage_id n" "reset_counter n' = reset_counter n"
    "reset_done n' = reset_done n" "button_tid n' = button_tid n" "timer_state n' = timer_state n"
    "armed n' = armed n" "tr_counter (trans n') = tr_counter (trans n)"
    "tr_just_started (trans n') = tr_just_started (trans n)" "tr_type (trans n') = tr_type (trans n)"
    "tr_delay (trans n') = tr_delay (trans n)" "tr_quo_tt (trans n') = tr_quo_tt (trans n)"
    "tr_tt (trans n') = tr_tt (trans n)" "tr_total_duration (trans n') = tr_total_duration (trans n)"
    "tr_start_timestamp (trans n') = tr_start_timestamp (trans n)"
  using assms by (auto simp: quiet_def timer_state_def armed_def fold_untimed)

lemma model_send_quiet:
  "opcode_len op + length payload \<le> cap \<Longrightarrow> returns (model_send e cap op payload err n) (quiet n)"
  by (simp add: model_send_def quiet_emit quiet_emit_trans)

lemma model_publish_quiet:
  "pub_size m = Some cap \<Longrightarrow> opcode_len op + length payload \<le> cap \<Longrightarrow>
   returns (model_publish e m op payload n) (quiet n)"
  by (simp add: model_publish_def quiet_emit quiet_emit_trans)

end
