(* ===== verification/Storage.thy ===== *)
theory Storage
  imports MsgBuf
begin

text \<open>
  storage.c: which part of the state is written to flash, by a work item that runs later and
  looks up what to write in the global \<open>storage_id\<close>, and the handler through which the
  settings subsystem hands stored values back at boot.
\<close>

unbundle bit_operations_syntax

abbreviation RESET_COUNTER :: u8 where "RESET_COUNTER \<equiv> 1"
abbreviation GEN_DEF_TRANS_TIME_STATE :: u8 where "GEN_DEF_TRANS_TIME_STATE \<equiv> 2"
abbreviation GEN_ONPOWERUP_STATE :: u8 where "GEN_ONPOWERUP_STATE \<equiv> 3"
abbreviation DEF_STATES :: u8 where "DEF_STATES \<equiv> 4"
abbreviation LIGHTNESS_LAST_STATE :: u8 where "LIGHTNESS_LAST_STATE \<equiv> 5"
abbreviation LAST_TARGET_STATES :: u8 where "LAST_TARGET_STATES \<equiv> 6"
abbreviation LIGHTNESS_RANGE :: u8 where "LIGHTNESS_RANGE \<equiv> 7"
abbreviation TEMPERATURE_RANGE :: u8 where "TEMPERATURE_RANGE \<equiv> 8"

section \<open>Saving\<close>

definition save_on_flash :: "u8 \<Rightarrow> node \<Rightarrow> node" where
  "save_on_flash i n = emit (K_work_submit Storage_Work) (n\<lparr>storage_id := i\<rparr>)"

definition save_reset_counter :: "node \<Rightarrow> node" where
  "save_reset_counter n = emit (Settings_save_one ''ps/rc'' [reset_counter n]) n"

definition save_gen_def_trans_time_state :: "node \<Rightarrow> node" where
  "save_gen_def_trans_time_state n = emit (Settings_save_one ''ps/gdtt'' [c_tt n]) n"

definition save_gen_onpowerup_state :: "node \<Rightarrow> node" where
  "save_gen_onpowerup_state n =
     (let n = emit (Settings_save_one ''ps/gpo'' [c_onpowerup n]) n
      in if c_onpowerup n = 2 then save_on_flash LAST_TARGET_STATES n else n)"

definition save_def_states :: "node \<Rightarrow> node" where
  "save_def_states n =
     emit (Settings_save_one ''ps/dd'' (le16 (dv_def (duv n))))
       (emit (Settings_save_one ''ps/td'' (le16 (tm_def (temp n))))
         (emit (Settings_save_one ''ps/ld'' (le16 (lt_def (light n)))) n))"

definition save_lightness_last_state :: "node \<Rightarrow> node" where
  "save_lightness_last_state n =
     emit (Printk ''Lightness Last values have been saved !!'' [])
       (emit (Settings_save_one ''ps/ll'' (le16 (lt_last (light n)))) n)"

definition save_last_target_states :: "node \<Rightarrow> node" where
  "save_last_target_states n =
     emit (Settings_save_one ''ps/dlt'' (le16 (dv_target (duv n))))
       (emit (Settings_save_one ''ps/tlt'' (le16 (tm_target (temp n))))
         (emit (Settings_save_one ''ps/llt'' (le16 (lt_target (light n)))) n))"

text \<open>
  \<open>(u32_t) ((max << 16) | min)\<close>: the shift is on a promoted \<open>int\<close>; for a maximum of 0x8000
  or more it relies on the compiler's two's-complement shift, which is what is modelled.
\<close>

definition pack_range :: "u16 \<Rightarrow> u16 \<Rightarrow> u32" where
  "pack_range mn mx = push_bit 16 (ucast mx) OR ucast mn"

definition save_lightness_range :: "node \<Rightarrow> node" where
  "save_lightness_range n =
     (let n = n\<lparr>light := (light n)
                 \<lparr>lt_range := pack_range (lt_range_min (light n)) (lt_range_max (light n))\<rparr>\<rparr>
      in emit (Settings_save_one ''ps/lr'' (le32 (lt_range (light n)))) n)"

definition save_temperature_range :: "node \<Rightarrow> node" where
  "save_temperature_range n =
     (let n = n\<lparr>temp := (temp n)
                 \<lparr>tm_range := pack_range (tm_range_min (temp n)) (tm_range_max (temp n))\<rparr>\<rparr>
      in emit (Settings_save_one ''ps/tr'' (le32 (tm_range (temp n)))) n)"

definition storage_work_handler :: "node \<Rightarrow> node" where
  "storage_work_handler n =
     (if storage_id n = RESET_COUNTER then save_reset_counter n
      else if storage_id n = GEN_DEF_TRANS_TIME_STATE then save_gen_def_trans_time_state n
      else if storage_id n = GEN_ONPOWERUP_STATE then save_gen_onpowerup_state n
      else if storage_id n = DEF_STATES then save_def_states n
      else if storage_id n = LIGHTNESS_LAST_STATE then save_lightness_last_state n
      else if storage_id n = LAST_TARGET_STATES then save_last_target_states n
      else if storage_id n = LIGHTNESS_RANGE then save_lightness_range n
      else if storage_id n = TEMPERATURE_RANGE then save_temperature_range n
      else n)"

section \<open>Loading\<close>

text \<open>
  \<open>strncmp(key, s, n) == 0\<close>: no difference among the first \<open>n\<close> characters, where a string
  shorter than \<open>n\<close> ends with its terminator.
\<close>

definition strncmp_eq :: "string \<Rightarrow> string \<Rightarrow> nat \<Rightarrow> bool" where
  "strncmp_eq a b k \<longleftrightarrow> take k (a @ [CHR 0x00]) = take k (b @ [CHR 0x00])"

text \<open>
  \<open>read_cb(cb_arg, &x, sizeof(x))\<close> answers with an error code or with the bytes it stored,
  which overwrite the first bytes of \<open>x\<close>.
\<close>

type_synonym read_cb = "nat \<Rightarrow> int + u8 list"

definition overwrite :: "u8 list \<Rightarrow> u8 list \<Rightarrow> u8 list" where
  "overwrite old bs = take (length old) (bs @ drop (length bs) old)"

definition read_u8 :: "read_cb \<Rightarrow> u8 \<Rightarrow> int \<times> u8" where
  "read_u8 rd x = (case rd 1 of Inl err \<Rightarrow> (err, x)
     | Inr bs \<Rightarrow> (int (length bs), (case pull_u8 (overwrite [x] bs) of Some (y, _) \<Rightarrow> y | None \<Rightarrow> x)))"

definition read_u16 :: "read_cb \<Rightarrow> u16 \<Rightarrow> int \<times> u16" where
  "read_u16 rd x = (case rd 2 of Inl err \<Rightarrow> (err, x)
     | Inr bs \<Rightarrow> (int (length bs), (case pull_le16 (overwrite (le16 x) bs) of Some (y, _) \<Rightarrow> y | None \<Rightarrow> x)))"

definition read_u32 :: "read_cb \<Rightarrow> u32 \<Rightarrow> int \<times> u32" where
  "read_u32 rd x = (case rd 4 of Inl err \<Rightarrow> (err, x)
     | Inr bs \<Rightarrow> (int (length bs), (case pull_le32 (overwrite (le32 x) bs) of Some (y, _) \<Rightarrow> y | None \<Rightarrow> x)))"

text \<open>
  One entry of the chain of comparisons: when the key matches, the variable is read and the
  running \<open>len\<close> replaced.
\<close>

definition ps_entry :: "(string \<Rightarrow> bool) \<Rightarrow> string \<Rightarrow> (node \<Rightarrow> int \<times> node) \<Rightarrow> int \<times> node \<Rightarrow> int \<times> node" where
  "ps_entry matches name rd s = (if matches name then rd (snd s) else s)"

definition rd_rc :: "read_cb \<Rightarrow> node \<Rightarrow> int \<times> node" where
  "rd_rc rd n = (case read_u8 rd (reset_counter n) of (l, v) \<Rightarrow> (l, n\<lparr>reset_counter := v\<rparr>))"
definition rd_gdtt :: "read_cb \<Rightarrow> node \<Rightarrow> int \<times> node" where
  "rd_gdtt rd n = (case read_u8 rd (c_tt n) of (l, v) \<Rightarrow> (l, n\<lparr>c_tt := v\<rparr>))"
definition rd_gpo :: "read_cb \<Rightarrow> node \<Rightarrow> int \<times> node" where
  "rd_gpo rd n = (case read_u8 rd (c_onpowerup n) of (l, v) \<Rightarrow> (l, n\<lparr>c_onpowerup := v\<rparr>))"
definition rd_ld :: "read_cb \<Rightarrow> node \<Rightarrow> int \<times> node" where
  "rd_ld rd n = (case read_u16 rd (lt_def (light n)) of (l, v) \<Rightarrow> (l, n\<lparr>light := (light n)\<lparr>lt_def := v\<rparr>\<rparr>))"
definition rd_td :: "read_cb \<Rightarrow> node \<Rightarrow> int \<times> node" where
  "rd_td rd n = (case read_u16 rd (tm_def (temp n)) of (l, v) \<Rightarrow> (l, n\<lparr>temp := (temp n)\<lparr>tm_def := v\<rparr>\<rparr>))"
definition rd_dd :: "read_cb \<Rightarrow> node \<Rightarrow> int \<times> node" where
  "rd_dd rd n = (case read_u16 rd (dv_def (duv n)) of (l, v) \<Rightarrow> (l, n\<lparr>duv := (duv n)\<lparr>dv_def := v\<rparr>\<rparr>))"
definition rd_ll :: "read_cb \<Rightarrow> node \<Rightarrow> int \<times> node" where
  "rd_ll rd n = (case read_u16 rd (lt_last (light n)) of (l, v) \<Rightarrow> (l, n\<lparr>light := (light n)\<lparr>lt_last := v\<rparr>\<rparr>))"
definition rd_llt :: "read_cb \<Rightarrow> node \<Rightarrow> int \<times> node" where
  "rd_llt rd n = (case read_u16 rd (lt_target (light n)) of (l, v) \<Rightarrow> (l, set_light_target v n))"
definition rd_tlt :: "read_cb \<Rightarrow> node \<Rightarrow> int \<times> node" where
  "rd_tlt rd n = (case read_u16 rd (tm_target (temp n)) of (l, v) \<Rightarrow> (l, set_temp_target v n))"
definition rd_dlt :: "read_cb \<Rightarrow> node \<Rightarrow> int \<times> node" where
  "rd_dlt rd n = (case read_u16 rd (dv_target (duv n)) of (l, v) \<Rightarrow> (l, set_duv_target v n))"
definition rd_lr :: "read_cb \<Rightarrow> node \<Rightarrow> int \<times> node" where
  "rd_lr rd n = (case read_u32 rd (lt_range (light n)) of (l, v) \<Rightarrow> (l, n\<lparr>light := (light n)\<lparr>lt_range := v\<rparr>\<rparr>))"
definition rd_tr :: "read_cb \<Rightarrow> node \<Rightarrow> int \<times> node" where
  "rd_tr rd n = (case read_u32 rd (tm_range (temp n)) of (l, v) \<Rightarrow> (l, n\<lparr>temp := (temp n)\<lparr>tm_range := v\<rparr>\<rparr>))"

text \<open>
  \<open>settings_name_next\<close> is a service: it answers with the length of the key's first component
  and whether more components follow (\<open>next\<close> is not NULL). The result is the handler's return
  code, -2 being -ENOENT.
\<close>

definition ps_set :: "(string \<Rightarrow> nat \<times> bool) \<Rightarrow> string \<Rightarrow> read_cb \<Rightarrow> node \<Rightarrow> int \<times> node" where
  "ps_set name_next key rd n =
     (case name_next key of (key_len, has_next) \<Rightarrow>
        if has_next then (- 2, n)
        else let m = (\<lambda>name. strncmp_eq key name key_len);
                 s = (0, n);
                 s = ps_entry m ''rc'' (rd_rc rd) s;
                 s = ps_entry m ''gdtt'' (rd_gdtt rd) s;
                 s = ps_entry m ''gpo'' (rd_gpo rd) s;
                 s = ps_entry m ''ld'' (rd_ld rd) s;
                 s = ps_entry m ''td'' (rd_td rd) s;
                 s = ps_entry m ''dd'' (rd_dd rd) s;
                 s = ps_entry m ''ll'' (rd_ll rd) s;
                 s = ps_entry m ''llt'' (rd_llt rd) s;
                 s = ps_entry m ''tlt'' (rd_tlt rd) s;
                 s = ps_entry m ''dlt'' (rd_dlt rd) s;
                 s = ps_entry m ''lr'' (rd_lr rd) s;
                 s = ps_entry m ''tr'' (rd_tr rd) s
             in (if fst s < 0 then fst s else 0, snd s))"

text \<open>
  \<open>ps_settings_init\<close>: the error codes of the two service calls are inputs; the second call is
  made only after the first succeeded.
\<close>

definition ps_settings_init :: "int \<Rightarrow> int \<Rightarrow> node \<Rightarrow> int \<times> node" where
  "ps_settings_init init_err register_err n =
     (if init_err \<noteq> 0 then (init_err, emit (Printk ''settings_subsys_init failed (err %d)'' [init_err]) n)
      else if register_err \<noteq> 0
      then (register_err, emit (Printk ''ps_settings_register failed (err %d)'' [register_err]) n)
      else (0, n))"

end
