(* ===== verification/LightOutput.thy ===== *)
theory LightOutput
  imports Storage
begin

text \<open>
  The functions of main.c that show the light's state on the LEDs and that the state machine
  calls back into: \<open>update_led_gpio\<close>, \<open>update_light_state\<close> and \<open>update_vnd_led_gpio\<close>
  (built for a board with four LEDs, that is without ONE_LED_ONE_BUTTON_BOARD).
\<close>

definition led_power :: "node \<Rightarrow> u8 option" where
  "led_power n = float_to_u8 (fl (100 * fl (of_int (uint (lt_current (light n))) / 65535)))"

definition led_color :: "node \<Rightarrow> u8 option" where
  "led_color n =
     fdiv (fl (of_int (uint (tm_current (temp n)) - uint (tm_range_min (temp n)))))
          (fl (of_int (uint (tm_range_max (temp n)) - uint (tm_range_min (temp n)))))
       \<bind> (\<lambda>q. float_to_u8 (fl (100 * q)))"

definition update_led_gpio :: "node \<Rightarrow> node option" where
  "update_led_gpio n = do {
     power \<leftarrow> led_power n;
     color \<leftarrow> led_color n;
     let n = emit (Printk ''power-> %d, color-> %d'' [uint power, uint color]) n;
     let n = emit (Gpio_pin_set 0 (uint (lt_current (light n)))) n;
     let n = emit (Gpio_pin_set 2 (of_bool (power < 50))) n;
     Some (emit (Gpio_pin_set 3 (of_bool (color < 50))) n)
   }"

definition update_light_state :: "node \<Rightarrow> node option" where
  "update_light_state n = do {
     n \<leftarrow> update_led_gpio n;
     Some (if tr_counter (trans n) = 0 \<or> \<not> reset_done n
           then emit (K_work_submit No_Transition_Work) (n\<lparr>reset_done := True\<rparr>)
           else n)
   }"

definition update_vnd_led_gpio :: "node \<Rightarrow> node" where
  "update_vnd_led_gpio n = emit (Gpio_pin_set 1 (of_bool (vn_current (vnd_user_data n) = 1))) n"

section \<open>When the LED computation is defined\<close>

text \<open>
  The colour is a quotient by the width of the temperature range, cast to an unsigned byte:
  it is defined while the range is not a single point and the temperature lies inside it.
\<close>

definition temp_in_range :: "node \<Rightarrow> u16 \<Rightarrow> bool" where
  "temp_in_range n t \<longleftrightarrow> tm_range_min (temp n) < tm_range_max (temp n) \<and>
     tm_range_min (temp n) \<le> t \<and> t \<le> tm_range_max (temp n)"

abbreviation led_ok :: "node \<Rightarrow> bool" where
  "led_ok n \<equiv> temp_in_range n (tm_current (temp n))"

lemma float_to_int_defined:
  "of_int lo \<le> x \<Longrightarrow> x \<le> of_int hi \<Longrightarrow> float_to_int lo hi x = Some (c_trunc x)"
  using c_trunc_mono [of "of_int lo" x] c_trunc_mono [of x "of_int hi"] by (simp add: float_to_int_def)

lemma ratio_bounds:
  fixes a b :: int
  assumes "0 \<le> a" "a \<le> b" "0 < b"
  shows "0 \<le> fl (of_int a / of_int b)" "fl (of_int a / of_int b) \<le> 1"
  using fl_le_int [of "of_int a / of_int b" 1] assms
  by (simp_all add: binary32.rnd_nonneg divide_le_eq_1)

lemma percent_bounds:
  assumes "0 \<le> q" "q \<le> 1"
  shows "0 \<le> fl (100 * q)" "fl (100 * q) \<le> 100"
  using fl_le_int [of "100 * q" 100] assms by (simp_all add: binary32.rnd_nonneg)

lemma percent_to_u8:
  assumes "0 \<le> q" "q \<le> 1"
  shows "\<exists>b. float_to_u8 (fl (100 * q)) = Some b \<and> b \<le> 100"
proof -
  let ?p = "fl (100 * q)"
  have p: "0 \<le> ?p" "?p \<le> 100" using percent_bounds [OF assms] by simp_all
  then have b: "0 \<le> c_trunc ?p" "c_trunc ?p \<le> 100"
    using c_trunc_mono [of 0 ?p] c_trunc_mono [of ?p 100] c_trunc_of_int [of 0] c_trunc_of_int [of 100]
    by simp_all
  then have "(word_of_int (c_trunc ?p) :: u8) \<le> 100"
    by (simp add: word_le_def uint_word_of_int)
  moreover have "float_to_int 0 255 ?p = Some (c_trunc ?p)"
    using p by (intro float_to_int_defined) simp_all
  ultimately show ?thesis by (simp add: float_to_u8_def)
qed

lemma led_power_defined: "\<exists>b. led_power n = Some b \<and> b \<le> 100"
  unfolding led_power_def
  using percent_to_u8 [OF ratio_bounds [of "uint (lt_current (light n))" 65535]] by simp

lemma led_color_defined:
  assumes "led_ok n"
  shows "\<exists>b. led_color n = Some b \<and> b \<le> 100"
proof -
  let ?a = "uint (tm_current (temp n)) - uint (tm_range_min (temp n))"
  let ?b = "uint (tm_range_max (temp n)) - uint (tm_range_min (temp n))"
  have "0 \<le> ?a" "?a \<le> ?b" "0 < ?b"
    using assms by (simp_all add: temp_in_range_def word_le_def word_less_def)
  moreover have "?b \<le> 65535"
    using uint_le_65535 [of "tm_range_max (temp n)"] uint_ge_0 [of "tm_range_min (temp n)"]
    by linarith
  ultimately have b: "0 \<le> ?a" "?a \<le> ?b" "0 < ?b" "?b \<le> 65535" by blast+
  then have "fl (of_int ?a) = of_int ?a" "fl (of_int ?b) = of_int ?b"
    by (simp_all add: fl_of_int del: of_int_diff)
  then show ?thesis using b percent_to_u8 [OF ratio_bounds [of ?a ?b]]
    by (simp add: led_color_def fdiv_def del: of_int_diff)
qed

lemma update_led_gpio_returns:
  assumes "led_ok n"
  shows "returns (update_led_gpio n) (quiet n)"
proof -
  from led_power_defined [of n] led_color_defined [OF assms]
  obtain p c where "led_power n = Some p" "led_color n = Some c" by blast
  then show ?thesis by (simp add: update_led_gpio_def quiet_emit quiet_emit_trans)
qed

text \<open>
  \<open>update_light_state\<close> reports, and may submit the work item that ends a change; the flag
  \<open>reset_done\<close> is set afterwards.
\<close>

lemma update_light_state_quiet:
  assumes "led_ok n"
  shows "returns (update_light_state n) (quiet (n\<lparr>reset_done := True\<rparr>))"
proof -
  from update_led_gpio_returns [OF assms] obtain n1 where n1: "update_led_gpio n = Some n1" "quiet n n1"
    by (rule returnsE)
  have q: "quiet (n\<lparr>reset_done := True\<rparr>) (n1\<lparr>reset_done := True\<rparr>)" using n1(2) by (rule quiet_reset_done)
  have "n1\<lparr>reset_done := True\<rparr> = n1" if "reset_done n1" using that by simp
  with q have "quiet (n\<lparr>reset_done := True\<rparr>) n1" if "reset_done n1" using that by metis
  with q show ?thesis using n1(1) by (auto simp: update_light_state_def intro: quiet_emit_trans)
qed

end
