(* ===== verification/StateBinding.thy ===== *)
theory StateBinding
  imports LightOutput
begin

text \<open>
  state_binding.c: the bindings of the mesh model specification between the states of one light.
  Generic OnOff, Generic Level and Light Lightness (actual and linear) are views of the lightness;
  a second Generic Level is a view of the colour temperature. \<open>set_target\<close> writes through a
  view, \<open>get_current\<close> and \<open>get_target\<close> read through one.
\<close>

datatype state_binding =
    ONOFF | LEVEL_LIGHT | DELTA_LEVEL_LIGHT | MOVE_LIGHT | ACTUAL | LINEAR | CTL_LIGHT
  | LEVEL_TEMP | MOVE_TEMP | CTL_TEMP | CTL_DELTA_UV

section \<open>Square root by Newton's iteration in single precision\<close>

text \<open>
  \<open>square / 3.0\<close> and \<open>(root + square / root) / 2.0\<close> mix a float with a double constant: the
  division is done in double precision and the assignment rounds to single. The loop ends when
  an iteration no longer changes the root by more than MINDIFF, which is smaller than every
  positive float; \<open>None\<close> would be a loop that does not end.
\<close>

definition MINDIFF :: rat where
  "MINDIFF = fl64 (225 / 10 ^ 310)"

definition newton_step :: "rat \<Rightarrow> rat \<Rightarrow> rat option" where
  "newton_step square r =
     (case fdiv square r of None \<Rightarrow> None | Some q \<Rightarrow> Some (fl (fl64 (fl (r + q) / 2))))"

partial_function (option) sqrt_loop :: "rat \<Rightarrow> rat \<Rightarrow> rat option" where
  "sqrt_loop square prev =
     (case newton_step square prev of
        None \<Rightarrow> None
      | Some r \<Rightarrow>
          if fl (r - prev) > MINDIFF \<or> fl (r - prev) < - MINDIFF
          then sqrt_loop square r else Some r)"

definition c_sqrt :: "rat \<Rightarrow> rat option" where
  "c_sqrt square = (if square \<le> 0 then Some 0 else sqrt_loop square (fl (fl64 (square / 3))))"

definition c_ceiling :: "rat \<Rightarrow> int option" where
  "c_ceiling num = do {
     inum \<leftarrow> float_to_s32 num;
     if num = fl (of_int inum) then Some inum else s32_checked (inum + 1)
   }"

definition actual_to_linear :: "u16 \<Rightarrow> u16 option" where
  "actual_to_linear val =
     (let tmp = fl (of_int (uint val) / 65535)
      in map_option word_of_int (c_ceiling (fl (fl (65535 * tmp) * tmp))))"

definition linear_to_actual :: "u16 \<Rightarrow> u16 option" where
  "linear_to_actual val = do {
     r \<leftarrow> c_sqrt (fl (of_int (uint val) / 65535));
     float_to_u16 (fl (65535 * r))
   }"

section \<open>Keeping states in their ranges\<close>

definition constrain_lightness :: "node \<Rightarrow> u16 \<Rightarrow> u16" where
  "constrain_lightness n lightv =
     (if lightv > 0 \<and> lightv < lt_range_min (light n) then lt_range_min (light n)
      else if lightv > lt_range_max (light n) then lt_range_max (light n)
      else lightv)"

definition constrain_target_lightness2 :: "node \<Rightarrow> node" where
  "constrain_target_lightness2 n =
     (if lt_target (light n) > 0 \<and> lt_target (light n) < lt_range_min (light n)
      then if lt_delta (light n) < 0 then set_light_target 0 n
           else set_light_target (lt_range_min (light n)) n
      else if lt_target (light n) > lt_range_max (light n)
      then set_light_target (lt_range_max (light n)) n
      else n)"

definition constrain_temperature :: "node \<Rightarrow> u16 \<Rightarrow> u16" where
  "constrain_temperature n tempv =
     (if tempv < tm_range_min (temp n) then tm_range_min (temp n)
      else if tempv > tm_range_max (temp n) then tm_range_max (temp n)
      else tempv)"

section \<open>Generic Level and colour temperature\<close>

definition light_ctl_temp_to_level :: "node \<Rightarrow> u16 \<Rightarrow> s16 option" where
  "light_ctl_temp_to_level n tempv = do {
     prod \<leftarrow> s32_checked ((uint tempv - uint (tm_range_min (temp n))) * UINT16_MAX);
     tmp \<leftarrow> fdiv (fl (of_int prod))
               (fl (of_int (uint (tm_range_max (temp n)) - uint (tm_range_min (temp n)))));
     float_to_s16 (fl (tmp - 32768))
   }"

definition level_to_light_ctl_temp :: "node \<Rightarrow> s16 \<Rightarrow> u16 option" where
  "level_to_light_ctl_temp n level =
     (let diff = fl (fl (of_int (uint (tm_range_max (temp n)) - uint (tm_range_min (temp n)))) / 65535)
      in map_option (\<lambda>tmp. tm_range_min (temp n) + tmp)
           (float_to_u16 (fl (fl (of_int (sint level - INT16_MIN)) * diff))))"

section \<open>Writing and reading through a view\<close>

text \<open>
  \<open>dptr\<close> points at a variable of the caller; the argument here is the value at the width the
  case reads: a byte (zero-extended) for ONOFF, 16 bits for every other case. For
  DELTA_LEVEL_LIGHT and the temperature's delta the callers pass the address of an \<open>s32_t\<close>,
  of which these are the low 16 bits on the little-endian targets.
\<close>

definition set_target :: "state_binding \<Rightarrow> 16 word \<Rightarrow> node \<Rightarrow> node option" where
  "set_target ty v n = do {
     n \<leftarrow> (case ty of
         ONOFF \<Rightarrow>
           Some (if v = 0 then set_light_target 0 n
                 else if v = 1
                 then if lt_def (light n) = 0 then set_light_target (lt_last (light n)) n
                      else set_light_target (lt_def (light n)) n
                 else n)
       | LEVEL_LIGHT \<Rightarrow>
           (let n = set_light_target (word_of_int (sint v - INT16_MIN)) n
            in Some (set_light_target (constrain_lightness n (lt_target (light n))) n))
       | DELTA_LEVEL_LIGHT \<Rightarrow>
           Some (constrain_target_lightness2 (set_light_target (word_of_int (sint v - INT16_MIN)) n))
       | MOVE_LIGHT \<Rightarrow> Some (set_light_target v n)
       | ACTUAL \<Rightarrow>
           (let n = set_light_target v n
            in Some (set_light_target (constrain_lightness n (lt_target (light n))) n))
       | LINEAR \<Rightarrow> do {
           t \<leftarrow> linear_to_actual v;
           let n = set_light_target t n;
           Some (set_light_target (constrain_lightness n (lt_target (light n))) n) }
       | CTL_LIGHT \<Rightarrow>
           (let n = set_light_target v n
            in Some (set_light_target (constrain_lightness n (lt_target (light n))) n))
       | LEVEL_TEMP \<Rightarrow> do { t \<leftarrow> level_to_light_ctl_temp n v; Some (set_temp_target t n) }
       | MOVE_TEMP \<Rightarrow> Some (set_temp_target v n)
       | CTL_TEMP \<Rightarrow>
           (let n = set_temp_target v n
            in Some (set_temp_target (constrain_temperature n (tm_target (temp n))) n))
       | CTL_DELTA_UV \<Rightarrow> Some (set_duv_target v n));
     Some (if c_onpowerup n = STATE_RESTORE then save_on_flash LAST_TARGET_STATES n else n)
   }"

definition get_current :: "state_binding \<Rightarrow> node \<Rightarrow> int option" where
  "get_current ty n =
     (case ty of
        ONOFF \<Rightarrow> Some (if lt_current (light n) \<noteq> 0 then 1 else if lt_target (light n) \<noteq> 0 then 1 else 0)
      | LEVEL_LIGHT \<Rightarrow> Some (sint (word_of_int (uint (lt_current (light n)) + INT16_MIN) :: s16))
      | ACTUAL \<Rightarrow> Some (uint (lt_current (light n)))
      | LINEAR \<Rightarrow> map_option uint (actual_to_linear (lt_current (light n)))
      | CTL_LIGHT \<Rightarrow> Some (uint (lt_current (light n)))
      | LEVEL_TEMP \<Rightarrow> map_option sint (light_ctl_temp_to_level n (tm_current (temp n)))
      | CTL_TEMP \<Rightarrow> Some (uint (tm_current (temp n)))
      | CTL_DELTA_UV \<Rightarrow> Some (sint (dv_current (duv n)))
      | _ \<Rightarrow> Some 0)"

definition get_target :: "state_binding \<Rightarrow> node \<Rightarrow> int option" where
  "get_target ty n =
     (case ty of
        ONOFF \<Rightarrow> Some (if lt_target (light n) \<noteq> 0 then 1 else 0)
      | LEVEL_LIGHT \<Rightarrow> Some (sint (word_of_int (uint (lt_target (light n)) + INT16_MIN) :: s16))
      | ACTUAL \<Rightarrow> Some (uint (lt_target (light n)))
      | LINEAR \<Rightarrow> map_option uint (actual_to_linear (lt_target (light n)))
      | CTL_LIGHT \<Rightarrow> Some (uint (lt_target (light n)))
      | LEVEL_TEMP \<Rightarrow> map_option sint (light_ctl_temp_to_level n (tm_target (temp n)))
      | CTL_TEMP \<Rightarrow> Some (uint (tm_target (temp n)))
      | CTL_DELTA_UV \<Rightarrow> Some (sint (dv_target (duv n)))
      | _ \<Rightarrow> Some 0)"

section \<open>Level and temperature are inverse up to the truncation\<close>

definition temp_range_ok :: "node \<Rightarrow> bool" where
  "temp_range_ok n \<longleftrightarrow> TEMP_MIN \<le> tm_range_min (temp n) \<and> tm_range_min (temp n) < tm_range_max (temp n) \<and>
     tm_range_max (temp n) \<le> TEMP_MAX"

abbreviation temp_width :: "node \<Rightarrow> int" where
  "temp_width n \<equiv> uint (tm_range_max (temp n)) - uint (tm_range_min (temp n))"

lemma temp_range_okD:
  assumes "temp_range_ok n"
  shows "1 \<le> temp_width n" "temp_width n \<le> 19200"
    "800 \<le> uint (tm_range_min (temp n))" "uint (tm_range_max (temp n)) \<le> 20000"
  using assms by (simp_all add: temp_range_ok_def word_le_def word_less_def)

text \<open>One float operation on numbers up to 65535, in absolute terms.\<close>

lemma fl_error_65535:
  assumes "\<bar>x\<bar> \<le> 65536"
  shows "\<bar>fl x - x\<bar> \<le> 1 / 256"
  using fl_abs_error [of x 65536] assms by simp

lemma scaled_level_error:
  fixes a d :: int
  assumes "0 \<le> a" "a \<le> d" "1 \<le> d"
  defines "p \<equiv> fl (of_int (a * 65535)) / of_int d"
  shows "0 \<le> p" "\<bar>p - 65535 * of_int a / of_int d\<bar> \<le> 1 / 256" "p \<le> 65536"
proof -
  let ?y = "of_int (a * 65535) :: rat"
  have d: "0 < (of_int d :: rat)" using assms by simp
  show "0 \<le> p" using assms by (simp add: p_def binary32.rnd_nonneg)
  have y: "?y \<le> 65535 * of_int d" using assms by simp
  have "\<bar>fl ?y - ?y\<bar> \<le> 65535 * of_int d / 2 ^ 24"
  proof (rule fl_abs_error)
    show "\<bar>?y\<bar> \<le> 65535 * of_int d" using y assms by simp
    have "(1::rat) \<le> of_int d" using assms by simp
    then show "1 / 2 ^ 100 \<le> (65535 * of_int d :: rat)" by (simp add: divide_simps)
  qed
  then have "\<bar>fl ?y - ?y\<bar> / of_int d \<le> 65535 / 2 ^ 24" using d by (simp add: pos_divide_le_eq)
  moreover have "p - 65535 * of_int a / of_int d = (fl ?y - ?y) / of_int d"
    by (simp add: p_def diff_divide_distrib mult.commute)
  then have "\<bar>p - 65535 * of_int a / of_int d\<bar> = \<bar>fl ?y - ?y\<bar> / of_int d"
    using d by (simp only: abs_divide abs_of_pos)
  ultimately show e: "\<bar>p - 65535 * of_int a / of_int d\<bar> \<le> 1 / 256" by simp
  have "65535 * of_int a / of_int d \<le> (65535 :: rat)" using y d by (simp add: pos_divide_le_eq mult.commute)
  with e show "p \<le> 65536" by linarith
qed

text \<open>
  Temperature to level: for a temperature in the range every intermediate value is defined, and
  the level is within one of the exact proportion.
\<close>

lemma level_error:
  fixes a d :: int
  assumes "0 \<le> a" "a \<le> d" "1 \<le> d"
  defines "z \<equiv> fl (fl (fl (of_int (a * 65535)) / of_int d) - 32768)"
  shows "- 32768 \<le> c_trunc z" "c_trunc z \<le> 32767"
    "\<bar>of_int (c_trunc z + 32768) - 65535 * of_int a / of_int d\<bar> < (1 + 1 / 64 :: rat)"
proof -
  let ?p = "fl (of_int (a * 65535)) / of_int d" and ?x = "65535 * of_int a / of_int d :: rat"
  note p = scaled_level_error [OF assms(1-3)]
  let ?q = "fl ?p"
  have "\<bar>?p\<bar> \<le> 65536" using p by (simp only: abs_of_nonneg)
  then have q: "\<bar>?q - ?p\<bar> \<le> 1 / 256" by (rule fl_error_65535)
  have q0: "0 \<le> ?q" using p(1) by (rule binary32.rnd_nonneg)
  have x: "0 \<le> ?x" "?x \<le> 65535" using assms(1-3) by (simp_all add: pos_divide_le_eq)
  have qx: "\<bar>?q - ?x\<bar> \<le> 1 / 128" using p(2) q by linarith
  have "\<bar>?q - 32768\<bar> \<le> 65536" using qx x q0 by linarith
  then have z: "\<bar>z - (?q - 32768)\<bar> \<le> 1 / 256" unfolding z_def by (rule fl_error_65535)
  have zx: "\<bar>z + 32768 - ?x\<bar> \<le> 3 / 256" using qx z by linarith
  have "of_int (- 32768) \<le> z" unfolding z_def using q0 by (intro fl_ge_int) simp_all
  then show "- 32768 \<le> c_trunc z" by (rule c_trunc_ge)
  have "z < of_int (32767 + 1)" using zx x by (simp, linarith)
  then show "c_trunc z \<le> 32767" by (rule c_trunc_less) simp
  show "\<bar>of_int (c_trunc z + 32768) - ?x\<bar> < 1 + 1 / 64" using zx c_trunc_error [of z] unfolding of_int_add of_int_numeral by linarith
qed

lemma light_ctl_temp_to_level_defined:
  assumes "temp_range_ok n" "tm_range_min (temp n) \<le> t" "t \<le> tm_range_max (temp n)"
  obtains level where "light_ctl_temp_to_level n t = Some level"
    "\<bar>of_int (sint level + 32768) -
       65535 * of_int (uint t - uint (tm_range_min (temp n))) / of_int (temp_width n)\<bar> < (1 + 1 / 64 :: rat)"
proof -
  let ?a = "uint t - uint (tm_range_min (temp n))" and ?d = "temp_width n"
  have a: "0 \<le> ?a" "?a \<le> ?d" using assms(2,3) by (simp_all add: word_le_def)
  note d = temp_range_okD [OF assms(1)]
  have "?a \<le> 19200" using a d by linarith
  then have "?a * 65535 \<le> 19200 * 65535" "0 \<le> ?a * 65535" using a by (intro mult_right_mono mult_nonneg_nonneg; simp)+
  then have c: "s32_checked (?a * UINT16_MAX) = Some (?a * 65535)" by (simp add: s32_checked_def)
  have fd: "fl (of_int ?d) = (of_int ?d :: rat)" using d by (intro fl_of_int) simp
  have nz: "(of_int ?d :: rat) \<noteq> 0" using d(1) by (metis of_int_0_eq_iff not_one_le_zero)
  let ?z = "fl (fl (fl (of_int (?a * 65535)) / of_int ?d) - 32768)"
  note z = level_error [OF a d(1)]
  have "light_ctl_temp_to_level n t = Some (word_of_int (c_trunc ?z))"
    unfolding light_ctl_temp_to_level_def c Option.bind.bind_lunit fd
    using nz z by (simp add: fdiv_def float_to_s16_def float_to_int_Some del: of_int_diff of_int_mult)
  moreover have "sint (word_of_int (c_trunc ?z) :: s16) = c_trunc ?z" using z by (intro sint_of_int_s16)
  ultimately show thesis using that z(3) by metis
qed

text \<open>
  Level to temperature: every level gives a temperature of the range, the truncation of a number
  close to the exact proportion.
\<close>

lemma proportion_error:
  fixes s d :: int
  assumes "0 \<le> s" "s \<le> 65535" "1 \<le> d" "d \<le> 19200"
  defines "v \<equiv> fl (of_int s * fl (of_int d / 65535))"
  shows "0 \<le> v" "\<bar>v - of_int s * of_int d / 65535\<bar> \<le> 1 / 128" "\<lfloor>v\<rfloor> \<le> d"
proof -
  let ?e = "fl (of_int d / 65535)" and ?x = "of_int s * of_int d / 65535 :: rat"
  have rd: "0 \<le> (of_int d :: rat)" "(of_int d :: rat) \<le> 19200" using assms by simp_all
  have rs: "0 \<le> (of_int s :: rat)" "(of_int s :: rat) \<le> 65535" using assms by simp_all
  have e: "\<bar>?e - of_int d / 65535\<bar> \<le> 1 / 2 ^ 24" using rd by (intro fl_abs_error) simp_all
  have e0: "0 \<le> ?e" using rd by (intro binary32.rnd_nonneg) simp
  have "?x \<le> 65535 * of_int d / 65535" using rs rd by (intro divide_right_mono mult_right_mono) simp_all
  then have x: "0 \<le> ?x" "?x \<le> of_int d" using rs rd by simp_all
  have "of_int s * ?e - ?x = of_int s * (?e - of_int d / 65535)" by (simp add: right_diff_distrib)
  then have "\<bar>of_int s * ?e - ?x\<bar> = of_int s * \<bar>?e - of_int d / 65535\<bar>" using rs by (simp only: abs_mult abs_of_nonneg)
  also have "\<dots> \<le> 65535 * (1 / 2 ^ 24)" using rs e by (intro mult_mono) simp_all
  finally have m: "\<bar>of_int s * ?e - ?x\<bar> \<le> 1 / 256" by simp
  have n0: "0 \<le> of_int s * ?e" using rs(1) e0 by (rule mult_nonneg_nonneg)
  then show "0 \<le> v" unfolding v_def by (rule binary32.rnd_nonneg)
  have "\<bar>of_int s * ?e\<bar> \<le> 65536" using n0 m x rd by linarith
  then have "\<bar>v - of_int s * ?e\<bar> \<le> 1 / 256" unfolding v_def by (rule fl_error_65535)
  with m show v: "\<bar>v - ?x\<bar> \<le> 1 / 128" by linarith
  have "v < of_int (d + 1)" using v x by (simp, linarith)
  then show "\<lfloor>v\<rfloor> \<le> d" by (simp add: floor_le_iff)
qed

lemma level_to_light_ctl_temp_defined:
  fixes level :: s16
  assumes "temp_range_ok n"
  obtains v :: rat where "level_to_light_ctl_temp n level = Some (tm_range_min (temp n) + word_of_int \<lfloor>v\<rfloor>)"
    "0 \<le> v" "\<bar>v - of_int (sint level + 32768) * of_int (temp_width n) / 65535\<bar> \<le> 1 / 128"
    "\<lfloor>v\<rfloor> \<le> temp_width n"
proof -
  let ?s = "sint level + 32768" and ?d = "temp_width n"
  note d = temp_range_okD [OF assms]
  have s: "0 \<le> ?s" "?s \<le> 65535" using sint16_bounds [of level] by simp_all
  have fd: "fl (of_int ?d) = (of_int ?d :: rat)" using d by (intro fl_of_int) simp
  have fs: "fl (of_int (sint level - INT16_MIN)) = (of_int ?s :: rat)" using s fl_of_int [of ?s] by simp
  let ?v = "fl (of_int ?s * fl (of_int ?d / 65535))"
  note v = proportion_error [OF s d(1,2)]
  have "c_trunc ?v = \<lfloor>?v\<rfloor>" "\<lfloor>?v\<rfloor> \<le> 65535" "0 \<le> \<lfloor>?v\<rfloor>"
    using v d by (simp_all only: c_trunc_nonneg zero_le_floor)
  then have "float_to_u16 ?v = Some (word_of_int \<lfloor>?v\<rfloor>)" by (simp add: float_to_u16_def float_to_int_def)
  then have "level_to_light_ctl_temp n level = Some (tm_range_min (temp n) + word_of_int \<lfloor>?v\<rfloor>)"
    unfolding level_to_light_ctl_temp_def Let_def fd fs by simp
  then show thesis using that v by blast
qed

lemma uint_range_min_plus:
  assumes "temp_range_ok n" "0 \<le> k" "k \<le> temp_width n"
  shows "uint (tm_range_min (temp n) + word_of_int k) = uint (tm_range_min (temp n)) + k"
  using assms temp_range_okD [OF assms(1)] by (simp add: uint_word_ariths uint_word_of_int)

lemma level_to_light_ctl_temp_in_range:
  assumes "temp_range_ok n"
  shows "returns (level_to_light_ctl_temp n level) (temp_in_range n)"
proof -
  obtain v :: rat where v: "level_to_light_ctl_temp n level = Some (tm_range_min (temp n) + word_of_int \<lfloor>v\<rfloor>)"
    "0 \<le> v" "\<lfloor>v\<rfloor> \<le> temp_width n" using level_to_light_ctl_temp_defined [OF assms] by metis
  from v(2) have "0 \<le> \<lfloor>v\<rfloor>" by simp
  then show ?thesis using v(1,3) uint_range_min_plus [OF assms, of "\<lfloor>v\<rfloor>"] temp_range_okD [OF assms]
    by (simp add: temp_in_range_def word_le_def word_less_def)
qed

lemma proportion_inverse:
  fixes s a d v :: rat
  assumes "\<bar>s - 65535 * a / d\<bar> < 1 + 1 / 64" "\<bar>v - s * d / 65535\<bar> \<le> 1 / 128" "0 < d" "d \<le> 19200"
  shows "\<bar>v - a\<bar> < 1 / 2"
proof -
  have "s * d / 65535 - a = (s - 65535 * a / d) * (d / 65535)" using assms(3) by (simp add: field_simps)
  then have "\<bar>s * d / 65535 - a\<bar> = \<bar>s - 65535 * a / d\<bar> * (d / 65535)"
    using assms(3) by (metis abs_mult abs_of_pos divide_pos_pos zero_less_numeral)
  also have "\<dots> \<le> (1 + 1 / 64) * (19200 / 65535)" using assms by (intro mult_mono) simp_all
  finally have "\<bar>s * d / 65535 - a\<bar> \<le> 1 / 3" by simp
  then show ?thesis using assms(2) by linarith
qed

lemma temp_level_round_trip:
  assumes "temp_range_ok n" "tm_range_min (temp n) \<le> t" "t \<le> tm_range_max (temp n)"
  shows "\<exists>level t'. light_ctl_temp_to_level n t = Some level \<and> level_to_light_ctl_temp n level = Some t' \<and>
    (t' = t \<or> uint t' = uint t - 1)"
proof -
  let ?a = "uint t - uint (tm_range_min (temp n))" and ?d = "temp_width n"
  note d = temp_range_okD [OF assms(1)]
  obtain level where l: "light_ctl_temp_to_level n t = Some level"
    "\<bar>of_int (sint level + 32768) - 65535 * of_int ?a / of_int ?d\<bar> < (1 + 1 / 64 :: rat)"
    using light_ctl_temp_to_level_defined [OF assms] .
  obtain v :: rat where v: "level_to_light_ctl_temp n level = Some (tm_range_min (temp n) + word_of_int \<lfloor>v\<rfloor>)"
    "0 \<le> v" "\<bar>v - of_int (sint level + 32768) * of_int ?d / 65535\<bar> \<le> 1 / 128" "\<lfloor>v\<rfloor> \<le> ?d"
    using level_to_light_ctl_temp_defined [OF assms(1)] .
  have "0 < (of_int ?d :: rat)" using d(1) by (metis of_int_0_less_iff int_one_le_iff_zero_less)
  moreover have "(of_int ?d :: rat) \<le> 19200" using d(2) by (metis of_int_le_iff of_int_numeral)
  ultimately have "\<bar>v - of_int ?a\<bar> < 1 / 2" using l(2) v(3) by (intro proportion_inverse)
  then have "\<lfloor>v\<rfloor> = ?a \<or> \<lfloor>v\<rfloor> = ?a - 1" by linarith
  moreover have "0 \<le> \<lfloor>v\<rfloor>" using v(2) by simp
  then have u: "uint (tm_range_min (temp n) + word_of_int \<lfloor>v\<rfloor>) = uint (tm_range_min (temp n)) + \<lfloor>v\<rfloor>"
    using uint_range_min_plus [OF assms(1)] v(4) by blast
  ultimately have "uint (tm_range_min (temp n) + word_of_int \<lfloor>v\<rfloor>) = uint t \<or>
    uint (tm_range_min (temp n) + word_of_int \<lfloor>v\<rfloor>) = uint t - 1" by auto
  then show ?thesis using l(1) v(1) word_uint_eq_iff by blast
qed

end
