(* ===== verification/Transition.thy ===== *)
theory Transition
  imports StateBinding
begin

text \<open>
  transition.c: the state machine that moves the light to its target. A set message records a
  transition time; \<open>set_transition_values\<close> turns it into a number of steps, a period and one
  delta per state; a kernel timer then submits, once per period, the work item of the state being
  moved, and each run of its handler is one step.
\<close>

unbundle bit_operations_syntax

section \<open>Remaining time\<close>

text \<open>\<open>duration_remainder\<close> is an \<open>s32_t\<close>, assigned from a 64-bit difference.\<close>

definition encode_remaining :: "int \<Rightarrow> u8" where
  "encode_remaining d =
     (let (resolution, steps) =
        (if d > 620000 then (3, word_of_int (c_div d 600000))
         else if d > 62000 then (2, word_of_int (c_div d 10000))
         else if d > 6200 then (1, word_of_int (c_div d 1000))
         else if d > 0 then (0, word_of_int (c_div d 100))
         else (0, 0)) :: u8 \<times> u8
      in push_bit 6 resolution OR steps)"

definition calculate_rt :: "int \<Rightarrow> transition \<Rightarrow> transition" where
  "calculate_rt now tr =
     (if tr_type tr = MOVE then tr\<lparr>tr_rt := UNKNOWN_VALUE\<rparr>
      else if tr_just_started tr then tr\<lparr>tr_rt := tr_tt tr\<rparr>
      else tr\<lparr>tr_rt := encode_remaining
                 (s32_wrap (uint (tr_total_duration tr) - (now - tr_start_timestamp tr)))\<rparr>)"

section \<open>Steps and deltas\<close>

definition set_transition_counter :: "transition \<Rightarrow> (bool \<times> transition) option" where
  "set_transition_counter tr =
     (let resolution = drop_bit 6 (tr_tt tr);
          steps_multiplier = tr_tt tr AND 0x3F
      in if steps_multiplier = 0 then Some (False, tr)
         else do {
           let tr = tr\<lparr>tr_total_duration := ucast steps_multiplier *
                       (if resolution = 0 then 100 else if resolution = 1 then 1000
                        else if resolution = 2 then 10000 else 600000)\<rparr>;
           counter \<leftarrow> float_to_u32 (fl (fl (of_int (uint (tr_total_duration tr))) / 100));
           Some (True, tr\<lparr>tr_counter :=
             if counter > DEVICE_SPECIFIC_RESOLUTION then DEVICE_SPECIFIC_RESOLUTION else counter\<rparr>)
         })"

text \<open>\<open>(int) ((float) (current - target) / counter)\<close>\<close>

definition step_delta :: "int \<Rightarrow> int \<Rightarrow> u32 \<Rightarrow> int option" where
  "step_delta current target counter =
     fdiv (fl (of_int (current - target))) (fl (of_int (uint counter))) \<bind> float_to_s32"

definition set_light_step :: "node \<Rightarrow> node option" where
  "set_light_step n = do {
     d \<leftarrow> step_delta (uint (lt_current (light n))) (uint (lt_target (light n))) (tr_counter (trans n));
     Some (set_light_delta d n) }"

definition set_temp_step :: "node \<Rightarrow> node option" where
  "set_temp_step n = do {
     d \<leftarrow> step_delta (uint (tm_current (temp n))) (uint (tm_target (temp n))) (tr_counter (trans n));
     Some (set_temp_delta d n) }"

definition set_duv_step :: "node \<Rightarrow> node option" where
  "set_duv_step n = do {
     d \<leftarrow> step_delta (sint (dv_current (duv n))) (sint (dv_target (duv n))) (tr_counter (trans n));
     Some (set_duv_delta d n) }"

definition set_transition_values :: "state_binding \<Rightarrow> node \<Rightarrow> node option" where
  "set_transition_values ty n = do {
     (started, tr) \<leftarrow> set_transition_counter (trans n);
     let n = n\<lparr>trans := tr\<rparr>;
     if \<not> started then Some n
     else if tr_type tr = MOVE then Some (n\<lparr>trans := tr\<lparr>tr_quo_tt := tr_total_duration tr\<rparr>\<rparr>)
     else if tr_counter tr = 0 then None
     else do {
       let n = n\<lparr>trans := tr\<lparr>tr_quo_tt := tr_total_duration tr div tr_counter tr\<rparr>\<rparr>;
       case ty of
         ONOFF \<Rightarrow> set_light_step n
       | LEVEL_LIGHT \<Rightarrow> set_light_step n
       | ACTUAL \<Rightarrow> set_light_step n
       | LINEAR \<Rightarrow> set_light_step n
       | CTL_LIGHT \<Rightarrow> do { n \<leftarrow> set_light_step n; n \<leftarrow> set_temp_step n; set_duv_step n }
       | LEVEL_TEMP \<Rightarrow> set_temp_step n
       | CTL_TEMP \<Rightarrow> do { n \<leftarrow> set_temp_step n; set_duv_step n }
       | _ \<Rightarrow> Some n
     }
   }"

section \<open>The work handlers: one step of a transition\<close>

definition k_timer_stop :: "node \<Rightarrow> node" where
  "k_timer_stop n = emit (K_timer_stop Transition_Timer) n"

text \<open>The first run after the delay, which opens all seven handlers.\<close>

definition first_tick :: "env \<Rightarrow> node \<Rightarrow> node option" where
  "first_tick e n =
     (let n = set_just_started False n
      in if tr_counter (trans n) = 0
         then do { n \<leftarrow> update_light_state n; Some (k_timer_stop n) }
         else Some (n\<lparr>trans := (trans n)\<lparr>tr_start_timestamp := e_now e\<rparr>\<rparr>))"

definition light_advance :: "node \<Rightarrow> node" where
  "light_advance n = set_light_current (word_of_int (uint (lt_current (light n)) - lt_delta (light n))) n"

definition temp_advance :: "node \<Rightarrow> node" where
  "temp_advance n = set_temp_current (word_of_int (uint (tm_current (temp n)) - tm_delta (temp n))) n"

definition duv_advance :: "node \<Rightarrow> node" where
  "duv_advance n = set_duv_current (word_of_int (sint (dv_current (duv n)) - dv_delta (duv n))) n"

definition light_finish :: "node \<Rightarrow> node" where
  "light_finish n = set_light_current (lt_target (light n)) n"

definition temp_finish :: "node \<Rightarrow> node" where
  "temp_finish n = set_temp_current (tm_target (temp n)) n"

definition duv_finish :: "node \<Rightarrow> node" where
  "duv_finish n = set_duv_current (dv_target (duv n)) n"

definition onoff_work_handler :: "env \<Rightarrow> node \<Rightarrow> node option" where
  "onoff_work_handler e n =
     (if tr_just_started (trans n) then first_tick e n
      else let n = set_counter (tr_counter (trans n) - 1) n
           in if tr_counter (trans n) \<noteq> 0 then update_light_state (light_advance n)
              else do { n \<leftarrow> update_light_state (light_finish n); Some (k_timer_stop n) })"

definition level_move_lightness_work_handler :: "node \<Rightarrow> node option" where
  "level_move_lightness_work_handler n =
     (let lightv = (if lt_current (light n) \<noteq> 0 then uint (lt_current (light n)) + lt_delta (light n)
                    else if lt_delta (light n) < 0 then UINT16_MAX + lt_delta (light n)
                    else if lt_delta (light n) > 0 then lt_delta (light n)
                    else 0);
          lightv = (if lightv > uint (lt_range_max (light n)) then uint (lt_range_max (light n))
                    else if lightv < uint (lt_range_min (light n)) then uint (lt_range_min (light n))
                    else lightv)
      in do {
        n \<leftarrow> update_light_state (set_light_current (word_of_int lightv) n);
        Some (if uint (lt_target (light n)) = lightv then k_timer_stop (set_counter 0 n) else n)
      })"

definition level_lightness_work_handler :: "env \<Rightarrow> node \<Rightarrow> node option" where
  "level_lightness_work_handler e n =
     (if tr_just_started (trans n) then first_tick e n
      else if tr_type (trans n) = MOVE then level_move_lightness_work_handler n
      else let n = set_counter (tr_counter (trans n) - 1) n
           in if tr_counter (trans n) \<noteq> 0 then update_light_state (light_advance n)
              else do { n \<leftarrow> update_light_state (light_finish n); Some (k_timer_stop n) })"

definition level_move_temp_work_handler :: "node \<Rightarrow> node option" where
  "level_move_temp_work_handler n =
     (let tempv = (if tm_current (temp n) \<noteq> 0 then uint (tm_current (temp n)) + tm_delta (temp n)
                   else if tm_delta (temp n) < 0 then UINT16_MAX + tm_delta (temp n)
                   else if tm_delta (temp n) > 0 then tm_delta (temp n)
                   else 0);
          tempv = (if tempv > uint (tm_range_max (temp n)) then uint (tm_range_max (temp n))
                   else if tempv < uint (tm_range_min (temp n)) then uint (tm_range_min (temp n))
                   else tempv)
      in do {
        n \<leftarrow> update_light_state (set_temp_current (word_of_int tempv) n);
        Some (if uint (tm_target (temp n)) = tempv then k_timer_stop (set_counter 0 n) else n)
      })"

definition level_temp_work_handler :: "env \<Rightarrow> node \<Rightarrow> node option" where
  "level_temp_work_handler e n =
     (if tr_just_started (trans n) then first_tick e n
      else if tr_type (trans n) = MOVE then level_move_temp_work_handler n
      else let n = set_counter (tr_counter (trans n) - 1) n
           in if tr_counter (trans n) \<noteq> 0 then update_light_state (temp_advance n)
              else do { n \<leftarrow> update_light_state (temp_finish n); Some (k_timer_stop n) })"

definition light_lightness_actual_work_handler :: "env \<Rightarrow> node \<Rightarrow> node option" where
  "light_lightness_actual_work_handler e n =
     (if tr_just_started (trans n) then first_tick e n
      else let n = set_counter (tr_counter (trans n) - 1) n
           in if tr_counter (trans n) \<noteq> 0 then update_light_state (light_advance n)
              else do { n \<leftarrow> update_light_state (light_finish n); Some (k_timer_stop n) })"

definition light_lightness_linear_work_handler :: "env \<Rightarrow> node \<Rightarrow> node option" where
  "light_lightness_linear_work_handler e n =
     (if tr_just_started (trans n) then first_tick e n
      else let n = set_counter (tr_counter (trans n) - 1) n
           in if tr_counter (trans n) \<noteq> 0 then update_light_state (light_advance n)
              else do { n \<leftarrow> update_light_state (light_finish n); Some (k_timer_stop n) })"

definition light_ctl_work_handler :: "env \<Rightarrow> node \<Rightarrow> node option" where
  "light_ctl_work_handler e n =
     (if tr_just_started (trans n) then first_tick e n
      else let n = set_counter (tr_counter (trans n) - 1) n
           in if tr_counter (trans n) \<noteq> 0
              then update_light_state (duv_advance (temp_advance (light_advance n)))
              else do { n \<leftarrow> update_light_state (duv_finish (temp_finish (light_finish n)));
                        Some (k_timer_stop n) })"

definition light_ctl_temp_work_handler :: "env \<Rightarrow> node \<Rightarrow> node option" where
  "light_ctl_temp_work_handler e n =
     (if tr_just_started (trans n) then first_tick e n
      else let n = set_counter (tr_counter (trans n) - 1) n
           in if tr_counter (trans n) \<noteq> 0 then update_light_state (duv_advance (temp_advance n))
              else do { n \<leftarrow> update_light_state (duv_finish (temp_finish n)); Some (k_timer_stop n) })"

section \<open>The message handlers' entry points: starting the timer\<close>

definition transition_handler :: "work \<Rightarrow> node \<Rightarrow> node option" where
  "transition_handler w n =
     (if tr_counter (trans n) = 0 \<and> tr_delay (trans n) = 0 then update_light_state n
      else Some (emit (K_timer_start Transition_Timer (uint (tr_delay (trans n)) * 5)
                         (uint (tr_quo_tt (trans n))))
             (emit (K_timer_init Transition_Timer w) n)))"

definition onoff_handler :: "node \<Rightarrow> node option" where
  "onoff_handler = transition_handler Onoff_Work"
definition level_lightness_handler :: "node \<Rightarrow> node option" where
  "level_lightness_handler = transition_handler Level_Lightness_Work"
definition level_temp_handler :: "node \<Rightarrow> node option" where
  "level_temp_handler = transition_handler Level_Temp_Work"
definition light_lightness_actual_handler :: "node \<Rightarrow> node option" where
  "light_lightness_actual_handler = transition_handler Lightness_Actual_Work"
definition light_lightness_linear_handler :: "node \<Rightarrow> node option" where
  "light_lightness_linear_handler = transition_handler Lightness_Linear_Work"
definition light_ctl_handler :: "node \<Rightarrow> node option" where
  "light_ctl_handler = transition_handler Light_Ctl_Work"
definition light_ctl_temp_handler :: "node \<Rightarrow> node option" where
  "light_ctl_temp_handler = transition_handler Light_Ctl_Temp_Work"

end
