(* ===== verification/Ramp.thy ===== *)
theory Ramp
  imports Transition
begin

text \<open>
  What a transition does, step by step: the number of steps and their size, the invariant that
  keeps every intermediate value between the start and the target, and the contract
  \<open>ramp_handler\<close> that the seven work handlers of transition.c meet: after as many ticks as the
  counter says, every state they move is exactly on its target and the timer is stopped.
\<close>

unbundle bit_operations_syntax

section \<open>The three quantities a transition moves\<close>

datatype channel = Light_ch | Temp_ch | Duv_ch

fun cur :: "channel \<Rightarrow> node \<Rightarrow> int" where
  "cur Light_ch n = uint (lt_current (light n))"
| "cur Temp_ch n = uint (tm_current (temp n))"
| "cur Duv_ch n = sint (dv_current (duv n))"

fun tgt :: "channel \<Rightarrow> node \<Rightarrow> int" where
  "tgt Light_ch n = uint (lt_target (light n))"
| "tgt Temp_ch n = uint (tm_target (temp n))"
| "tgt Duv_ch n = sint (dv_target (duv n))"

fun dlt :: "channel \<Rightarrow> node \<Rightarrow> int" where
  "dlt Light_ch n = lt_delta (light n)"
| "dlt Temp_ch n = tm_delta (temp n)"
| "dlt Duv_ch n = dv_delta (duv n)"

lemma channel_distance: "\<bar>cur c n - tgt c n\<bar> \<le> 65535"
proof (cases c)
  case Light_ch
  show ?thesis using uint_le_65535 [of "lt_current (light n)"] uint_le_65535 [of "lt_target (light n)"]
      uint_ge_0 [of "lt_current (light n)"] uint_ge_0 [of "lt_target (light n)"] unfolding Light_ch cur.simps tgt.simps by linarith
next
  case Temp_ch
  show ?thesis using uint_le_65535 [of "tm_current (temp n)"] uint_le_65535 [of "tm_target (temp n)"]
      uint_ge_0 [of "tm_current (temp n)"] uint_ge_0 [of "tm_target (temp n)"] unfolding Temp_ch cur.simps tgt.simps by linarith
next
  case Duv_ch
  show ?thesis using sint16_bounds [of "dv_current (duv n)"] sint16_bounds [of "dv_target (duv n)"] unfolding Duv_ch cur.simps tgt.simps by linarith
qed

section \<open>The number of steps\<close>

lemma steps_bounds: "uint ((tt :: u8) AND 0x3F) \<le> 63"
  using word_and_le1 [of tt "0x3F"] by (simp add: word_le_def)

definition tt_unit :: "u8 \<Rightarrow> int" where
  "tt_unit tt = (let r = uint (drop_bit 6 tt) in if r = 0 then 100 else if r = 1 then 1000 else if r = 2 then 10000 else 600000)"

definition tt_duration :: "u8 \<Rightarrow> int" where
  "tt_duration tt = uint (tt AND 0x3F) * tt_unit tt"

lemma tt_unit_cases: "tt_unit tt \<in> {100, 1000, 10000, 600000}"
  by (auto simp: tt_unit_def Let_def)

lemma tt_duration_bounds: "0 \<le> tt_duration tt" "tt_duration tt \<le> 37800000"
proof -
  have u: "0 \<le> tt_unit tt" "tt_unit tt \<le> 600000" using tt_unit_cases [of tt] by auto
  then show "0 \<le> tt_duration tt" by (simp add: tt_duration_def)
  have "tt_duration tt \<le> 63 * 600000" unfolding tt_duration_def
    using u steps_bounds [of tt] by (intro mult_mono) simp_all
  then show "tt_duration tt \<le> 37800000" by simp
qed

lemma total_duration_word:
  "(ucast (tt AND 0x3F) * (if drop_bit 6 tt = 0 then 100 else if drop_bit 6 tt = 1 then 1000
     else if drop_bit 6 tt = 2 then 10000 else 600000) :: u32) = word_of_int (tt_duration tt)"
proof -
  have eqs: "drop_bit 6 tt = 0 \<longleftrightarrow> uint (drop_bit 6 tt) = 0" "drop_bit 6 tt = 1 \<longleftrightarrow> uint (drop_bit 6 tt) = 1"
    "drop_bit 6 tt = 2 \<longleftrightarrow> uint (drop_bit 6 tt) = 2"
    by (simp_all only: word_uint_eq_iff uint_0_eq uint_1_eq uint_bintrunc) simp_all
  have "(ucast (tt AND 0x3F) :: u32) = word_of_int (uint (tt AND 0x3F))" by simp
  then show ?thesis
    by (simp add: eqs tt_duration_def tt_unit_def Let_def wi_hom_mult del: word_of_int_uint)
qed

lemma tt_duration_ge:
  assumes "tt AND 0x3F \<noteq> 0"
  shows "100 \<le> tt_duration tt" "tt_duration tt < 1000 \<Longrightarrow> tt_duration tt mod 100 = 0"
proof -
  have s: "1 \<le> uint (tt AND 0x3F)"
    using assms uint_ge_0 [of "tt AND 0x3F"] uint_0_iff [of "tt AND 0x3F"] by linarith
  have "1 * 100 \<le> uint (tt AND 0x3F) * tt_unit tt"
    using s tt_unit_cases [of tt] by (intro mult_mono) auto
  then show "100 \<le> tt_duration tt" by (simp add: tt_duration_def)
  have "tt_unit tt mod 100 = 0" using tt_unit_cases [of tt] by auto
  then show "tt_duration tt mod 100 = 0" unfolding tt_duration_def by (simp add: mod_mult_right_eq [symmetric])
qed

text \<open>
  The counter is the number of 100 ms units of the transition time, at most ten: no time, no
  steps; otherwise between one and ten of them.
\<close>

lemma counter_float:
  assumes "100 \<le> d" "d \<le> 37800000" "d < 1000 \<Longrightarrow> d mod 100 = 0"
  shows "\<exists>c. float_to_u32 (fl (fl (of_int d) / 100)) = Some c \<and>
    (if c > DEVICE_SPECIFIC_RESOLUTION then DEVICE_SPECIFIC_RESOLUTION else c) = word_of_int (min 10 (d div 100))"
proof (cases "d < 1000")
  case True
  obtain q where q: "d = 100 * q" using assms(3) [OF True] by (metis mod_0_imp_dvd dvdE)
  then have dq: "d div 100 = q" by simp
  have b: "1 \<le> q" "q \<le> 9" using assms(1) True q by linarith+
  have "fl (of_int d) = (of_int d :: rat)" using True assms(1) by (intro fl_of_int) simp
  then have "fl (of_int d) / 100 = (of_int q :: rat)" using q by simp
  moreover have "fl (of_int q) = (of_int q :: rat)" using b by (intro fl_of_int) simp
  ultimately have "float_to_u32 (fl (fl (of_int d) / 100)) = Some (word_of_int q)"
    using b by (simp add: float_to_u32_def float_to_int_def)
  moreover have "\<not> (word_of_int q :: u32) > DEVICE_SPECIFIC_RESOLUTION" using b by (simp add: word_less_def uint_word_of_int)
  ultimately show ?thesis using b dq by simp
next
  case False
  have up: "fl (of_int d) \<le> (2 ^ 26 :: rat)"
    using binary32.rnd_mono [of "of_int d" "of_int 1 * 2 powi 26"] binary32.rnd_exact [of 1 26] assms(2) by simp
  have lo: "1000 \<le> (fl (of_int d) :: rat)" using fl_ge_int [of 1000 "of_int d"] False by simp
  let ?x = "fl (fl (of_int d) / 100)"
  have x: "10 \<le> ?x" "?x \<le> 2 ^ 20"
    using fl_ge_int [of 10 "fl (of_int d) / 100"] fl_le_int [of "fl (of_int d) / 100" "2 ^ 20"] up lo by simp_all
  then have t: "10 \<le> c_trunc ?x" "c_trunc ?x \<le> 2 ^ 20"
    using c_trunc_mono [of "of_int 10" ?x] c_trunc_mono [of ?x "of_int (2 ^ 20)"] by (simp_all only: c_trunc_of_int) simp_all
  then have "float_to_u32 ?x = Some (word_of_int (c_trunc ?x))" by (simp add: float_to_u32_def float_to_int_def)
  moreover have "uint (word_of_int (c_trunc ?x) :: u32) = c_trunc ?x" using t by (simp add: uint_word_of_int)
  then have "(if word_of_int (c_trunc ?x) > DEVICE_SPECIFIC_RESOLUTION then DEVICE_SPECIFIC_RESOLUTION
      else word_of_int (c_trunc ?x)) = (10 :: u32)"
    using t by (auto simp: word_less_def word_uint_eq_iff)
  moreover have "min 10 (d div 100) = 10" using False by simp
  ultimately show ?thesis by simp
qed

lemma set_transition_counter_none:
  "tr_tt tr AND 0x3F = 0 \<Longrightarrow> set_transition_counter tr = Some (False, tr)"
  by (simp add: set_transition_counter_def Let_def)

lemma set_transition_counter_some:
  assumes "tr_tt tr AND 0x3F \<noteq> 0"
  shows "set_transition_counter tr = Some (True, tr\<lparr>tr_total_duration := word_of_int (tt_duration (tr_tt tr)),
    tr_counter := word_of_int (min 10 (tt_duration (tr_tt tr) div 100))\<rparr>)"
proof -
  let ?d = "tt_duration (tr_tt tr)"
  have u: "uint (word_of_int ?d :: u32) = ?d"
    using tt_duration_bounds [of "tr_tt tr"] by (simp add: uint_word_of_int)
  from counter_float [of ?d] tt_duration_ge [OF assms] tt_duration_bounds [of "tr_tt tr"]
  obtain c where "float_to_u32 (fl (fl (of_int ?d) / 100)) = Some c"
    "(if c > DEVICE_SPECIFIC_RESOLUTION then DEVICE_SPECIFIC_RESOLUTION else c) = word_of_int (min 10 (?d div 100))"
    by auto
  then show ?thesis using assms
    unfolding set_transition_counter_def Let_def total_duration_word
    by (simp add: u)
qed

section \<open>The size of a step\<close>

lemma counter_bounds:
  assumes "tt AND 0x3F \<noteq> 0"
  defines "k \<equiv> min 10 (tt_duration tt div 100)"
  shows "1 \<le> k" "k \<le> 10" "uint (word_of_int k :: u32) = k"
proof -
  have "1 \<le> tt_duration tt div 100" using tt_duration_ge(1) [OF assms(1)] by linarith
  then show "1 \<le> k" "k \<le> 10" by (simp_all add: k_def)
  then show "uint (word_of_int k :: u32) = k" by (simp add: uint_word_of_int)
qed

text \<open>The float division is C's integer division: the step is the distance over the count, truncated.\<close>

lemma step_delta_div:
  assumes "\<bar>c - t\<bar> \<le> 65535" "1 \<le> uint k" "uint k \<le> 10"
  shows "step_delta c t k = Some (c_div (c - t) (uint k))"
proof -
  have "fl (of_int (c - t)) = (of_int (c - t) :: rat)" "fl (of_int (uint k)) = (of_int (uint k) :: rat)"
    using assms by (intro fl_of_int; simp)+
  moreover have "(of_int (uint k) :: rat) \<noteq> 0" using assms(2) by (metis not_one_le_zero of_int_0_eq_iff)
  ultimately have "step_delta c t k = float_to_s32 (fl (of_int (c - t) / of_int (uint k)))"
    by (simp only: step_delta_def fdiv_def if_False Option.bind.bind_lunit)
  moreover have tr: "c_trunc (fl (of_int (c - t) / of_int (uint k))) = c_div (c - t) (uint k)"
    using assms by (intro c_trunc_fl_div) simp_all
  moreover have "\<bar>c_div (c - t) (uint k)\<bar> \<le> 65535"
  proof -
    have "\<bar>c - t\<bar> div uint k \<le> \<bar>c - t\<bar>" using assms(2) zdiv_mono2 [of "\<bar>c - t\<bar>" 1 "uint k"] by simp
    then show ?thesis using assms c_div_abs [of "uint k" "c - t"] by simp
  qed
  ultimately show ?thesis by (simp only: float_to_s32_def float_to_int_def tr) (simp add: abs_le_iff)
qed

definition ramp :: "int \<Rightarrow> int \<Rightarrow> int \<Rightarrow> int \<Rightarrow> bool" where
  "ramp c t d k \<longleftrightarrow> k * \<bar>d\<bar> \<le> \<bar>c - t\<bar> \<and> 0 \<le> d * (c - t)"

lemma ramp_c_div:
  assumes "1 \<le> k"
  shows "ramp c t (c_div (c - t) k) k"
proof -
  have "k * \<bar>c_div (c - t) k\<bar> \<le> \<bar>c - t\<bar>"
    using assms div_mult_mod_eq [of "\<bar>c - t\<bar>" k] pos_mod_sign [of k "\<bar>c - t\<bar>"]
    by (simp only: c_div_abs mult.commute [of k]) linarith
  moreover have "0 \<le> c_div (c - t) k * (c - t)"
  proof -
    have "0 \<le> \<bar>c - t\<bar> div k" using assms by (simp add: pos_imp_zdiv_nonneg_iff)
    then have "0 \<le> \<bar>c - t\<bar> * (\<bar>c - t\<bar> div k)" by simp
    moreover have "c_div (c - t) k * (c - t) = \<bar>c - t\<bar> * (\<bar>c - t\<bar> div k)"
      using assms by (simp add: c_div_def abs_sgn mult.commute mult.left_commute)
    ultimately show ?thesis by simp
  qed
  ultimately show ?thesis by (simp add: ramp_def)
qed

lemma ramp_step:
  assumes "ramp c t d k" "1 \<le> k"
  shows "ramp (c - d) t d (k - 1)" "min c t \<le> c - d" "c - d \<le> max c t"
proof -
  have "1 * \<bar>d\<bar> \<le> k * \<bar>d\<bar>" using assms(2) by (intro mult_right_mono) simp_all
  then have d: "\<bar>d\<bar> \<le> \<bar>c - t\<bar>" using assms(1) by (simp add: ramp_def)
  have sgn: "0 \<le> d \<and> t \<le> c \<or> d \<le> 0 \<and> c \<le> t" 
    using assms(1) d by (auto simp: ramp_def zero_le_mult_iff)
  then have "\<bar>c - d - t\<bar> = \<bar>c - t\<bar> - \<bar>d\<bar>" using d by linarith
  moreover have "0 \<le> d * (c - d - t)" using sgn d by (auto simp: zero_le_mult_iff)
  ultimately show "ramp (c - d) t d (k - 1)" using assms(1) by (simp add: ramp_def left_diff_distrib)
  show "min c t \<le> c - d" "c - d \<le> max c t" using sgn d by linarith+
qed

section \<open>What setting up a transition changes\<close>

fun binding_channels :: "state_binding \<Rightarrow> channel set" where
  "binding_channels ONOFF = {Light_ch}"
| "binding_channels LEVEL_LIGHT = {Light_ch}"
| "binding_channels ACTUAL = {Light_ch}"
| "binding_channels LINEAR = {Light_ch}"
| "binding_channels CTL_LIGHT = {Light_ch, Temp_ch, Duv_ch}"
| "binding_channels LEVEL_TEMP = {Temp_ch}"
| "binding_channels CTL_TEMP = {Temp_ch, Duv_ch}"
| "binding_channels _ = {}"

text \<open>Two states that differ in the deltas and the timing of the transition only.\<close>

definition retimed :: "node \<Rightarrow> node \<Rightarrow> bool" where
  "retimed n n' \<longleftrightarrow> (\<exists>a b d q k t. n' = n\<lparr>light := (light n)\<lparr>lt_delta := a\<rparr>,
     temp := (temp n)\<lparr>tm_delta := b\<rparr>, duv := (duv n)\<lparr>dv_delta := d\<rparr>,
     trans := (trans n)\<lparr>tr_quo_tt := q, tr_counter := k, tr_total_duration := t\<rparr>\<rparr>)"

lemma retimedI:
  "n' = n\<lparr>light := (light n)\<lparr>lt_delta := lt_delta (light n')\<rparr>,
     temp := (temp n)\<lparr>tm_delta := tm_delta (temp n')\<rparr>, duv := (duv n)\<lparr>dv_delta := dv_delta (duv n')\<rparr>,
     trans := (trans n)\<lparr>tr_quo_tt := tr_quo_tt (trans n'), tr_counter := tr_counter (trans n'),
       tr_total_duration := tr_total_duration (trans n')\<rparr>\<rparr> \<Longrightarrow> retimed n n'"
  unfolding retimed_def by (intro exI)

lemma set_transition_values_none:
  "tr_tt (trans n) AND 0x3F = 0 \<Longrightarrow> set_transition_values ty n = Some n"
  by (simp add: set_transition_values_def set_transition_counter_none)

definition transition_counter :: "u8 \<Rightarrow> u32" where
  "transition_counter tt = word_of_int (min 10 (tt_duration tt div 100))"

lemma set_step_eqs:
  assumes "1 \<le> uint (tr_counter (trans n))" "uint (tr_counter (trans n)) \<le> 10"
  shows "set_light_step n = Some (set_light_delta (c_div (cur Light_ch n - tgt Light_ch n) (uint (tr_counter (trans n)))) n)"
    "set_temp_step n = Some (set_temp_delta (c_div (cur Temp_ch n - tgt Temp_ch n) (uint (tr_counter (trans n)))) n)"
    "set_duv_step n = Some (set_duv_delta (c_div (cur Duv_ch n - tgt Duv_ch n) (uint (tr_counter (trans n)))) n)"
  using step_delta_div [OF channel_distance assms, of Light_ch n]
    step_delta_div [OF channel_distance assms, of Temp_ch n] step_delta_div [OF channel_distance assms, of Duv_ch n]
  by (simp_all add: set_light_step_def set_temp_step_def set_duv_step_def)

lemma transition_counter_bounds:
  assumes "tt AND 0x3F \<noteq> 0"
  shows "1 \<le> uint (transition_counter tt)" "uint (transition_counter tt) \<le> 10" "transition_counter tt \<noteq> 0"
  using counter_bounds [OF assms] by (auto simp: transition_counter_def)

lemma set_transition_values_move:
  assumes "tr_tt (trans n) AND 0x3F \<noteq> 0" "tr_type (trans n) = MOVE"
  shows "set_transition_values ty n = Some (n\<lparr>trans := (trans n)
    \<lparr>tr_total_duration := word_of_int (tt_duration (tr_tt (trans n))),
     tr_counter := transition_counter (tr_tt (trans n)),
     tr_quo_tt := word_of_int (tt_duration (tr_tt (trans n)))\<rparr>\<rparr>)"
  using assms
  by (simp add: set_transition_values_def set_transition_counter_some Let_def transition_counter_def [symmetric])

lemma set_transition_values_ramp:
  assumes "tr_tt (trans n) AND 0x3F \<noteq> 0" "tr_type (trans n) \<noteq> MOVE"
  shows "returns (set_transition_values ty n) (\<lambda>n'. retimed n n' \<and>
    tr_counter (trans n') = transition_counter (tr_tt (trans n)) \<and>
    (\<forall>c \<in> binding_channels ty. dlt c n' = c_div (cur c n - tgt c n) (uint (tr_counter (trans n')))))"
proof -
  let ?k = "transition_counter (tr_tt (trans n))"
  note k = transition_counter_bounds [OF assms(1)]
  define m where "m = n\<lparr>trans := (trans n)\<lparr>tr_total_duration := word_of_int (tt_duration (tr_tt (trans n))),
    tr_counter := ?k, tr_quo_tt := word_of_int (tt_duration (tr_tt (trans n))) div ?k\<rparr>\<rparr>"
  have eq: "set_transition_values ty n = (case ty of
         ONOFF \<Rightarrow> set_light_step m | LEVEL_LIGHT \<Rightarrow> set_light_step m
       | ACTUAL \<Rightarrow> set_light_step m | LINEAR \<Rightarrow> set_light_step m
       | CTL_LIGHT \<Rightarrow> do { n \<leftarrow> set_light_step m; n \<leftarrow> set_temp_step n; set_duv_step n }
       | LEVEL_TEMP \<Rightarrow> set_temp_step m
       | CTL_TEMP \<Rightarrow> do { n \<leftarrow> set_temp_step m; set_duv_step n }
       | _ \<Rightarrow> Some m)"
    using assms k(3) unfolding set_transition_values_def set_transition_counter_some [OF assms(1)]
    by (cases ty) (simp_all add: Let_def m_def transition_counter_def [symmetric])
  have km: "1 \<le> uint (tr_counter (trans m))" "uint (tr_counter (trans m)) \<le> 10" using k by (simp_all add: m_def)
  show ?thesis unfolding eq
    by (cases ty) (simp_all add: set_step_eqs km, simp_all add: m_def retimedI)
qed

lemma set_transition_values_retimed: "returns (set_transition_values ty n) (retimed n)"
proof (cases "tr_tt (trans n) AND 0x3F = 0")
  case True
  then show ?thesis by (simp add: set_transition_values_none retimedI)
next
  case False
  show ?thesis
  proof (cases "tr_type (trans n) = MOVE")
    case True
    then show ?thesis by (simp add: set_transition_values_move [OF False] retimedI)
  next
    case nm: False
    show ?thesis by (rule returns_mono [OF set_transition_values_ramp [OF False nm]]) blast
  qed
qed

section \<open>States whose colour can be shown\<close>

text \<open>
  The invariant of the node: the temperature range is a proper interval within the one the model
  allows, and the temperature, present and target, lies in it.
\<close>

definition node_ok :: "node \<Rightarrow> bool" where
  "node_ok n \<longleftrightarrow> temp_range_ok n \<and>
     tm_range_min (temp n) \<le> tm_current (temp n) \<and> tm_current (temp n) \<le> tm_range_max (temp n) \<and>
     tm_range_min (temp n) \<le> tm_target (temp n) \<and> tm_target (temp n) \<le> tm_range_max (temp n)"

lemma node_ok_led_ok: "node_ok n \<Longrightarrow> led_ok n"
  by (simp add: node_ok_def temp_range_ok_def temp_in_range_def)

lemma node_ok_cong: "temp n' = temp n \<Longrightarrow> node_ok n' = node_ok n"
  by (simp add: node_ok_def temp_range_ok_def)

lemma channel_cong:
  assumes "light n' = light n" "temp n' = temp n" "duv n' = duv n"
  shows "cur c n' = cur c n" "tgt c n' = tgt c n" "dlt c n' = dlt c n"
  using assms by (cases c; simp)+

text \<open>Two states that differ in the present values only.\<close>

definition only_current :: "node \<Rightarrow> node \<Rightarrow> bool" where
  "only_current n n' \<longleftrightarrow> (\<exists>a b d. n' = n\<lparr>light := (light n)\<lparr>lt_current := a\<rparr>,
     temp := (temp n)\<lparr>tm_current := b\<rparr>, duv := (duv n)\<lparr>dv_current := d\<rparr>\<rparr>)"

lemma only_currentI:
  "n' = n\<lparr>light := (light n)\<lparr>lt_current := lt_current (light n')\<rparr>, temp := (temp n)\<lparr>tm_current := tm_current (temp n')\<rparr>,
     duv := (duv n)\<lparr>dv_current := dv_current (duv n')\<rparr>\<rparr> \<Longrightarrow> only_current n n'"
  unfolding only_current_def by (intro exI)

lemma only_current_fields:
  assumes "only_current n n'"
  shows "trans n' = trans n" "trace n' = trace n" "armed n' = armed n" "tgt c n' = tgt c n" "dlt c n' = dlt c n"
    "tm_range_min (temp n') = tm_range_min (temp n)" "tm_range_max (temp n') = tm_range_max (temp n)"
    "tm_target (temp n') = tm_target (temp n)"
  using assms by (cases c; auto simp: only_current_def armed_def timer_state_def)+

lemma only_current_node_ok:
  assumes "only_current n n'" "node_ok n"
    "min (cur Temp_ch n) (tgt Temp_ch n) \<le> cur Temp_ch n'" "cur Temp_ch n' \<le> max (cur Temp_ch n) (tgt Temp_ch n)"
  shows "node_ok n'"
proof -
  note t = only_current_fields(6-8) [OF assms(1)]
  have "tm_range_min (temp n) \<le> tm_current (temp n')" "tm_current (temp n') \<le> tm_range_max (temp n)"
    using assms(2-4) by (auto simp: node_ok_def word_le_def min_def max_def split: if_splits)
  then show ?thesis using assms(2) by (simp add: node_ok_def temp_range_ok_def t)
qed

section \<open>The contract of a work handler\<close>

text \<open>
  \<open>ramping C k n\<close>: the transition is running with \<open>k\<close> steps left, and for every quantity of
  \<open>C\<close> those steps stay on this side of the target. \<open>ramp_started\<close> is the same before the
  first run, which only starts the clock.
\<close>

definition ramp_ready :: "channel set \<Rightarrow> int \<Rightarrow> node \<Rightarrow> bool" where
  "ramp_ready C k n \<longleftrightarrow> node_ok n \<and> tr_type (trans n) \<noteq> MOVE \<and> uint (tr_counter (trans n)) = k \<and>
     (\<forall>c \<in> C. ramp (cur c n) (tgt c n) (dlt c n) k)"

definition ramp_started :: "channel set \<Rightarrow> int \<Rightarrow> node \<Rightarrow> bool" where
  "ramp_started C k n \<longleftrightarrow> ramp_ready C k n \<and> tr_just_started (trans n)"

definition ramping :: "channel set \<Rightarrow> int \<Rightarrow> node \<Rightarrow> bool" where
  "ramping C k n \<longleftrightarrow> ramp_ready C k n \<and> \<not> tr_just_started (trans n)"

text \<open>One tick further: the quantities of \<open>C\<close> have moved by \<open>j\<close> deltas.\<close>

definition advanced :: "channel set \<Rightarrow> int \<Rightarrow> node \<Rightarrow> node \<Rightarrow> bool" where
  "advanced C j n n' \<longleftrightarrow> armed n' = armed n \<and>
     (\<forall>c. cur c n' = (if c \<in> C then cur c n - j * dlt c n else cur c n) \<and> tgt c n' = tgt c n \<and> dlt c n' = dlt c n)"

definition arrived :: "channel set \<Rightarrow> node \<Rightarrow> node \<Rightarrow> bool" where
  "arrived C n n' \<longleftrightarrow> node_ok n' \<and> armed n' = None \<and> tr_counter (trans n') = 0 \<and>
     (\<forall>c. cur c n' = (if c \<in> C then tgt c n else cur c n) \<and> tgt c n' = tgt c n)"

lemma quiet_channels:
  assumes "quiet n n'"
  shows "cur c n' = cur c n" "tgt c n' = tgt c n" "dlt c n' = dlt c n" "node_ok n' = node_ok n"
  by (rule channel_cong node_ok_cong; rule quiet_fields [OF assms])+

lemma k_timer_stop_fields [simp]:
  "light (k_timer_stop n) = light n" "temp (k_timer_stop n) = temp n" "duv (k_timer_stop n) = duv n"
  "trans (k_timer_stop n) = trans n" "armed (k_timer_stop n) = None"
  by (simp_all add: k_timer_stop_def armed_def)

fun run_ticks :: "(env \<Rightarrow> node \<Rightarrow> node option) \<Rightarrow> env list \<Rightarrow> node \<Rightarrow> node option" where
  "run_ticks tick [] n = Some n"
| "run_ticks tick (e # es) n = tick e n \<bind> run_ticks tick es"

locale ramp_handler =
  fixes tick :: "env \<Rightarrow> node \<Rightarrow> node option" and adv fin :: "node \<Rightarrow> node" and C :: "channel set"
  assumes tick_started: "tr_just_started (trans n) \<Longrightarrow> tick e n = first_tick e n"
    and tick_running: "\<not> tr_just_started (trans n) \<Longrightarrow> tr_type (trans n) \<noteq> MOVE \<Longrightarrow>
      tick e n = (if tr_counter (trans n) - 1 \<noteq> 0
        then update_light_state (adv (set_counter (tr_counter (trans n) - 1) n))
        else do { n' \<leftarrow> update_light_state (fin (set_counter (tr_counter (trans n) - 1) n)); Some (k_timer_stop n') })"
    and adv_cur: "(\<forall>c \<in> C. ramp (cur c n) (tgt c n) (dlt c n) k) \<Longrightarrow> 1 \<le> k \<Longrightarrow>
      cur c (adv n) = (if c \<in> C then cur c n - dlt c n else cur c n)"
    and adv_frame: "only_current n (adv n)"
    and fin_cur: "cur c (fin n) = (if c \<in> C then tgt c n else cur c n)"
    and fin_frame: "only_current n (fin n)"
begin

lemma first:
  assumes "ramp_started C k n" "1 \<le> k"
  shows "returns (tick e n) (\<lambda>n'. ramping C k n' \<and> advanced C 0 n n')"
proof -
  have "tr_counter (trans n) \<noteq> 0" using assms by (auto simp: ramp_started_def ramp_ready_def)
  then have "tick e n = Some ((set_just_started False n)\<lparr>trans := (trans (set_just_started False n))
      \<lparr>tr_start_timestamp := e_now e\<rparr>\<rparr>)" (is "_ = Some ?n")
    using assms(1) by (simp add: tick_started ramp_started_def first_tick_def)
  moreover have ch: "cur c ?n = cur c n" "tgt c ?n = tgt c n" "dlt c ?n = dlt c n" for c
    by (rule channel_cong; simp)+
  moreover have "node_ok ?n = node_ok n" by (rule node_ok_cong) simp
  moreover have "armed ?n = armed n" by (rule armed_cong) simp
  ultimately show ?thesis using assms(1) by (simp add: ramping_def ramp_started_def ramp_ready_def advanced_def)
qed

lemma counter_pred:
  assumes "1 \<le> uint (w :: u32)"
  shows "uint (w - 1) = uint w - 1"
  using assms by (simp add: uint_sub_if')

lemma step:
  assumes "ramping C k n" "2 \<le> k"
  shows "returns (tick e n) (\<lambda>n'. ramping C (k - 1) n' \<and> advanced C 1 n n')"
proof -
  from assms(1) have r: "node_ok n" "tr_type (trans n) \<noteq> MOVE" "uint (tr_counter (trans n)) = k"
    "\<forall>c \<in> C. ramp (cur c n) (tgt c n) (dlt c n) k" "\<not> tr_just_started (trans n)"
    by (simp_all add: ramping_def ramp_ready_def)
  let ?m = "set_counter (tr_counter (trans n) - 1) n"
  have km: "uint (tr_counter (trans n) - 1) = k - 1" using counter_pred [of "tr_counter (trans n)"] r(3) assms(2) by simp
  have nz: "tr_counter (trans n) - 1 \<noteq> 0"
  proof
    assume "tr_counter (trans n) - 1 = 0"
    then have "uint (tr_counter (trans n) - 1) = 0" by simp
    with km assms(2) show False by simp
  qed
  have mch: "cur c ?m = cur c n" "tgt c ?m = tgt c n" "dlt c ?m = dlt c n" for c by (rule channel_cong; simp)+
  have "node_ok ?m = node_ok n" by (rule node_ok_cong) simp
  let ?a = "adv ?m"
  have ac: "cur c ?a = (if c \<in> C then cur c n - dlt c n else cur c n)" for c
    using adv_cur [of ?m k c] r(4) assms(2) mch by simp
  note af = only_current_fields [OF adv_frame [of ?m]]
  have "node_ok ?a"
  proof (rule only_current_node_ok [OF adv_frame])
    show "node_ok ?m" using r(1) \<open>node_ok ?m = node_ok n\<close> by simp
    show "min (cur Temp_ch ?m) (tgt Temp_ch ?m) \<le> cur Temp_ch ?a" "cur Temp_ch ?a \<le> max (cur Temp_ch ?m) (tgt Temp_ch ?m)"
      using ramp_step(2,3) [of "cur Temp_ch n" "tgt Temp_ch n" "dlt Temp_ch n" k] r(4) assms(2)
      unfolding ac mch by auto
  qed
  have "returns (update_light_state ?a) (quiet (?a\<lparr>reset_done := True\<rparr>))"
    by (rule update_light_state_quiet [OF node_ok_led_ok [OF \<open>node_ok ?a\<close>]])
  moreover have "tick e n = update_light_state ?a" using tick_running [OF r(5,2)] nz by simp
  moreover have "ramping C (k - 1) n' \<and> advanced C 1 n n'" if q: "quiet (?a\<lparr>reset_done := True\<rparr>) n'" for n'
  proof -
    have ch: "cur c n' = cur c ?a" "tgt c n' = tgt c ?a" "dlt c n' = dlt c ?a" for c
      using quiet_channels [OF q] channel_cong [of "?a\<lparr>reset_done := True\<rparr>" ?a] by simp_all
    have "node_ok n'" using quiet_channels(4) [OF q] node_ok_cong [of "?a\<lparr>reset_done := True\<rparr>" ?a] \<open>node_ok ?a\<close> by simp
    moreover have "armed n' = armed n"
      using quiet_fields(16) [OF q] armed_cong [of "?a\<lparr>reset_done := True\<rparr>" ?a] af(3) armed_cong [of ?m n] by simp
    moreover have "ramp (cur c n') (tgt c n') (dlt c n') (k - 1)" if "c \<in> C" for c
      using ramp_step(1) [of "cur c n" "tgt c n" "dlt c n" k] r(4) assms(2) that unfolding ch ac af mch by simp
    ultimately show ?thesis
      using quiet_fields(17-19) [OF q] af(1) r(2,5) km
      by (simp add: ramping_def ramp_ready_def advanced_def ch ac af mch)
  qed
  ultimately show ?thesis by (auto elim: returns_mono)
qed

lemma last:
  assumes "ramping C 1 n"
  shows "returns (tick e n) (arrived C n)"
proof -
  from assms have r: "node_ok n" "tr_type (trans n) \<noteq> MOVE" "uint (tr_counter (trans n)) = 1" "\<not> tr_just_started (trans n)"
    by (simp_all add: ramping_def ramp_ready_def)
  have c1: "tr_counter (trans n) = 1" using r(3) by (metis word_uint_eq_iff uint_1)
  let ?m = "set_counter 0 n"
  have mch: "cur c ?m = cur c n" "tgt c ?m = tgt c n" for c by (rule channel_cong; simp)+
  have "node_ok ?m = node_ok n" by (rule node_ok_cong) simp
  let ?f = "fin ?m"
  have fc: "cur c ?f = (if c \<in> C then tgt c n else cur c n)" for c using fin_cur [of c ?m] mch by simp
  note ff = only_current_fields [OF fin_frame [of ?m]]
  have "node_ok ?f"
  proof (rule only_current_node_ok [OF fin_frame])
    show "node_ok ?m" using r(1) \<open>node_ok ?m = node_ok n\<close> by simp
    show "min (cur Temp_ch ?m) (tgt Temp_ch ?m) \<le> cur Temp_ch ?f" "cur Temp_ch ?f \<le> max (cur Temp_ch ?m) (tgt Temp_ch ?m)"
      unfolding fc mch by auto
  qed
  have "returns (update_light_state ?f) (quiet (?f\<lparr>reset_done := True\<rparr>))"
    by (rule update_light_state_quiet [OF node_ok_led_ok [OF \<open>node_ok ?f\<close>]])
  moreover have "arrived C n (k_timer_stop n')" if q: "quiet (?f\<lparr>reset_done := True\<rparr>) n'" for n'
  proof -
    have ch: "cur c (k_timer_stop n') = cur c ?f" "tgt c (k_timer_stop n') = tgt c ?f" for c
      using quiet_channels [OF q] channel_cong [of "?f\<lparr>reset_done := True\<rparr>" ?f] channel_cong [of "k_timer_stop n'" n']
      by simp_all
    have "node_ok (k_timer_stop n')"
      using quiet_channels(4) [OF q] node_ok_cong [of "?f\<lparr>reset_done := True\<rparr>" ?f]
        node_ok_cong [of "k_timer_stop n'" n'] \<open>node_ok ?f\<close> by simp
    then show ?thesis using quiet_fields(17) [OF q] ff(1) by (simp add: arrived_def ch fc ff mch)
  qed
  moreover have "tick e n = do { n' \<leftarrow> update_light_state ?f; Some (k_timer_stop n') }"
    using tick_running [OF r(4,2)] c1 by simp
  ultimately show ?thesis by (auto elim: returns_mono)
qed

text \<open>After \<open>j\<close> ticks, fewer than the counter, every quantity has moved by \<open>j\<close> deltas.\<close>

lemma run_part:
  "ramping C k n \<Longrightarrow> int (length es) < k \<Longrightarrow>
   returns (run_ticks tick es n) (\<lambda>n'. ramping C (k - int (length es)) n' \<and> advanced C (int (length es)) n n')"
proof (induction es arbitrary: n k)
  case Nil
  then show ?case by (simp add: advanced_def)
next
  case (Cons e es)
  have "returns (tick e n) (\<lambda>n'. ramping C (k - 1) n' \<and> advanced C 1 n n')"
    using Cons.prems by (intro step) simp_all
  moreover have "returns (run_ticks tick es m) (\<lambda>n'. ramping C (k - int (length (e # es))) n' \<and>
      advanced C (int (length (e # es))) n n')" if m: "ramping C (k - 1) m \<and> advanced C 1 n m" for m
  proof (rule returns_mono [OF Cons.IH [of "k - 1" m]])
    fix n' assume "ramping C (k - 1 - int (length es)) n' \<and> advanced C (int (length es)) m n'"
    then show "ramping C (k - int (length (e # es))) n' \<and> advanced C (int (length (e # es))) n n'"
      using m by (auto simp: advanced_def algebra_simps)
  qed (use m Cons.prems in simp_all)
  ultimately show ?case by (auto elim: returns_mono)
qed

lemma run_all:
  assumes "ramping C k n" "1 \<le> k" "int (length es) = k"
  shows "returns (run_ticks tick es n) (arrived C n)"
  using assms
proof (induction es arbitrary: n k)
  case Nil
  then show ?case by simp
next
  case (Cons e es)
  show ?case
  proof (cases "k = 1")
    case True
    then show ?thesis using Cons.prems last [of n e] by (auto elim: returns_mono)
  next
    case False
    then have "returns (tick e n) (\<lambda>n'. ramping C (k - 1) n' \<and> advanced C 1 n n')"
      using Cons.prems by (intro step) simp_all
    moreover have "returns (run_ticks tick es m) (arrived C n)" if m: "ramping C (k - 1) m \<and> advanced C 1 n m" for m
    proof (rule returns_mono [OF Cons.IH [of "k - 1" m]])
      fix n' assume "arrived C m n'"
      then show "arrived C n n'" using m by (auto simp: arrived_def advanced_def)
    qed (use m Cons.prems False in simp_all)
    ultimately show ?thesis by (auto elim: returns_mono)
  qed
qed

lemma run_from_start:
  assumes "ramp_started C k n" "1 \<le> k" "int (length es) = k + 1"
  shows "returns (run_ticks tick es n) (arrived C n)"
proof -
  from assms obtain e es' where es: "es = e # es'" "int (length es') = k" by (cases es) auto
  have "returns (tick e n) (\<lambda>n'. ramping C k n' \<and> advanced C 0 n n')" by (rule first [OF assms(1,2)])
  moreover have "returns (run_ticks tick es' m) (arrived C n)" if m: "ramping C k m \<and> advanced C 0 n m" for m
  proof (rule returns_mono [OF run_all [of k m es']])
    fix n' assume "arrived C m n'"
    then show "arrived C n n'" using m by (auto simp: arrived_def advanced_def)
  qed (use m assms es in simp_all)
  ultimately show ?thesis unfolding es(1) by (auto elim: returns_mono)
qed

end

section \<open>The seven work handlers meet the contract\<close>

lemma u16_step:
  assumes "ramp (uint (c :: u16)) (uint (t :: u16)) d k" "1 \<le> k"
  shows "uint (c - word_of_int d) = uint c - d"
proof -
  have "0 \<le> min (uint c) (uint t)" "max (uint c) (uint t) \<le> 65535" by simp_all
  then have "uint (word_of_int (uint c - d) :: u16) = uint c - d"
    using ramp_step(2,3) [OF assms] by (intro uint_of_int_u16) linarith+
  then show ?thesis by simp
qed

lemma s16_step:
  assumes "ramp (sint (c :: s16)) (sint (t :: s16)) d k" "1 \<le> k"
  shows "sint (c - word_of_int d) = sint c - d"
proof -
  have "- 32768 \<le> min (sint c) (sint t)" "max (sint c) (sint t) \<le> 32767" using sint16_bounds [of c] sint16_bounds [of t] by simp_all
  then have "sint (word_of_int (sint c - d) :: s16) = sint c - d"
    using ramp_step(2,3) [OF assms] by (intro sint_of_int_s16) linarith+
  then show ?thesis by simp
qed

lemmas advance_defs = light_advance_def temp_advance_def duv_advance_def
lemmas finish_defs = light_finish_def temp_finish_def duv_finish_def

lemma advance_one:
  "ramp (cur Light_ch n) (tgt Light_ch n) (dlt Light_ch n) k \<Longrightarrow> 1 \<le> k \<Longrightarrow>
     cur Light_ch (light_advance n) = cur Light_ch n - dlt Light_ch n"
  "ramp (cur Temp_ch n) (tgt Temp_ch n) (dlt Temp_ch n) k \<Longrightarrow> 1 \<le> k \<Longrightarrow>
     cur Temp_ch (temp_advance n) = cur Temp_ch n - dlt Temp_ch n"
  "ramp (cur Duv_ch n) (tgt Duv_ch n) (dlt Duv_ch n) k \<Longrightarrow> 1 \<le> k \<Longrightarrow>
     cur Duv_ch (duv_advance n) = cur Duv_ch n - dlt Duv_ch n"
  using u16_step s16_step by (simp_all add: advance_defs)

lemma advance_other:
  "c \<noteq> Light_ch \<Longrightarrow> cur c (light_advance n) = cur c n"
  "c \<noteq> Temp_ch \<Longrightarrow> cur c (temp_advance n) = cur c n"
  "c \<noteq> Duv_ch \<Longrightarrow> cur c (duv_advance n) = cur c n"
  "tgt c (light_advance n) = tgt c n" "tgt c (temp_advance n) = tgt c n" "tgt c (duv_advance n) = tgt c n"
  "dlt c (light_advance n) = dlt c n" "dlt c (temp_advance n) = dlt c n" "dlt c (duv_advance n) = dlt c n"
  by (cases c; simp add: advance_defs)+

lemma advance_channels:
  assumes "\<forall>c \<in> C. ramp (cur c n) (tgt c n) (dlt c n) k" "1 \<le> k"
  shows "C = {Light_ch} \<Longrightarrow> cur c (light_advance n) = (if c \<in> C then cur c n - dlt c n else cur c n)"
    "C = {Temp_ch} \<Longrightarrow> cur c (temp_advance n) = (if c \<in> C then cur c n - dlt c n else cur c n)"
    "C = {Temp_ch, Duv_ch} \<Longrightarrow>
      cur c (duv_advance (temp_advance n)) = (if c \<in> C then cur c n - dlt c n else cur c n)"
    "C = {Light_ch, Temp_ch, Duv_ch} \<Longrightarrow>
      cur c (duv_advance (temp_advance (light_advance n))) = (if c \<in> C then cur c n - dlt c n else cur c n)"
proof -
  have *: "ramp (cur c m) (tgt c m) (dlt c m) k"
    if "c \<in> C" "cur c m = cur c n" "tgt c m = tgt c n" "dlt c m = dlt c n" for c m
    using assms(1) that by simp
  note one = advance_one [OF * assms(2)]
  show "C = {Light_ch} \<Longrightarrow> cur c (light_advance n) = (if c \<in> C then cur c n - dlt c n else cur c n)"
    "C = {Temp_ch} \<Longrightarrow> cur c (temp_advance n) = (if c \<in> C then cur c n - dlt c n else cur c n)"
    "C = {Temp_ch, Duv_ch} \<Longrightarrow>
      cur c (duv_advance (temp_advance n)) = (if c \<in> C then cur c n - dlt c n else cur c n)"
    "C = {Light_ch, Temp_ch, Duv_ch} \<Longrightarrow>
      cur c (duv_advance (temp_advance (light_advance n))) = (if c \<in> C then cur c n - dlt c n else cur c n)"
    by (cases c; simp add: one advance_other del: cur.simps tgt.simps dlt.simps)+
qed

lemma finish_channels:
  "cur c (light_finish n) = (if c \<in> {Light_ch} then tgt c n else cur c n)"
  "cur c (temp_finish n) = (if c \<in> {Temp_ch} then tgt c n else cur c n)"
  "cur c (duv_finish (temp_finish n)) = (if c \<in> {Temp_ch, Duv_ch} then tgt c n else cur c n)"
  "cur c (duv_finish (temp_finish (light_finish n))) =
     (if c \<in> {Light_ch, Temp_ch, Duv_ch} then tgt c n else cur c n)"
  by (cases c; simp add: finish_defs)+

lemma advance_frames:
  "only_current n (light_advance n)" "only_current n (temp_advance n)"
  "only_current n (duv_advance (temp_advance n))" "only_current n (duv_advance (temp_advance (light_advance n)))"
  by (rule only_currentI; simp add: advance_defs)+

lemma finish_frames:
  "only_current n (light_finish n)" "only_current n (temp_finish n)"
  "only_current n (duv_finish (temp_finish n))" "only_current n (duv_finish (temp_finish (light_finish n)))"
  by (rule only_currentI; simp add: finish_defs)+

lemmas work_handler_defs = onoff_work_handler_def level_lightness_work_handler_def level_temp_work_handler_def
  light_lightness_actual_work_handler_def light_lightness_linear_work_handler_def
  light_ctl_work_handler_def light_ctl_temp_work_handler_def

interpretation onoff: ramp_handler onoff_work_handler light_advance light_finish "{Light_ch}"
  by unfold_locales
    ((rule finish_channels advance_frames finish_frames
      | (rule advance_channels; (assumption | rule refl))
      | simp add: work_handler_defs Let_def)+)

interpretation level_lightness: ramp_handler level_lightness_work_handler light_advance light_finish "{Light_ch}"
  by unfold_locales
    ((rule finish_channels advance_frames finish_frames
      | (rule advance_channels; (assumption | rule refl))
      | simp add: work_handler_defs Let_def)+)

interpretation level_temp: ramp_handler level_temp_work_handler temp_advance temp_finish "{Temp_ch}"
  by unfold_locales
    ((rule finish_channels advance_frames finish_frames
      | (rule advance_channels; (assumption | rule refl))
      | simp add: work_handler_defs Let_def)+)

interpretation lightness_actual: ramp_handler light_lightness_actual_work_handler light_advance light_finish "{Light_ch}"
  by unfold_locales
    ((rule finish_channels advance_frames finish_frames
      | (rule advance_channels; (assumption | rule refl))
      | simp add: work_handler_defs Let_def)+)

interpretation lightness_linear: ramp_handler light_lightness_linear_work_handler light_advance light_finish "{Light_ch}"
  by unfold_locales
    ((rule finish_channels advance_frames finish_frames
      | (rule advance_channels; (assumption | rule refl))
      | simp add: work_handler_defs Let_def)+)

interpretation light_ctl: ramp_handler light_ctl_work_handler "\<lambda>n. duv_advance (temp_advance (light_advance n))" "\<lambda>n. duv_finish (temp_finish (light_finish n))" "{Light_ch, Temp_ch, Duv_ch}"
  by unfold_locales
    ((rule finish_channels advance_frames finish_frames
      | (rule advance_channels; (assumption | rule refl))
      | simp add: work_handler_defs Let_def)+)

interpretation light_ctl_temp: ramp_handler light_ctl_temp_work_handler "\<lambda>n. duv_advance (temp_advance n)" "\<lambda>n. duv_finish (temp_finish n)" "{Temp_ch, Duv_ch}"
  by unfold_locales
    ((rule finish_channels advance_frames finish_frames
      | (rule advance_channels; (assumption | rule refl))
      | simp add: work_handler_defs Let_def)+)

end
