(* ===== verification/Newton.thy ===== *)
theory Newton
  imports StateBinding
begin

text \<open>
  Newton's iteration of state_binding.c's \<open>sqrt\<close> ends. The loop stops only when an iteration
  returns the very same float, so this is a statement about rounding: scaled by a power of two,
  the floats near the root are the integers of 24 bits, the iteration started above the root
  never falls below the greatest of them whose square does not exceed the argument (\<open>m\<close>), it
  decreases until it reaches \<open>m\<close> or \<open>m + 1\<close>, and it cannot alternate between these two.
\<close>

section \<open>Floats of 24 bits\<close>

definition float24 :: "rat \<Rightarrow> bool" where
  "float24 x \<longleftrightarrow> (\<exists>k f. 0 \<le> k \<and> k < 2 ^ 24 \<and> - 120 \<le> f \<and> x = of_int k * 2 powi f)"

lemma float24I: "0 \<le> k \<Longrightarrow> k < 2 ^ 24 \<Longrightarrow> - 120 \<le> f \<Longrightarrow> float24 (of_int k * 2 powi f)"
  by (auto simp: float24_def)

lemma float24_fl: "float24 x \<Longrightarrow> fl x = x"
  by (auto simp: float24_def intro!: binary32.rnd_exact)

lemma powi_succ: "(2::rat) powi (f + 1) = 2 * 2 powi f"
  by (simp add: powi_add2)

lemma powi_pred: "(2::rat) powi (f - 1) = 2 powi f / 2"
  using powi_succ [of "f - 1"] by simp

lemma float24_double: "float24 x \<Longrightarrow> fl (2 * x) = 2 * x"
proof -
  assume "float24 x"
  then obtain k f where k: "0 \<le> k" "k < 2 ^ 24" "- 120 \<le> f" "x = of_int k * 2 powi f" by (auto simp: float24_def)
  then have "2 * x = of_int k * 2 powi (f + 1)" by (simp add: powi_succ)
  moreover have "fl (of_int k * 2 powi (f + 1)) = of_int k * 2 powi (f + 1)"
    using k by (intro binary32.rnd_exact) simp_all
  ultimately show ?thesis by metis
qed

lemma float24_half: "float24 x \<Longrightarrow> fl (fl64 (x / 2)) = x / 2"
proof -
  assume "float24 x"
  then obtain k f where k: "0 \<le> k" "k < 2 ^ 24" "- 120 \<le> f" "x = of_int k * 2 powi f" by (auto simp: float24_def)
  then have "x / 2 = of_int k * 2 powi (f - 1)" by (simp add: powi_pred)
  moreover have "fl (of_int k * 2 powi (f - 1)) = of_int k * 2 powi (f - 1)"
    "fl64 (of_int k * 2 powi (f - 1)) = of_int k * 2 powi (f - 1)"
    using k by (intro binary32.rnd_exact binary64.rnd_exact; simp)+
  ultimately show ?thesis by metis
qed

lemma fl_float24_form:
  assumes "2 powi - 90 \<le> x" "x < 2 powi 100"
  shows "\<exists>k f. 0 \<le> k \<and> k < 2 ^ 24 \<and> - 114 \<le> f \<and> fl x = of_int k * 2 powi f"
proof -
  let ?g = "ulp_exp 24 (- 149) 104 x"
  have x0: "0 < x" using assms(1) less_le_trans [of 0 "2 powi - 90" x] by simp
  have "?g \<le> 76" using assms(2) x0 by (intro binary32.ulp_exp_le) simp_all
  then have up: "x < 2 powi (?g + 24)" using binary32.ulp_exp_upper [of x] x0 by simp
  have "- 114 \<le> ?g"
  proof (rule ccontr)
    assume "\<not> ?thesis"
    then have "(2::rat) powi (?g + 24) \<le> 2 powi - 90" by (intro powi_mono2) simp
    with up assms(1) show False by simp
  qed
  have q: "0 \<le> x / 2 powi ?g" "x / 2 powi ?g \<le> of_int (2 ^ 24)"
    using x0 up by (simp_all add: powi_add2 pos_divide_le_eq mult.commute)
  let ?k = "rne (x / 2 powi ?g)"
  have k: "0 \<le> ?k" "?k \<le> 2 ^ 24"
    using rne_mono [OF q(1)] rne_mono [OF q(2)] rne_of_int [of 0] rne_of_int [of "2 ^ 24"]
    by (simp_all only: of_int_0)
  show ?thesis
  proof (cases "?k = 2 ^ 24")
    case True
    then have "fl x = of_int (2 ^ 23) * 2 powi (?g + 1)" by (simp add: rnd_def powi_succ)
    moreover have "0 \<le> (2::int) ^ 23" "(2::int) ^ 23 < 2 ^ 24" by simp_all
    moreover have "- 114 \<le> ?g + 1" using \<open>- 114 \<le> ?g\<close> by linarith
    ultimately show ?thesis by blast
  next
    case False
    then have "?k < 2 ^ 24" using k by linarith
    moreover have "fl x = of_int ?k * 2 powi ?g" by (rule rnd_def)
    ultimately show ?thesis using k(1) \<open>- 114 \<le> ?g\<close> by blast
  qed
qed

lemma fl_float24:
  assumes "2 powi - 90 \<le> x" "x < 2 powi 100"
  shows "float24 (fl x)" "float24 (fl x / 2)"
proof -
  from fl_float24_form [OF assms]
  obtain k f where "0 \<le> k" "k < 2 ^ 24" "- 114 \<le> f" "fl x = of_int k * 2 powi f" by blast
  then have k: "0 \<le> k" "k < 2 ^ 24" "- 114 \<le> f" "fl x = of_int k * 2 powi f" by blast+
  have "fl x / 2 = of_int k * 2 powi (f - 1)" unfolding k(4) powi_pred by simp
  moreover have "float24 (of_int k * 2 powi f)" "float24 (of_int k * 2 powi (f - 1))"
    using k by (intro float24I; simp)+
  ultimately show "float24 (fl x)" "float24 (fl x / 2)" using k(4) by metis+
qed

lemma fl_half_ulp:
  assumes "\<bar>y\<bar> < 2 powi (e + 24)" "- 149 \<le> e"
  shows "\<bar>fl y - y\<bar> \<le> 2 powi e / 2"
proof -
  let ?g = "ulp_exp 24 (- 149) 104 y"
  have "?g \<le> e" using assms by (intro binary32.ulp_exp_le) simp_all
  then have "(2::rat) powi ?g \<le> 2 powi e" by (rule powi_mono2)
  have "fl y - y = (of_int (rne (y / 2 powi ?g)) - y / 2 powi ?g) * 2 powi ?g" by (simp add: rnd_def field_simps)
  then have "\<bar>fl y - y\<bar> = \<bar>of_int (rne (y / 2 powi ?g)) - y / 2 powi ?g\<bar> * 2 powi ?g" by (simp add: abs_mult)
  also have "\<dots> \<le> 1 / 2 * 2 powi ?g" by (rule mult_right_mono [OF rne_error]) simp
  finally show ?thesis using \<open>(2::rat) powi ?g \<le> 2 powi e\<close> by simp
qed

section \<open>Rounding at a scale\<close>

definition scaled :: "int \<Rightarrow> rat \<Rightarrow> rat" where
  "scaled e x = fl (x * 2 powi e) / 2 powi e"

lemma scaled_mono: "x \<le> y \<Longrightarrow> scaled e x \<le> scaled e y"
  by (simp add: scaled_def divide_right_mono binary32.rnd_mono)

lemma scaled_float24: "float24 (x * 2 powi e) \<Longrightarrow> scaled e x = x"
  by (simp add: scaled_def float24_fl)

lemma scaled_rne:
  assumes "2 ^ 23 \<le> x" "x < 2 ^ 24" "- 120 \<le> e" "e \<le> 100"
  shows "scaled e x = of_int (rne x)"
proof -
  have "\<bar>x * 2 powi e\<bar> = x * 2 powi e" using assms(1) by simp
  moreover have "2 powi (e + int 24 - 1) \<le> x * 2 powi e" "x * 2 powi e < 2 powi (e + int 24)"
    using assms by (simp_all only: binary32.powi_p1 binary32.powi_p) simp_all
  ultimately have "ulp_exp 24 (- 149) 104 (x * 2 powi e) = e"
    using assms by (intro binary32.ulp_exp_eqI) simp_all
  then show ?thesis by (simp add: scaled_def rnd_def)
qed

lemma scaled_rne2:
  assumes "2 ^ 24 \<le> x" "x < 2 ^ 25" "- 120 \<le> e" "e < 100"
  shows "scaled e x = 2 * of_int (rne (x / 2))"
proof -
  have "x * 2 powi e = x / 2 * 2 powi (e + 1)" by (simp add: powi_succ)
  then have "scaled e x = 2 * scaled (e + 1) (x / 2)" by (simp add: scaled_def powi_succ)
  then show ?thesis using scaled_rne [of "x / 2" "e + 1"] assms by simp
qed

lemma scaled_error:
  assumes "0 \<le> x" "x < 2 ^ 24" "- 120 \<le> e"
  shows "\<bar>scaled e x - x\<bar> \<le> 1 / 2"
proof -
  have "\<bar>x * 2 powi e\<bar> < 2 powi (e + 24)" using assms by (simp add: powi_add2)
  then have "\<bar>fl (x * 2 powi e) - x * 2 powi e\<bar> \<le> 2 powi e / 2" using assms by (intro fl_half_ulp) simp_all
  moreover have "fl (x * 2 powi e) - x * 2 powi e = (scaled e x - x) * 2 powi e"
    by (simp add: scaled_def left_diff_distrib)
  ultimately show ?thesis by (simp add: abs_mult)
qed

lemma rne_ge: "of_int j - 1 / 2 < x \<Longrightarrow> j \<le> rne x"
  using rne_error [of x] by linarith

lemma rne_le: "x < of_int j + 1 / 2 \<Longrightarrow> rne x \<le> j"
  using rne_error [of x] by linarith

lemma rne_tie: "even j \<Longrightarrow> rne (of_int j - 1 / 2) = j" "even j \<Longrightarrow> rne (of_int j + 1 / 2) = j"
proof -
  have "\<lfloor>of_int j - 1 / 2 :: rat\<rfloor> = j - 1" "\<lfloor>of_int j + 1 / 2 :: rat\<rfloor> = j" by linarith+
  then show "even j \<Longrightarrow> rne (of_int j - 1 / 2) = j" "even j \<Longrightarrow> rne (of_int j + 1 / 2) = j"
    by (simp_all add: rne_def)
qed

lemma scaled_int:
  assumes "0 \<le> k" "k \<le> 2 ^ 24" "- 60 \<le> e"
  shows "scaled e (of_int k) = of_int k" "scaled e (2 * of_int k) = 2 * of_int k"
proof -
  have "float24 (of_int k * 2 powi d)" if "- 60 \<le> d" for d
  proof (cases "k = 2 ^ 24")
    case True
    then have "of_int k * 2 powi d = of_int (2 ^ 23) * (2 powi (d + 1) :: rat)" by (simp add: powi_succ)
    then show ?thesis using float24I [of "2 ^ 23" "d + 1"] that by simp
  next
    case False
    then show ?thesis using float24I [of k d] assms that by simp
  qed
  from this [of e] this [of "e + 1"] assms
  show "scaled e (of_int k) = of_int k" "scaled e (2 * of_int k) = 2 * of_int k"
    by (auto intro!: scaled_float24 simp: powi_succ mult.assoc mult.left_commute)
qed

lemma float24_integer:
  assumes "float24 (x * 2 powi e)" "2 ^ 23 \<le> x"
  shows "\<exists>k. x = of_int k"
proof -
  obtain k f where k: "0 \<le> k" "k < 2 ^ 24" "x * 2 powi e = of_int k * 2 powi f"
    using assms(1) by (auto simp: float24_def)
  have "e \<le> f"
  proof (rule ccontr)
    assume "\<not> ?thesis"
    then have le: "2 powi f \<le> (2::rat) powi (e - 1)" by (intro powi_mono2) simp
    have "of_int k < (2 ^ 24 :: rat)" using k(2) by (metis of_int_less_iff of_int_numeral of_int_power)
    then have "x * 2 powi e < 2 ^ 24 * 2 powi f" unfolding k(3) by simp
    also have "\<dots> \<le> 2 ^ 24 * 2 powi (e - 1)" using le by simp
    also have "\<dots> = 2 ^ 23 * 2 powi e" by (simp add: powi_pred)
    finally show False using assms(2) by simp
  qed
  then have "2 powi f = 2 ^ nat (f - e) * (2::rat) powi e"
    using powi_add2 [of "f - e" e] by (simp add: power_int_def)
  then have "x = of_int (k * 2 ^ nat (f - e))" using k(3) by simp
  then show ?thesis ..
qed

section \<open>The iteration in scaled integers\<close>

definition bracket :: "rat \<Rightarrow> int \<Rightarrow> int \<Rightarrow> int \<Rightarrow> bool" where
  "bracket s e S m \<longleftrightarrow> - 60 \<le> e \<and> e \<le> 0 \<and> s = of_int S * (2 powi e * 2 powi e) \<and> 2 ^ 23 dvd S \<and>
     2 ^ 23 \<le> m \<and> m < 2 ^ 24 \<and> m * m \<le> S \<and> S < (m + 1) * (m + 1)"

definition nquot :: "int \<Rightarrow> int \<Rightarrow> int \<Rightarrow> rat" where
  "nquot e S k = scaled e (of_int S / of_int k)"

definition nsum :: "int \<Rightarrow> int \<Rightarrow> int \<Rightarrow> rat" where
  "nsum e S k = scaled e (of_int k + nquot e S k)"

lemma bracketD:
  assumes "bracket s e S m"
  shows "- 60 \<le> e" "e \<le> 0" "s = of_int S * (2 powi e * 2 powi e)" "2 ^ 23 dvd S"
    "2 ^ 23 \<le> m" "m < 2 ^ 24" "m * m \<le> S" "S < (m + 1) * (m + 1)"
  using assms by (simp_all add: bracket_def)

lemma ratio_le:
  assumes "0 < k"
  shows "(of_int S / of_int k \<le> (of_int j / 2 :: rat)) \<longleftrightarrow> 2 * S \<le> j * k"
proof -
  have "(of_int S / of_int k \<le> (of_int j / 2 :: rat)) \<longleftrightarrow> of_int (2 * S) \<le> (of_int (j * k) :: rat)"
    using assms by (simp add: field_simps)
  then show ?thesis by (simp only: of_int_le_iff)
qed

lemma ratio_less:
  assumes "0 < k"
  shows "(of_int S / of_int k < (of_int j / 2 :: rat)) \<longleftrightarrow> 2 * S < j * k"
proof -
  have "(of_int S / of_int k < (of_int j / 2 :: rat)) \<longleftrightarrow> of_int (2 * S) < (of_int (j * k) :: rat)"
    using assms by (simp add: field_simps)
  then show ?thesis by (simp only: of_int_less_iff)
qed

lemma ratio_le_int: "0 < k \<Longrightarrow> (of_int S / of_int k \<le> (of_int j :: rat)) \<longleftrightarrow> S \<le> j * k"
  using ratio_le [of k S "2 * j"] by simp

lemma ratio_less_int: "0 < k \<Longrightarrow> (of_int S / of_int k < (of_int j :: rat)) \<longleftrightarrow> S < j * k"
  using ratio_less [of k S "2 * j"] by simp

lemma of_int_le_pow2: "j \<le> 2 ^ i \<Longrightarrow> (of_int j :: rat) \<le> 2 ^ i"
proof -
  assume "j \<le> 2 ^ i"
  then have "of_int j \<le> (of_int (2 ^ i) :: rat)" by (simp only: of_int_le_iff)
  then show ?thesis by simp
qed

lemma pow2_le_of_int: "2 ^ i \<le> j \<Longrightarrow> 2 ^ i \<le> (of_int j :: rat)"
proof -
  assume "2 ^ i \<le> j"
  then have "of_int (2 ^ i) \<le> (of_int j :: rat)" by (simp only: of_int_le_iff)
  then show ?thesis by simp
qed

lemma half_odd:
  "(of_int (2 * m + 1) / 2 :: rat) = of_int m + 1 / 2" "(of_int (2 * m + 3) / 2 :: rat) = of_int (m + 1) + 1 / 2"
  "(of_int (2 * m - 1) / 2 :: rat) = of_int m - 1 / 2" "(of_int m + 1 / 2 :: rat) = of_int (m + 1) - 1 / 2"
  by simp_all

lemma scaled_below_even:
  assumes "2 ^ 23 \<le> m" "m < 2 ^ 24" "- 60 \<le> e" "e \<le> 0"
  shows "2 * of_int m \<le> scaled e (2 * of_int m - 1 / 2)"
proof (cases "m = 2 ^ 23")
  case True
  have "rne (of_int (2 ^ 24) - 1 / 2) = 2 ^ 24" by (rule rne_tie) simp
  then show ?thesis using scaled_rne [of "of_int (2 ^ 24) - 1 / 2" e] assms True by simp
next
  case False
  then have m: "(2 ^ 23 + 1 :: rat) \<le> of_int m" "of_int m < (2 ^ 24 :: rat)" using assms by simp_all
  then have "scaled e (2 * of_int m - 1 / 2) = 2 * of_int (rne ((2 * of_int m - 1 / 2) / 2))"
    using assms by (intro scaled_rne2) simp_all
  moreover have "m \<le> rne ((2 * of_int m - 1 / 2) / 2)" by (rule rne_ge) simp
  ultimately show ?thesis by simp
qed

text \<open>Started at or above \<open>m\<close>, no iteration falls below \<open>m\<close>.\<close>

lemma nsum_ge:
  assumes "bracket s e S m" "m \<le> k"
  shows "2 * of_int m \<le> nsum e S k"
proof (cases "k = m")
  case True
  note b = bracketD [OF assms(1)]
  have "of_int m \<le> (of_int S / of_int m :: rat)"
    using b(5,7) by (simp add: pos_le_divide_eq flip: of_int_mult)
  then have "of_int m \<le> nquot e S m" unfolding nquot_def
    using scaled_mono [of "of_int m" "of_int S / of_int m" e] scaled_int [of m e] b by simp
  then have "2 * of_int m \<le> of_int m + nquot e S m" by simp
  from scaled_mono [OF this, of e] True show ?thesis using scaled_int(2) [of m e] b by (simp add: nsum_def)
next
  case False
  note b = bracketD [OF assms(1)]
  have k: "m + 1 \<le> k" "0 < k" using False assms(2) b(5) by simp_all
  let ?x = "of_int S / of_int k :: rat"
  have "0 \<le> m * m" by simp
  then have S0: "0 \<le> S" using b(7) by linarith
  have "(m + 1) * (m + 1) \<le> (m + 1) * k" using k b(5) by (intro mult_left_mono) simp_all
  then have "S < (m + 1) * k" using b(8) by linarith
  then have "?x < of_int (m + 1)" using ratio_less_int [OF k(2), of S "m + 1"] by simp
  moreover have "of_int (m + 1) \<le> (2 ^ 24 :: rat)" using b(6) by simp
  ultimately have x: "0 \<le> ?x" "?x < 2 ^ 24" using S0 k by (simp_all only: order_less_le_trans) simp
  have "\<bar>scaled e ?x - ?x\<bar> \<le> 1 / 2" using b(1) by (intro scaled_error x) simp
  then have q: "?x - 1 / 2 \<le> nquot e S k" unfolding nquot_def by linarith
  have "0 \<le> (k - m) * (k - m)" by simp
  then have "2 * m * k \<le> k * k + S" using b(7) by (simp add: algebra_simps)
  then have "of_int (2 * m * k) \<le> (of_int (k * k + S) :: rat)" by (simp only: of_int_le_iff)
  then have "2 * of_int m \<le> of_int k + ?x" using k by (simp add: field_simps)
  with q have "2 * of_int m - 1 / 2 \<le> of_int k + nquot e S k" by simp
  from scaled_mono [OF this, of e] scaled_below_even [OF b(5,6,1,2)] show ?thesis by (simp add: nsum_def)
qed

text \<open>Above \<open>m\<close> the iteration does not increase.\<close>

lemma nsum_le:
  assumes "bracket s e S m" "m + 1 \<le> k" "float24 (of_int k * 2 powi e)"
  shows "nsum e S k \<le> 2 * of_int k"
proof -
  note b = bracketD [OF assms(1)]
  have k: "0 < k" using assms(2) b(5) by simp
  have "(m + 1) * (m + 1) \<le> k * k" using assms(2) b(5) by (intro mult_mono) simp_all
  then have "S \<le> k * k" using b(8) by linarith
  then have "of_int S / of_int k \<le> (of_int k :: rat)" by (simp only: ratio_le_int [OF k])
  from scaled_mono [OF this, of e] have "nquot e S k \<le> of_int k"
    using scaled_float24 [OF assms(3)] by (simp add: nquot_def)
  then have "of_int k + nquot e S k \<le> 2 * of_int k" by simp
  from scaled_mono [OF this, of e] have "nsum e S k \<le> scaled e (2 * of_int k)" by (simp add: nsum_def)
  also have "\<dots> = 2 * of_int k" using float24_double [OF assms(3)] by (simp add: scaled_def mult.assoc)
  finally show ?thesis .
qed

lemma nquot_at_root: "bracket s e S m \<Longrightarrow> of_int m \<le> nquot e S m \<and> nquot e S m \<le> of_int (m + 2)"
proof -
  assume br: "bracket s e S m"
  note b = bracketD [OF br]
  have m: "0 < m" using b(5) by simp
  have "of_int m \<le> (of_int S / of_int m :: rat)"
    using b(5,7) by (simp add: pos_le_divide_eq flip: of_int_mult)
  then have lo: "of_int m \<le> nquot e S m" unfolding nquot_def
    using scaled_mono [of "of_int m" "of_int S / of_int m" e] scaled_int [of m e] b by simp
  have "S \<le> (m + 2) * m" using b(8) by (simp add: algebra_simps)
  then have le: "of_int S / of_int m \<le> (of_int (m + 2) :: rat)" by (simp only: ratio_le_int [OF m])
  have "scaled e (of_int (m + 2)) \<le> of_int (m + 2)"
  proof (cases "m + 2 \<le> 2 ^ 24")
    case True
    then show ?thesis using scaled_int(1) [of "m + 2" e] b by simp
  next
    case False
    then have m2: "m + 2 = 2 ^ 24 + 1" using b(6) by simp
    have "rne (of_int (2 ^ 23) + 1 / 2) = 2 ^ 23" by (rule rne_tie) simp
    then have "scaled e (2 ^ 24 + 1) = 2 ^ 24" using scaled_rne2 [of "2 ^ 24 + 1" e] b by simp
    then show ?thesis unfolding m2 by simp
  qed
  then show ?thesis using lo scaled_mono [OF le, of e] by (simp add: nquot_def)
qed

lemma nsum_at_root:
  assumes "bracket s e S m"
  shows "nsum e S m \<le> 2 * of_int (m + 1)"
proof -
  note b = bracketD [OF assms]
  have "of_int m + nquot e S m \<le> 2 * of_int (m + 1)" using nquot_at_root [OF assms] by simp
  from scaled_mono [OF this, of e] show ?thesis using scaled_int(2) [of "m + 1" e] b by (simp add: nsum_def)
qed

lemma nquot_rne:
  assumes "bracket s e S m" "2 ^ 23 \<le> (of_int S / of_int k :: rat)" "(of_int S / of_int k :: rat) < 2 ^ 24"
  shows "nquot e S k = of_int (rne (of_int S / of_int k))"
  unfolding nquot_def using bracketD(1,2) [OF assms(1)] by (intro scaled_rne assms(2,3)) simp_all

lemma nquot_le:
  assumes "bracket s e S m" "2 ^ 23 \<le> (of_int S / of_int k :: rat)" "(of_int S / of_int k :: rat) < 2 ^ 24"
    and "of_int S / of_int k < (of_int j + 1 / 2 :: rat)"
  shows "nquot e S k \<le> of_int j"
  unfolding nquot_rne [OF assms(1-3)] of_int_le_iff using assms(4) by (rule rne_le)

lemma nquot_ge:
  assumes "bracket s e S m" "2 ^ 23 \<le> (of_int S / of_int k :: rat)" "(of_int S / of_int k :: rat) < 2 ^ 24"
    and "(of_int j - 1 / 2 :: rat) < of_int S / of_int k"
  shows "of_int j \<le> nquot e S k"
  unfolding nquot_rne [OF assms(1-3)] of_int_le_iff using assms(4) by (rule rne_ge)

text \<open>
  The iteration cannot go from \<open>m\<close> to \<open>m + 1\<close> and back: the first step bounds \<open>S\<close> from below,
  the second from above, and what is left is excluded by \<open>S\<close> having only 24 significant bits.
\<close>

lemma up_from_root:
  assumes "bracket s e S m" "2 * of_int m < nsum e S m"
  shows "(2 * m + 1) * m \<le> 2 * S" "even m \<Longrightarrow> (2 * m + 3) * m \<le> 2 * S"
proof -
  note b = bracketD [OF assms(1)]
  note q = nquot_at_root [OF assms(1)]
  let ?y = "of_int m + nquot e S m" and ?x = "of_int S / of_int m :: rat"
  have m0: "0 < m" using b(5) by simp
  have x: "of_int m \<le> ?x" using b(7) m0 by (simp add: pos_le_divide_eq flip: of_int_mult)
  have m23: "2 ^ 23 \<le> (of_int m :: rat)" "(of_int m :: rat) < 2 ^ 24" using b(5,6) by simp_all
  have sum: "nsum e S m = 2 * of_int (rne (?y / 2))" if "?y < 2 * of_int m + 2"
    unfolding nsum_def using that m23 q b by (intro scaled_rne2) simp_all
  have y1: "2 * of_int m + 1 \<le> ?y"
  proof (rule ccontr)
    assume "\<not> ?thesis"
    then have "?y / 2 < of_int m + 1 / 2" "?y < 2 * of_int m + 2" by simp_all
    then have "nsum e S m \<le> 2 * of_int m" using rne_le [of "?y / 2" m] sum by simp
    then show False using assms(2) by simp
  qed
  show "(2 * m + 1) * m \<le> 2 * S"
  proof (rule ccontr)
    assume "\<not> ?thesis"
    then have "?x < of_int m + 1 / 2" using ratio_less [OF m0, of S "2 * m + 1"] unfolding half_odd by simp
    moreover have "of_int (m + 1) \<le> (2 ^ 24 :: rat)" using b(6) by (intro of_int_le_pow2) linarith
    then have "of_int m + 1 \<le> (2 ^ 24 :: rat)" by simp
    ultimately have "?x < of_int m + 1 / 2" "?x < 2 ^ 24" by linarith+
    then have "nquot e S m \<le> of_int m" using x m23 by (intro nquot_le [OF assms(1)]) linarith+
    then show False using y1 by simp
  qed
  show "(2 * m + 3) * m \<le> 2 * S" if ev: "even m"
  proof (rule ccontr)
    assume "\<not> ?thesis"
    then have lt: "?x < of_int (m + 1) + 1 / 2" using ratio_less [OF m0, of S "2 * m + 3"] unfolding half_odd by simp
    have "m \<noteq> 2 ^ 24 - 1" using ev by auto
    then have "m + 2 \<le> 2 ^ 24" using b(6) by simp
    then have "of_int (m + 2) \<le> (2 ^ 24 :: rat)" by (rule of_int_le_pow2)
    then have "?x < 2 ^ 24" using lt by simp
    then have "nquot e S m \<le> of_int (m + 1)" using x m23 by (intro nquot_le [OF assms(1)] lt) linarith+
    then have "?y = 2 * of_int m + 1" using y1 by simp
    moreover from this have "?y / 2 = of_int m + 1 / 2" by simp
    then have "rne (?y / 2) = m" by (simp only: rne_tie(2) [OF ev])
    ultimately have "nsum e S m = 2 * of_int m" using sum by simp
    then show False using assms(2) by simp
  qed
qed

lemma down_to_root:
  assumes "bracket s e S m" "nsum e S (m + 1) < 2 * of_int (m + 1)"
  shows "2 * S \<le> (2 * m + 1) * (m + 1)" "odd m \<Longrightarrow> 2 * S \<le> (2 * m - 1) * (m + 1)"
proof -
  note b = bracketD [OF assms(1)]
  let ?y = "of_int (m + 1) + nquot e S (m + 1)" and ?x = "of_int S / of_int (m + 1) :: rat"
  have m0: "0 < m + 1" using b(5) by simp
  have x: "?x < of_int (m + 1)" using b(8) by (simp only: ratio_less_int [OF m0])
  have m23: "2 ^ 23 \<le> (of_int m :: rat)" "of_int (m + 1) \<le> (2 ^ 24 :: rat)"
    using b(5,6) by simp_all
  have "nquot e S (m + 1) \<le> scaled e (of_int (m + 1))" unfolding nquot_def using x by (intro scaled_mono) simp
  then have q: "nquot e S (m + 1) \<le> of_int (m + 1)" using scaled_int(1) [of "m + 1" e] b by simp
  have sum: "nsum e S (m + 1) = 2 * of_int (rne (?y / 2))" if "2 * of_int m \<le> ?y" "?y < 2 * of_int (m + 1)"
    unfolding nsum_def using that m23 b by (intro scaled_rne2) simp_all
  have top: "?y \<noteq> 2 * of_int (m + 1)"
  proof
    assume "?y = 2 * of_int (m + 1)"
    then have "nsum e S (m + 1) = scaled e (2 * of_int (m + 1))" by (simp only: nsum_def)
    then show False using assms(2) scaled_int(2) [of "m + 1" e] b by simp
  qed
  have y1: "?y \<le> 2 * of_int m + 1"
  proof (rule ccontr)
    assume "\<not> ?thesis"
    then have *: "of_int (m + 1) - 1 / 2 < ?y / 2" "2 * of_int m \<le> ?y" "?y < 2 * of_int (m + 1)"
      using q top by simp_all
    then have "2 * of_int (m + 1) \<le> nsum e S (m + 1)" using rne_ge [OF *(1)] sum by simp
    then show False using assms(2) by simp
  qed
  show "2 * S \<le> (2 * m + 1) * (m + 1)"
  proof (rule ccontr)
    assume "\<not> ?thesis"
    then have lt: "of_int (m + 1) - 1 / 2 < ?x"
      using ratio_le [OF m0, of S "2 * m + 1"] unfolding half_odd by (meson not_le)
    have "2 ^ 23 \<le> ?x" "?x < 2 ^ 24" using lt x m23 by linarith+
    then have "of_int (m + 1) \<le> nquot e S (m + 1)" by (intro nquot_ge [OF assms(1)] lt)
    then show False using y1 by simp
  qed
  show "2 * S \<le> (2 * m - 1) * (m + 1)" if od: "odd m"
  proof (rule ccontr)
    assume "\<not> ?thesis"
    then have lt: "of_int m - 1 / 2 < ?x" using ratio_le [OF m0, of S "2 * m - 1"] unfolding half_odd by (meson not_le)
    have "m \<noteq> 2 ^ 23" using od by auto
    then have "2 ^ 23 \<le> m - 1" using b(5) by linarith
    from pow2_le_of_int [OF this] have "2 ^ 23 + 1 \<le> (of_int m :: rat)" by simp
    then have "2 ^ 23 \<le> ?x" "?x < 2 ^ 24" using lt x m23 by linarith+
    then have "of_int m \<le> nquot e S (m + 1)" by (intro nquot_ge [OF assms(1)] lt)
    then have "?y = 2 * of_int m + 1" using y1 by simp
    moreover from this have "?y / 2 = of_int (m + 1) - 1 / 2" by simp
    moreover have "even (m + 1)" using od by simp
    ultimately have "rne (?y / 2) = m + 1" by (simp only: rne_tie(1))
    then have "nsum e S (m + 1) = 2 * of_int (m + 1)" using sum \<open>?y = 2 * of_int m + 1\<close> by simp
    then show False using assms(2) by simp
  qed
qed

lemma no_alternation:
  assumes "bracket s e S m" "2 * of_int m < nsum e S m"
  shows "2 * of_int (m + 1) \<le> nsum e S (m + 1)"
proof (rule ccontr)
  assume "\<not> ?thesis"
  then have down: "nsum e S (m + 1) < 2 * of_int (m + 1)" by simp
  note b = bracketD [OF assms(1)]
  show False
  proof (cases "even m")
    case False
    then have "(2 * m + 1) * m \<le> (2 * m - 1) * (m + 1)"
      using up_from_root(1) [OF assms] down_to_root(2) [OF assms(1) down] by linarith
    then show False by (simp add: algebra_simps)
  next
    case True
    then obtain k where k: "m = 2 * k" by blast
    from up_from_root(2) [OF assms True] down_to_root(1) [OF assms(1) down]
    have "S = k * (4 * k + 3)" unfolding k by (simp add: algebra_simps)
    then have "2 ^ 23 dvd k * (4 * k + 3)" using b(4) by simp
    moreover have "coprime (2 ^ 23) (4 * k + 3)" by (simp only: coprime_power_left_iff coprime_left_2_iff_odd) simp
    ultimately have "2 ^ 23 dvd k" by (simp only: coprime_dvd_mult_left_iff)
    moreover have "0 < k" "k < 2 ^ 23" using b(5,6) k by simp_all
    ultimately show False using zdvd_not_zless by blast
  qed
qed

text \<open>Two above the root or more, the iteration decreases strictly.\<close>

lemma nsum_strict:
  assumes "bracket s e S m" "m + 2 \<le> k" "float24 (of_int k * 2 powi e)"
  shows "nsum e S k < 2 * of_int k"
proof -
  note b = bracketD [OF assms(1)]
  have k0: "0 < k" using assms(2) b(5) by simp
  have "m * (m + 2) \<le> m * k" using assms(2) b(5) by (intro mult_left_mono) simp_all
  then have "S \<le> m * k" using b(8) by (simp add: algebra_simps)
  then have "of_int S / of_int k \<le> (of_int m :: rat)" by (simp only: ratio_le_int [OF k0])
  from scaled_mono [OF this, of e] have q: "nquot e S k \<le> of_int m"
    using scaled_int(1) [of m e] b by (simp add: nquot_def)
  show ?thesis
  proof (cases "k \<le> 2 ^ 24")
    case True
    have "of_int m + 2 \<le> (of_int k :: rat)" using assms(2) by (metis of_int_add of_int_le_iff of_int_numeral)
    with q have "of_int k + nquot e S k \<le> 2 * of_int (k - 1)" by simp
    from scaled_mono [OF this, of e] have "nsum e S k \<le> 2 * of_int (k - 1)"
      using scaled_int(2) [of "k - 1" e] True k0 b by (simp add: nsum_def)
    then show ?thesis by simp
  next
    case False
    have "of_int k * 2 powi e = of_int k / 2 * (2 powi (e + 1) :: rat)" by (simp add: powi_succ)
    moreover have "2 ^ 23 \<le> (of_int k / 2 :: rat)" using False pow2_le_of_int [of 24 k] by simp
    ultimately obtain j where j: "of_int k / 2 = (of_int j :: rat)"
      using float24_integer [of "of_int k / 2" "e + 1"] assms(3) by metis
    then have "of_int k = (of_int (2 * j) :: rat)" by simp
    then have "k = 2 * j" by (simp only: of_int_eq_iff)
    then have "2 ^ 24 + 2 \<le> k" using False by simp
    then have k: "2 ^ 24 + 2 \<le> (of_int k :: rat)" using pow2_le_of_int [of 24 "k - 2"] by simp
    have m: "of_int m + 1 \<le> (2 ^ 24 :: rat)" using of_int_le_pow2 [of "m + 1" 24] b(6) by simp
    let ?y = "(of_int k + of_int m) * 2 powi e :: rat"
    have y0: "0 \<le> ?y" using k0 b(5) by simp
    have "1 / 2 ^ 60 \<le> (2 powi e :: rat)" using powi_mono2 [of "- 60" e] b(1) by (simp add: power_int_def power_one_over)
    then have "1 / 2 ^ 100 \<le> (2 powi e :: rat)" by simp
    also have "2 powi e \<le> ?y" using k b(5) by simp
    finally have "\<bar>fl ?y - ?y\<bar> \<le> ?y / 2 ^ 24" using y0 by (intro fl_abs_error) simp_all
    then have "fl ?y \<le> ?y + ?y / 2 ^ 24" by linarith
    also have "\<dots> = (of_int k + of_int m) * (1 + 1 / 2 ^ 24) * 2 powi e" by (simp add: distrib_left distrib_right)
    also have "\<dots> < 2 * of_int k * 2 powi e" using k m by (intro mult_strict_right_mono) simp_all
    finally have "scaled e (of_int k + of_int m) < 2 * of_int k"
      by (simp add: scaled_def pos_divide_less_eq)
    moreover have "nsum e S k \<le> scaled e (of_int k + of_int m)"
      unfolding nsum_def using q by (intro scaled_mono) simp
    ultimately show ?thesis by simp
  qed
qed

section \<open>The loop\<close>

lemma newton_step_scaled:
  assumes "bracket s e S m" "m \<le> k" "of_int k * 2 powi e \<le> (2 ^ 20 :: rat)"
  obtains k' where "newton_step s (of_int k * 2 powi e) = Some (of_int k' * 2 powi e)"
    "nsum e S k = 2 * of_int k'" "float24 (of_int k' * 2 powi e)" "m \<le> k'"
proof -
  note b = bracketD [OF assms(1)]
  let ?u = "2 powi e :: rat"
  have k0: "0 < k" using assms(2) b(5) by simp
  have u: "0 < ?u" "?u \<le> 1" using powi_mono2 [of e 0] b(2) by simp_all
  have "s / (of_int k * ?u) = of_int S / of_int k * ?u" using b(3) u by simp
  then have "fdiv s (of_int k * ?u) = Some (nquot e S k * ?u)"
    using k0 u by (simp add: fdiv_def nquot_def scaled_def)
  moreover have "fl (of_int k * ?u + nquot e S k * ?u) = nsum e S k * ?u"
    using u by (simp add: nsum_def scaled_def distrib_right)
  have "0 \<le> m * m" by simp
  then have "0 \<le> S" using b(7) by linarith
  then have q0: "0 \<le> nquot e S k" using k0 by (simp add: nquot_def scaled_def binary32.rnd_nonneg)
  have q: "nquot e S k \<le> 2 ^ 25"
  proof -
    have "S \<le> (m + 2) * m" using b(8) by (simp add: algebra_simps)
    also have "\<dots> \<le> 2 ^ 25 * k" using assms(2) b(5,6) by (intro mult_mono) simp_all
    finally have "of_int S / of_int k \<le> (of_int (2 ^ 25) :: rat)" by (simp only: ratio_le_int [OF k0])
    from scaled_mono [OF this, of e] show ?thesis
      using scaled_int(2) [of "2 ^ 24" e] b by (simp add: nquot_def)
  qed
  let ?y = "(of_int k + nquot e S k) * ?u"
  have "2 powi - 90 \<le> ?y"
  proof -
    have "2 powi - 90 \<le> 1 * (2 powi - 60 :: rat)" by (simp add: powi_mono2)
    also have "\<dots> \<le> of_int k * ?u" using k0 b(1) by (intro mult_mono powi_mono2) simp_all
    also have "\<dots> \<le> ?y" using q0 u by simp
    finally show ?thesis .
  qed
  moreover have "?y < 2 powi 100"
  proof -
    have "?y = of_int k * ?u + nquot e S k * ?u" by (simp add: distrib_right)
    also have "\<dots> \<le> 2 ^ 20 + 2 ^ 25 * 1" using q q0 u by (intro add_mono assms(3) mult_mono) simp_all
    also have "\<dots> < 2 powi 100" by simp
    finally show ?thesis .
  qed
  ultimately have f: "float24 (nsum e S k * ?u)" "float24 (nsum e S k / 2 * ?u)"
    using fl_float24 [of ?y] u by (simp_all add: nsum_def scaled_def)
  have "fdiv s (of_int k * ?u) = Some (nquot e S k * ?u)"
  proof -
    have "s / (of_int k * ?u) = of_int S / of_int k * ?u" using b(3) u by simp
    then show ?thesis using k0 u by (simp add: fdiv_def nquot_def scaled_def)
  qed
  moreover have "fl (of_int k * ?u + nquot e S k * ?u) = nsum e S k * ?u"
    using u by (simp add: nsum_def scaled_def distrib_right)
  ultimately have step: "newton_step s (of_int k * ?u) = Some (nsum e S k / 2 * ?u)"
    using float24_half [OF f(1)] by (simp add: newton_step_def)
  have ge: "2 * of_int m \<le> nsum e S k" by (rule nsum_ge [OF assms(1,2)])
  have "2 ^ 23 \<le> (of_int m :: rat)" using b(5) by (rule pow2_le_of_int)
  then have "2 ^ 23 \<le> nsum e S k / 2" using ge by simp
  then obtain k' where k': "nsum e S k / 2 = of_int k'" using float24_integer f(2) by blast
  then have "of_int m \<le> (of_int k' :: rat)" using ge by simp
  then have "m \<le> k'" by (simp only: of_int_le_iff)
  moreover have "nsum e S k = 2 * of_int k'" using k' by simp
  ultimately show thesis using that step f(2) unfolding k' by blast
qed

lemma step_changes:
  assumes "- 60 \<le> e"
  shows "(fl (of_int j * 2 powi e - of_int k * 2 powi e) > MINDIFF \<or>
      fl (of_int j * 2 powi e - of_int k * 2 powi e) < - MINDIFF) \<longleftrightarrow> j \<noteq> k"
proof -
  let ?u = "2 powi e :: rat"
  have "0 \<le> MINDIFF" unfolding MINDIFF_def by (intro binary64.rnd_nonneg) simp
  have "fl64 (225 / 10 ^ 310) \<le> fl64 (1 * 2 powi - 70)"
    by (intro binary64.rnd_mono) (simp add: power_int_def divide_simps)
  also have "\<dots> = 2 powi - 70" using binary64.rnd_exact [of 1 "- 70"] by simp
  also have "\<dots> < ?u" using assms by (intro power_int_strict_increasing) simp_all
  finally have "MINDIFF < ?u" by (simp add: MINDIFF_def)
  have pos: "?u \<le> fl (of_int d * ?u)" if "1 \<le> d" for d
  proof -
    have "1 * ?u \<le> of_int d * ?u" using that by (intro mult_right_mono) simp_all
    then have "fl (1 * ?u) \<le> fl (of_int d * ?u)" by (intro binary32.rnd_mono) simp
    then show ?thesis using binary32.rnd_exact [of 1 e] assms by simp
  qed
  have eq: "of_int j * ?u - of_int k * ?u = of_int (j - k) * ?u" by (simp add: left_diff_distrib)
  have neg: "fl (of_int (j - k) * ?u) = - fl (of_int (k - j) * ?u)"
    using binary32.rnd_minus [of "of_int (k - j) * ?u"] by (simp add: left_diff_distrib)
  consider "j = k" | "1 \<le> j - k" | "1 \<le> k - j" by linarith
  then show ?thesis
  proof cases
    case 1
    then show ?thesis using \<open>0 \<le> MINDIFF\<close> by simp
  next
    case 2
    then show ?thesis unfolding eq using pos [OF 2] \<open>MINDIFF < ?u\<close> by auto
  next
    case 3
    then show ?thesis unfolding eq neg using pos [OF 3] \<open>MINDIFF < ?u\<close> by auto
  qed
qed

lemma sqrt_loop_step:
  assumes "newton_step s (of_int k * 2 powi e) = Some (of_int k' * 2 powi e)" "- 60 \<le> e"
  shows "sqrt_loop s (of_int k * 2 powi e) =
    (if k' = k then Some (of_int k * 2 powi e) else sqrt_loop s (of_int k' * 2 powi e))"
  by (subst sqrt_loop.simps) (simp add: assms(1) step_changes [OF assms(2)])

lemma sqrt_loop_next:
  assumes "bracket s e S m" "of_int (m + 1) * 2 powi e \<le> (2 ^ 20 :: rat)" "2 * of_int m < nsum e S m"
  shows "sqrt_loop s (of_int (m + 1) * 2 powi e) = Some (of_int (m + 1) * 2 powi e)"
proof -
  note b = bracketD [OF assms(1)]
  have "m \<le> m + 1" by simp
  from newton_step_scaled [OF assms(1) this assms(2)] obtain k' where
    k': "newton_step s (of_int (m + 1) * 2 powi e) = Some (of_int k' * 2 powi e)"
    "nsum e S (m + 1) = 2 * of_int k'" .
  have "float24 (of_int (m + 1) * 2 powi e)"
  proof (cases "m + 1 = 2 ^ 24")
    case True
    then have "of_int (m + 1) * 2 powi e = of_int (2 ^ 23) * (2 powi (e + 1) :: rat)" by (simp add: powi_succ)
    then show ?thesis using float24I [of "2 ^ 23" "e + 1"] b(1) by simp
  next
    case False
    then show ?thesis using b by (intro float24I) simp_all
  qed
  from nsum_le [OF assms(1) order_refl this] no_alternation [OF assms(1,3)]
  have "of_int (m + 1) = (of_int k' :: rat)" using k'(2) by simp
  then have "k' = m + 1" by (simp only: of_int_eq_iff)
  then show ?thesis using sqrt_loop_step [OF k'(1) b(1)] by simp
qed

lemma sqrt_loop_root:
  assumes "bracket s e S m" "of_int (m + 1) * 2 powi e \<le> (2 ^ 20 :: rat)"
  shows "\<exists>y \<in> {m, m + 1}. sqrt_loop s (of_int m * 2 powi e) = Some (of_int y * 2 powi e)"
proof -
  note b = bracketD [OF assms(1)]
  have "of_int m * 2 powi e \<le> of_int (m + 1) * (2 powi e :: rat)" by simp
  then have "of_int m * 2 powi e \<le> (2 ^ 20 :: rat)" using assms(2) by linarith
  from newton_step_scaled [OF assms(1) order_refl this] obtain k' where
    k': "newton_step s (of_int m * 2 powi e) = Some (of_int k' * 2 powi e)"
    "nsum e S m = 2 * of_int k'" "m \<le> k'" .
  show ?thesis
  proof (cases "k' = m")
    case True
    then show ?thesis using sqrt_loop_step [OF k'(1) b(1)] by simp
  next
    case False
    have "of_int k' \<le> (of_int (m + 1) :: rat)" using nsum_at_root [OF assms(1)] k'(2) by simp
    then have "k' \<le> m + 1" by (simp only: of_int_le_iff)
    then have k: "k' = m + 1" using k'(3) False by simp
    then have "2 * of_int m < nsum e S m" using k'(2) by simp
    from sqrt_loop_next [OF assms this] show ?thesis
      using sqrt_loop_step [OF k'(1) b(1)] k by simp
  qed
qed

lemma sqrt_loop_above:
  assumes "bracket s e S m"
  shows "m + 1 \<le> k \<Longrightarrow> float24 (of_int k * 2 powi e) \<Longrightarrow> of_int k * 2 powi e \<le> (2 ^ 20 :: rat) \<Longrightarrow>
    \<exists>y \<in> {m, m + 1}. sqrt_loop s (of_int k * 2 powi e) = Some (of_int y * 2 powi e)"
proof (induction "nat (k - m)" arbitrary: k rule: less_induct)
  case less
  note b = bracketD [OF assms]
  have "m \<le> k" using less.prems by simp
  from newton_step_scaled [OF assms this less.prems(3)] obtain k' where
    k': "newton_step s (of_int k * 2 powi e) = Some (of_int k' * 2 powi e)"
    "nsum e S k = 2 * of_int k'" "float24 (of_int k' * 2 powi e)" "m \<le> k'" .
  have "of_int k' \<le> (of_int k :: rat)" using nsum_le [OF assms less.prems(1,2)] k'(2) by simp
  then have le: "k' \<le> k" by (simp only: of_int_le_iff)
  then have "of_int k' * 2 powi e \<le> of_int k * (2 powi e :: rat)" by (intro mult_right_mono) simp_all
  then have small: "of_int k' * 2 powi e \<le> (2 ^ 20 :: rat)" using less.prems(3) by linarith
  note step = sqrt_loop_step [OF k'(1) b(1)]
  have small1: "of_int (m + 1) * 2 powi e \<le> (2 ^ 20 :: rat)"
  proof -
    have "of_int (m + 1) * 2 powi e \<le> of_int k * (2 powi e :: rat)"
      using less.prems(1) by (intro mult_right_mono) (simp_all only: of_int_le_iff, simp)
    then show ?thesis using less.prems(3) by linarith
  qed
  consider "k' = k" | "k' = m" "k' \<noteq> k" | "m + 1 \<le> k'" "k' < k" using le k'(4) by linarith
  then show ?case
  proof cases
    case 1
    have "\<not> m + 2 \<le> k" using nsum_strict [OF assms _ less.prems(2)] k'(2) 1 by auto
    then have "k = m + 1" using less.prems(1) by simp
    then show ?thesis using step 1 by simp
  next
    case 2
    then show ?thesis using step sqrt_loop_root [OF assms small1] by simp
  next
    case 3
    then have "nat (k' - m) < nat (k - m)" by simp
    from less.hyps [OF this 3(1) k'(3) small] 3 show ?thesis using step by simp
  qed
qed

section \<open>The bracket of a float, and the square root\<close>

lemma normalize_24: "0 < k \<Longrightarrow> k < 2 ^ 24 \<Longrightarrow> \<exists>j. 2 ^ 23 \<le> k * 2 ^ j \<and> k * 2 ^ j < (2 ^ 24 :: int)"
proof (induction "nat (2 ^ 24 - k)" arbitrary: k rule: less_induct)
  case less
  show ?case
  proof (cases "2 ^ 23 \<le> k")
    case True
    then show ?thesis using less.prems by (intro exI [of _ 0]) simp
  next
    case False
    then have "nat (2 ^ 24 - 2 * k) < nat (2 ^ 24 - k)" using less.prems by simp
    from less.hyps [OF this] less.prems False obtain j where "2 ^ 23 \<le> 2 * k * 2 ^ j" "2 * k * 2 ^ j < 2 ^ 24"
      by auto
    then show ?thesis by (intro exI [of _ "Suc j"]) (simp add: mult.assoc mult.left_commute)
  qed
qed

lemma int_sqrt_exists: "0 \<le> S \<Longrightarrow> \<exists>m. 0 \<le> m \<and> m * m \<le> S \<and> S < (m + 1) * (m + 1)" for S :: int
proof (induction S rule: int_ge_induct)
  case base
  show ?case by (intro exI [of _ 0]) simp
next
  case (step S)
  then obtain m where m: "0 \<le> m" "m * m \<le> S" "S < (m + 1) * (m + 1)" by blast
  show ?case
  proof (cases "S + 1 < (m + 1) * (m + 1)")
    case True
    then show ?thesis using m by (intro exI [of _ m]) simp
  next
    case False
    then show ?thesis using m by (intro exI [of _ "m + 1"]) (simp add: algebra_simps)
  qed
qed

lemma bracket_exists:
  assumes "float24 s" "1 / 2 ^ 40 \<le> s" "s \<le> 1"
  shows "\<exists>e S m. bracket s e S m"
proof -
  obtain k0 f0 where k0: "0 \<le> k0" "k0 < 2 ^ 24" "s = of_int k0 * 2 powi f0"
    using assms(1) by (auto simp: float24_def)
  have "k0 \<noteq> 0" using assms(2) k0(3) by auto
  with k0 obtain j where j: "2 ^ 23 \<le> k0 * 2 ^ j" "k0 * 2 ^ j < 2 ^ 24" using normalize_24 [of k0] by auto
  define k where "k = k0 * 2 ^ j"
  define f where "f = f0 - int j"
  have "2 powi f0 = 2 ^ j * (2 powi f :: rat)" using powi_add2 [of "int j" f] by (simp add: f_def)
  then have s: "s = of_int k * 2 powi f" using k0(3) by (simp add: k_def)
  define i where "i = (if even f then 24 else 23 :: nat)"
  define e where "e = (f - int i) div 2"
  have e: "f = int i + (e + e)" by (cases "even f") (simp_all add: e_def i_def)
  define S where "S = k * 2 ^ i"
  have i: "i = 23 \<or> i = 24" by (simp add: i_def)
  have S: "2 ^ 46 \<le> S" "S < 2 ^ 48" "2 ^ 23 dvd S"
    using i j(1,2) by (auto simp: S_def k_def)
  have "2 powi f = 2 ^ i * (2 powi e * 2 powi e :: rat)" by (simp only: e powi_add2 power_int_of_nat)
  then have sS: "s = of_int S * (2 powi e * 2 powi e)" using s by (simp add: S_def)
  have Sr: "2 ^ 46 \<le> (of_int S :: rat)" "of_int S \<le> (2 ^ 48 :: rat)"
    using S by (intro pow2_le_of_int of_int_le_pow2; simp)+
  have "- 60 \<le> e"
  proof (rule ccontr)
    assume "\<not> ?thesis"
    then have "(2::rat) powi e \<le> 2 powi - 61" by (intro powi_mono2) simp
    then have "(2::rat) powi e * 2 powi e \<le> 2 powi - 61 * 2 powi - 61" by (intro mult_mono) simp_all
    from mult_mono [OF Sr(2) this] have "s \<le> 2 ^ 48 * (2 powi - 61 * 2 powi - 61)" unfolding sS by simp
    also have "\<dots> < 1 / 2 ^ 40" by (simp add: power_int_def power_divide)
    finally show False using assms(2) by simp
  qed
  moreover have "e \<le> 0"
  proof (rule ccontr)
    assume "\<not> ?thesis"
    then have "1 \<le> (2::rat) powi e" using powi_mono2 [of 0 e] by simp
    then have "1 * 1 \<le> (2::rat) powi e * 2 powi e" by (intro mult_mono) simp_all
    from mult_mono [OF Sr(1) this] have "2 ^ 46 \<le> s" unfolding sS using Sr by simp
    then show False using assms(3) by simp
  qed
  moreover have "0 \<le> S" using S(1) order_trans [of 0 "2 ^ 46" S] by simp
  from int_sqrt_exists [OF this] obtain m where m: "0 \<le> m" "m * m \<le> S" "S < (m + 1) * (m + 1)" by blast
  have "2 ^ 23 \<le> m"
  proof (rule ccontr)
    assume "\<not> ?thesis"
    then have "(m + 1) * (m + 1) \<le> 2 ^ 23 * 2 ^ 23" using m(1) by (intro mult_mono) simp_all
    then show False using m(3) S(1) by simp
  qed
  moreover have "m < 2 ^ 24"
  proof (rule ccontr)
    assume "\<not> ?thesis"
    then have "2 ^ 24 * 2 ^ 24 \<le> m * m" by (intro mult_mono) simp_all
    then show False using m(2) S(2) by simp
  qed
  ultimately have "bracket s e S m" using m S(3) sS by (simp add: bracket_def)
  then show ?thesis by blast
qed

text \<open>The first iteration starts below the root and lands above it.\<close>

lemma first_iteration:
  assumes "float24 s" "float24 (s / 2)" "float24 (s / 4)" "0 < s" "s \<le> 1"
  defines "r \<equiv> fl (fl64 (s / 3))"
  obtains w where "newton_step s r = Some (w / 2)" "2 \<le> w" "w \<le> 5" "float24 (w / 2)"
    "fl (w / 2 - r) > MINDIFF"
proof -
  have "s / 4 \<le> s / 3" "s / 3 \<le> s / 2" using assms(4) by simp_all
  then have "fl (fl64 (s / 4)) \<le> r" "r \<le> fl (fl64 (s / 2))"
    unfolding r_def by (intro binary32.rnd_mono binary64.rnd_mono; simp)+
  then have r: "s / 4 \<le> r" "r \<le> s / 2"
    using float24_half [OF assms(1)] float24_half [OF assms(2)] by simp_all
  then have r0: "0 < r" using assms(4) by simp
  let ?q = "fl (s / r)"
  have "2 \<le> s / r" "s / r \<le> 4" using r r0 by (simp_all add: pos_le_divide_eq pos_divide_le_eq)
  then have q: "2 \<le> ?q" "?q \<le> 4" using fl_ge_int [of 2 "s / r"] fl_le_int [of "s / r" 4] by simp_all
  let ?w = "fl (r + ?q)"
  have "2 \<le> r + ?q" "r + ?q \<le> 5" using q r r0 assms(5) by linarith+
  then have w: "2 \<le> ?w" "?w \<le> 5" using fl_ge_int [of 2 "r + ?q"] fl_le_int [of "r + ?q" 5] by simp_all
  have "2 powi - 90 \<le> r + ?q" "r + ?q < 2 powi 100"
    using \<open>2 \<le> r + ?q\<close> \<open>r + ?q \<le> 5\<close> powi_mono2 [of "- 90" 0] by (simp_all add: power_int_def)
  then have f: "float24 ?w" "float24 (?w / 2)" by (rule fl_float24)+
  have "newton_step s r = Some (?w / 2)"
    using r0 float24_half [OF f(1)] by (simp add: newton_step_def fdiv_def)
  moreover have "1 / 2 \<le> ?w / 2 - r" using w r assms(5) by linarith
  then have "fl (1 / 2) \<le> fl (?w / 2 - r)" by (rule binary32.rnd_mono)
  moreover have "fl (1 / 2) = 1 / 2" using fl_quarter [of 8] by simp
  moreover have "MINDIFF \<le> fl64 (1 / 4)" unfolding MINDIFF_def by (intro binary64.rnd_mono) (simp add: divide_simps)
  moreover have "fl64 (1 / 4) = 1 / 4" using binary64.rnd_exact [of 1 "- 2"] by (simp add: power_int_def power2_eq_square)
  ultimately show thesis using that w f(2) by simp
qed

lemma sqrt_loop_enters:
  assumes "bracket s e S m" "float24 s" "float24 (s / 2)" "float24 (s / 4)" "0 < s" "s \<le> 1"
  shows "\<exists>y \<in> {m, m + 1}. sqrt_loop s (fl (fl64 (s / 3))) = Some (of_int y * 2 powi e)"
proof -
  note b = bracketD [OF assms(1)]
  let ?u = "2 powi e :: rat" and ?r = "fl (fl64 (s / 3))"
  have u: "0 < ?u" "?u \<le> 1" using powi_mono2 [of e 0] b(2) by simp_all
  obtain w where w: "newton_step s ?r = Some (w / 2)" "2 \<le> w" "w \<le> 5" "float24 (w / 2)"
    "fl (w / 2 - ?r) > MINDIFF" using first_iteration [OF assms(2-6)] .
  have loop: "sqrt_loop s ?r = sqrt_loop s (w / 2)" by (subst sqrt_loop.simps) (simp add: w(1,5))
  have root1: "of_int m * ?u \<le> 1"
  proof (rule ccontr)
    assume gt: "\<not> ?thesis"
    then have "1 * 1 < of_int m * ?u * (of_int m * ?u)" by (intro mult_strict_mono) simp_all
    also have "\<dots> = of_int (m * m) * (?u * ?u)" by simp
    also have "\<dots> \<le> of_int S * (?u * ?u)" using b(7) by (intro mult_right_mono) (simp_all only: of_int_le_iff, simp)
    also have "\<dots> = s" using b(3) by simp
    finally show False using assms(6) by simp
  qed
  then have "of_int m \<le> 1 / ?u" using u by (simp add: pos_le_divide_eq)
  also have "\<dots> \<le> w / 2 / ?u" using w(2) u by (intro divide_right_mono) simp_all
  finally have ge: "of_int m \<le> w / 2 / ?u" .
  have "2 ^ 23 \<le> (of_int m :: rat)" using b(5) by (rule pow2_le_of_int)
  then have "2 ^ 23 \<le> w / 2 / ?u" using ge by linarith
  moreover have "w / 2 / ?u * ?u = w / 2" using u by simp
  ultimately obtain k where k: "w / 2 / ?u = of_int k" using float24_integer [of "w / 2 / ?u" e] w(4) by metis
  then have wk: "w / 2 = of_int k * ?u" using u by (simp add: field_simps)
  have "of_int m \<le> (of_int k :: rat)" using ge k by simp
  then have mk: "m \<le> k" by (simp only: of_int_le_iff)
  have "of_int (m + 1) * ?u = of_int m * ?u + ?u" by (simp add: distrib_right)
  also have "\<dots> \<le> 1 + 1" using root1 u by linarith
  finally have small: "of_int (m + 1) * ?u \<le> 2 ^ 20" by simp
  show ?thesis
  proof (cases "k = m")
    case True
    then show ?thesis using sqrt_loop_root [OF assms(1) small] loop wk by simp
  next
    case False
    then have "m + 1 \<le> k" using mk by simp
    moreover have "float24 (of_int k * ?u)" using w(4) wk by simp
    moreover have "of_int k * ?u \<le> 2 ^ 20" using w(3) wk by simp
    ultimately show ?thesis using sqrt_loop_above [OF assms(1)] loop wk by simp
  qed
qed

text \<open>
  For every argument the code can have, the loop ends, and its result is next to the exact root:
  one unit in the last place down or up encloses it.
\<close>

lemma c_sqrt_faithful:
  assumes "float24 s" "float24 (s / 2)" "float24 (s / 4)" "1 / 2 ^ 40 \<le> s" "s \<le> 1"
  obtains r where "c_sqrt s = Some r" "0 < r" "r \<le> 1 + 1 / 2 ^ 23"
    "(r * (1 - 1 / 2 ^ 23)) * (r * (1 - 1 / 2 ^ 23)) \<le> s" "s \<le> (r * (1 + 1 / 2 ^ 23)) * (r * (1 + 1 / 2 ^ 23))"
proof -
  have s0: "0 < s" using assms(4) less_le_trans [of 0 "1 / 2 ^ 40" s] by simp
  obtain e S m where br: "bracket s e S m" using bracket_exists [OF assms(1,4,5)] by blast
  note b = bracketD [OF br]
  let ?u = "2 powi e :: rat"
  obtain y where y: "y = m \<or> y = m + 1" "sqrt_loop s (fl (fl64 (s / 3))) = Some (of_int y * ?u)"
    using sqrt_loop_enters [OF br assms(1-3) s0 assms(5)] by blast
  let ?r = "of_int y * ?u"
  have "2 ^ 23 \<le> (of_int m :: rat)" using b(5) by (rule pow2_le_of_int)
  moreover have ym: "of_int m \<le> (of_int y :: rat)" "of_int y \<le> (of_int m + 1 :: rat)" using y(1) by auto
  ultimately have yu: "1 \<le> (of_int y :: rat) / 2 ^ 23" by simp
  have u: "0 < ?u" by simp
  have below: "of_int m * ?u * (of_int m * ?u) \<le> s"
  proof -
    have "of_int (m * m) * (?u * ?u) \<le> of_int S * (?u * ?u)"
      using b(7) by (intro mult_right_mono) (simp_all only: of_int_le_iff, simp)
    then show ?thesis using b(3) by (simp add: mult.assoc mult.left_commute)
  qed
  have above: "s \<le> of_int (m + 1) * ?u * (of_int (m + 1) * ?u)"
  proof -
    have "of_int S * (?u * ?u) \<le> of_int ((m + 1) * (m + 1)) * (?u * ?u)"
      using b(8) by (intro mult_right_mono) (simp_all only: of_int_le_iff, simp_all)
    then show ?thesis using b(3) by (simp only: of_int_mult mult.assoc mult.left_commute)
  qed
  have "?r * (1 - 1 / 2 ^ 23) = (of_int y - of_int y / 2 ^ 23) * ?u" by (simp add: algebra_simps)
  also have "\<dots> \<le> of_int m * ?u" using ym yu u by (intro mult_right_mono) linarith+
  finally have lo: "?r * (1 - 1 / 2 ^ 23) \<le> of_int m * ?u" .
  have "of_int (m + 1) * ?u \<le> (of_int y + of_int y / 2 ^ 23) * ?u"
  proof (intro mult_right_mono)
    show "of_int (m + 1) \<le> of_int y + of_int y / (2 ^ 23 :: rat)" using ym yu unfolding of_int_add of_int_1 by linarith
  qed simp
  also have "\<dots> = ?r * (1 + 1 / 2 ^ 23)" by (simp add: algebra_simps)
  finally have hi: "of_int (m + 1) * ?u \<le> ?r * (1 + 1 / 2 ^ 23)" .
  have mu: "0 \<le> of_int m * ?u" using b(5) by simp
  have ry: "0 \<le> ?r * (1 - 1 / 2 ^ 23)" using yu u by simp
  have "of_int m * ?u \<le> 1"
  proof (rule ccontr)
    assume "\<not> ?thesis"
    then have "1 * 1 < of_int m * ?u * (of_int m * ?u)" by (intro mult_strict_mono) simp_all
    then show False using below assms(5) by simp
  qed
  then have m1: "of_int m * ?u * (1 + 1 / 2 ^ 23) \<le> 1 * (1 + 1 / 2 ^ 23)" by (rule mult_right_mono) simp
  have "?r \<le> (of_int m + of_int m / 2 ^ 23) * ?u"
  proof (intro mult_right_mono)
    show "of_int y \<le> of_int m + of_int m / (2 ^ 23 :: rat)"
      using ym pow2_le_of_int [OF b(5)] by simp
  qed simp
  also have "\<dots> = of_int m * ?u * (1 + 1 / 2 ^ 23)" by (simp add: algebra_simps)
  also note m1
  finally have r1: "?r \<le> 1 + 1 / 2 ^ 23" by simp
  have "c_sqrt s = Some ?r" using y(2) s0 by (simp add: c_sqrt_def)
  moreover have "0 < ?r" using yu u by simp
  moreover have "(?r * (1 - 1 / 2 ^ 23)) * (?r * (1 - 1 / 2 ^ 23)) \<le> s"
    using mult_mono [OF lo lo mu ry] below by (rule order_trans)
  moreover have "s \<le> (?r * (1 + 1 / 2 ^ 23)) * (?r * (1 + 1 / 2 ^ 23))"
  proof (rule order_trans [OF above])
    have "0 \<le> of_int (m + 1) * ?u" using b(5) by simp
    from mult_mono [OF hi hi order_trans [OF this hi] this]
    show "of_int (m + 1) * ?u * (of_int (m + 1) * ?u) \<le>
      (?r * (1 + 1 / 2 ^ 23)) * (?r * (1 + 1 / 2 ^ 23))" .
  qed
  ultimately show thesis using that r1 by blast
qed

section \<open>Linear lightness to actual lightness\<close>

text \<open>The argument \<open>(float) val / UINT16_MAX\<close> of the square root.\<close>

lemma unit_fraction_float24:
  assumes "1 \<le> v" "v \<le> 65535"
  defines "s \<equiv> fl (of_int v / 65535)"
  shows "float24 s" "float24 (s / 2)" "float24 (s / 4)" "1 / 2 ^ 40 \<le> s" "s \<le> 1"
    "65535 * (65535 * s) \<le> 65535 * of_int v + 65535 * of_int v / 16777216"
    "65535 * of_int v - 65535 * of_int v / 16777216 \<le> 65535 * (65535 * s)"
proof -
  let ?x = "of_int v / 65535 :: rat"
  have v: "1 \<le> (of_int v :: rat)" "of_int v \<le> (65535 :: rat)" using assms by simp_all
  have "1 / 2 ^ 40 \<le> ?x" "?x \<le> 1" using v by simp_all
  have p40: "(2::rat) powi - 40 = 1 / 2 ^ 40" by (simp add: power_int_def power_divide)
  have "fl (1 * 2 powi - 40) \<le> s" unfolding s_def
    using \<open>1 / 2 ^ 40 \<le> ?x\<close> p40 by (intro binary32.rnd_mono) simp
  then show s40: "1 / 2 ^ 40 \<le> s" using binary32.rnd_exact [of 1 "- 40"] p40 by simp
  show s1: "s \<le> 1" unfolding s_def using fl_le_int [of ?x 1] \<open>?x \<le> 1\<close> by simp
  have "2 powi - 90 \<le> ?x" "?x < 2 powi 100"
    using \<open>1 / 2 ^ 40 \<le> ?x\<close> \<open>?x \<le> 1\<close> p40 powi_mono2 [of "- 90" "- 40"] by simp_all
  then show f: "float24 s" "float24 (s / 2)" unfolding s_def by (rule fl_float24)+
  obtain k g where k: "0 \<le> k" "k < 2 ^ 24" "- 114 \<le> g" "s = of_int k * 2 powi g"
    using fl_float24_form [OF \<open>2 powi - 90 \<le> ?x\<close> \<open>?x < 2 powi 100\<close>] unfolding s_def by blast
  have "s / 4 = of_int k * 2 powi (g - 1 - 1)" unfolding k(4) powi_pred by simp
  moreover have "float24 (of_int k * 2 powi (g - 1 - 1))" using k by (intro float24I) simp_all
  ultimately show "float24 (s / 4)" by metis
  have "\<bar>s - ?x\<bar> \<le> ?x / 2 ^ 24" unfolding s_def using v by (intro fl_abs_error) simp_all
  then have "\<bar>s - ?x\<bar> \<le> ?x / 16777216" by simp
  then show "65535 * (65535 * s) \<le> 65535 * of_int v + 65535 * of_int v / 16777216"
    "65535 * of_int v - 65535 * of_int v / 16777216 \<le> 65535 * (65535 * s)" by linarith+
qed

text \<open>
  The arithmetic of the last step, free of floats: \<open>r\<close> is the computed root, \<open>t\<close> is
  \<open>65535 * r\<close> after rounding.
\<close>

lemma square_bounds_below:
  fixes c w X :: rat
  assumes "c + 63 / 64 \<le> w" "w * w \<le> X + X / 16777216" "0 \<le> c" "c \<le> 65536"
  shows "c * c \<le> X"
proof (rule ccontr)
  assume "\<not> ?thesis"
  then have gt: "X < c * c" by simp
  have "(c + 63 / 64) * (c + 63 / 64) \<le> w * w" using assms by (intro mult_mono) simp_all
  then have "c * c + 63 / 32 * c + 63 / 64 * (63 / 64) \<le> w * w" by (simp add: algebra_simps)
  moreover have "c * c \<le> c * 65536" using assms by (intro mult_left_mono) simp_all
  ultimately show False using gt assms(2,3) by linarith
qed

lemma square_bounds_above:
  fixes a w X :: rat
  assumes "w \<le> a + 1 + 1 / 32" "X - X / 16777216 \<le> w * w" "0 < w" "w \<le> 65537"
  shows "X < (a + 2) * (a + 2)"
proof -
  have "w * w \<le> w * 65537" using assms by (intro mult_left_mono) simp_all
  moreover have "0 < w * w" using assms(3) by simp
  ultimately have "X \<le> w * w + w" using assms(2,3) by linarith
  also have "\<dots> < w * w + 31 / 16 * w + 31 / 32 * (31 / 32)" using assms(3) by simp
  also have "\<dots> = (w + 31 / 32) * (w + 31 / 32)" by (simp add: algebra_simps)
  also have "\<dots> \<le> (a + 2) * (a + 2)" using assms(1,3) by (intro mult_mono) simp_all
  finally show ?thesis .
qed

lemma root_rounding:
  fixes A t r s X :: rat
  assumes "A \<le> t" "t < A + 1" "\<bar>t - 65535 * r\<bar> \<le> 1 / 256" "0 < r" "r \<le> 1 + 1 / 8388608" "A \<le> 65535"
    and "(r * (1 - 1 / 8388608)) * (r * (1 - 1 / 8388608)) \<le> s" "s \<le> (r * (1 + 1 / 8388608)) * (r * (1 + 1 / 8388608))"
    and "65535 * (65535 * s) \<le> X + X / 16777216" "X - X / 16777216 \<le> 65535 * (65535 * s)"
  shows "1 \<le> A \<Longrightarrow> (A - 1) * (A - 1) \<le> X" "X < (A + 2) * (A + 2)"
proof -
  define T where "T = 65535 * r"
  have T: "0 < T" "T \<le> 65535 + 1 / 64" "\<bar>t - T\<bar> \<le> 1 / 256" using assms(3-5) by (simp_all add: T_def)
  define w where "w = T - T / 8388608"
  define w' where "w' = T + T / 8388608"
  have "w * w = 65535 * (65535 * ((r * (1 - 1 / 8388608)) * (r * (1 - 1 / 8388608))))"
    by (simp add: w_def T_def algebra_simps)
  then have W: "w * w \<le> X + X / 16777216" using assms(7,9) by linarith
  have "w' * w' = 65535 * (65535 * ((r * (1 + 1 / 8388608)) * (r * (1 + 1 / 8388608))))"
    by (simp add: w'_def T_def algebra_simps)
  then have W': "X - X / 16777216 \<le> w' * w'" using assms(8,10) by linarith
  have "A - 1 + 63 / 64 \<le> w" unfolding w_def using T assms(1) by linarith
  from square_bounds_below [OF this W] show "(A - 1) * (A - 1) \<le> X" if "1 \<le> A"
    using that assms(6) by simp
  have "w' \<le> A + 1 + 1 / 32" "w' \<le> 65537" "0 < w'" unfolding w'_def using T assms(2) by linarith+
  then show "X < (A + 2) * (A + 2)" using W' square_bounds_above by blast
qed

lemma linear_to_actual_nonzero:
  assumes "v \<noteq> 0"
  shows "\<exists>a. linear_to_actual v = Some a \<and>
    (uint a - 1) * (uint a - 1) \<le> 65535 * uint v \<and> 65535 * uint v < (uint a + 2) * (uint a + 2)"
proof -
  have v: "1 \<le> uint v" "uint v \<le> 65535"
    using assms uint_ge_0 [of v] uint_0_iff [of v] by (simp_all, linarith)
  let ?s = "fl (of_int (uint v) / 65535)"
  note s = unit_fraction_float24 [OF v]
  obtain r where r: "c_sqrt ?s = Some r" "0 < r" "r \<le> 1 + 1 / 2 ^ 23"
    "(r * (1 - 1 / 2 ^ 23)) * (r * (1 - 1 / 2 ^ 23)) \<le> ?s" "?s \<le> (r * (1 + 1 / 2 ^ 23)) * (r * (1 + 1 / 2 ^ 23))"
    using c_sqrt_faithful [OF s(1-5)] .
  let ?T = "65535 * r" and ?X = "65535 * of_int (uint v) :: rat"
  let ?t = "fl ?T"
  have T: "0 < ?T" "?T \<le> 65535 + 1 / 64" using r(2,3) by simp_all
  have "\<bar>?T\<bar> \<le> 65536" using T by linarith
  then have tT: "\<bar>?t - ?T\<bar> \<le> 1 / 256" by (rule fl_error_65535)
  have t: "0 \<le> ?t" using T by (intro binary32.rnd_nonneg) simp
  have "?t < 65536" using T tT by linarith
  note t = t this
  let ?a = "\<lfloor>?t\<rfloor>"
  have a: "0 \<le> ?a" "?a \<le> 65535" using t by (simp_all add: floor_le_iff)
  have "float_to_u16 ?t = Some (word_of_int ?a)"
    using a t by (simp add: float_to_u16_def float_to_int_def c_trunc_nonneg)
  then have def: "linear_to_actual v = Some (word_of_int ?a)" using r(1) by (simp add: linear_to_actual_def)
  have ua: "uint (word_of_int ?a :: u16) = ?a" using a by (rule uint_of_int_u16)
  note S = s(6,7)
  have "1 \<le> (of_int (uint v) :: rat)" using v(1) by (simp only: of_int_1_le_iff)
  then have X1: "65535 \<le> ?X" by linarith
  have p23: "(2::rat) ^ 23 = 8388608" by simp
  have a65: "(of_int ?a :: rat) \<le> 65535" using a(2) by (metis of_int_le_iff of_int_numeral)
  have "?t < of_int ?a + 1" using floor_correct [of ?t] by simp
  have "(of_int ?a - 1) * (of_int ?a - 1) \<le> ?X"
  proof (cases "1 \<le> ?a")
    case True
    then have "1 \<le> (of_int ?a :: rat)" by (simp only: of_int_1_le_iff)
    then show ?thesis using root_rounding(1) [OF of_int_floor_le \<open>?t < of_int ?a + 1\<close> tT r(2) _ a65 _ _ S] r(3-5) p23 by simp
  next
    case False
    then have "?a = 0" using a(1) by linarith
    then show ?thesis using X1 by simp
  qed
  then have "of_int ((?a - 1) * (?a - 1)) \<le> (of_int (65535 * uint v) :: rat)" by simp
  then have lo: "(?a - 1) * (?a - 1) \<le> 65535 * uint v" by (simp only: of_int_le_iff)
  have "?X < (of_int ?a + 2) * (of_int ?a + 2)"
    using root_rounding(2) [OF of_int_floor_le \<open>?t < of_int ?a + 1\<close> tT r(2) _ a65 _ _ S] r(3-5) p23 by simp
  then have "of_int (65535 * uint v) < (of_int ((?a + 2) * (?a + 2)) :: rat)" by simp
  then have hi: "65535 * uint v < (?a + 2) * (?a + 2)" by (simp only: of_int_less_iff)
  from def lo hi show ?thesis using ua by simp
qed

lemma linear_to_actual_0: "linear_to_actual 0 = Some 0"
  by (simp add: linear_to_actual_def c_sqrt_def float_to_u16_def float_to_int_def c_trunc_def)

lemma linear_to_actual_defined: "\<exists>a. linear_to_actual v = Some a"
  using linear_to_actual_nonzero [of v] linear_to_actual_0 by (cases "v = 0") auto

section \<open>Actual lightness to linear lightness\<close>

lemma c_ceiling_nonneg:
  assumes "0 \<le> x" "x \<le> 65535"
  shows "c_ceiling x = Some \<lceil>x\<rceil>"
proof -
  have fx: "0 \<le> \<lfloor>x\<rfloor>" "\<lfloor>x\<rfloor> \<le> 65535" using assms by (simp_all add: floor_le_iff)
  then have f: "float_to_s32 x = Some \<lfloor>x\<rfloor>"
    using assms by (simp add: float_to_s32_def float_to_int_def c_trunc_nonneg)
  have e: "fl (of_int \<lfloor>x\<rfloor>) = (of_int \<lfloor>x\<rfloor> :: rat)" using fx by (intro fl_of_int) simp
  show ?thesis
  proof (cases "x = of_int \<lfloor>x\<rfloor>")
    case True
    then have "\<lceil>x\<rceil> = \<lfloor>x\<rfloor>" by (metis ceiling_of_int)
    then show ?thesis using f e True by (simp add: c_ceiling_def)
  next
    case False
    then have "\<lceil>x\<rceil> = \<lfloor>x\<rfloor> + 1" by linarith
    then show ?thesis using f e False fx by (simp add: c_ceiling_def)
  qed
qed

lemma square_fraction_error:
  fixes y :: rat
  assumes "0 \<le> y" "y \<le> 1"
  defines "t \<equiv> fl y"
  defines "x \<equiv> fl (fl (65535 * t) * t)"
  shows "0 \<le> x" "x \<le> 65535" "\<bar>x - 65535 * (y * y)\<bar> \<le> 1 / 64"
proof -
  have t: "0 \<le> t" "t \<le> 1" using assms fl_le_int [of y 1] by (simp_all add: binary32.rnd_nonneg)
  have ty: "\<bar>t - y\<bar> \<le> 1 / 2 ^ 24" unfolding t_def using assms by (intro fl_abs_error) simp_all
  let ?p = "fl (65535 * t)"
  have p: "0 \<le> ?p" "?p \<le> 65535" using t fl_le_int [of "65535 * t" 65535] by (simp_all add: binary32.rnd_nonneg)
  have pt: "\<bar>?p - 65535 * t\<bar> \<le> 1 / 256" using t by (intro fl_error_65535) simp
  have m: "0 \<le> ?p * t" "?p * t \<le> 65535" using p t mult_mono [of ?p 65535 t 1] by simp_all
  then show "0 \<le> x" "x \<le> 65535" unfolding x_def using fl_le_int [of "?p * t" 65535] by (simp_all add: binary32.rnd_nonneg)
  have xm: "\<bar>x - ?p * t\<bar> \<le> 1 / 256" unfolding x_def using m by (intro fl_error_65535) simp
  have "\<bar>?p * t - 65535 * t * t\<bar> = \<bar>?p - 65535 * t\<bar> * t" using t by (simp add: abs_mult flip: left_diff_distrib)
  also have "\<dots> \<le> 1 / 256 * 1" using pt t by (intro mult_mono) simp_all
  finally have e1: "\<bar>?p * t - 65535 * (t * t)\<bar> \<le> 1 / 256" by (simp add: mult.assoc)
  have "t * t - y * y = (t - y) * (t + y)" by (simp add: algebra_simps)
  then have "\<bar>t * t - y * y\<bar> = \<bar>t - y\<bar> * (t + y)" using t assms(1) by (simp only: abs_mult abs_of_nonneg add_nonneg_nonneg)
  also have "\<dots> \<le> 1 / 2 ^ 24 * 2" using ty t assms by (intro mult_mono) simp_all
  finally have "\<bar>t * t - y * y\<bar> \<le> 1 / 8388608" by simp
  then show "\<bar>x - 65535 * (y * y)\<bar> \<le> 1 / 64" using xm e1 by linarith
qed

lemma actual_to_linear_value:
  obtains l where "actual_to_linear v = Some l"
    "of_int (uint v * uint v) / 65535 - 1 / 64 \<le> (of_int (uint l) :: rat)"
    "of_int (uint l) < of_int (uint v * uint v) / 65535 + (1 + 1 / 64 :: rat)"
proof -
  let ?y = "of_int (uint v) / 65535 :: rat"
  have v: "0 \<le> (of_int (uint v) :: rat)" "(of_int (uint v) :: rat) \<le> 65535"
    using uint_ge_0 [of v] uint_le_65535 [of v] by (metis of_int_0_le_iff) (metis uint_le_65535 of_int_le_iff of_int_numeral)
  have y: "0 \<le> ?y" "?y \<le> 1" using v by simp_all
  let ?x = "fl (fl (65535 * fl ?y) * fl ?y)"
  note x = square_fraction_error [OF y]
  have c: "0 \<le> \<lceil>?x\<rceil>" "\<lceil>?x\<rceil> \<le> 65535" using x(1,2) by (simp_all add: ceiling_le_iff)
  have "actual_to_linear v = Some (word_of_int \<lceil>?x\<rceil>)"
    using c_ceiling_nonneg [OF x(1,2)] by (simp add: actual_to_linear_def Let_def)
  moreover have "uint (word_of_int \<lceil>?x\<rceil> :: u16) = \<lceil>?x\<rceil>" using c by (rule uint_of_int_u16)
  moreover have "of_int (uint v * uint v) / 65535 - 1 / 64 \<le> (of_int \<lceil>?x\<rceil> :: rat)"
    "(of_int \<lceil>?x\<rceil> :: rat) < of_int (uint v * uint v) / 65535 + (1 + 1 / 64)"
  proof -
    have near: "\<bar>?x - of_int (uint v * uint v) / 65535\<bar> \<le> 1 / 64"
    proof -
      have "65535 * (?y * ?y) = of_int (uint v * uint v) / 65535" by simp
      then show ?thesis using x(3) by metis
    qed
    have lower: "w - 1 / 64 \<le> z" if "u \<le> z" "\<bar>u - w\<bar> \<le> 1 / 64" for z u w :: rat using that by linarith
    have upper: "z < w + (1 + 1 / 64)" if "z < u + 1" "\<bar>u - w\<bar> \<le> 1 / 64" for z u w :: rat using that by linarith
    show "of_int (uint v * uint v) / 65535 - 1 / 64 \<le> (of_int \<lceil>?x\<rceil> :: rat)"
      by (rule lower [OF le_of_int_ceiling near])
    show "(of_int \<lceil>?x\<rceil> :: rat) < of_int (uint v * uint v) / 65535 + (1 + 1 / 64)"
      by (rule upper [OF _ near]) linarith
  qed
  ultimately show thesis using that by metis
qed

end
