(* ===== verification/SetServer.thy ===== *)
theory SetServer
  imports Ramp Newton
begin

text \<open>
  What the message handlers of device_composition.c have in common: the test for a
  retransmitted transaction, the optional transition fields at the end of a set message, the
  bookkeeping that opens a transition, and the parts of a status message.
\<close>

unbundle bit_operations_syntax

type_synonym handler = "model \<Rightarrow> env \<Rightarrow> msg_ctx \<Rightarrow> u8 list \<Rightarrow> node \<Rightarrow> node option"

definition tid_repeated :: "env \<Rightarrow> msg_ctx \<Rightarrow> u8 \<Rightarrow> node \<Rightarrow> bool" where
  "tid_repeated e cx tid n \<longleftrightarrow>
     c_last_tid n = tid \<and> c_last_src_addr n = cx_addr cx \<and> c_last_dst_addr n = cx_recv_dst cx \<and>
     e_now e - c_last_msg_timestamp n \<le> 6000"

text \<open>
  The switch on \<open>buf->len\<close>: \<open>None\<close> is the early return, otherwise the transition time and the
  delay. The default transition time is \<open>ctl->tt\<close>.
\<close>

fun opt_fields :: "u8 \<Rightarrow> u8 list \<Rightarrow> (u8 \<times> u8) option" where
  "opt_fields def_tt [] = Some (def_tt, 0)"
| "opt_fields def_tt [tt, delay] = (if tt AND 0x3F = 0x3F then None else Some (tt, delay))"
| "opt_fields def_tt _ = None"

definition begin_transition :: "env \<Rightarrow> msg_ctx \<Rightarrow> u8 \<Rightarrow> u8 \<Rightarrow> u8 \<Rightarrow> u8 \<Rightarrow> node \<Rightarrow> node" where
  "begin_transition e cx tid tt delay ty n =
     (let n = k_timer_stop (set_counter 0 n)
      in n\<lparr>c_last_tid := tid, c_last_src_addr := cx_addr cx, c_last_dst_addr := cx_recv_dst cx,
           c_last_msg_timestamp := e_now e,
           trans := (trans n)\<lparr>tr_tt := tt, tr_delay := delay, tr_type := ty\<rparr>\<rparr>)"

text \<open>
  The 16-bit fields of a status message, and its optional tail: the target and the remaining
  time, which the handler computes into \<open>transition->rt\<close> first.
\<close>

definition cur16 :: "state_binding \<Rightarrow> node \<Rightarrow> u8 list option" where
  "cur16 ty n = map_option (\<lambda>i. le16 (word_of_int i)) (get_current ty n)"

definition tgt16 :: "state_binding \<Rightarrow> node \<Rightarrow> u8 list option" where
  "tgt16 ty n = map_option (\<lambda>i. le16 (word_of_int i)) (get_target ty n)"

text \<open>Two adjacent 16-bit fields of a status message.\<close>

definition cur32 :: "state_binding \<Rightarrow> state_binding \<Rightarrow> node \<Rightarrow> u8 list option" where
  "cur32 a b n = do { x \<leftarrow> cur16 a n; y \<leftarrow> cur16 b n; Some (x @ y) }"

definition tgt32 :: "state_binding \<Rightarrow> state_binding \<Rightarrow> node \<Rightarrow> u8 list option" where
  "tgt32 a b n = do { x \<leftarrow> tgt16 a n; y \<leftarrow> tgt16 b n; Some (x @ y) }"

definition add_target ::
  "env \<Rightarrow> bool \<Rightarrow> (node \<Rightarrow> u8 list option) \<Rightarrow> u8 list \<Rightarrow> node \<Rightarrow> (u8 list \<times> node) option" where
  "add_target e b target p n =
     (if b
      then let n = n\<lparr>trans := calculate_rt (e_rt_now e) (trans n)\<rparr>
           in target n \<bind> (\<lambda>ts. Some (p @ ts @ [tr_rt (trans n)], n))
      else Some (p, n))"

section \<open>Status messages report and change nothing\<close>

lemma node_okD:
  assumes "node_ok n"
  shows "temp_range_ok n"
    "tm_range_min (temp n) \<le> tm_current (temp n)" "tm_current (temp n) \<le> tm_range_max (temp n)"
    "tm_range_min (temp n) \<le> tm_target (temp n)" "tm_target (temp n) \<le> tm_range_max (temp n)"
  using assms by (simp_all add: node_ok_def)

lemma level_temp_defined:
  assumes "node_ok n"
  shows "\<exists>i. light_ctl_temp_to_level n (tm_current (temp n)) = Some i"
    "\<exists>i. light_ctl_temp_to_level n (tm_target (temp n)) = Some i"
  using light_ctl_temp_to_level_defined [of n] node_okD [OF assms] by metis+

lemma actual_to_linear_defined: "\<exists>i. actual_to_linear v = Some i"
  using actual_to_linear_value by metis

lemma get_current_defined: "node_ok n \<Longrightarrow> \<exists>i. get_current ty n = Some i"
  using level_temp_defined(1) [of n] actual_to_linear_defined [of "lt_current (light n)"]
  by (cases ty) (auto simp: get_current_def)

lemma get_target_defined: "node_ok n \<Longrightarrow> \<exists>i. get_target ty n = Some i"
  using level_temp_defined(2) [of n] actual_to_linear_defined [of "lt_target (light n)"]
  by (cases ty) (auto simp: get_target_def)

lemma cur16_returns: "node_ok n \<Longrightarrow> returns (cur16 ty n) (\<lambda>p. length p = 2)"
  using get_current_defined [of n ty] by (auto simp: cur16_def)

lemma tgt16_returns: "node_ok n \<Longrightarrow> returns (tgt16 ty n) (\<lambda>p. length p = 2)"
  using get_target_defined [of n ty] by (auto simp: tgt16_def)

text \<open>The payload of a status grows by the target and one byte; the state is reported only.\<close>

lemma add_target_returns:
  assumes "node_ok n" "\<And>m. node_ok m \<Longrightarrow> returns (t m) (\<lambda>ts. length ts = k)"
  shows "returns (add_target e b t p n) (\<lambda>(p', n'). quiet n n' \<and> length p' \<le> length p + k + 1)"
proof (cases b)
  case True
  let ?n = "n\<lparr>trans := calculate_rt (e_rt_now e) (trans n)\<rparr>"
  have "quiet n ?n" using quiet_rt by (simp add: calculate_rt_def quietI [where evs = "[]"])
  moreover from this have "node_ok ?n" using quiet_channels(4) assms(1) by blast
  then obtain ts where "t ?n = Some ts" "length ts = k" using assms(2) by (auto elim: returnsE)
  ultimately show ?thesis using True by (simp add: add_target_def Let_def)
next
  case False
  then show ?thesis by (simp add: add_target_def)
qed

text \<open>A status reply or publication in one rule: it needs room for the payload it can build.\<close>

lemma status_quiet:
  assumes "node_ok n" "returns present (\<lambda>p. length p = j)" "\<And>m. node_ok m \<Longrightarrow> returns (t m) (\<lambda>ts. length ts = k)"
    and "\<And>p' n'. length p' \<le> j + k + 1 \<Longrightarrow> returns (out p' n') (quiet n')"
  shows "returns (present \<bind> (\<lambda>p. add_target e b t p n \<bind> (\<lambda>(p', n'). out p' n'))) (quiet n)"
proof -
  obtain p where p: "present = Some p" "length p = j" using assms(2) by (rule returnsE)
  have "returns (add_target e b t p n) (\<lambda>(p', n'). quiet n n' \<and> length p' \<le> length p + k + 1)"
    by (rule add_target_returns [OF assms(1,3)])
  then obtain p' n' where q: "add_target e b t p n = Some (p', n')" "quiet n n'" "length p' \<le> length p + k + 1"
    by (auto simp: returns_eq_Some)
  from assms(4) [of p' n'] p q obtain n'' where "out p' n' = Some n''" "quiet n' n''" by (auto elim: returnsE)
  then show ?thesis using p q quiet_trans by simp
qed

lemma cur32_returns: "node_ok n \<Longrightarrow> returns (cur32 a b n) (\<lambda>p. length p = 4)"
  using cur16_returns [of n a] cur16_returns [of n b] by (auto simp: cur32_def returns_eq_Some)

lemma tgt32_returns: "node_ok n \<Longrightarrow> returns (tgt32 a b n) (\<lambda>p. length p = 4)"
  using tgt16_returns [of n a] tgt16_returns [of n b] by (auto simp: tgt32_def returns_eq_Some)

text \<open>A status with one or two 16-bit views needs a buffer of 7 or 11 bytes.\<close>

lemma send_status_quiet:
  assumes "node_ok n"
  shows "7 \<le> cap \<Longrightarrow> returns (cur16 v n \<bind> (\<lambda>p. add_target e b (tgt16 v) p n \<bind>
      (\<lambda>(p, n). model_send e cap (OP_2 x y) p err n))) (quiet n)"
    "11 \<le> cap \<Longrightarrow> returns (cur32 v v' n \<bind> (\<lambda>p. add_target e b (tgt32 v v') p n \<bind>
      (\<lambda>(p, n). model_send e cap (OP_2 x y) p err n))) (quiet n)"
  by (rule status_quiet [OF assms cur16_returns [OF assms] tgt16_returns]
        status_quiet [OF assms cur32_returns [OF assms] tgt32_returns], assumption, rule model_send_quiet, simp)+

lemma publish_status_quiet:
  assumes "node_ok n" "pub_size m = Some cap"
  shows "7 \<le> cap \<Longrightarrow> returns (if off then Some n else cur16 v n \<bind> (\<lambda>p. add_target e b (tgt16 v) p n \<bind>
      (\<lambda>(p, n). model_publish e m (OP_2 x y) p n))) (quiet n)"
    "11 \<le> cap \<Longrightarrow> returns (if off then Some n else cur32 v v' n \<bind> (\<lambda>p. add_target e b (tgt32 v v') p n \<bind>
      (\<lambda>(p, n). model_publish e m (OP_2 x y) p n))) (quiet n)"
proof -
  have "returns (cur16 v n \<bind> (\<lambda>p. add_target e b (tgt16 v) p n \<bind>
      (\<lambda>(p, n). model_publish e m (OP_2 x y) p n))) (quiet n)" if "7 \<le> cap"
    by (rule status_quiet [OF assms(1) cur16_returns [OF assms(1)] tgt16_returns], assumption,
        rule model_publish_quiet [OF assms(2)]) (use that in simp)
  then show "7 \<le> cap \<Longrightarrow> returns (if off then Some n else cur16 v n \<bind> (\<lambda>p. add_target e b (tgt16 v) p n \<bind>
      (\<lambda>(p, n). model_publish e m (OP_2 x y) p n))) (quiet n)" by (simp only: split: if_split) simp
  have "returns (cur32 v v' n \<bind> (\<lambda>p. add_target e b (tgt32 v v') p n \<bind>
      (\<lambda>(p, n). model_publish e m (OP_2 x y) p n))) (quiet n)" if "11 \<le> cap"
    by (rule status_quiet [OF assms(1) cur32_returns [OF assms(1)] tgt32_returns], assumption,
        rule model_publish_quiet [OF assms(2)]) (use that in simp)
  then show "11 \<le> cap \<Longrightarrow> returns (if off then Some n else cur32 v v' n \<bind> (\<lambda>p. add_target e b (tgt32 v v') p n \<bind>
      (\<lambda>(p, n). model_publish e m (OP_2 x y) p n))) (quiet n)" by (simp only: split: if_split) simp
qed

section \<open>Aiming: writing a target through a view\<close>

definition aimed :: "node \<Rightarrow> node \<Rightarrow> bool" where
  "aimed n n' \<longleftrightarrow> (\<exists>a b d i evs. n' = n\<lparr>light := (light n)\<lparr>lt_target := a\<rparr>, temp := (temp n)\<lparr>tm_target := b\<rparr>,
     duv := (duv n)\<lparr>dv_target := d\<rparr>, storage_id := i, trace := trace n @ evs\<rparr> \<and> list_all untimed evs)"

lemma aimedI:
  "n' = n\<lparr>light := (light n)\<lparr>lt_target := lt_target (light n')\<rparr>, temp := (temp n)\<lparr>tm_target := tm_target (temp n')\<rparr>,
     duv := (duv n)\<lparr>dv_target := dv_target (duv n')\<rparr>, storage_id := storage_id n', trace := trace n @ evs\<rparr> \<Longrightarrow>
   list_all untimed evs \<Longrightarrow> aimed n n'"
  unfolding aimed_def by (intro exI conjI)

lemma aimed_fields:
  assumes "aimed n n'"
  shows "trans n' = trans n" "armed n' = armed n" "c_tt n' = c_tt n" "c_last_tid n' = c_last_tid n"
    "c_last_src_addr n' = c_last_src_addr n" "c_last_dst_addr n' = c_last_dst_addr n"
    "c_last_msg_timestamp n' = c_last_msg_timestamp n" "c_onpowerup n' = c_onpowerup n"
    "lt_range_min (light n') = lt_range_min (light n)" "lt_range_max (light n') = lt_range_max (light n)"
    "tm_range_min (temp n') = tm_range_min (temp n)" "tm_range_max (temp n') = tm_range_max (temp n)"
    "tm_current (temp n') = tm_current (temp n)" "cur c n' = cur c n" "dlt c n' = dlt c n"
  using assms by (cases c; auto simp: aimed_def armed_def timer_state_def fold_untimed)+

lemma aimed_trans:
  assumes "aimed n n'" "aimed n' n''"
  shows "aimed n n''"
proof -
  from assms obtain a b d i evs a' b' d' i' evs' where
    "n' = n\<lparr>light := (light n)\<lparr>lt_target := a\<rparr>, temp := (temp n)\<lparr>tm_target := b\<rparr>,
       duv := (duv n)\<lparr>dv_target := d\<rparr>, storage_id := i, trace := trace n @ evs\<rparr>" "list_all untimed evs"
    "n'' = n'\<lparr>light := (light n')\<lparr>lt_target := a'\<rparr>, temp := (temp n')\<lparr>tm_target := b'\<rparr>,
       duv := (duv n')\<lparr>dv_target := d'\<rparr>, storage_id := i', trace := trace n' @ evs'\<rparr>" "list_all untimed evs'"
    unfolding aimed_def by blast
  then show ?thesis by (intro aimedI [where evs = "evs @ evs'"]) simp_all
qed

lemma aimed_node_ok:
  assumes "aimed n n'" "node_ok n" "tm_range_min (temp n) \<le> tm_target (temp n')" "tm_target (temp n') \<le> tm_range_max (temp n)"
  shows "node_ok n'"
  using assms(2-4) aimed_fields(11-13) [OF assms(1)] by (simp add: node_ok_def temp_range_ok_def)

lemma constrain_temperature_range:
  "node_ok n \<Longrightarrow> tm_range_min (temp n) \<le> constrain_temperature n v \<and> constrain_temperature n v \<le> tm_range_max (temp n)"
  by (auto simp: constrain_temperature_def node_ok_def temp_range_ok_def)

lemma constrain_temperature_cong:
  "tm_range_min (temp m) = tm_range_min (temp n) \<Longrightarrow> tm_range_max (temp m) = tm_range_max (temp n) \<Longrightarrow>
   constrain_temperature m v = constrain_temperature n v"
  by (simp add: constrain_temperature_def)

text \<open>
  What the switch of \<open>set_target\<close> leaves as targets: \<open>target_light\<close>, \<open>target_temp\<close> and
  \<open>target_duv\<close> are the values, a view of one quantity leaves the other two alone.
\<close>

definition save_if_restore :: "node \<Rightarrow> node" where
  "save_if_restore n = (if c_onpowerup n = STATE_RESTORE then save_on_flash LAST_TARGET_STATES n else n)"

lemma save_if_restore_aimed: "aimed n (save_if_restore n)"
proof (cases "c_onpowerup n = STATE_RESTORE")
  case True
  then show ?thesis
    by (intro aimedI [where evs = "[K_work_submit Storage_Work]"]) (simp_all add: save_if_restore_def save_on_flash_def emit_def)
next
  case False
  then show ?thesis by (intro aimedI [where evs = "[]"]) (simp_all add: save_if_restore_def)
qed

lemma save_if_restore_fields [simp]:
  "light (save_if_restore n) = light n" "temp (save_if_restore n) = temp n" "duv (save_if_restore n) = duv n"
  by (simp_all add: save_if_restore_def save_on_flash_def)

lemma set_target_eqs:
  "set_target ACTUAL v n = Some (save_if_restore (set_light_target (constrain_lightness n v) n))"
  "set_target CTL_LIGHT v n = Some (save_if_restore (set_light_target (constrain_lightness n v) n))"
  "set_target LEVEL_LIGHT v n =
     Some (save_if_restore (set_light_target (constrain_lightness n (word_of_int (sint v + 32768))) n))"
  "set_target MOVE_LIGHT v n = Some (save_if_restore (set_light_target v n))"
  "set_target MOVE_TEMP v n = Some (save_if_restore (set_temp_target v n))"
  "set_target CTL_TEMP v n = Some (save_if_restore (set_temp_target (constrain_temperature n v) n))"
  "set_target CTL_DELTA_UV v n = Some (save_if_restore (set_duv_target v n))"
  by (simp_all add: set_target_def save_if_restore_def Let_def constrain_lightness_def constrain_temperature_def)

lemma aimed_targets:
  "aimed n (set_light_target a n)" "aimed n (set_temp_target b n)" "aimed n (set_duv_target d n)" "aimed n n"
  by (rule aimedI [where evs = "[]"]; simp)+

lemma node_ok_light_target: "node_ok (set_light_target a n) = node_ok n"
  by (rule node_ok_cong) simp

lemma node_ok_duv_target: "node_ok (set_duv_target d n) = node_ok n"
  by (rule node_ok_cong) simp

lemma node_ok_temp_target:
  "node_ok n \<Longrightarrow> tm_range_min (temp n) \<le> b \<Longrightarrow> b \<le> tm_range_max (temp n) \<Longrightarrow> node_ok (set_temp_target b n)"
  by (rule aimed_node_ok [OF aimed_targets(2)]) simp_all

lemma save_aims: "aimed n m \<Longrightarrow> node_ok m \<Longrightarrow> aimed n (save_if_restore m) \<and> node_ok (save_if_restore m)"
  using aimed_trans [OF _ save_if_restore_aimed] node_ok_cong [of "save_if_restore m" m] by simp

lemma set_target_aims:
  assumes "node_ok n" "ty = MOVE_TEMP \<Longrightarrow> tm_range_min (temp n) \<le> v \<and> v \<le> tm_range_max (temp n)"
  shows "returns (set_target ty v n) (\<lambda>n'. aimed n n' \<and> node_ok n')"
proof -
  have "\<exists>m. set_target ty v n = Some (save_if_restore m) \<and> aimed n m \<and> node_ok m"
  proof (cases ty)
    case ONOFF
    let ?m = "if v = 0 then set_light_target 0 n
        else if v = 1 then set_light_target (if lt_def (light n) = 0 then lt_last (light n) else lt_def (light n)) n else n"
    have "set_target ONOFF v n = Some (save_if_restore ?m)" by (simp add: set_target_def save_if_restore_def)
    moreover have "aimed n ?m" "node_ok ?m = node_ok n" by (simp_all add: aimed_targets node_ok_light_target)
    ultimately show ?thesis using ONOFF assms(1) by blast
next
    case DELTA_LEVEL_LIGHT
    let ?m = "constrain_target_lightness2 (set_light_target (word_of_int (sint v + 32768)) n)"
    have "aimed n ?m" "node_ok ?m = node_ok n"
      by (simp_all add: constrain_target_lightness2_def aimed_targets node_ok_light_target)
    moreover have "set_target DELTA_LEVEL_LIGHT v n = Some (save_if_restore ?m)"
      by (simp add: set_target_def save_if_restore_def)
    ultimately show ?thesis using assms(1) DELTA_LEVEL_LIGHT by blast
  next
    case LINEAR
    obtain t where "linear_to_actual v = Some t" using linear_to_actual_defined by blast
    then have "set_target LINEAR v n = Some (save_if_restore (set_light_target (constrain_lightness n t) n))"
      by (simp add: set_target_def save_if_restore_def Let_def constrain_lightness_def)
    then show ?thesis using LINEAR aimed_targets node_ok_light_target assms(1) by auto
  next
    case LEVEL_TEMP
    have "returns (level_to_light_ctl_temp n v) (temp_in_range n)"
      using assms(1) by (intro level_to_light_ctl_temp_in_range) (simp add: node_ok_def)
    then obtain t where "level_to_light_ctl_temp n v = Some t" "temp_in_range n t" by (rule returnsE)
    then have "set_target LEVEL_TEMP v n = Some (save_if_restore (set_temp_target t n)) \<and> node_ok (set_temp_target t n)"
      using assms(1) node_ok_temp_target by (simp add: set_target_def save_if_restore_def temp_in_range_def)
    then show ?thesis using LEVEL_TEMP aimed_targets by auto
  next
    case MOVE_TEMP
    then show ?thesis using assms aimed_targets node_ok_temp_target by (auto simp: set_target_eqs)
  next
    case CTL_TEMP
    then show ?thesis using constrain_temperature_range [OF assms(1)] node_ok_temp_target [OF assms(1)] aimed_targets
      by (auto simp: set_target_eqs)
  qed (use assms(1) aimed_targets node_ok_light_target node_ok_duv_target in \<open>auto simp: set_target_eqs\<close>)
  then show ?thesis using save_aims by auto
qed

section \<open>Opening a transition\<close>

lemma begin_transition_fields [simp]:
  "light (begin_transition e cx tid tt delay ty n) = light n"
  "temp (begin_transition e cx tid tt delay ty n) = temp n"
  "duv (begin_transition e cx tid tt delay ty n) = duv n"
  "c_tt (begin_transition e cx tid tt delay ty n) = c_tt n"
  "c_onpowerup (begin_transition e cx tid tt delay ty n) = c_onpowerup n"
  "c_last_tid (begin_transition e cx tid tt delay ty n) = tid"
  "c_last_src_addr (begin_transition e cx tid tt delay ty n) = cx_addr cx"
  "c_last_dst_addr (begin_transition e cx tid tt delay ty n) = cx_recv_dst cx"
  "c_last_msg_timestamp (begin_transition e cx tid tt delay ty n) = e_now e"
  "tr_tt (trans (begin_transition e cx tid tt delay ty n)) = tt"
  "tr_delay (trans (begin_transition e cx tid tt delay ty n)) = delay"
  "tr_type (trans (begin_transition e cx tid tt delay ty n)) = ty"
  "tr_counter (trans (begin_transition e cx tid tt delay ty n)) = 0"
  "armed (begin_transition e cx tid tt delay ty n) = None"
  by (simp_all add: begin_transition_def k_timer_stop_def armed_def timer_state_def)

lemma begin_transition_channels [simp]:
  "cur c (begin_transition e cx tid tt delay ty n) = cur c n" "tgt c (begin_transition e cx tid tt delay ty n) = tgt c n"
  "dlt c (begin_transition e cx tid tt delay ty n) = dlt c n"
  "node_ok (begin_transition e cx tid tt delay ty n) = node_ok n"
  by (rule channel_cong node_ok_cong; simp)+

lemma retimed_fields:
  assumes "retimed n n'"
  shows "cur c n' = cur c n" "tgt c n' = tgt c n" "node_ok n' = node_ok n" "armed n' = armed n"
    "tr_delay (trans n') = tr_delay (trans n)" "tr_type (trans n') = tr_type (trans n)" "tr_tt (trans n') = tr_tt (trans n)"
    "c_last_tid n' = c_last_tid n" "c_last_src_addr n' = c_last_src_addr n" "c_last_dst_addr n' = c_last_dst_addr n"
    "c_last_msg_timestamp n' = c_last_msg_timestamp n"
  using assms by (cases c; auto simp: retimed_def armed_def timer_state_def node_ok_def temp_range_ok_def)+

text \<open>Starting the timer, or showing the new state at once when there is nothing to wait for.\<close>

lemma armed_start [simp]:
  "armed (emit (K_timer_start Transition_Timer d p) (emit (K_timer_init Transition_Timer w) n)) = Some w"
  by (simp add: armed_def)

lemma transition_handler_returns:
  assumes "node_ok n"
  shows "returns (transition_handler w n) (\<lambda>n'. light n' = light n \<and> temp n' = temp n \<and> duv n' = duv n \<and>
    tr_counter (trans n') = tr_counter (trans n) \<and> tr_type (trans n') = tr_type (trans n) \<and>
    tr_just_started (trans n') = tr_just_started (trans n) \<and>
    c_last_tid n' = c_last_tid n \<and> c_last_src_addr n' = c_last_src_addr n \<and>
    c_last_dst_addr n' = c_last_dst_addr n \<and> c_last_msg_timestamp n' = c_last_msg_timestamp n \<and>
    armed n' = (if tr_counter (trans n) = 0 \<and> tr_delay (trans n) = 0 then armed n else Some w))"
proof (cases "tr_counter (trans n) = 0 \<and> tr_delay (trans n) = 0")
  case True
  have "returns (update_light_state n) (quiet (n\<lparr>reset_done := True\<rparr>))"
    by (rule update_light_state_quiet [OF node_ok_led_ok [OF assms]])
  then show ?thesis using True
    by (auto simp: transition_handler_def quiet_fields armed_cong [of "n\<lparr>reset_done := True\<rparr>" n] elim!: returns_mono)
next
  case False
  then show ?thesis by (simp only: transition_handler_def if_False returns_Some) simp
qed

section \<open>What follows the aiming, in every set handler\<close>

text \<open>
  The common tail of the set and delta handlers: nothing to do when the target is where the light
  is; otherwise the transition is set up, the status is sent, the state published and the timer
  started. \<open>work_channels\<close> is what the work item named by the timer moves.
\<close>

fun work_channels :: "work \<Rightarrow> channel set" where
  "work_channels Onoff_Work = {Light_ch}"
| "work_channels Level_Lightness_Work = {Light_ch}"
| "work_channels Lightness_Actual_Work = {Light_ch}"
| "work_channels Lightness_Linear_Work = {Light_ch}"
| "work_channels Level_Temp_Work = {Temp_ch}"
| "work_channels Light_Ctl_Work = {Light_ch, Temp_ch, Duv_ch}"
| "work_channels Light_Ctl_Temp_Work = {Temp_ch, Duv_ch}"
| "work_channels _ = {}"

definition start_transition ::
  "state_binding \<Rightarrow> (node \<Rightarrow> bool) \<Rightarrow> (node \<Rightarrow> node) \<Rightarrow> (node \<Rightarrow> node option) \<Rightarrow> (node \<Rightarrow> node option) \<Rightarrow> work \<Rightarrow>
   node \<Rightarrow> node option" where
  "start_transition ty changed finish reply publish w n =
     (if changed n then do {
        n \<leftarrow> set_transition_values ty n;
        let n = (if tr_counter (trans n) = 0 then finish n else n);
        let n = set_just_started True n;
        n \<leftarrow> reply n;
        n \<leftarrow> publish n;
        transition_handler w n
      } else reply n)"

text \<open>
  \<open>started\<close> is what it leaves behind: without a change nothing moves and no timer runs; without a
  transition time the new values are in place at once, and a timer runs only for the delay;
  otherwise the timer runs and the ramp to the target is set up.
\<close>

definition same_sender :: "node \<Rightarrow> node \<Rightarrow> bool" where
  "same_sender n n' \<longleftrightarrow> c_last_tid n' = c_last_tid n \<and> c_last_src_addr n' = c_last_src_addr n \<and>
     c_last_dst_addr n' = c_last_dst_addr n \<and> c_last_msg_timestamp n' = c_last_msg_timestamp n"

definition started :: "work \<Rightarrow> node \<Rightarrow> node \<Rightarrow> bool" where
  "started w n n' \<longleftrightarrow> node_ok n' \<and> same_sender n n' \<and> (\<forall>c. tgt c n' = tgt c n) \<and>
     (if \<forall>c \<in> work_channels w. cur c n = tgt c n
      then armed n' = None \<and> (\<forall>c. cur c n' = cur c n)
      else if tr_tt (trans n) AND 0x3F = 0
      then armed n' = (if tr_delay (trans n) = 0 then None else Some w) \<and>
           ramp_started (work_channels w) 0 n' \<and>
           (\<forall>c. cur c n' = (if c \<in> work_channels w then tgt c n else cur c n))
      else armed n' = Some w \<and> (\<forall>c. cur c n' = cur c n) \<and>
           (\<forall>c \<in> work_channels w. dlt c n' = c_div (cur c n - tgt c n) (uint (transition_counter (tr_tt (trans n))))) \<and>
           ramp_started (work_channels w) (uint (transition_counter (tr_tt (trans n)))) n')"

lemma started_at_once:
  assumes "started w n n'" "\<not> (\<forall>c \<in> work_channels w. cur c n = tgt c n)" "tr_tt (trans n) AND 0x3F = 0"
  shows "armed n' = (if tr_delay (trans n) = 0 then None else Some w)" "ramp_started (work_channels w) 0 n'"
    "cur c n' = (if c \<in> work_channels w then tgt c n else cur c n)" "tgt c n' = tgt c n"
  using assms(1) unfolding started_def if_not_P [OF assms(2)] if_P [OF assms(3)] by blast+

lemma started_moving:
  assumes "started w n n'" "\<not> (\<forall>c \<in> work_channels w. cur c n = tgt c n)" "tr_tt (trans n) AND 0x3F \<noteq> 0"
  shows "armed n' = Some w" "ramp_started (work_channels w) (uint (transition_counter (tr_tt (trans n)))) n'"
    "cur c n' = cur c n" "tgt c n' = tgt c n"
    "c \<in> work_channels w \<Longrightarrow> dlt c n' = c_div (cur c n - tgt c n) (uint (transition_counter (tr_tt (trans n))))"
  using assms(1) unfolding started_def if_not_P [OF assms(2)] if_not_P [OF assms(3)] by blast+

text \<open>The state in which the status is sent and the timer started.\<close>

definition opened :: "work \<Rightarrow> node \<Rightarrow> node \<Rightarrow> bool" where
  "opened w n m \<longleftrightarrow> node_ok m \<and> same_sender n m \<and> armed m = None \<and> (\<forall>c. tgt c m = tgt c n) \<and>
     tr_type (trans m) \<noteq> MOVE \<and> tr_delay (trans m) = tr_delay (trans n) \<and> tr_just_started (trans m) \<and>
     (if tr_tt (trans n) AND 0x3F = 0
      then tr_counter (trans m) = 0 \<and> (\<forall>c. cur c m = (if c \<in> work_channels w then tgt c n else cur c n))
      else tr_counter (trans m) = transition_counter (tr_tt (trans n)) \<and> tr_counter (trans m) \<noteq> 0 \<and>
        (\<forall>c. cur c m = cur c n) \<and>
        (\<forall>c \<in> work_channels w. dlt c m = c_div (cur c n - tgt c n) (uint (transition_counter (tr_tt (trans n))))) \<and>
        (\<forall>c \<in> work_channels w. ramp (cur c m) (tgt c m) (dlt c m) (uint (tr_counter (trans m)))))"

lemma same_sender_quiet: "quiet n n' \<Longrightarrow> same_sender n n'"
  by (simp add: same_sender_def quiet_fields)

lemma ramp_at_target: "ramp t t d 0"
  by (simp add: ramp_def)

locale set_core =
  fixes ty :: state_binding and changed :: "node \<Rightarrow> bool" and finish :: "node \<Rightarrow> node" and w :: work
  assumes channels: "binding_channels ty = work_channels w"
    and changed_iff: "changed n \<longleftrightarrow> (\<exists>c \<in> work_channels w. cur c n \<noteq> tgt c n)"
    and finish_cur: "cur c (finish n) = (if c \<in> work_channels w then tgt c n else cur c n)"
    and finish_frame: "only_current n (finish n)"
begin

lemma finish_fields:
  "node_ok n \<Longrightarrow> node_ok (finish n)" "same_sender n (finish n)" "trans (finish n) = trans n"
  "armed (finish n) = armed n" "tgt c (finish n) = tgt c n" "dlt c (finish n) = dlt c n"
proof -
  note f = finish_frame [of n]
  show "node_ok (finish n)" if "node_ok n"
    by (rule only_current_node_ok [OF f that]) (simp_all only: finish_cur, simp_all)
  show "same_sender n (finish n)" using f by (auto simp: only_current_def same_sender_def)
  show "trans (finish n) = trans n" "armed (finish n) = armed n" "tgt c (finish n) = tgt c n" "dlt c (finish n) = dlt c n"
    by (rule only_current_fields [OF f])+
qed

lemma set_up:
  assumes "node_ok n" "armed n = None" "tr_type (trans n) \<noteq> MOVE" "tr_counter (trans n) = 0"
  shows "returns (set_transition_values ty n)
    (\<lambda>m. opened w n (set_just_started True (if tr_counter (trans m) = 0 then finish m else m)))"
proof (cases "tr_tt (trans n) AND 0x3F = 0")
  case True
  have ch: "cur c (set_just_started True m) = cur c m" "tgt c (set_just_started True m) = tgt c m"
    "node_ok (set_just_started True m) = node_ok m" "armed (set_just_started True m) = armed m" for c m
    by (rule channel_cong node_ok_cong armed_cong; simp)+
  have "same_sender n (set_just_started True (finish n))"
    using finish_fields(2) [of n] by (simp add: same_sender_def)
  then show ?thesis using True assms
    by (simp add: set_transition_values_none opened_def ch finish_fields finish_cur)
next
  case False
  note k = transition_counter_bounds [OF False]
  have ch: "cur c (set_just_started True m) = cur c m" "tgt c (set_just_started True m) = tgt c m"
    "dlt c (set_just_started True m) = dlt c m"
    "node_ok (set_just_started True m) = node_ok m" "armed (set_just_started True m) = armed m" for c m
    by (rule channel_cong node_ok_cong armed_cong; simp)+
  show ?thesis
  proof (rule returns_mono [OF set_transition_values_ramp [OF False assms(3)]])
    fix m assume m: "retimed n m \<and> tr_counter (trans m) = transition_counter (tr_tt (trans n)) \<and>
      (\<forall>c \<in> binding_channels ty. dlt c m = c_div (cur c n - tgt c n) (uint (tr_counter (trans m))))"
    then have r: "retimed n m" "tr_counter (trans m) = transition_counter (tr_tt (trans n))" by blast+
    note f = retimed_fields [OF r(1)]
    have "same_sender n (set_just_started True m)" using f(8-11) by (simp add: same_sender_def)
    moreover have "ramp (cur c m) (tgt c m) (dlt c m) (uint (tr_counter (trans m)))" if "c \<in> work_channels w" for c
      using m that channels f k ramp_c_div [of "uint (tr_counter (trans m))" "cur c n" "tgt c n"] by auto
    moreover have "dlt c m = c_div (cur c n - tgt c n) (uint (transition_counter (tr_tt (trans n))))"
      if "c \<in> work_channels w" for c
      using m that channels by simp
    ultimately show "opened w n (set_just_started True (if tr_counter (trans m) = 0 then finish m else m))"
      using False r(2) k(3) f assms by (simp add: opened_def ch)
  qed
qed

end

lemma opened_quiet:
  assumes "opened w n m" "quiet m m'"
  shows "opened w n m'"
  using assms(1) same_sender_quiet [OF assms(2)]
  by (auto simp: opened_def quiet_channels [OF assms(2)] quiet_fields [OF assms(2)] same_sender_def split: if_splits)

lemma opened_started:
  assumes "opened w n m" "\<exists>c \<in> work_channels w. cur c n \<noteq> tgt c n"
  shows "returns (transition_handler w m) (started w n)"
proof -
  from assms(1) have m: "node_ok m" "armed m = None" by (simp_all add: opened_def)
  show ?thesis
  proof (rule returns_mono [OF transition_handler_returns [OF m(1)]])
    fix n' assume h: "light n' = light m \<and> temp n' = temp m \<and> duv n' = duv m \<and>
      tr_counter (trans n') = tr_counter (trans m) \<and> tr_type (trans n') = tr_type (trans m) \<and>
      tr_just_started (trans n') = tr_just_started (trans m) \<and>
      c_last_tid n' = c_last_tid m \<and> c_last_src_addr n' = c_last_src_addr m \<and>
      c_last_dst_addr n' = c_last_dst_addr m \<and> c_last_msg_timestamp n' = c_last_msg_timestamp m \<and>
      armed n' = (if tr_counter (trans m) = 0 \<and> tr_delay (trans m) = 0 then armed m else Some w)"
    then have l: "light n' = light m" "temp n' = temp m" "duv n' = duv m" by blast+
    have ch: "cur c n' = cur c m" "tgt c n' = tgt c m" "dlt c n' = dlt c m" "node_ok n' = node_ok m" for c
      by (rule channel_cong [OF l] node_ok_cong [OF l(2)])+
    have nc: "\<not> (\<forall>c \<in> work_channels w. cur c n = tgt c n)" using assms(2) by blast
    show "started w n n'"
    proof (cases "tr_tt (trans n) AND 0x3F = 0")
      case True
      then show ?thesis using assms(1) h m nc
        by (simp add: started_def opened_def ch same_sender_def ramp_started_def ramp_ready_def ramp_at_target)
    next
      case False
      then show ?thesis using assms(1) h m nc transition_counter_bounds(3) [OF False]
        by (auto simp: started_def opened_def ch same_sender_def ramp_started_def ramp_ready_def)
    qed
  qed
qed

context set_core
begin

lemma start_returns:
  assumes "node_ok n" "armed n = None" "tr_type (trans n) \<noteq> MOVE" "tr_counter (trans n) = 0"
    and reply: "\<And>m. node_ok m \<Longrightarrow> returns (reply m) (quiet m)"
    and publish: "\<And>m. node_ok m \<Longrightarrow> returns (publish m) (quiet m)"
  shows "returns (start_transition ty changed finish reply publish w n) (started w n)"
proof (cases "changed n")
  case False
  have "returns (reply n) (quiet n)" using assms(1) by (rule reply)
  moreover have "started w n n'" if q: "quiet n n'" for n'
    using False assms same_sender_quiet [OF q]
    by (simp add: started_def changed_iff quiet_channels [OF q] quiet_fields [OF q])
  ultimately show ?thesis using False by (auto simp: start_transition_def elim: returns_mono)
next
  case True
  have chg: "\<exists>c \<in> work_channels w. cur c n \<noteq> tgt c n" using True by (simp add: changed_iff)
  have "returns (reply m \<bind> (\<lambda>m. publish m \<bind> transition_handler w)) (started w n)" if o: "opened w n m" for m
  proof -
    have "node_ok m" using o by (simp add: opened_def)
    from reply [OF this] obtain m1 where m1: "reply m = Some m1" "quiet m m1" by (rule returnsE)
    have "node_ok m1" using \<open>node_ok m\<close> quiet_channels(4) [OF m1(2)] by simp
    from publish [OF this] obtain m2 where m2: "publish m1 = Some m2" "quiet m1 m2" by (rule returnsE)
    have "opened w n m2" using o m1(2) m2(2) opened_quiet by blast
    from opened_started [OF this chg] show ?thesis using m1(1) m2(1) by simp
  qed
  then show ?thesis using True set_up [OF assms(1-4)]
    by (auto simp: start_transition_def Let_def elim!: returns_mono)
qed

end

end
