(* ===== verification/SetProtocol.thy ===== *)
theory SetProtocol
  imports SetServer
begin

text \<open>
  The contracts of the message handlers that start transitions: \<open>set_server\<close> for the fourteen
  set messages, \<open>delta_server\<close> and \<open>move_server\<close> for the relative ones. Each states the shape of
  the handler in terms of its own parts and the laws those parts obey, and derives once what
  every such handler does: it ignores what is malformed, answers a retransmission without acting
  on it, and otherwise leaves a transition that is set up to reach the requested target.
\<close>

section \<open>The invariant of the node\<close>

definition tick_ok :: "node \<Rightarrow> bool" where
  "tick_ok n = (case armed n of None \<Rightarrow> True
     | Some w \<Rightarrow> work_channels w \<noteq> {} \<and> (tr_just_started (trans n) \<or> tr_counter (trans n) \<noteq> 0) \<and>
         (if tr_type (trans n) = MOVE
          then (w = Level_Lightness_Work \<or> w = Level_Temp_Work) \<and> tr_counter (trans n) \<noteq> 0
          else \<forall>c \<in> work_channels w. ramp (cur c n) (tgt c n) (dlt c n) (uint (tr_counter (trans n)))))"

definition node_inv :: "node \<Rightarrow> bool" where
  "node_inv n \<longleftrightarrow> node_ok n \<and> tick_ok n"

lemma node_invI: "node_ok n \<Longrightarrow> armed n = None \<Longrightarrow> node_inv n"
  by (simp add: node_inv_def tick_ok_def)

lemma node_inv_ok: "node_inv n \<Longrightarrow> node_ok n"
  by (simp add: node_inv_def)

lemma node_inv_cong:
  assumes "light n' = light n" "temp n' = temp n" "duv n' = duv n" "trans n' = trans n" "trace n' = trace n"
  shows "node_inv n' = node_inv n"
  unfolding node_inv_def tick_ok_def
  by (simp add: assms(4) channel_cong [OF assms(1-3)] node_ok_cong [OF assms(2)] armed_cong [OF assms(5)]
      cong: option.case_cong)

lemma quiet_inv:
  assumes "quiet n n'"
  shows "node_inv n' = node_inv n"
  by (simp add: node_inv_def tick_ok_def quiet_channels [OF assms] quiet_fields [OF assms] split: option.split)

text \<open>
  What every message may do to the light: each quantity keeps its value or takes the value that is
  now its target, in a state that satisfies the invariant.
\<close>

definition reacts :: "node \<Rightarrow> node \<Rightarrow> bool" where
  "reacts n n' \<longleftrightarrow> node_inv n' \<and> (\<forall>c. cur c n' = cur c n \<or> cur c n' = tgt c n')"

lemma reacts_self: "node_inv n \<Longrightarrow> reacts n n"
  by (simp add: reacts_def)

lemma quiet_reacts: "node_inv n \<Longrightarrow> returns x (quiet n) \<Longrightarrow> returns x (reacts n)"
  by (auto elim: returns_mono simp: reacts_def quiet_inv quiet_channels)

lemma started_reacts:
  assumes "started w n1 n'" "work_channels w \<noteq> {}" "\<And>c. cur c n1 = cur c n"
  shows "reacts n n'"
proof -
  have "node_inv n'" using assms(1,2)
    by (auto simp: started_def node_inv_def tick_ok_def ramp_started_def ramp_ready_def split: if_splits option.split)
  moreover have "cur c n' = cur c n \<or> cur c n' = tgt c n'" for c
    using assms(1,3) by (auto simp: started_def split: if_splits)
  ultimately show ?thesis by (simp add: reacts_def)
qed

section \<open>Reading the fields of a message\<close>

definition parse_8 :: "u8 list \<Rightarrow> (u8 \<times> u8 \<times> u8 list) option" where
  "parse_8 buf = do { (v, buf) \<leftarrow> pull_u8 buf; (tid, buf) \<leftarrow> pull_u8 buf; Some (v, tid, buf) }"

definition parse_16 :: "u8 list \<Rightarrow> (u16 \<times> u8 \<times> u8 list) option" where
  "parse_16 buf = do { (v, buf) \<leftarrow> pull_le16 buf; (tid, buf) \<leftarrow> pull_u8 buf; Some (v, tid, buf) }"

definition parse_16_16 :: "u8 list \<Rightarrow> ((u16 \<times> s16) \<times> u8 \<times> u8 list) option" where
  "parse_16_16 buf = do { (v, buf) \<leftarrow> pull_le16 buf; (w, buf) \<leftarrow> pull_le16 buf;
     (tid, buf) \<leftarrow> pull_u8 buf; Some ((v, w), tid, buf) }"

definition parse_16_16_16 :: "u8 list \<Rightarrow> ((u16 \<times> u16 \<times> s16) \<times> u8 \<times> u8 list) option" where
  "parse_16_16_16 buf = do { (u, buf) \<leftarrow> pull_le16 buf; (v, buf) \<leftarrow> pull_le16 buf; (w, buf) \<leftarrow> pull_le16 buf;
     (tid, buf) \<leftarrow> pull_u8 buf; Some ((u, v, w), tid, buf) }"

definition parse_32 :: "u8 list \<Rightarrow> (int \<times> u8 \<times> u8 list) option" where
  "parse_32 buf = do { (v, buf) \<leftarrow> pull_le32 buf; (tid, buf) \<leftarrow> pull_u8 buf; Some (sint v, tid, buf) }"

lemma pull_u8_ex: "k + 1 \<le> length bs \<Longrightarrow> \<exists>v r. pull_u8 bs = Some (v, r) \<and> k \<le> length r"
  using pull_u8_length [of bs] by (auto simp: returns_eq_Some)

lemma pull_le16_ex: "k + 2 \<le> length bs \<Longrightarrow> \<exists>v r. pull_le16 bs = Some (v, r) \<and> k \<le> length r"
  using pull_le16_length [of bs] by (auto simp: returns_eq_Some)

lemma pull_le32_ex: "k + 4 \<le> length bs \<Longrightarrow> \<exists>v r. pull_le32 bs = Some (v, r) \<and> k \<le> length r"
  using pull_le32_length [of bs] by (auto simp: returns_eq_Some)

lemma parse_8_defined: "2 \<le> length buf \<Longrightarrow> \<exists>r. parse_8 buf = Some r"
  using pull_u8_ex [of 1 buf] by (auto simp: parse_8_def dest: pull_u8_ex [of 0, simplified])

lemma parse_16_defined: "3 \<le> length buf \<Longrightarrow> \<exists>r. parse_16 buf = Some r"
  using pull_le16_ex [of 1 buf] by (auto simp: parse_16_def dest: pull_u8_ex [of 0, simplified])

lemma parse_16_16_defined:
  assumes "5 \<le> length buf"
  shows "\<exists>r. parse_16_16 buf = Some r"
proof -
  from assms pull_le16_ex [of 3 buf] obtain v r where 1: "pull_le16 buf = Some (v, r)" "3 \<le> length r" by auto
  from 1 pull_le16_ex [of 1 r] obtain v' r' where 2: "pull_le16 r = Some (v', r')" "1 \<le> length r'" by auto
  from 2 pull_u8_ex [of 0 r'] obtain t q where "pull_u8 r' = Some (t, q)" by auto
  with 1 2 show ?thesis by (simp add: parse_16_16_def)
qed

lemma parse_16_16_16_defined:
  assumes "7 \<le> length buf"
  shows "\<exists>r. parse_16_16_16 buf = Some r"
proof -
  from assms pull_le16_ex [of 5 buf] obtain v r where 1: "pull_le16 buf = Some (v, r)" "5 \<le> length r" by auto
  from 1 pull_le16_ex [of 3 r] obtain v' r' where 2: "pull_le16 r = Some (v', r')" "3 \<le> length r'" by auto
  from 2 pull_le16_ex [of 1 r'] obtain v'' r'' where 3: "pull_le16 r' = Some (v'', r'')" "1 \<le> length r''" by auto
  from 3 pull_u8_ex [of 0 r''] obtain t q where "pull_u8 r'' = Some (t, q)" by auto
  with 1 2 3 show ?thesis by (simp add: parse_16_16_16_def)
qed

lemma parse_32_defined: "5 \<le> length buf \<Longrightarrow> \<exists>r. parse_32 buf = Some r"
  using pull_le32_ex [of 1 buf] by (auto simp: parse_32_def dest: pull_u8_ex [of 0, simplified])

lemmas parse_defined = parse_8_defined parse_16_defined parse_16_16_defined parse_16_16_16_defined parse_32_defined

lemma set_target_view: "node_ok n \<Longrightarrow> ty \<noteq> MOVE_TEMP \<Longrightarrow> returns (set_target ty v n) (\<lambda>n'. aimed n n' \<and> node_ok n')"
  by (rule set_target_aims) simp_all

section \<open>Set messages\<close>

locale set_server = set_core ty changed finish w
  for ty changed finish w +
  fixes handler reply :: handler and publish :: "env \<Rightarrow> model \<Rightarrow> node \<Rightarrow> node option" and m :: model
    and parse :: "u8 list \<Rightarrow> ('a \<times> u8 \<times> u8 list) option" and len :: nat
    and valid :: "'a \<Rightarrow> bool" and aim :: "'a \<Rightarrow> node \<Rightarrow> node option"
  assumes handler_eq: "handler m e cx buf n = (case parse buf of
      None \<Rightarrow> None
    | Some (a, tid, rest) \<Rightarrow>
        if \<not> valid a then Some n
        else if tid_repeated e cx tid n then reply m e cx rest n
        else case opt_fields (c_tt n) rest of
          None \<Rightarrow> Some n
        | Some (tt, delay) \<Rightarrow> do {
            n \<leftarrow> aim a (begin_transition e cx tid tt delay NON_MOVE n);
            start_transition ty changed finish (reply m e cx rest) (publish e m) w n })"
    and parse_len: "len \<le> length buf \<Longrightarrow> \<exists>r. parse buf = Some r"
    and reply_quiet: "node_ok n \<Longrightarrow> returns (reply m e cx rest n) (quiet n)"
    and publish_quiet: "node_ok n \<Longrightarrow> returns (publish e m n) (quiet n)"
    and aim_ok: "node_ok n \<Longrightarrow> valid a \<Longrightarrow> returns (aim a n) (\<lambda>n'. aimed n n' \<and> node_ok n')"
    and transition: "work_channels w \<noteq> {}"
begin

lemma rejected: "parse buf = Some (a, tid, rest) \<Longrightarrow> \<not> valid a \<Longrightarrow> handler m e cx buf n = Some n"
  by (simp add: handler_eq)

lemma malformed:
  "parse buf = Some (a, tid, rest) \<Longrightarrow> \<not> tid_repeated e cx tid n \<Longrightarrow> opt_fields (c_tt n) rest = None \<Longrightarrow>
   handler m e cx buf n = Some n"
  by (simp add: handler_eq)

lemma replayed:
  assumes "node_ok n" "parse buf = Some (a, tid, rest)" "tid_repeated e cx tid n"
  shows "returns (handler m e cx buf n) (quiet n)"
  using assms reply_quiet by (simp add: handler_eq)

lemma accepted:
  assumes "node_ok n" "parse buf = Some (a, tid, rest)" "valid a" "\<not> tid_repeated e cx tid n"
    "opt_fields (c_tt n) rest = Some (tt, delay)"
  shows "returns (handler m e cx buf n) (\<lambda>n'. \<exists>n1. aim a (begin_transition e cx tid tt delay NON_MOVE n) = Some n1 \<and>
    aimed (begin_transition e cx tid tt delay NON_MOVE n) n1 \<and> started w n1 n')"
proof -
  let ?b = "begin_transition e cx tid tt delay NON_MOVE n"
  have "returns (aim a ?b) (\<lambda>n'. aimed ?b n' \<and> node_ok n')" using assms(1,3) by (intro aim_ok) simp_all
  then obtain n1 where n1: "aim a ?b = Some n1" "aimed ?b n1" "node_ok n1" by (rule returnsE) blast
  have "returns (start_transition ty changed finish (reply m e cx rest) (publish e m) w n1) (started w n1)"
    using n1(3) aimed_fields(1,2) [OF n1(2)] by (intro start_returns reply_quiet publish_quiet) simp_all
  then show ?thesis using assms(2-5) n1(1,2) by (simp add: handler_eq)
qed

text \<open>A second copy of an accepted message, within six seconds, finds it recorded.\<close>

lemma accepted_once:
  assumes "aimed (begin_transition e cx tid tt delay NON_MOVE n) n1" "started w n1 n'" "e_now e' - e_now e \<le> 6000"
  shows "tid_repeated e' cx tid n'"
  using assms aimed_fields(4-7) [OF assms(1)] by (simp add: started_def same_sender_def tid_repeated_def)

lemma safe:
  assumes "node_inv n" "len \<le> length buf"
  shows "returns (handler m e cx buf n) (reacts n)"
proof -
  obtain a tid rest where p: "parse buf = Some (a, tid, rest)" using parse_len [OF assms(2)] by auto
  have ok: "node_ok n" using assms(1) by (rule node_inv_ok)
  consider "\<not> valid a" | "valid a" "tid_repeated e cx tid n"
    | "valid a" "\<not> tid_repeated e cx tid n" "opt_fields (c_tt n) rest = None"
    | tt delay where "valid a" "\<not> tid_repeated e cx tid n" "opt_fields (c_tt n) rest = Some (tt, delay)"
    by fastforce
  then show ?thesis
  proof cases
    case 1
    then show ?thesis using rejected [OF p] reacts_self [OF assms(1)] by simp
  next
    case 2
    then show ?thesis using replayed [OF ok p] quiet_reacts [OF assms(1)] by blast
  next
    case 3
    then show ?thesis using malformed [OF p] reacts_self [OF assms(1)] by simp
  next
    case 4
    show ?thesis
    proof (rule returns_mono [OF accepted [OF ok p 4]], elim exE conjE)
      fix n' n1 assume n1: "aimed (begin_transition e cx tid tt delay NON_MOVE n) n1" "started w n1 n'"
      show "reacts n n'" using started_reacts [OF n1(2) transition] aimed_fields(14) [OF n1(1)] by simp
    qed
  qed
qed

end

section \<open>Delta messages\<close>

text \<open>
  A delta message adds to the level at the start of the transaction, which the handler keeps in
  a static variable: further messages of the same transaction, with a different delta, add to
  the same level again. The addition is on \<open>s32_t\<close>.
\<close>

definition clamp16 :: "int \<Rightarrow> int" where
  "clamp16 i = (if i < INT16_MIN then INT16_MIN else if i > INT16_MAX then INT16_MAX else i)"

text \<open>The deltas that cannot overflow the addition, whatever the level.\<close>

definition delta_fits :: "int \<Rightarrow> bool" where
  "delta_fits d \<longleftrightarrow> - 2147450880 \<le> d \<and> d \<le> 2147450880"

lemma delta_fits_checked: "delta_fits d \<Longrightarrow> s32_checked (sint (v :: s16) + d) = Some (sint v + d)"
  using sint16_bounds [of v] by (simp add: delta_fits_def)

locale delta_server = set_core ty changed finish w
  for ty changed finish w +
  fixes handler reply :: handler and publish :: "env \<Rightarrow> model \<Rightarrow> node \<Rightarrow> node option" and m :: model
    and view :: state_binding and level :: "node \<Rightarrow> int option" and step_size :: "node \<Rightarrow> int"
    and get_last :: "node \<Rightarrow> s16" and put_last :: "s16 \<Rightarrow> node \<Rightarrow> node"
  assumes handler_eq: "handler m e cx buf n = (case parse_32 buf of
      None \<Rightarrow> None
    | Some (delta, tid, rest) \<Rightarrow>
        if tid_repeated e cx tid n \<and> step_size n = delta then reply m e cx rest n
        else do {
          n \<leftarrow> (if tid_repeated e cx tid n then Some n else do { i \<leftarrow> level n; Some (put_last (word_of_int i) n) });
          target \<leftarrow> s32_checked (sint (get_last n) + delta);
          case opt_fields (c_tt n) rest of
            None \<Rightarrow> Some n
          | Some (tt, delay) \<Rightarrow> do {
              n \<leftarrow> set_target view (word_of_int (clamp16 target)) (begin_transition e cx tid tt delay NON_MOVE n);
              start_transition ty changed finish (reply m e cx rest) (publish e m) w n } })"
    and reply_quiet: "node_ok n \<Longrightarrow> returns (reply m e cx rest n) (quiet n)"
    and publish_quiet: "node_ok n \<Longrightarrow> returns (publish e m n) (quiet n)"
    and level_defined: "node_ok n \<Longrightarrow> \<exists>i. level n = Some i"
    and view_ok: "view \<noteq> MOVE_TEMP"
    and transition: "work_channels w \<noteq> {}"
    and put_last_frame: "light (put_last v n) = light n" "temp (put_last v n) = temp n" "duv (put_last v n) = duv n"
      "trans (put_last v n) = trans n" "trace (put_last v n) = trace n" "c_tt (put_last v n) = c_tt n"
    and get_put: "get_last (put_last v n) = v"
begin

lemma put_last_inv: "node_inv (put_last v n) = node_inv n"
  by (rule node_inv_cong) (rule put_last_frame)+

lemma replayed:
  assumes "node_ok n" "parse_32 buf = Some (delta, tid, rest)" "tid_repeated e cx tid n" "step_size n = delta"
  shows "returns (handler m e cx buf n) (quiet n)"
  using assms reply_quiet by (simp add: handler_eq)

lemma opened_ok:
  assumes "node_ok n" "delta_fits delta"
  shows "returns (do { target \<leftarrow> s32_checked (sint (get_last n) + delta);
      case opt_fields (c_tt n) rest of
        None \<Rightarrow> Some n
      | Some (tt, delay) \<Rightarrow> do {
          n \<leftarrow> set_target view (word_of_int (clamp16 target)) (begin_transition e cx tid tt delay NON_MOVE n);
          start_transition ty changed finish (reply m e cx rest) (publish e m) w n } })
    (\<lambda>n'. case opt_fields (c_tt n) rest of
       None \<Rightarrow> n' = n
     | Some (tt, delay) \<Rightarrow> \<exists>n1. set_target view (word_of_int (clamp16 (sint (get_last n) + delta)))
           (begin_transition e cx tid tt delay NON_MOVE n) = Some n1 \<and>
         aimed (begin_transition e cx tid tt delay NON_MOVE n) n1 \<and> started w n1 n')"
proof (cases "opt_fields (c_tt n) rest")
  case None
  then show ?thesis using delta_fits_checked [OF assms(2)] by simp
next
  case (Some opt)
  obtain tt delay where opt: "opt = (tt, delay)" by (cases opt)
  let ?b = "begin_transition e cx tid tt delay NON_MOVE n"
  let ?t = "word_of_int (clamp16 (sint (get_last n) + delta))"
  have "returns (set_target view ?t ?b) (\<lambda>n'. aimed ?b n' \<and> node_ok n')"
    using assms(1) view_ok by (intro set_target_view) simp_all
  then obtain n1 where n1: "set_target view ?t ?b = Some n1" "aimed ?b n1" "node_ok n1" by (rule returnsE) blast
  have "returns (start_transition ty changed finish (reply m e cx rest) (publish e m) w n1) (started w n1)"
    using n1(3) aimed_fields(1,2) [OF n1(2)] by (intro start_returns reply_quiet publish_quiet) simp_all
  then show ?thesis using Some opt n1 delta_fits_checked [OF assms(2)] by simp
qed

lemma accepted:
  assumes "node_ok n" "parse_32 buf = Some (delta, tid, rest)" "\<not> tid_repeated e cx tid n" "delta_fits delta"
    "opt_fields (c_tt n) rest = Some (tt, delay)" "level n = Some i"
  defines "b \<equiv> begin_transition e cx tid tt delay NON_MOVE (put_last (word_of_int i) n)"
  shows "returns (handler m e cx buf n) (\<lambda>n'. \<exists>n1.
    set_target view (word_of_int (clamp16 (sint (word_of_int i :: s16) + delta))) b = Some n1 \<and>
    aimed b n1 \<and> started w n1 n')"
proof -
  let ?p = "put_last (word_of_int i) n"
  have "node_ok ?p" using assms(1) node_ok_cong [OF put_last_frame(2)] by simp
  from opened_ok [OF this assms(4), where rest = rest and e = e and cx = cx and tid = tid] show ?thesis
    using assms(2,3,5,6) by (simp add: handler_eq put_last_frame get_put b_def)
qed

lemma safe:
  assumes "node_inv n" "5 \<le> length buf" "\<And>delta tid rest. parse_32 buf = Some (delta, tid, rest) \<Longrightarrow> delta_fits delta"
  shows "returns (handler m e cx buf n) (reacts n)"
proof -
  obtain delta tid rest where p: "parse_32 buf = Some (delta, tid, rest)" using parse_32_defined [OF assms(2)] by auto
  have ok: "node_ok n" using assms(1) by (rule node_inv_ok)
  have tail: "returns (do { target \<leftarrow> s32_checked (sint (get_last k) + delta);
      case opt_fields (c_tt k) rest of
        None \<Rightarrow> Some k
      | Some (tt, delay) \<Rightarrow> do {
          n \<leftarrow> set_target view (word_of_int (clamp16 target)) (begin_transition e cx tid tt delay NON_MOVE k);
          start_transition ty changed finish (reply m e cx rest) (publish e m) w n } }) (reacts k)"
    if "node_inv k" for k
  proof (rule returns_mono [OF opened_ok [OF node_inv_ok [OF that] assms(3) [OF p]]])
    have "reacts k n'" if "aimed (begin_transition e cx tid tt delay NON_MOVE k) n1" "started w n1 n'" for tt delay n1 n'
      using started_reacts [OF that(2) transition] aimed_fields(14) [OF that(1)] by simp
    then show "reacts k n'" if "case opt_fields (c_tt k) rest of None \<Rightarrow> n' = k
     | Some (tt, delay) \<Rightarrow> \<exists>n1. set_target view (word_of_int (clamp16 (sint (get_last k) + delta)))
           (begin_transition e cx tid tt delay NON_MOVE k) = Some n1 \<and>
         aimed (begin_transition e cx tid tt delay NON_MOVE k) n1 \<and> started w n1 n'" for n'
      using that reacts_self [OF \<open>node_inv k\<close>] by (auto split: option.splits)
  qed
  show ?thesis
  proof (cases "tid_repeated e cx tid n \<and> step_size n = delta")
    case True
    then show ?thesis using replayed [OF ok p] quiet_reacts [OF assms(1)] by blast
  next
    case False
    obtain i where "level n = Some i" using level_defined [OF ok] by blast
    have "reacts (put_last (word_of_int i) n) = reacts n"
      unfolding reacts_def channel_cong(1) [OF put_last_frame(1-3)] ..
    then show ?thesis using \<open>level n = Some i\<close> False p tail [OF assms(1)] tail [of "put_last (word_of_int i) n"] assms(1)
      by (auto simp: handler_eq put_last_inv)
  qed
qed

end

section \<open>Move messages\<close>

text \<open>
  A move message gives a step and a direction: the target is an end of the range. Without a
  transition time nothing is started.
\<close>

locale move_server =
  fixes handler reply :: handler and publish :: "env \<Rightarrow> model \<Rightarrow> node \<Rightarrow> node option" and m :: model
    and view :: state_binding and changed :: "node \<Rightarrow> bool" and lower upper present :: "node \<Rightarrow> u16"
    and put_delta :: "int \<Rightarrow> node \<Rightarrow> node" and w :: work
  assumes handler_eq: "handler m e cx buf n = (case parse_16 buf of
      None \<Rightarrow> None
    | Some (delta, tid, rest) \<Rightarrow>
        if tid_repeated e cx tid n then reply m e cx rest n
        else case opt_fields (c_tt n) rest of
          None \<Rightarrow> Some n
        | Some (tt, delay) \<Rightarrow> do {
            let n = put_delta (sint delta) (begin_transition e cx tid tt delay MOVE n);
            n \<leftarrow> set_target view (if sint delta < 0 then lower n else if sint delta > 0 then upper n else present n) n;
            if changed n then do {
              n \<leftarrow> set_transition_values view n;
              if tr_counter (trans n) = 0 then Some n
              else do {
                n \<leftarrow> reply m e cx rest (set_just_started True n);
                n \<leftarrow> publish e m n;
                transition_handler w n } }
            else reply m e cx rest n })"
    and reply_quiet: "node_ok n \<Longrightarrow> returns (reply m e cx rest n) (quiet n)"
    and publish_quiet: "node_ok n \<Longrightarrow> returns (publish e m n) (quiet n)"
    and aim_ok: "node_ok n \<Longrightarrow> v = lower n \<or> v = upper n \<or> v = present n \<Longrightarrow>
      returns (set_target view v n) (\<lambda>n'. aimed n n' \<and> node_ok n')"
    and put_delta_frame: "node_ok (put_delta d n) = node_ok n" "trans (put_delta d n) = trans n" "cur c (put_delta d n) = cur c n"
      "trace (put_delta d n) = trace n"
    and move_work: "w = Level_Lightness_Work \<or> w = Level_Temp_Work"
begin

lemma replayed:
  assumes "node_ok n" "parse_16 buf = Some (delta, tid, rest)" "tid_repeated e cx tid n"
  shows "returns (handler m e cx buf n) (quiet n)"
  using assms reply_quiet by (simp add: handler_eq)

lemma reply_publish_start:
  assumes "node_ok k" "tr_counter (trans k) \<noteq> 0"
  shows "returns (do { n \<leftarrow> reply m e cx rest k; n \<leftarrow> publish e m n; transition_handler w n })
    (\<lambda>n'. light n' = light k \<and> temp n' = temp k \<and> duv n' = duv k \<and> armed n' = Some w \<and>
       tr_counter (trans n') = tr_counter (trans k) \<and> tr_type (trans n') = tr_type (trans k) \<and>
       tr_just_started (trans n') = tr_just_started (trans k))"
proof -
  from reply_quiet [OF assms(1)] obtain n1 where n1: "reply m e cx rest k = Some n1" "quiet k n1" by (rule returnsE)
  have "node_ok n1" using assms(1) quiet_channels(4) [OF n1(2)] by simp
  from publish_quiet [OF this] obtain n2 where n2: "publish e m n1 = Some n2" "quiet n1 n2" by (rule returnsE)
  have q: "quiet k n2" using n1(2) n2(2) by (rule quiet_trans)
  have "node_ok n2" using assms(1) quiet_channels(4) [OF q] by simp
  have "tr_counter (trans n2) \<noteq> 0" using assms(2) quiet_fields(17) [OF q] by simp
  then show ?thesis using n1(1) n2(1)
    by (auto simp: quiet_fields [OF q] intro!: returns_mono [OF transition_handler_returns [OF \<open>node_ok n2\<close>]])
qed

lemma accepted:
  assumes "node_ok n" "parse_16 buf = Some (delta, tid, rest)" "\<not> tid_repeated e cx tid n"
    "opt_fields (c_tt n) rest = Some (tt, delay)"
  defines "b \<equiv> put_delta (sint delta) (begin_transition e cx tid tt delay MOVE n)"
  shows "returns (handler m e cx buf n) (\<lambda>n'. \<exists>n1.
    set_target view (if sint delta < 0 then lower b else if sint delta > 0 then upper b else present b) b = Some n1 \<and>
    aimed b n1 \<and> node_ok n1 \<and> light n' = light n1 \<and> temp n' = temp n1 \<and> duv n' = duv n1 \<and>
    (if changed n1 \<and> tt AND 0x3F \<noteq> 0
     then armed n' = Some w \<and> tr_type (trans n') = MOVE \<and> tr_just_started (trans n') \<and>
       tr_counter (trans n') = transition_counter tt \<and> tr_counter (trans n') \<noteq> 0
     else armed n' = None))"
proof -
  let ?v = "if sint delta < 0 then lower b else if sint delta > 0 then upper b else present b"
  have b: "node_ok b" "trans b = trans (begin_transition e cx tid tt delay MOVE n)" "armed b = None"
    unfolding b_def using assms(1) put_delta_frame armed_cong [OF put_delta_frame(4)] by simp_all
  have "returns (set_target view ?v b) (\<lambda>n'. aimed b n' \<and> node_ok n')" using b(1) by (rule aim_ok) auto
  then obtain n1 where n1: "set_target view ?v b = Some n1" "aimed b n1" "node_ok n1" by (rule returnsE) blast
  have t: "tr_tt (trans n1) = tt" "tr_type (trans n1) = MOVE" "tr_counter (trans n1) = 0" "armed n1 = None"
    using aimed_fields(1,2) [OF n1(2)] b by simp_all
  have eq: "handler m e cx buf n = (if changed n1 then do {
              n \<leftarrow> set_transition_values view n1;
              if tr_counter (trans n) = 0 then Some n
              else do {
                n \<leftarrow> reply m e cx rest (set_just_started True n);
                n \<leftarrow> publish e m n;
                transition_handler w n } }
            else reply m e cx rest n1)"
    using assms(3) by (simp only: handler_eq assms(2,4) option.case prod.case if_False Let_def
        b_def [symmetric] n1(1) Option.bind.bind_lunit)
  consider "\<not> changed n1" | "changed n1" "tt AND 0x3F = 0" | "changed n1" "tt AND 0x3F \<noteq> 0" by blast
  then show ?thesis
  proof cases
    case 1
    then show ?thesis unfolding eq using n1 t
      by (auto simp: quiet_fields intro!: returns_mono [OF reply_quiet [OF n1(3)]])
  next
    case 2
    then show ?thesis unfolding eq using n1 t by (simp add: set_transition_values_none)
  next
    case 3
    let ?k = "set_just_started True (n1\<lparr>trans := (trans n1)
      \<lparr>tr_total_duration := word_of_int (tt_duration tt), tr_counter := transition_counter tt,
       tr_quo_tt := word_of_int (tt_duration tt)\<rparr>\<rparr>)"
    have k: "node_ok ?k" using n1(3) node_ok_cong [of ?k n1] by simp
    note nz = transition_counter_bounds(3) [OF 3(2)]
    have "handler m e cx buf n = do { n \<leftarrow> reply m e cx rest ?k; n \<leftarrow> publish e m n; transition_handler w n }"
      unfolding eq using 3 t nz by (simp add: set_transition_values_move)
    moreover have "tr_counter (trans ?k) \<noteq> 0" using nz by simp
    from reply_publish_start [OF k this, of e cx rest] show ?thesis
      unfolding calculation using 3 n1 t nz by (auto elim!: returns_mono)
  qed
qed

lemma safe:
  assumes "node_inv n" "3 \<le> length buf"
  shows "returns (handler m e cx buf n) (reacts n)"
proof -
  obtain delta tid rest where p: "parse_16 buf = Some (delta, tid, rest)" using parse_16_defined [OF assms(2)] by auto
  have ok: "node_ok n" using assms(1) by (rule node_inv_ok)
  consider "tid_repeated e cx tid n" | "\<not> tid_repeated e cx tid n" "opt_fields (c_tt n) rest = None"
    | tt delay where "\<not> tid_repeated e cx tid n" "opt_fields (c_tt n) rest = Some (tt, delay)"
    by fastforce
  then show ?thesis
  proof cases
    case 1
    then show ?thesis using replayed [OF ok p] quiet_reacts [OF assms(1)] by blast
  next
    case 2
    then show ?thesis using p reacts_self [OF assms(1)] by (simp add: handler_eq)
  next
    case 3
    show ?thesis
    proof (rule returns_mono [OF accepted [OF ok p 3]], elim exE conjE)
      fix n' n1
      assume n1: "aimed (put_delta (sint delta) (begin_transition e cx tid tt delay MOVE n)) n1" "node_ok n1"
        "light n' = light n1" "temp n' = temp n1" "duv n' = duv n1" and
        i: "if changed n1 \<and> tt AND 0x3F \<noteq> 0
          then armed n' = Some w \<and> tr_type (trans n') = MOVE \<and> tr_just_started (trans n') \<and>
            tr_counter (trans n') = transition_counter tt \<and> tr_counter (trans n') \<noteq> 0
          else armed n' = None"
      have "node_ok n'" using n1(2) node_ok_cong [OF n1(4)] by simp
      then have "node_inv n'" using i move_work by (auto simp: node_inv_def tick_ok_def split: if_splits)
      moreover have "cur c n' = cur c n" for c
        using aimed_fields(14) [OF n1(1)] channel_cong(1) [OF n1(3-5)] put_delta_frame(3) by simp
      ultimately show "reacts n n'" by (simp add: reacts_def)
    qed
  qed
qed

end

section \<open>The four shapes of a transition\<close>

text \<open>What changes and how a change without transition time is finished, for each set of states.\<close>

abbreviation light_changed :: "node \<Rightarrow> bool" where
  "light_changed n \<equiv> lt_target (light n) \<noteq> lt_current (light n)"
abbreviation temp_changed :: "node \<Rightarrow> bool" where
  "temp_changed n \<equiv> tm_target (temp n) \<noteq> tm_current (temp n)"
abbreviation duv_changed :: "node \<Rightarrow> bool" where
  "duv_changed n \<equiv> dv_target (duv n) \<noteq> dv_current (duv n)"

lemma changed_channels:
  "light_changed n \<longleftrightarrow> cur Light_ch n \<noteq> tgt Light_ch n" "temp_changed n \<longleftrightarrow> cur Temp_ch n \<noteq> tgt Temp_ch n"
  "duv_changed n \<longleftrightarrow> cur Duv_ch n \<noteq> tgt Duv_ch n"
  by (auto dest: signed_word_eqI unsigned_word_eqI)

interpretation onoff_core: set_core ONOFF light_changed light_finish Onoff_Work
  by unfold_locales (unfold work_channels.simps binding_channels.simps changed_channels,
    (rule refl | rule finish_channels | rule finish_frames | blast)+)

interpretation level_light_core: set_core LEVEL_LIGHT light_changed light_finish Level_Lightness_Work
  by unfold_locales (unfold work_channels.simps binding_channels.simps changed_channels,
    (rule refl | rule finish_channels | rule finish_frames | blast)+)

interpretation actual_core: set_core ACTUAL light_changed light_finish Lightness_Actual_Work
  by unfold_locales (unfold work_channels.simps binding_channels.simps changed_channels,
    (rule refl | rule finish_channels | rule finish_frames | blast)+)

interpretation linear_core: set_core LINEAR light_changed light_finish Lightness_Linear_Work
  by unfold_locales (unfold work_channels.simps binding_channels.simps changed_channels,
    (rule refl | rule finish_channels | rule finish_frames | blast)+)

interpretation level_temp_core: set_core LEVEL_TEMP temp_changed temp_finish Level_Temp_Work
  by unfold_locales (unfold work_channels.simps binding_channels.simps changed_channels,
    (rule refl | rule finish_channels | rule finish_frames | blast)+)

interpretation ctl_core: set_core CTL_LIGHT "\<lambda>n. light_changed n \<or> temp_changed n \<or> duv_changed n"
    "\<lambda>n. duv_finish (temp_finish (light_finish n))" Light_Ctl_Work
  by unfold_locales (unfold work_channels.simps binding_channels.simps changed_channels,
    (rule refl | rule finish_channels | rule finish_frames | blast)+)

interpretation ctl_temp_core: set_core CTL_TEMP "\<lambda>n. temp_changed n \<or> duv_changed n"
    "\<lambda>n. duv_finish (temp_finish n)" Light_Ctl_Temp_Work
  by unfold_locales (unfold work_channels.simps binding_channels.simps changed_channels,
    (rule refl | rule finish_channels | rule finish_frames | blast)+)

text \<open>The ends of the ranges, and the present value, are temperatures a move may aim at.\<close>

lemma move_aims:
  "node_ok n \<Longrightarrow> returns (set_target MOVE_LIGHT v n) (\<lambda>n'. aimed n n' \<and> node_ok n')"
  "node_ok n \<Longrightarrow> v = tm_range_min (temp n) \<or> v = tm_range_max (temp n) \<or> v = tm_current (temp n) \<Longrightarrow>
     returns (set_target MOVE_TEMP v n) (\<lambda>n'. aimed n n' \<and> node_ok n')"
  by (rule set_target_aims; auto simp: node_ok_def temp_range_ok_def)+

lemma move_delta_frame: "node_ok (set_temp_delta d n) = node_ok n" "node_ok (set_light_delta d n) = node_ok n"
  "cur c (set_temp_delta d n) = cur c n" "cur c (set_light_delta d n) = cur c n"
  by (simp_all add: node_ok_def temp_range_ok_def) (cases c; simp)+

text \<open>What an interpretation of the contracts unfolds to compare a handler with its shape.\<close>

lemmas server_simps = parse_8_def parse_16_def parse_16_16_def parse_16_16_16_def parse_32_def start_transition_def
  onoff_handler_def level_lightness_handler_def level_temp_handler_def light_lightness_actual_handler_def
  light_lightness_linear_handler_def light_ctl_handler_def light_ctl_temp_handler_def not_le Let_def

lemmas server_splits = Option.bind_split option.split prod.split

end
