(* ===== verification/Reports.thy ===== *)
theory Reports
  imports SetProtocol
begin

text \<open>
  The rules by which the handlers that start no transition are verified: what it takes to read a
  field, to send and to publish, and the relation \<open>unmoved\<close> between the states before and after
  a handler that leaves the present values, the targets and the transition alone.
\<close>

section \<open>What does not move the light\<close>

definition unmoved :: "node \<Rightarrow> node \<Rightarrow> bool" where
  "unmoved n n' \<longleftrightarrow> (\<forall>c. cur c n' = cur c n \<and> tgt c n' = tgt c n \<and> dlt c n' = dlt c n) \<and>
     armed n' = armed n \<and> node_ok n' = node_ok n \<and>
     tr_counter (trans n') = tr_counter (trans n) \<and> tr_type (trans n') = tr_type (trans n) \<and>
     tr_just_started (trans n') = tr_just_started (trans n)"

lemma unmoved_refl: "unmoved n n"
  by (simp add: unmoved_def)

lemma unmoved_trans: "unmoved n n' \<Longrightarrow> unmoved n' n'' \<Longrightarrow> unmoved n n''"
  by (simp add: unmoved_def)

lemma quiet_unmoved: "quiet n n' \<Longrightarrow> unmoved n n'"
  by (simp add: unmoved_def quiet_channels quiet_fields)

lemma unmoved_inv: "unmoved n n' \<Longrightarrow> node_inv n' = node_inv n"
  by (simp add: unmoved_def node_inv_def tick_ok_def split: option.split)

lemma unmoved_reacts: "node_inv k \<Longrightarrow> (\<And>c. cur c k = cur c n) \<Longrightarrow> returns x (unmoved k) \<Longrightarrow> returns x (reacts n)"
  by (auto elim!: returns_mono simp: reacts_def unmoved_inv) (simp add: unmoved_def)

lemma unmoved_stays: "node_inv n \<Longrightarrow> unmoved n n' \<Longrightarrow> reacts n n'"
  by (simp add: reacts_def unmoved_inv) (simp add: unmoved_def)

lemma all_channels: "(\<forall>c. P c) \<longleftrightarrow> P Light_ch \<and> P Temp_ch \<and> P Duv_ch"
  by (metis channel.exhaust)

lemma tick_ok_cong:
  assumes "\<forall>c. cur c n' = cur c n \<and> tgt c n' = tgt c n \<and> dlt c n' = dlt c n" "trans n' = trans n" "armed n' = armed n"
  shows "tick_ok n' = tick_ok n"
  using assms by (simp add: tick_ok_def split: option.split)

lemma unmoved_stored:
  assumes "unmoved n m"
  shows "unmoved n (save_on_flash i m)" "untimed ev \<Longrightarrow> unmoved n (emit ev m)"
    "unmoved n (m\<lparr>c_tt := t\<rparr>)" "unmoved n (m\<lparr>c_onpowerup := p\<rparr>)" "unmoved n (m\<lparr>vnd_user_data := v\<rparr>)"
    "unmoved n (m\<lparr>reset_counter := r\<rparr>)" "unmoved n (m\<lparr>button_tid := r\<rparr>)"
    "unmoved n (m\<lparr>light := (light m)\<lparr>lt_def := a\<rparr>\<rparr>)"
    "unmoved n (m\<lparr>light := (light m)\<lparr>lt_last := a\<rparr>\<rparr>)"
    "unmoved n (m\<lparr>light := (light m)\<lparr>lt_range := q\<rparr>\<rparr>)"
    "unmoved n (m\<lparr>light := (light m)\<lparr>lt_status_code := s\<rparr>\<rparr>)"
    "unmoved n (m\<lparr>light := (light m)\<lparr>lt_range_min := a, lt_range_max := b\<rparr>\<rparr>)"
    "unmoved n (m\<lparr>temp := (temp m)\<lparr>tm_status_code := s\<rparr>\<rparr>)"
    "unmoved n (m\<lparr>temp := (temp m)\<lparr>tm_range := q\<rparr>\<rparr>)"
    "unmoved n (m\<lparr>temp := (temp m)\<lparr>tm_def := a\<rparr>\<rparr>)"
    "unmoved n (m\<lparr>duv := (duv m)\<lparr>dv_def := a\<rparr>\<rparr>)"
    "unmoved n (m\<lparr>reset_done := b'\<rparr>)" "unmoved n (m\<lparr>button_state := r\<rparr>)"
  using assms
  by (simp_all add: unmoved_def all_channels save_on_flash_def armed_def timer_state_def node_ok_def temp_range_ok_def
      emit_def timer_step_untimed)

section \<open>One rule per step of a handler\<close>

lemma pull_returns [returns_rules]:
  "1 \<le> length bs \<Longrightarrow> (\<And>v r. length r = length bs - 1 \<Longrightarrow> returns (f v r) Q) \<Longrightarrow>
     returns (pull_u8 bs \<bind> (\<lambda>(v, r). f v r)) Q"
  "2 \<le> length bs \<Longrightarrow> (\<And>v r. length r = length bs - 2 \<Longrightarrow> returns (g v r) Q) \<Longrightarrow>
     returns (pull_le16 bs \<bind> (\<lambda>(v, r). g v r)) Q"
  "4 \<le> length bs \<Longrightarrow> (\<And>v r. length r = length bs - 4 \<Longrightarrow> returns (h v r) Q) \<Longrightarrow>
     returns (pull_le32 bs \<bind> (\<lambda>(v, r). h v r)) Q"
  using pull_u8_length [of bs] pull_le16_length [of bs] pull_le32_length [of bs] by (auto simp: returns_eq_Some)

lemma if_returns [returns_rules]:
  "(b \<Longrightarrow> returns x Q) \<Longrightarrow> (\<not> b \<Longrightarrow> returns y Q) \<Longrightarrow> returns (if b then x else y) Q"
  by simp

lemma Some_returns [returns_rules]: "Q x \<Longrightarrow> returns (Some x) Q"
  by simp

lemma quiet_bind:
  assumes "returns x (quiet m)" "unmoved n m" "\<And>m'. unmoved n m' \<Longrightarrow> returns (f m') (unmoved n)"
  shows "returns (x \<bind> f) (unmoved n)"
proof -
  from assms(1) obtain m' where "x = Some m'" "quiet m m'" by (rule returnsE)
  then show ?thesis using assms(3) [of m'] unmoved_trans [OF assms(2) quiet_unmoved] by simp
qed

lemma quiet_end:
  assumes "returns x (quiet m)" "unmoved n m"
  shows "returns x (unmoved n)"
  using unmoved_trans [OF assms(2) quiet_unmoved] by (rule returns_mono [OF assms(1)])

lemma unmoved_bind:
  assumes "returns x (unmoved n)" "\<And>m'. unmoved n m' \<Longrightarrow> returns (f m') (unmoved n)"
  shows "returns (x \<bind> f) (unmoved n)"
  using assms by (auto simp: returns_eq_Some)

lemma quiet_if: "returns x (quiet n) \<Longrightarrow> returns (if off then Some n else x) (quiet n)"
  by simp

lemmas quiet_steps = quiet_refl quiet_emit_trans untimed_simps
lemmas unmoved_steps = unmoved_refl unmoved_stored untimed_simps

end
