(* ===== verification/Moves.thy ===== *)
theory Moves
  imports Reports
begin

text \<open>
  The runs of a move: the level changes by the delta of the message at every tick, stays inside
  the range, and the timer stops at the end of the range the move was aimed at.
\<close>

section \<open>One step of a move\<close>

definition move_next :: "int \<Rightarrow> int \<Rightarrow> int" where
  "move_next c d = (if c \<noteq> 0 then c + d else if d < 0 then UINT16_MAX + d else if d > 0 then d else 0)"

definition into_range :: "int \<Rightarrow> int \<Rightarrow> int \<Rightarrow> int" where
  "into_range lo hi i = (if i > hi then hi else if i < lo then lo else i)"

definition moving :: "node \<Rightarrow> bool" where
  "moving n \<longleftrightarrow> node_ok n \<and> tr_type (trans n) = MOVE \<and> \<not> tr_just_started (trans n) \<and> tr_counter (trans n) \<noteq> 0"

text \<open>Where a move from \<open>c\<close> by \<open>d\<close> per tick is after \<open>j\<close> ticks.\<close>

definition move_position :: "int \<Rightarrow> int \<Rightarrow> int \<Rightarrow> int \<Rightarrow> nat \<Rightarrow> int" where
  "move_position lo hi c d j = (if d > 0 then min hi (c + int j * d) else max lo (c + int j * d))"

lemma move_next_word: "move_next (uint (w :: u16)) d =
    (if w \<noteq> 0 then uint w + d else if d < 0 then UINT16_MAX + d else if d > 0 then d else 0)"
  by (simp add: move_next_def uint_0_iff)

lemma into_range_bounds:
  "0 \<le> lo \<Longrightarrow> lo \<le> 65535 \<Longrightarrow> 0 \<le> hi \<Longrightarrow> hi \<le> 65535 \<Longrightarrow> 0 \<le> into_range lo hi i \<and> into_range lo hi i \<le> 65535"
  by (auto simp: into_range_def)

lemma into_range_u16:
  "0 \<le> into_range (uint (lo :: u16)) (uint (hi :: u16)) i" "into_range (uint (lo :: u16)) (uint (hi :: u16)) i \<le> 65535"
  using into_range_bounds [of "uint lo" "uint hi" i] by simp_all

lemma uint_into_range [simp]:
  "uint (word_of_int (into_range (uint (lo :: u16)) (uint (hi :: u16)) i) :: u16) = into_range (uint lo) (uint hi) i"
  by (rule uint_of_int_u16) (rule into_range_u16)+

lemma move_position_Suc:
  assumes "1 \<le> lo" "lo \<le> c" "c \<le> hi" "d \<noteq> 0"
  shows "into_range lo hi (move_next c d) = move_position lo hi c d (Suc 0)"
    "move_position lo hi (move_position lo hi c d (Suc 0)) d j = move_position lo hi c d (Suc j)"
    "lo \<le> move_position lo hi c d j" "move_position lo hi c d j \<le> hi"
proof -
  show "into_range lo hi (move_next c d) = move_position lo hi c d (Suc 0)"
    using assms by (auto simp: into_range_def move_next_def move_position_def)
  obtain t where t: "int j * d = t" "0 < d \<Longrightarrow> 0 \<le> t" "d < 0 \<Longrightarrow> t \<le> 0"
    by (metis mult_nonneg_nonpos mult_nonneg_nonneg of_nat_0_le_iff less_imp_le)
  have s: "int (Suc j) * d = t + d" using t(1) by (simp add: algebra_simps)
  have j1: "int (Suc 0) * d = d" by simp
  show "move_position lo hi (move_position lo hi c d (Suc 0)) d j = move_position lo hi c d (Suc j)"
    using assms t(2,3) unfolding move_position_def s j1 t(1) by (cases "0 < d") (auto simp: min_def max_def)
  show "lo \<le> move_position lo hi c d j" "move_position lo hi c d j \<le> hi"
    using assms t(2,3) unfolding move_position_def t(1) by (cases "0 < d"; force simp: min_def max_def)+
qed

locale move_handler =
  fixes tick :: "env \<Rightarrow> node \<Rightarrow> node option" and ch :: channel and lower upper :: "node \<Rightarrow> u16"
    and put :: "u16 \<Rightarrow> node \<Rightarrow> node"
  assumes tick_started: "tr_just_started (trans n) \<Longrightarrow> tick e n = first_tick e n"
    and tick_move: "\<not> tr_just_started (trans n) \<Longrightarrow> tr_type (trans n) = MOVE \<Longrightarrow>
      tick e n = (let v = into_range (uint (lower n)) (uint (upper n)) (move_next (cur ch n) (dlt ch n))
        in do { n' \<leftarrow> update_light_state (put (word_of_int v) n);
                Some (if tgt ch n' = v then k_timer_stop (set_counter 0 n') else n') })"
    and put_cur: "cur c (put v n) = (if c = ch then uint v else cur c n)"
    and put_frame: "only_current n (put v n)"
    and bounds_cong: "light n' = light n \<Longrightarrow> temp n' = temp n \<Longrightarrow> lower n' = lower n \<and> upper n' = upper n"
    and put_bounds: "lower (put v n) = lower n" "upper (put v n) = upper n"
    and put_ok: "node_ok n \<Longrightarrow> uint v = into_range (uint (lower n)) (uint (upper n)) i \<Longrightarrow> node_ok (put v n)"
begin

definition next_level :: "node \<Rightarrow> int" where
  "next_level n = into_range (uint (lower n)) (uint (upper n)) (move_next (cur ch n) (dlt ch n))"

definition moved :: "node \<Rightarrow> node \<Rightarrow> bool" where
  "moved n n' \<longleftrightarrow> node_ok n' \<and> (\<forall>c. cur c n' = (if c = ch then next_level n else cur c n)) \<and>
    (\<forall>c. tgt c n' = tgt c n \<and> dlt c n' = dlt c n) \<and> lower n' = lower n \<and> upper n' = upper n \<and>
    (if next_level n = tgt ch n then armed n' = None \<and> tr_counter (trans n') = 0
     else armed n' = armed n \<and> moving n')"

lemma move_tick:
  assumes "moving n"
  shows "returns (tick e n) (moved n)"
proof -
  let ?p = "put (word_of_int (next_level n)) n"
  let ?fin = "\<lambda>n'. if tgt ch n' = next_level n then k_timer_stop (set_counter 0 n') else n'"
  have u: "uint (word_of_int (next_level n) :: u16) = next_level n" unfolding next_level_def by simp
  note f = only_current_fields [OF put_frame [of n "word_of_int (next_level n)"]]
  have ok: "node_ok ?p" using assms u by (intro put_ok) (simp_all add: moving_def next_level_def)
  then have shown: "returns (update_light_state ?p) (quiet (?p\<lparr>reset_done := True\<rparr>))"
    by (intro update_light_state_quiet node_ok_led_ok)
  have tick: "tick e n = do { n' \<leftarrow> update_light_state ?p; Some (?fin n') }"
    using assms by (simp add: moving_def tick_move next_level_def Let_def)
  have "moved n (?fin n')" if q: "quiet (?p\<lparr>reset_done := True\<rparr>) n'" for n'
  proof -
    have e: "cur c n' = cur c ?p" "tgt c n' = tgt c ?p" "dlt c n' = dlt c ?p" for c
      using quiet_channels [OF q] channel_cong [of "?p\<lparr>reset_done := True\<rparr>" ?p] by simp_all
    have s: "cur c (k_timer_stop (set_counter 0 n')) = cur c n'" "tgt c (k_timer_stop (set_counter 0 n')) = tgt c n'"
      "dlt c (k_timer_stop (set_counter 0 n')) = dlt c n'" for c
      by (rule channel_cong; simp)+
    have b: "lower n' = lower n \<and> upper n' = upper n"
      using bounds_cong [of n' ?p] put_bounds [of "word_of_int (next_level n)" n] quiet_fields(1,2) [OF q] by simp
    have b': "lower (k_timer_stop (set_counter 0 n')) = lower n' \<and> upper (k_timer_stop (set_counter 0 n')) = upper n'"
      by (rule bounds_cong) simp_all
    have k: "node_ok n'" "node_ok (k_timer_stop (set_counter 0 n'))"
      using ok quiet_channels(4) [OF q] node_ok_cong [of "?p\<lparr>reset_done := True\<rparr>" ?p]
        node_ok_cong [of "k_timer_stop (set_counter 0 n')" n'] by simp_all
    have a: "armed n' = armed n"
      using quiet_fields(16) [OF q] armed_cong [of "?p\<lparr>reset_done := True\<rparr>" ?p] f(3) by simp
    have m: "moving n'" using k(1) quiet_fields(17-19) [OF q] f(1) assms by (simp add: moving_def)
    show ?thesis using k b b' a m by (auto simp: moved_def s e f put_cur u)
  qed
  then show ?thesis unfolding tick by (intro returns_bindI [OF shown]) simp
qed

text \<open>A run of \<open>length es\<close> ticks, before the end of the range was reached or just when it is.\<close>

lemma move_run:
  assumes "moving n" "1 \<le> uint (lower n)" "uint (lower n) \<le> cur ch n" "cur ch n \<le> uint (upper n)" "dlt ch n \<noteq> 0"
    "tgt ch n = (if dlt ch n > 0 then uint (upper n) else uint (lower n))" "es \<noteq> []"
    "\<forall>i < length es. move_position (uint (lower n)) (uint (upper n)) (cur ch n) (dlt ch n) i \<noteq> tgt ch n"
  shows "returns (run_ticks tick es n) (\<lambda>n'. node_ok n' \<and>
    cur ch n' = move_position (uint (lower n)) (uint (upper n)) (cur ch n) (dlt ch n) (length es) \<and>
    (\<forall>c. c \<noteq> ch \<longrightarrow> cur c n' = cur c n) \<and>
    (if cur ch n' = tgt ch n then armed n' = None \<and> tr_counter (trans n') = 0 else armed n' = armed n \<and> moving n'))"
  using assms
proof (induction es arbitrary: n)
  case Nil
  then show ?case by simp
next
  case (Cons e es)
  note pos = move_position_Suc [OF Cons.prems(2-5)]
  have nl: "next_level n = move_position (uint (lower n)) (uint (upper n)) (cur ch n) (dlt ch n) (Suc 0)"
    unfolding next_level_def by (rule pos(1))
  show ?case
  proof (cases "es = []")
    case True
    then show ?thesis using move_tick [OF Cons.prems(1), of e] nl by (auto simp: moved_def elim!: returns_mono)
  next
    case False
    then have nt: "next_level n \<noteq> tgt ch n" using Cons.prems(8) unfolding nl by (metis Suc_less_eq length_Cons length_greater_0_conv)
    have "returns (run_ticks tick es m) (\<lambda>n'. node_ok n' \<and>
      cur ch n' = move_position (uint (lower n)) (uint (upper n)) (cur ch n) (dlt ch n) (length (e # es)) \<and>
      (\<forall>c. c \<noteq> ch \<longrightarrow> cur c n' = cur c n) \<and>
      (if cur ch n' = tgt ch n then armed n' = None \<and> tr_counter (trans n') = 0 else armed n' = armed n \<and> moving n'))"
      if m: "moved n m" for m
    proof -
      have mm: "moving m" "cur ch m = next_level n" "tgt ch m = tgt ch n" "dlt ch m = dlt ch n" "lower m = lower n"
        "upper m = upper n" "armed m = armed n" "\<And>c. c \<noteq> ch \<Longrightarrow> cur c m = cur c n"
        using m nt by (simp_all add: moved_def)
      have p: "move_position (uint (lower n)) (uint (upper n)) (cur ch m) (dlt ch n) i =
        move_position (uint (lower n)) (uint (upper n)) (cur ch n) (dlt ch n) (Suc i)" for i
        unfolding mm(2) nl by (rule pos(2))
      have "\<forall>i < length es. move_position (uint (lower n)) (uint (upper n)) (cur ch m) (dlt ch n) i \<noteq> tgt ch n"
        using Cons.prems(8) unfolding p by (metis Suc_less_eq length_Cons)
      moreover have "uint (lower n) \<le> cur ch m" "cur ch m \<le> uint (upper n)"
        using pos(3,4) [of "Suc 0"] unfolding mm(2) nl by blast+
      ultimately show ?thesis
        using Cons.IH [OF mm(1), unfolded mm(3-7) p] Cons.prems(2,5,6) False mm(8) by (auto simp: p elim!: returns_mono)
    qed
    then show ?thesis unfolding run_ticks.simps by (rule returns_bindI [OF move_tick [OF Cons.prems(1)]])
  qed
qed

end

section \<open>The two handlers that move\<close>

interpretation lightness_move: move_handler level_lightness_work_handler Light_ch "\<lambda>n. lt_range_min (light n)"
    "\<lambda>n. lt_range_max (light n)" set_light_current
proof unfold_locales
  show "cur c (set_light_current v n) = (if c = Light_ch then uint v else cur c n)" for c v n by (cases c) simp_all
  show "only_current n (set_light_current v n)" for n v by (rule only_currentI) simp
  show "node_ok n \<Longrightarrow> node_ok (set_light_current v n)" for n v using node_ok_cong [of "set_light_current v n" n] by simp
qed (simp_all add: level_lightness_work_handler_def level_move_lightness_work_handler_def into_range_def move_next_word Let_def cong: if_cong)

interpretation temp_move: move_handler level_temp_work_handler Temp_ch "\<lambda>n. tm_range_min (temp n)"
    "\<lambda>n. tm_range_max (temp n)" set_temp_current
proof unfold_locales
  show "cur c (set_temp_current v n) = (if c = Temp_ch then uint v else cur c n)" for c v n by (cases c) simp_all
  show "only_current n (set_temp_current v n)" for n v by (rule only_currentI) simp
  show "node_ok n \<Longrightarrow> uint v = into_range (uint (tm_range_min (temp n))) (uint (tm_range_max (temp n))) i \<Longrightarrow>
      node_ok (set_temp_current v n)" for n v i
    by (auto simp: node_ok_def temp_range_ok_def into_range_def word_le_def word_less_def)
qed (simp_all add: level_temp_work_handler_def level_move_temp_work_handler_def into_range_def move_next_word Let_def cong: if_cong)

end
