(* ===== verification/Journeys.thy ===== *)
theory Journeys
  imports Moves
begin

text \<open>
  From a set message to the settled light: the handler of a set message followed by the runs of
  the work item it armed. \<open>run_timer\<close> serves the transition timer for as long as it is armed; at
  most eleven expiries (one that starts the clock, ten steps) settle every transition.
\<close>

fun run_timer :: "(env \<Rightarrow> node \<Rightarrow> node option) \<Rightarrow> env list \<Rightarrow> node \<Rightarrow> node option" where
  "run_timer tick [] n = Some n"
| "run_timer tick (e # es) n = (if armed n = None then Some n else tick e n \<bind> run_timer tick es)"

lemma run_timer_stopped: "armed n = None \<Longrightarrow> run_timer tick es n = Some n"
  by (cases es) simp_all

lemma ramp_between:
  assumes "ramp c t d k" "0 \<le> j" "j < k"
  shows "min c t \<le> c - j * d" "c - j * d \<le> max c t"
proof -
  have "j * \<bar>d\<bar> \<le> k * \<bar>d\<bar>" using assms(2,3) by (intro mult_right_mono) simp_all
  then have m: "\<bar>j * d\<bar> \<le> \<bar>c - t\<bar>" using assms(1,2) by (simp add: ramp_def abs_mult)
  have "0 \<le> (j * d) * (c - t)" using assms(1,2) by (simp add: ramp_def mult.assoc)
  then have "0 \<le> j * d \<and> t \<le> c \<or> j * d \<le> 0 \<and> c \<le> t" using m by (auto simp: zero_le_mult_iff)
  then show "min c t \<le> c - j * d" "c - j * d \<le> max c t" using m by linarith+
qed

context ramp_handler
begin

text \<open>A transition with \<open>k\<close> steps ahead settles as soon as \<open>k\<close> expiries were served.\<close>

lemma timer_finishes:
  "ramping C k n \<Longrightarrow> 1 \<le> k \<Longrightarrow> armed n \<noteq> None \<Longrightarrow> k \<le> int (length es) \<Longrightarrow>
   returns (run_timer tick es n) (arrived C n)"
proof (induction es arbitrary: n k)
  case Nil
  then show ?case by simp
next
  case (Cons e es)
  show ?case
  proof (cases "k = 1")
    case True
    have "returns (tick e n) (arrived C n)" using last Cons.prems(1) unfolding True by blast
    then have "returns (tick e n \<bind> run_timer tick es) (arrived C n)"
      by (rule returns_bindI) (simp add: arrived_def run_timer_stopped)
    then show ?thesis by (simp only: run_timer.simps Cons.prems(3) if_False)
  next
    case False
    then have "2 \<le> k" using Cons.prems(2) by linarith
    from step [OF Cons.prems(1) this] have "returns (tick e n \<bind> run_timer tick es) (arrived C n)"
    proof (rule returns_bindI)
      fix m assume m: "ramping C (k - 1) m \<and> advanced C 1 n m"
      have "returns (run_timer tick es m) (arrived C m)"
        by (rule Cons.IH [of "k - 1"]) (use m \<open>2 \<le> k\<close> Cons.prems in \<open>auto simp: advanced_def\<close>)
      then show "returns (run_timer tick es m) (arrived C n)"
        by (rule returns_mono) (use m in \<open>auto simp: arrived_def advanced_def\<close>)
    qed
    then show ?thesis by (simp only: run_timer.simps Cons.prems(3) if_False)
  qed
qed

lemma first_finishes:
  assumes "ramp_started C 0 n" "armed n \<noteq> None"
  shows "returns (tick e n) (\<lambda>n'. node_ok n' \<and> armed n' = None \<and> (\<forall>c. cur c n' = cur c n \<and> tgt c n' = tgt c n))"
proof -
  have z: "tr_counter (trans n) = 0" "tr_just_started (trans n)" "node_ok n"
    using assms(1) uint_0_iff by (auto simp: ramp_started_def ramp_ready_def)
  let ?m = "set_just_started False n"
  have ok: "node_ok ?m" using z(3) node_ok_cong [of ?m n] by simp
  then have u: "returns (update_light_state ?m) (quiet (?m\<lparr>reset_done := True\<rparr>))"
    by (intro update_light_state_quiet node_ok_led_ok)
  have "node_ok (k_timer_stop n') \<and> armed (k_timer_stop n') = None \<and>
      (\<forall>c. cur c (k_timer_stop n') = cur c n \<and> tgt c (k_timer_stop n') = tgt c n)"
    if q: "quiet (?m\<lparr>reset_done := True\<rparr>) n'" for n'
  proof -
    have "cur c (k_timer_stop n') = cur c n \<and> tgt c (k_timer_stop n') = tgt c n" for c
      using quiet_channels [OF q] channel_cong [of "k_timer_stop n'" n'] channel_cong [of "?m\<lparr>reset_done := True\<rparr>" n]
      by simp
    then show ?thesis using ok quiet_channels(4) [OF q] node_ok_cong [of "?m\<lparr>reset_done := True\<rparr>" ?m]
        node_ok_cong [of "k_timer_stop n'" n'] by simp
  qed
  then show ?thesis using z by (auto simp: tick_started first_tick_def Let_def intro: returns_mono [OF u])
qed

text \<open>What \<open>started\<close> leaves behind settles within eleven expiries.\<close>

lemma started_finishes:
  assumes "started w n1 n" "work_channels w = C" "11 \<le> length es"
  shows "returns (run_timer tick es n) (\<lambda>n'. node_ok n' \<and> armed n' = None \<and>
    (\<forall>c. cur c n' = (if c \<in> C then tgt c n1 else cur c n1) \<and> tgt c n' = tgt c n1))"
proof (cases "armed n = None")
  case True
  then show ?thesis using assms(1,2)
    by (auto simp: run_timer_stopped started_def split: if_splits)
next
  case False
  obtain e es' where es: "es = e # es'" "10 \<le> length es'" using assms(3) by (cases es) auto
  have nc: "\<not> (\<forall>c \<in> C. cur c n1 = tgt c n1)"
  proof
    assume "\<forall>c \<in> C. cur c n1 = tgt c n1"
    then have "armed n = None" using assms(1,2) by (simp add: started_def)
    with False show False by simp
  qed
  have t: "tgt c n = tgt c n1" for c using assms(1) by (simp add: started_def)
  show ?thesis
  proof (cases "tr_tt (trans n1) AND 0x3F = 0")
    case True
    then have s: "ramp_started C 0 n" "\<forall>c. cur c n = (if c \<in> C then tgt c n1 else cur c n1)"
      using started_at_once [OF assms(1)] nc assms(2) by blast+
    have "returns (tick e n \<bind> run_timer tick es') (\<lambda>n'. node_ok n' \<and> armed n' = None \<and>
        (\<forall>c. cur c n' = (if c \<in> C then tgt c n1 else cur c n1) \<and> tgt c n' = tgt c n1))"
      by (rule returns_bindI [OF first_finishes [OF s(1) False]]) (use s(2) t in \<open>simp add: run_timer_stopped\<close>)
    then show ?thesis by (simp only: es(1) run_timer.simps False if_False)
  next
    case nz: False
    let ?k = "uint (transition_counter (tr_tt (trans n1)))"
    have s: "ramp_started C ?k n" "\<forall>c. cur c n = cur c n1"
      using started_moving [OF assms(1)] nc nz assms(2) by blast+
    note k = transition_counter_bounds(1,2) [OF nz]
    have "returns (tick e n \<bind> run_timer tick es') (arrived C n)"
    proof (rule returns_bindI [OF first [OF s(1) k(1)]])
      fix m assume m: "ramping C ?k m \<and> advanced C 0 n m"
      have "returns (run_timer tick es' m) (arrived C m)"
        by (rule timer_finishes [where k = ?k]) (use m k es(2) False in \<open>auto simp: advanced_def\<close>)
      then show "returns (run_timer tick es' m) (arrived C n)"
        by (rule returns_mono) (use m in \<open>auto simp: arrived_def advanced_def\<close>)
    qed
    then have "returns (run_timer tick es n) (arrived C n)" by (simp only: es(1) run_timer.simps False if_False)
    then show ?thesis by (rule returns_mono) (use s(2) t in \<open>auto simp: arrived_def\<close>)
  qed
qed

end

section \<open>Set messages\<close>

locale set_journey = set_server ty changed finish w handler reply publish m parse len valid aim +
    ramp_handler tick adv fin "work_channels w"
  for ty changed finish w handler reply publish m and parse :: "u8 list \<Rightarrow> ('a \<times> u8 \<times> u8 list) option"
    and len valid aim tick adv fin
begin

lemma settles:
  assumes "node_ok n" "parse buf = Some (a, tid, rest)" "valid a" "\<not> tid_repeated e cx tid n"
    "opt_fields (c_tt n) rest = Some (tt, delay)" "11 \<le> length es"
  shows "returns (handler m e cx buf n \<bind> run_timer tick es) (\<lambda>n'. node_inv n' \<and> armed n' = None \<and>
    (\<exists>n1. aim a (begin_transition e cx tid tt delay NON_MOVE n) = Some n1 \<and>
      (\<forall>c. cur c n' = (if c \<in> work_channels w then tgt c n1 else cur c n) \<and> tgt c n' = tgt c n1)))"
proof (rule returns_bindI [OF accepted [OF assms(1-5)]], elim exE conjE)
  let ?b = "begin_transition e cx tid tt delay NON_MOVE n"
  fix n0 n1 assume n1: "aim a ?b = Some n1" "aimed ?b n1" "started w n1 n0"
  have c: "cur c n1 = cur c n" for c using aimed_fields(14) [OF n1(2)] by simp
  show "returns (run_timer tick es n0) (\<lambda>n'. node_inv n' \<and> armed n' = None \<and> (\<exists>n1. aim a ?b = Some n1 \<and>
      (\<forall>c. cur c n' = (if c \<in> work_channels w then tgt c n1 else cur c n) \<and> tgt c n' = tgt c n1)))"
    by (rule returns_mono [OF started_finishes [OF n1(3) refl assms(6)]])
      (use n1(1) c in \<open>auto intro: node_invI\<close>)
qed

text \<open>
  While the transition runs, \<open>j + 1\<close> expiries with \<open>j\<close> less than the number of steps have moved
  every quantity of the view by \<open>j\<close> deltas, which is a point between start and target.
\<close>

lemma on_the_way:
  assumes "node_ok n" "parse buf = Some (a, tid, rest)" "valid a" "\<not> tid_repeated e cx tid n"
    "opt_fields (c_tt n) rest = Some (tt, delay)" "tt AND 0x3F \<noteq> 0"
    "aim a (begin_transition e cx tid tt delay NON_MOVE n) = Some n1" "\<exists>c \<in> work_channels w. cur c n \<noteq> tgt c n1"
    "int (length es) < uint (transition_counter tt)"
  shows "returns (handler m e cx buf n \<bind> run_ticks tick (e0 # es)) (\<lambda>n'. armed n' = Some w \<and>
    (\<forall>c \<in> work_channels w.
       cur c n' = cur c n - int (length es) * c_div (cur c n - tgt c n1) (uint (transition_counter tt)) \<and>
       min (cur c n) (tgt c n1) \<le> cur c n' \<and> cur c n' \<le> max (cur c n) (tgt c n1)))"
proof (rule returns_bindI [OF accepted [OF assms(1-5)]], elim exE conjE)
  let ?b = "begin_transition e cx tid tt delay NON_MOVE n"
  let ?k = "uint (transition_counter tt)"
  let ?j = "int (length es)"
  fix n0 n1' assume a: "aim a ?b = Some n1'" "aimed ?b n1'" "started w n1' n0"
  then have n1: "n1' = n1" using assms(7) by simp
  note a = a [unfolded n1]
  have c: "cur c n1 = cur c n" for c using aimed_fields(14) [OF a(2)] by simp
  have tt: "tr_tt (trans n1) = tt" using aimed_fields(1) [OF a(2)] by simp
  have nc: "\<not> (\<forall>c \<in> work_channels w. cur c n1 = tgt c n1)" using assms(8) c by auto
  then have s: "armed n0 = Some w" "\<forall>c. cur c n0 = cur c n" "\<forall>c. tgt c n0 = tgt c n1" "ramp_started (work_channels w) ?k n0"
    "\<forall>c \<in> work_channels w. dlt c n0 = c_div (cur c n - tgt c n1) ?k"
    using started_moving [OF a(3) nc] assms(6) unfolding tt c by blast+
  note k = transition_counter_bounds(1) [OF assms(6)]
  have "returns (run_ticks tick (e0 # es) n0) (advanced (work_channels w) ?j n0)"
    unfolding run_ticks.simps
  proof (rule returns_bindI [OF first [OF s(4) k]])
    fix m assume m: "ramping (work_channels w) ?k m \<and> advanced (work_channels w) 0 n0 m"
    then have "returns (run_ticks tick es m) (\<lambda>n'. ramping (work_channels w) (?k - ?j) n' \<and> advanced (work_channels w) ?j m n')"
      using assms(9) by (intro run_part) simp_all
    then show "returns (run_ticks tick es m) (advanced (work_channels w) ?j n0)"
      by (rule returns_mono) (use m in \<open>auto simp: advanced_def\<close>)
  qed
  then show "returns (run_ticks tick (e0 # es) n0) (\<lambda>n'. armed n' = Some w \<and>
    (\<forall>c \<in> work_channels w. cur c n' = cur c n - ?j * c_div (cur c n - tgt c n1) ?k \<and>
       min (cur c n) (tgt c n1) \<le> cur c n' \<and> cur c n' \<le> max (cur c n) (tgt c n1)))"
    by (rule returns_mono) (use s assms(9) ramp_between [OF ramp_c_div [OF k]] in \<open>auto simp: advanced_def\<close>)
qed

end

section \<open>Delta messages\<close>

locale delta_journey = delta_server ty changed finish w handler reply publish m view level step_size get_last put_last +
    ramp_handler tick adv fin "work_channels w"
  for ty changed finish w handler reply publish m view level step_size get_last put_last tick adv fin
begin

lemma settles:
  assumes "node_ok n" "parse_32 buf = Some (delta, tid, rest)" "\<not> tid_repeated e cx tid n" "delta_fits delta"
    "opt_fields (c_tt n) rest = Some (tt, delay)" "level n = Some i" "11 \<le> length es"
  shows "returns (handler m e cx buf n \<bind> run_timer tick es) (\<lambda>n'. node_inv n' \<and> armed n' = None \<and>
    (\<exists>n1. set_target view (word_of_int (clamp16 (sint (word_of_int i :: s16) + delta)))
        (begin_transition e cx tid tt delay NON_MOVE (put_last (word_of_int i) n)) = Some n1 \<and>
      (\<forall>c. cur c n' = (if c \<in> work_channels w then tgt c n1 else cur c n) \<and> tgt c n' = tgt c n1)))"
proof (rule returns_bindI [OF accepted [OF assms(1-6)]], elim exE conjE)
  let ?b = "begin_transition e cx tid tt delay NON_MOVE (put_last (word_of_int i) n)"
  let ?t = "word_of_int (clamp16 (sint (word_of_int i :: s16) + delta))"
  fix n0 n1 assume n1: "set_target view ?t ?b = Some n1" "aimed ?b n1" "started w n1 n0"
  have c: "cur c n1 = cur c n" for c
    using aimed_fields(14) [OF n1(2)] channel_cong(1) [OF put_last_frame(1-3)] by simp
  show "returns (run_timer tick es n0) (\<lambda>n'. node_inv n' \<and> armed n' = None \<and> (\<exists>n1. set_target view ?t ?b = Some n1 \<and>
      (\<forall>c. cur c n' = (if c \<in> work_channels w then tgt c n1 else cur c n) \<and> tgt c n' = tgt c n1)))"
    by (rule returns_mono [OF started_finishes [OF n1(3) refl assms(7)]])
      (use n1(1) c in \<open>auto intro: node_invI\<close>)
qed

end

section \<open>With and without acknowledgement\<close>

context set_server
begin

text \<open>A copy of an accepted message that arrives within six seconds is only answered.\<close>

lemma taken_once:
  assumes "node_ok n" "parse buf = Some (a, tid, rest)" "valid a" "\<not> tid_repeated e cx tid n"
    "opt_fields (c_tt n) rest = Some (tt, delay)" "e_now e' - e_now e \<le> 6000"
  shows "returns (handler m e cx buf n) (\<lambda>n1. returns (handler m e' cx buf n1) (quiet n1))"
proof (rule returns_mono [OF accepted [OF assms(1-5)]], elim exE conjE)
  fix n0 n1 assume n1: "aimed (begin_transition e cx tid tt delay NON_MOVE n) n1" "started w n1 n0"
  then have "node_ok n0" by (simp add: started_def)
  from replayed [OF this assms(2) accepted_once [OF n1 assms(6)]]
  show "returns (handler m e' cx buf n0) (quiet n0)" .
qed

end

definition same_channels :: "node \<Rightarrow> node \<Rightarrow> bool" where
  "same_channels a b \<longleftrightarrow> (\<forall>c. cur c a = cur c b \<and> tgt c a = tgt c b) \<and> armed a = armed b"

lemma started_same:
  assumes "started w n a" "started w n b"
  shows "same_channels a b"
  using assms by (auto simp: started_def same_channels_def split: if_splits)

locale set_pair = ack: set_server ty changed finish w handler reply publish m parse len valid aim +
    una: set_server ty changed finish w handler' "\<lambda>m e cx buf n. Some n" publish m parse len valid aim
  for ty changed finish w handler reply publish m and parse :: "u8 list \<Rightarrow> ('a \<times> u8 \<times> u8 list) option"
    and len valid aim handler'
begin

lemma same:
  assumes "node_ok n" "len \<le> length buf"
  shows "returns (handler m e cx buf n) (\<lambda>a. returns (handler' m e cx buf n) (same_channels a))"
proof -
  obtain a tid rest where p: "parse buf = Some (a, tid, rest)" using ack.parse_len [OF assms(2)] by auto
  consider "\<not> valid a" | "valid a" "tid_repeated e cx tid n"
    | "valid a" "\<not> tid_repeated e cx tid n" "opt_fields (c_tt n) rest = None"
    | tt delay where "valid a" "\<not> tid_repeated e cx tid n" "opt_fields (c_tt n) rest = Some (tt, delay)"
    by fastforce
  then show ?thesis
  proof cases
    case 1
    then show ?thesis using ack.rejected [OF p] una.rejected [OF p] by (simp add: same_channels_def)
  next
    case 2
    then have "handler' m e cx buf n = Some n" using p by (simp add: una.handler_eq)
    then show ?thesis using ack.replayed [OF assms(1) p 2(2)]
      by (auto simp: same_channels_def quiet_channels quiet_fields elim!: returns_mono)
  next
    case 3
    then show ?thesis using ack.malformed [OF p] una.malformed [OF p] by (simp add: same_channels_def)
  next
    case 4
    show ?thesis
    proof (rule returns_mono [OF ack.accepted [OF assms(1) p 4]], elim exE conjE)
      fix x n1 assume x: "aim a (begin_transition e cx tid tt delay NON_MOVE n) = Some n1" "started w n1 x"
      show "returns (handler' m e cx buf n) (same_channels x)"
      proof (rule returns_mono [OF una.accepted [OF assms(1) p 4]], elim exE conjE)
        fix y n2 assume y: "aim a (begin_transition e cx tid tt delay NON_MOVE n) = Some n2" "started w n2 y"
        from x(1) y(1) have "n2 = n1" by simp
        with x(2) y(2) show "same_channels x y" using started_same by simp
      qed
    qed
  qed
qed

end

section \<open>Move messages\<close>

locale move_journey = move_server handler reply publish m view changed lower upper present put_delta w +
    move_handler tick ch lower upper put
  for handler reply publish m view changed lower upper present put_delta w tick ch put +
  assumes aim_tgt: "set_target view v n = Some n1 \<Longrightarrow> tgt ch n1 = uint v"
    and changed_iff: "changed n \<longleftrightarrow> cur ch n \<noteq> tgt ch n"
    and put_delta_view: "dlt ch (put_delta d n) = d" "cur c (put_delta d n) = cur c n"
      "lower (put_delta d n) = lower n" "upper (put_delta d n) = upper n"
    and aimed_bounds: "aimed n n1 \<Longrightarrow> lower n1 = lower n \<and> upper n1 = upper n"
begin

lemma moves:
  assumes "node_ok n" "parse_16 buf = Some (delta, tid, rest)" "\<not> tid_repeated e cx tid n"
    "opt_fields (c_tt n) rest = Some (tt, delay)" "tt AND 0x3F \<noteq> 0" "sint delta \<noteq> 0"
    "1 \<le> uint (lower n)" "uint (lower n) \<le> cur ch n" "cur ch n \<le> uint (upper n)" "es \<noteq> []"
  defines "bound \<equiv> uint (if sint delta > 0 then upper n else lower n)"
    and "pos \<equiv> move_position (uint (lower n)) (uint (upper n)) (cur ch n) (sint delta)"
  assumes "\<forall>i < length es. pos i \<noteq> bound"
  shows "returns (handler m e cx buf n \<bind> run_ticks tick (e0 # es)) (\<lambda>n'. cur ch n' = pos (length es) \<and>
    (\<forall>c. c \<noteq> ch \<longrightarrow> cur c n' = cur c n) \<and> armed n' = (if pos (length es) = bound then None else Some w))"
proof (rule returns_bindI [OF accepted [OF assms(1-4)]], elim exE conjE)
  let ?b = "put_delta (sint delta) (begin_transition e cx tid tt delay MOVE n)"
  have lu: "lower ?b = lower n" "upper ?b = upper n"
    using put_delta_view(3,4) bounds_cong [of "begin_transition e cx tid tt delay MOVE n" n] by simp_all
  fix k n1 assume t: "set_target view (if sint delta < 0 then lower ?b else if sint delta > 0 then upper ?b else present ?b) ?b = Some n1"
    and a: "aimed ?b n1" and ok: "node_ok n1" and k: "light k = light n1" "temp k = temp n1" "duv k = duv n1"
    and i: "if changed n1 \<and> tt AND 0x3F \<noteq> 0
     then armed k = Some w \<and> tr_type (trans k) = MOVE \<and> tr_just_started (trans k) \<and>
       tr_counter (trans k) = transition_counter tt \<and> tr_counter (trans k) \<noteq> 0
     else armed k = None"
  have tgt: "tgt ch n1 = bound" using aim_tgt [OF t] assms(6) by (auto simp: bound_def lu)
  have cur: "cur c n1 = cur c n" for c using aimed_fields(14) [OF a] put_delta_view(2) by simp
  have dlt: "dlt ch n1 = sint delta" using aimed_fields(15) [OF a] put_delta_view(1) by simp
  have b: "lower n1 = lower n" "upper n1 = upper n" using aimed_bounds [OF a] lu by simp_all
  have p0: "pos 0 = cur ch n" using assms(8,9) by (simp add: pos_def move_position_def)
  then have "changed n1" using assms(10,13) tgt cur unfolding changed_iff by (metis length_greater_0_conv)
  then have i: "armed k = Some w" "tr_type (trans k) = MOVE" "tr_just_started (trans k)" "tr_counter (trans k) \<noteq> 0"
    using i if_P [OF conjI [OF \<open>changed n1\<close> assms(5)]] by metis+
  let ?k = "k\<lparr>trans := (trans k)\<lparr>tr_just_started := False, tr_start_timestamp := e_now e0\<rparr>\<rparr>"
  have first: "tick e0 k = Some ?k" using tick_started [OF i(3)] i(4) by (simp add: first_tick_def)
  have ch: "cur c ?k = cur c n" "tgt c ?k = tgt c n1" "dlt c ?k = dlt c n1" for c
    using channel_cong [of ?k n1] k cur by simp_all
  have kb: "lower ?k = lower n" "upper ?k = upper n" using bounds_cong [of ?k n1] k b by simp_all
  have mv: "moving ?k" using i node_ok_cong [of ?k n1] k ok by (simp add: moving_def)
  have ak: "armed ?k = Some w" using armed_cong [of ?k k] i(1) by simp
  have run: "returns (run_ticks tick es ?k) (\<lambda>n'. node_ok n' \<and> cur ch n' = pos (length es) \<and>
    (\<forall>c. c \<noteq> ch \<longrightarrow> cur c n' = cur c n) \<and>
    (if cur ch n' = bound then armed n' = None \<and> tr_counter (trans n') = 0 else armed n' = Some w \<and> moving n'))"
    unfolding pos_def ak [symmetric]
  proof (rule move_run [OF mv, where es = es, unfolded kb ch dlt tgt])
    show "bound = (if 0 < sint delta then uint (upper n) else uint (lower n))" by (simp add: bound_def)
  qed (use assms(6-10,13) in \<open>simp_all add: pos_def\<close>)
  show "returns (run_ticks tick (e0 # es) k) (\<lambda>n'. cur ch n' = pos (length es) \<and>
    (\<forall>c. c \<noteq> ch \<longrightarrow> cur c n' = cur c n) \<and> armed n' = (if pos (length es) = bound then None else Some w))"
    unfolding run_ticks.simps first Option.bind.bind_lunit by (rule returns_mono [OF run]) (auto split: if_splits)
qed

end

end
