(* ===== verification/GenOnOff.thy ===== *)
theory GenOnOff
  imports Journeys
begin

text \<open>The Generic OnOff server and client of device_composition.c.\<close>

abbreviation GEN_ONOFF_STATUS :: opcode where "GEN_ONOFF_STATUS \<equiv> OP_2 0x82 0x04"

definition gen_onoff_get :: handler where
  "gen_onoff_get m e cx buf n = do {
     cur \<leftarrow> get_current ONOFF n;
     (p, n) \<leftarrow> add_target e
       (lt_current (light n) \<noteq> lt_target (light n) \<and> tr_counter (trans n) \<noteq> 0)
       (\<lambda>n. map_option (\<lambda>t. [word_of_int t]) (get_target ONOFF n)) [word_of_int cur] n;
     model_send e (2 + 3 + 4) GEN_ONOFF_STATUS p ''Unable to send GEN_ONOFF_SRV Status response'' n
   }"

definition gen_onoff_publish :: "env \<Rightarrow> model \<Rightarrow> node \<Rightarrow> node option" where
  "gen_onoff_publish e m n =
     (if e_pub_addr e m = 0 then Some n
      else do {
        cur \<leftarrow> get_current ONOFF n;
        (p, n) \<leftarrow> add_target e (tr_counter (trans n) \<noteq> 0)
          (\<lambda>n. map_option (\<lambda>t. [word_of_int t]) (get_target ONOFF n)) [word_of_int cur] n;
        model_publish e m GEN_ONOFF_STATUS p n
      })"

definition gen_onoff_set_unack :: handler where
  "gen_onoff_set_unack m e cx buf n = do {
     (onoff, buf) \<leftarrow> pull_u8 buf;
     (tid, buf) \<leftarrow> pull_u8 buf;
     if onoff > STATE_ON then Some n
     else if tid_repeated e cx tid n then Some n
     else case opt_fields (c_tt n) buf of
       None \<Rightarrow> Some n
     | Some (tt, delay) \<Rightarrow> do {
         n \<leftarrow> set_target ONOFF (ucast onoff) (begin_transition e cx tid tt delay NON_MOVE n);
         if lt_target (light n) \<noteq> lt_current (light n) then do {
           n \<leftarrow> set_transition_values ONOFF n;
           let n = (if tr_counter (trans n) = 0 then light_finish n else n);
           let n = set_just_started True n;
           n \<leftarrow> gen_onoff_publish e m n;
           onoff_handler n
         } else Some n
       }
   }"

definition gen_onoff_set :: handler where
  "gen_onoff_set m e cx buf n = do {
     (onoff, buf) \<leftarrow> pull_u8 buf;
     (tid, buf) \<leftarrow> pull_u8 buf;
     if onoff > STATE_ON then Some n
     else if tid_repeated e cx tid n then gen_onoff_get m e cx buf n
     else case opt_fields (c_tt n) buf of
       None \<Rightarrow> Some n
     | Some (tt, delay) \<Rightarrow> do {
         n \<leftarrow> set_target ONOFF (ucast onoff) (begin_transition e cx tid tt delay NON_MOVE n);
         if lt_target (light n) \<noteq> lt_current (light n) then do {
           n \<leftarrow> set_transition_values ONOFF n;
           let n = (if tr_counter (trans n) = 0 then light_finish n else n);
           let n = set_just_started True n;
           n \<leftarrow> gen_onoff_get m e cx buf n;
           n \<leftarrow> gen_onoff_publish e m n;
           onoff_handler n
         } else gen_onoff_get m e cx buf n
       }
   }"

definition gen_onoff_status :: handler where
  "gen_onoff_status m e cx buf n = do {
     let n = emit (Printk ''Acknownledgement from GEN_ONOFF_SRV'' []) n;
     (present, buf) \<leftarrow> pull_u8 buf;
     let n = emit (Printk ''Present OnOff = %02x'' [uint present]) n;
     if length buf = 2 then do {
       (target, buf) \<leftarrow> pull_u8 buf;
       let n = emit (Printk ''Target OnOff = %02x'' [uint target]) n;
       (remaining, buf) \<leftarrow> pull_u8 buf;
       Some (emit (Printk ''Remaining Time = %02x'' [uint remaining]) n)
     } else Some n
   }"

section \<open>The server keeps its contract\<close>

lemma onoff_target_returns:
  "returns (map_option (\<lambda>t. [word_of_int t :: u8]) (get_target ONOFF m)) (\<lambda>ts. length ts = Suc 0)"
  by (simp add: get_target_def)

lemma gen_onoff_get_quiet: "node_ok n \<Longrightarrow> returns (gen_onoff_get m e cx buf n) (quiet n)"
proof -
  assume ok: "node_ok n"
  obtain i where i: "get_current ONOFF n = Some i" using get_current_defined [OF ok] by blast
  have "returns (Some [word_of_int i :: u8] \<bind> (\<lambda>p. add_target e
       (lt_current (light n) \<noteq> lt_target (light n) \<and> tr_counter (trans n) \<noteq> 0)
       (\<lambda>n. map_option (\<lambda>t. [word_of_int t]) (get_target ONOFF n)) p n \<bind> (\<lambda>(p, n).
     model_send e (2 + 3 + 4) GEN_ONOFF_STATUS p ''Unable to send GEN_ONOFF_SRV Status response'' n))) (quiet n)"
    by (rule status_quiet [OF ok, where j = 1 and k = 1]) (simp_all add: onoff_target_returns model_send_quiet)
  then show ?thesis by (simp only: gen_onoff_get_def i Option.bind.bind_lunit)
qed

lemma gen_onoff_publish_quiet: "node_ok n \<Longrightarrow> returns (gen_onoff_publish e (Root 2) n) (quiet n)"
proof -
  assume ok: "node_ok n"
  obtain i where i: "get_current ONOFF n = Some i" using get_current_defined [OF ok] by blast
  have "returns (Some [word_of_int i :: u8] \<bind> (\<lambda>p. add_target e (tr_counter (trans n) \<noteq> 0)
       (\<lambda>n. map_option (\<lambda>t. [word_of_int t]) (get_target ONOFF n)) p n \<bind> (\<lambda>(p, n).
     model_publish e (Root 2) GEN_ONOFF_STATUS p n))) (quiet n)"
    by (rule status_quiet [OF ok, where j = 1 and k = 1]) (simp_all add: onoff_target_returns model_publish_quiet)
  then show ?thesis by (simp only: gen_onoff_publish_def i Option.bind.bind_lunit split: if_split) simp
qed

interpretation gen_onoff_unack: set_server ONOFF light_changed light_finish Onoff_Work gen_onoff_set_unack
    "\<lambda>m e cx buf n. Some n" gen_onoff_publish "Root 2" parse_8 2 "\<lambda>v. v \<le> STATE_ON" "\<lambda>v. set_target ONOFF (ucast v)"
  by unfold_locales ((rule parse_defined, assumption)
    | simp add: gen_onoff_set_unack_def server_simps gen_onoff_publish_quiet set_target_view split: server_splits)+

interpretation gen_onoff: set_server ONOFF light_changed light_finish Onoff_Work gen_onoff_set
    gen_onoff_get gen_onoff_publish "Root 2" parse_8 2 "\<lambda>v. v \<le> STATE_ON" "\<lambda>v. set_target ONOFF (ucast v)"
  by unfold_locales ((rule parse_defined, assumption)
    | simp add: gen_onoff_set_def server_simps gen_onoff_get_quiet gen_onoff_publish_quiet set_target_view
        split: server_splits)+

lemma gen_onoff_status_quiet: "1 \<le> length buf \<Longrightarrow> returns (gen_onoff_status m e cx buf n) (quiet n)"
  unfolding gen_onoff_status_def Let_def by (rule returns_rules quiet_steps | (simp; fail))+

end
