(* ===== verification/GenLevel.thy ===== *)
theory GenLevel
  imports Journeys
begin

text \<open>
  The two Generic Level servers of device_composition.c and their clients: on the root element
  the level is a view of the lightness, on the secondary element of the colour temperature. Each
  has a set, a delta and a move message, acknowledged or not. The argument of a delta message is
  an \<open>s32_t\<close>, and the addition to the last level is one: leaving its range is undefined.
\<close>

abbreviation GEN_LEVEL_STATUS :: opcode where "GEN_LEVEL_STATUS \<equiv> OP_2 0x82 0x08"

section \<open>Level of the lightness\<close>

definition gen_level_get :: handler where
  "gen_level_get m e cx buf n = do {
     p \<leftarrow> cur16 LEVEL_LIGHT n;
     (p, n) \<leftarrow> add_target e
       (lt_current (light n) \<noteq> lt_target (light n) \<and> tr_counter (trans n) \<noteq> 0)
       (tgt16 LEVEL_LIGHT) p n;
     model_send e (2 + 5 + 4) GEN_LEVEL_STATUS p ''Unable to send GEN_LEVEL_SRV Status response'' n
   }"

definition gen_level_publish :: "env \<Rightarrow> model \<Rightarrow> node \<Rightarrow> node option" where
  "gen_level_publish e m n =
     (if e_pub_addr e m = 0 then Some n
      else do {
        p \<leftarrow> cur16 LEVEL_LIGHT n;
        (p, n) \<leftarrow> add_target e (tr_counter (trans n) \<noteq> 0) (tgt16 LEVEL_LIGHT) p n;
        model_publish e m GEN_LEVEL_STATUS p n
      })"

definition gen_level_set_unack :: handler where
  "gen_level_set_unack m e cx buf n = do {
     (level, buf) \<leftarrow> pull_le16 buf;
     (tid, buf) \<leftarrow> pull_u8 buf;
     if tid_repeated e cx tid n then Some n
     else case opt_fields (c_tt n) buf of
       None \<Rightarrow> Some n
     | Some (tt, delay) \<Rightarrow> do {
         n \<leftarrow> set_target LEVEL_LIGHT level (begin_transition e cx tid tt delay NON_MOVE n);
         if lt_target (light n) \<noteq> lt_current (light n) then do {
           n \<leftarrow> set_transition_values LEVEL_LIGHT n;
           let n = (if tr_counter (trans n) = 0 then light_finish n else n);
           let n = set_just_started True n;
           n \<leftarrow> gen_level_publish e m n;
           level_lightness_handler n
         } else Some n
       }
   }"

definition gen_level_set :: handler where
  "gen_level_set m e cx buf n = do {
     (level, buf) \<leftarrow> pull_le16 buf;
     (tid, buf) \<leftarrow> pull_u8 buf;
     if tid_repeated e cx tid n then gen_level_get m e cx buf n
     else case opt_fields (c_tt n) buf of
       None \<Rightarrow> Some n
     | Some (tt, delay) \<Rightarrow> do {
         n \<leftarrow> set_target LEVEL_LIGHT level (begin_transition e cx tid tt delay NON_MOVE n);
         if lt_target (light n) \<noteq> lt_current (light n) then do {
           n \<leftarrow> set_transition_values LEVEL_LIGHT n;
           let n = (if tr_counter (trans n) = 0 then light_finish n else n);
           let n = set_just_started True n;
           n \<leftarrow> gen_level_get m e cx buf n;
           n \<leftarrow> gen_level_publish e m n;
           level_lightness_handler n
         } else gen_level_get m e cx buf n
       }
   }"

definition gen_delta_set_unack :: handler where
  "gen_delta_set_unack m e cx buf n = do {
     (raw, buf) \<leftarrow> pull_le32 buf;
     let delta = sint raw;
     (tid, buf) \<leftarrow> pull_u8 buf;
     if tid_repeated e cx tid n \<and> lt_delta (light n) = delta then Some n
     else do {
       n \<leftarrow> (if tid_repeated e cx tid n then Some n
            else do { cur \<leftarrow> get_current LEVEL_LIGHT n; Some (n\<lparr>ll_delta_set_unack := word_of_int cur\<rparr>) });
       target \<leftarrow> s32_checked (sint (ll_delta_set_unack n) + delta);
       case opt_fields (c_tt n) buf of
         None \<Rightarrow> Some n
       | Some (tt, delay) \<Rightarrow> do {
           let n = begin_transition e cx tid tt delay NON_MOVE n;
           let target = (if target < INT16_MIN then INT16_MIN
                         else if target > INT16_MAX then INT16_MAX else target);
           n \<leftarrow> set_target DELTA_LEVEL_LIGHT (word_of_int target) n;
           if lt_target (light n) \<noteq> lt_current (light n) then do {
             n \<leftarrow> set_transition_values LEVEL_LIGHT n;
             let n = (if tr_counter (trans n) = 0 then light_finish n else n);
             let n = set_just_started True n;
             n \<leftarrow> gen_level_publish e m n;
             level_lightness_handler n
           } else Some n
         }
     }
   }"

definition gen_delta_set :: handler where
  "gen_delta_set m e cx buf n = do {
     (raw, buf) \<leftarrow> pull_le32 buf;
     let delta = sint raw;
     (tid, buf) \<leftarrow> pull_u8 buf;
     if tid_repeated e cx tid n \<and> lt_delta (light n) = delta then gen_level_get m e cx buf n
     else do {
       n \<leftarrow> (if tid_repeated e cx tid n then Some n
            else do { cur \<leftarrow> get_current LEVEL_LIGHT n; Some (n\<lparr>ll_delta_set := word_of_int cur\<rparr>) });
       target \<leftarrow> s32_checked (sint (ll_delta_set n) + delta);
       case opt_fields (c_tt n) buf of
         None \<Rightarrow> Some n
       | Some (tt, delay) \<Rightarrow> do {
           let n = begin_transition e cx tid tt delay NON_MOVE n;
           let target = (if target < INT16_MIN then INT16_MIN
                         else if target > INT16_MAX then INT16_MAX else target);
           n \<leftarrow> set_target DELTA_LEVEL_LIGHT (word_of_int target) n;
           if lt_target (light n) \<noteq> lt_current (light n) then do {
             n \<leftarrow> set_transition_values LEVEL_LIGHT n;
             let n = (if tr_counter (trans n) = 0 then light_finish n else n);
             let n = set_just_started True n;
             n \<leftarrow> gen_level_get m e cx buf n;
             n \<leftarrow> gen_level_publish e m n;
             level_lightness_handler n
           } else gen_level_get m e cx buf n
         }
     }
   }"

definition gen_move_set_unack :: handler where
  "gen_move_set_unack m e cx buf n = do {
     (delta, buf) \<leftarrow> pull_le16 buf;
     (tid, buf) \<leftarrow> pull_u8 buf;
     if tid_repeated e cx tid n then Some n
     else case opt_fields (c_tt n) buf of
       None \<Rightarrow> Some n
     | Some (tt, delay) \<Rightarrow> do {
         let n = set_light_delta (sint delta) (begin_transition e cx tid tt delay MOVE n);
         let target = (if sint delta < 0 then lt_range_min (light n)
                       else if sint delta > 0 then lt_range_max (light n)
                       else lt_current (light n));
         n \<leftarrow> set_target MOVE_LIGHT target n;
         if lt_target (light n) \<noteq> lt_current (light n) then do {
           n \<leftarrow> set_transition_values MOVE_LIGHT n;
           if tr_counter (trans n) = 0 then Some n
           else do {
             let n = set_just_started True n;
             n \<leftarrow> gen_level_publish e m n;
             level_lightness_handler n
           }
         } else Some n
       }
   }"

definition gen_move_set :: handler where
  "gen_move_set m e cx buf n = do {
     (delta, buf) \<leftarrow> pull_le16 buf;
     (tid, buf) \<leftarrow> pull_u8 buf;
     if tid_repeated e cx tid n then gen_level_get m e cx buf n
     else case opt_fields (c_tt n) buf of
       None \<Rightarrow> Some n
     | Some (tt, delay) \<Rightarrow> do {
         let n = set_light_delta (sint delta) (begin_transition e cx tid tt delay MOVE n);
         let target = (if sint delta < 0 then lt_range_min (light n)
                       else if sint delta > 0 then lt_range_max (light n)
                       else lt_current (light n));
         n \<leftarrow> set_target MOVE_LIGHT target n;
         if lt_target (light n) \<noteq> lt_current (light n) then do {
           n \<leftarrow> set_transition_values MOVE_LIGHT n;
           if tr_counter (trans n) = 0 then Some n
           else do {
             let n = set_just_started True n;
             n \<leftarrow> gen_level_get m e cx buf n;
             n \<leftarrow> gen_level_publish e m n;
             level_lightness_handler n
           }
         } else gen_level_get m e cx buf n
       }
   }"

definition gen_level_status :: handler where
  "gen_level_status m e cx buf n = do {
     let n = emit (Printk ''Acknownledgement from GEN_LEVEL_SRV'' []) n;
     (v, buf) \<leftarrow> pull_le16 buf;
     let n = emit (Printk ''Present Level = %04x'' [uint v]) n;
     if length buf = 3 then do {
       (v, buf) \<leftarrow> pull_le16 buf;
       let n = emit (Printk ''Target Level = %04x'' [uint v]) n;
       (v, buf) \<leftarrow> pull_u8 buf;
       let n = emit (Printk ''Remaining Time = %02x'' [uint v]) n;
       Some n
     } else Some n
   }"

section \<open>Level of the colour temperature\<close>

definition gen_level_get_temp :: handler where
  "gen_level_get_temp m e cx buf n = do {
     p \<leftarrow> cur16 LEVEL_TEMP n;
     (p, n) \<leftarrow> add_target e
       (tm_current (temp n) \<noteq> tm_target (temp n) \<and> tr_counter (trans n) \<noteq> 0)
       (tgt16 LEVEL_TEMP) p n;
     model_send e (2 + 5 + 4) GEN_LEVEL_STATUS p ''Unable to send GEN_LEVEL_SRV Status response'' n
   }"

definition gen_level_publish_temp :: "env \<Rightarrow> model \<Rightarrow> node \<Rightarrow> node option" where
  "gen_level_publish_temp e m n =
     (if e_pub_addr e m = 0 then Some n
      else do {
        p \<leftarrow> cur16 LEVEL_TEMP n;
        (p, n) \<leftarrow> add_target e (tr_counter (trans n) \<noteq> 0) (tgt16 LEVEL_TEMP) p n;
        model_publish e m GEN_LEVEL_STATUS p n
      })"

definition gen_level_set_unack_temp :: handler where
  "gen_level_set_unack_temp m e cx buf n = do {
     (level, buf) \<leftarrow> pull_le16 buf;
     (tid, buf) \<leftarrow> pull_u8 buf;
     if tid_repeated e cx tid n then Some n
     else case opt_fields (c_tt n) buf of
       None \<Rightarrow> Some n
     | Some (tt, delay) \<Rightarrow> do {
         n \<leftarrow> set_target LEVEL_TEMP level (begin_transition e cx tid tt delay NON_MOVE n);
         if tm_target (temp n) \<noteq> tm_current (temp n) then do {
           n \<leftarrow> set_transition_values LEVEL_TEMP n;
           let n = (if tr_counter (trans n) = 0 then temp_finish n else n);
           let n = set_just_started True n;
           n \<leftarrow> gen_level_publish_temp e m n;
           level_temp_handler n
         } else Some n
       }
   }"

definition gen_level_set_temp :: handler where
  "gen_level_set_temp m e cx buf n = do {
     (level, buf) \<leftarrow> pull_le16 buf;
     (tid, buf) \<leftarrow> pull_u8 buf;
     if tid_repeated e cx tid n then gen_level_get_temp m e cx buf n
     else case opt_fields (c_tt n) buf of
       None \<Rightarrow> Some n
     | Some (tt, delay) \<Rightarrow> do {
         n \<leftarrow> set_target LEVEL_TEMP level (begin_transition e cx tid tt delay NON_MOVE n);
         if tm_target (temp n) \<noteq> tm_current (temp n) then do {
           n \<leftarrow> set_transition_values LEVEL_TEMP n;
           let n = (if tr_counter (trans n) = 0 then temp_finish n else n);
           let n = set_just_started True n;
           n \<leftarrow> gen_level_get_temp m e cx buf n;
           n \<leftarrow> gen_level_publish_temp e m n;
           level_temp_handler n
         } else gen_level_get_temp m e cx buf n
       }
   }"

definition gen_delta_set_unack_temp :: handler where
  "gen_delta_set_unack_temp m e cx buf n = do {
     (raw, buf) \<leftarrow> pull_le32 buf;
     let delta = sint raw;
     (tid, buf) \<leftarrow> pull_u8 buf;
     if tid_repeated e cx tid n \<and> tm_delta (temp n) = delta then Some n
     else do {
       n \<leftarrow> (if tid_repeated e cx tid n then Some n
            else do { cur \<leftarrow> get_current LEVEL_TEMP n; Some (n\<lparr>ll_delta_set_unack_temp := word_of_int cur\<rparr>) });
       target \<leftarrow> s32_checked (sint (ll_delta_set_unack_temp n) + delta);
       case opt_fields (c_tt n) buf of
         None \<Rightarrow> Some n
       | Some (tt, delay) \<Rightarrow> do {
           let n = begin_transition e cx tid tt delay NON_MOVE n;
           let target = (if target < INT16_MIN then INT16_MIN
                         else if target > INT16_MAX then INT16_MAX else target);
           n \<leftarrow> set_target LEVEL_TEMP (word_of_int target) n;
           if tm_target (temp n) \<noteq> tm_current (temp n) then do {
             n \<leftarrow> set_transition_values LEVEL_TEMP n;
             let n = (if tr_counter (trans n) = 0 then temp_finish n else n);
             let n = set_just_started True n;
             n \<leftarrow> gen_level_publish_temp e m n;
             level_temp_handler n
           } else Some n
         }
     }
   }"

definition gen_delta_set_temp :: handler where
  "gen_delta_set_temp m e cx buf n = do {
     (raw, buf) \<leftarrow> pull_le32 buf;
     let delta = sint raw;
     (tid, buf) \<leftarrow> pull_u8 buf;
     if tid_repeated e cx tid n \<and> tm_delta (temp n) = delta then gen_level_get_temp m e cx buf n
     else do {
       n \<leftarrow> (if tid_repeated e cx tid n then Some n
            else do { cur \<leftarrow> get_current LEVEL_TEMP n; Some (n\<lparr>ll_delta_set_temp := word_of_int cur\<rparr>) });
       target \<leftarrow> s32_checked (sint (ll_delta_set_temp n) + delta);
       case opt_fields (c_tt n) buf of
         None \<Rightarrow> Some n
       | Some (tt, delay) \<Rightarrow> do {
           let n = begin_transition e cx tid tt delay NON_MOVE n;
           let target = (if target < INT16_MIN then INT16_MIN
                         else if target > INT16_MAX then INT16_MAX else target);
           n \<leftarrow> set_target LEVEL_TEMP (word_of_int target) n;
           if tm_target (temp n) \<noteq> tm_current (temp n) then do {
             n \<leftarrow> set_transition_values LEVEL_TEMP n;
             let n = (if tr_counter (trans n) = 0 then temp_finish n else n);
             let n = set_just_started True n;
             n \<leftarrow> gen_level_get_temp m e cx buf n;
             n \<leftarrow> gen_level_publish_temp e m n;
             level_temp_handler n
           } else gen_level_get_temp m e cx buf n
         }
     }
   }"

definition gen_move_set_unack_temp :: handler where
  "gen_move_set_unack_temp m e cx buf n = do {
     (delta, buf) \<leftarrow> pull_le16 buf;
     (tid, buf) \<leftarrow> pull_u8 buf;
     if tid_repeated e cx tid n then Some n
     else case opt_fields (c_tt n) buf of
       None \<Rightarrow> Some n
     | Some (tt, delay) \<Rightarrow> do {
         let n = set_temp_delta (sint delta) (begin_transition e cx tid tt delay MOVE n);
         let target = (if sint delta < 0 then tm_range_min (temp n)
                       else if sint delta > 0 then tm_range_max (temp n)
                       else tm_current (temp n));
         n \<leftarrow> set_target MOVE_TEMP target n;
         if tm_target (temp n) \<noteq> tm_current (temp n) then do {
           n \<leftarrow> set_transition_values MOVE_TEMP n;
           if tr_counter (trans n) = 0 then Some n
           else do {
             let n = set_just_started True n;
             n \<leftarrow> gen_level_publish_temp e m n;
             level_temp_handler n
           }
         } else Some n
       }
   }"

definition gen_move_set_temp :: handler where
  "gen_move_set_temp m e cx buf n = do {
     (delta, buf) \<leftarrow> pull_le16 buf;
     (tid, buf) \<leftarrow> pull_u8 buf;
     if tid_repeated e cx tid n then gen_level_get_temp m e cx buf n
     else case opt_fields (c_tt n) buf of
       None \<Rightarrow> Some n
     | Some (tt, delay) \<Rightarrow> do {
         let n = set_temp_delta (sint delta) (begin_transition e cx tid tt delay MOVE n);
         let target = (if sint delta < 0 then tm_range_min (temp n)
                       else if sint delta > 0 then tm_range_max (temp n)
                       else tm_current (temp n));
         n \<leftarrow> set_target MOVE_TEMP target n;
         if tm_target (temp n) \<noteq> tm_current (temp n) then do {
           n \<leftarrow> set_transition_values MOVE_TEMP n;
           if tr_counter (trans n) = 0 then Some n
           else do {
             let n = set_just_started True n;
             n \<leftarrow> gen_level_get_temp m e cx buf n;
             n \<leftarrow> gen_level_publish_temp e m n;
             level_temp_handler n
           }
         } else gen_level_get_temp m e cx buf n
       }
   }"

definition gen_level_status_temp :: handler where
  "gen_level_status_temp m e cx buf n = do {
     let n = emit (Printk ''Acknownledgement from GEN_LEVEL_SRV'' []) n;
     (v, buf) \<leftarrow> pull_le16 buf;
     let n = emit (Printk ''Present Level = %04x'' [uint v]) n;
     if length buf = 3 then do {
       (v, buf) \<leftarrow> pull_le16 buf;
       let n = emit (Printk ''Target Level = %04x'' [uint v]) n;
       (v, buf) \<leftarrow> pull_u8 buf;
       let n = emit (Printk ''Remaining Time = %02x'' [uint v]) n;
       Some n
     } else Some n
   }"

section \<open>Both servers keep the contracts\<close>

lemma gen_level_get_quiet: "node_ok n \<Longrightarrow> returns (gen_level_get m e cx buf n) (quiet n)"
  unfolding gen_level_get_def by (rule send_status_quiet) simp_all

lemma gen_level_publish_quiet: "node_ok n \<Longrightarrow> returns (gen_level_publish e (Root 4) n) (quiet n)"
  unfolding gen_level_publish_def by (rule publish_status_quiet(1) [where cap = 7]) simp_all

lemma gen_level_get_temp_quiet: "node_ok n \<Longrightarrow> returns (gen_level_get_temp m e cx buf n) (quiet n)"
  unfolding gen_level_get_temp_def by (rule send_status_quiet) simp_all

lemma gen_level_publish_temp_quiet: "node_ok n \<Longrightarrow> returns (gen_level_publish_temp e (S0 0) n) (quiet n)"
  unfolding gen_level_publish_temp_def by (rule publish_status_quiet(1) [where cap = 7]) simp_all

lemmas gen_level_quiet = gen_level_get_quiet gen_level_publish_quiet gen_level_get_temp_quiet gen_level_publish_temp_quiet

interpretation level_unack_srv: set_server LEVEL_LIGHT light_changed light_finish Level_Lightness_Work gen_level_set_unack
    "\<lambda>m e cx buf n. Some n" gen_level_publish "Root 4" parse_16 3 "\<lambda>v. True" "set_target LEVEL_LIGHT"
  by unfold_locales ((rule parse_defined, assumption)
    | simp add: gen_level_set_unack_def server_simps gen_level_quiet set_target_view split: server_splits)+

interpretation level_srv: set_server LEVEL_LIGHT light_changed light_finish Level_Lightness_Work gen_level_set
    gen_level_get gen_level_publish "Root 4" parse_16 3 "\<lambda>v. True" "set_target LEVEL_LIGHT"
  by unfold_locales ((rule parse_defined, assumption)
    | simp add: gen_level_set_def server_simps gen_level_quiet set_target_view split: server_splits)+

interpretation delta_unack_srv: delta_server LEVEL_LIGHT light_changed light_finish Level_Lightness_Work gen_delta_set_unack
    "\<lambda>m e cx buf n. Some n" gen_level_publish "Root 4" DELTA_LEVEL_LIGHT "get_current LEVEL_LIGHT" "\<lambda>n. lt_delta (light n)" ll_delta_set_unack "\<lambda>v n. n\<lparr>ll_delta_set_unack := v\<rparr>"
  by unfold_locales (simp add: gen_delta_set_unack_def server_simps clamp16_def gen_level_quiet get_current_defined
    split: server_splits)+

interpretation delta_srv: delta_server LEVEL_LIGHT light_changed light_finish Level_Lightness_Work gen_delta_set
    gen_level_get gen_level_publish "Root 4" DELTA_LEVEL_LIGHT "get_current LEVEL_LIGHT" "\<lambda>n. lt_delta (light n)" ll_delta_set "\<lambda>v n. n\<lparr>ll_delta_set := v\<rparr>"
  by unfold_locales (simp add: gen_delta_set_def server_simps clamp16_def gen_level_quiet get_current_defined
    split: server_splits)+

interpretation move_unack_srv: move_server gen_move_set_unack
    "\<lambda>m e cx buf n. Some n" gen_level_publish "Root 4" MOVE_LIGHT light_changed "\<lambda>n. lt_range_min (light n)" "\<lambda>n. lt_range_max (light n)"
    "\<lambda>n. lt_current (light n)" set_light_delta Level_Lightness_Work
  by unfold_locales (simp add: gen_move_set_unack_def server_simps gen_level_quiet move_aims move_delta_frame split: server_splits)+

interpretation move_srv: move_server gen_move_set
    gen_level_get gen_level_publish "Root 4" MOVE_LIGHT light_changed "\<lambda>n. lt_range_min (light n)" "\<lambda>n. lt_range_max (light n)"
    "\<lambda>n. lt_current (light n)" set_light_delta Level_Lightness_Work
  by unfold_locales (simp add: gen_move_set_def server_simps gen_level_quiet move_aims move_delta_frame split: server_splits)+

interpretation level_unack_temp_srv: set_server LEVEL_TEMP temp_changed temp_finish Level_Temp_Work gen_level_set_unack_temp
    "\<lambda>m e cx buf n. Some n" gen_level_publish_temp "S0 0" parse_16 3 "\<lambda>v. True" "set_target LEVEL_TEMP"
  by unfold_locales ((rule parse_defined, assumption)
    | simp add: gen_level_set_unack_temp_def server_simps gen_level_quiet set_target_view split: server_splits)+

interpretation level_temp_srv: set_server LEVEL_TEMP temp_changed temp_finish Level_Temp_Work gen_level_set_temp
    gen_level_get_temp gen_level_publish_temp "S0 0" parse_16 3 "\<lambda>v. True" "set_target LEVEL_TEMP"
  by unfold_locales ((rule parse_defined, assumption)
    | simp add: gen_level_set_temp_def server_simps gen_level_quiet set_target_view split: server_splits)+

interpretation delta_unack_temp_srv: delta_server LEVEL_TEMP temp_changed temp_finish Level_Temp_Work gen_delta_set_unack_temp
    "\<lambda>m e cx buf n. Some n" gen_level_publish_temp "S0 0" LEVEL_TEMP "get_current LEVEL_TEMP" "\<lambda>n. tm_delta (temp n)" ll_delta_set_unack_temp "\<lambda>v n. n\<lparr>ll_delta_set_unack_temp := v\<rparr>"
  by unfold_locales (simp add: gen_delta_set_unack_temp_def server_simps clamp16_def gen_level_quiet get_current_defined
    split: server_splits)+

interpretation delta_temp_srv: delta_server LEVEL_TEMP temp_changed temp_finish Level_Temp_Work gen_delta_set_temp
    gen_level_get_temp gen_level_publish_temp "S0 0" LEVEL_TEMP "get_current LEVEL_TEMP" "\<lambda>n. tm_delta (temp n)" ll_delta_set_temp "\<lambda>v n. n\<lparr>ll_delta_set_temp := v\<rparr>"
  by unfold_locales (simp add: gen_delta_set_temp_def server_simps clamp16_def gen_level_quiet get_current_defined
    split: server_splits)+

interpretation move_unack_temp_srv: move_server gen_move_set_unack_temp
    "\<lambda>m e cx buf n. Some n" gen_level_publish_temp "S0 0" MOVE_TEMP temp_changed "\<lambda>n. tm_range_min (temp n)" "\<lambda>n. tm_range_max (temp n)"
    "\<lambda>n. tm_current (temp n)" set_temp_delta Level_Temp_Work
  by unfold_locales (simp add: gen_move_set_unack_temp_def server_simps gen_level_quiet move_aims move_delta_frame split: server_splits)+

interpretation move_temp_srv: move_server gen_move_set_temp
    gen_level_get_temp gen_level_publish_temp "S0 0" MOVE_TEMP temp_changed "\<lambda>n. tm_range_min (temp n)" "\<lambda>n. tm_range_max (temp n)"
    "\<lambda>n. tm_current (temp n)" set_temp_delta Level_Temp_Work
  by unfold_locales (simp add: gen_move_set_temp_def server_simps gen_level_quiet move_aims move_delta_frame split: server_splits)+

lemma gen_level_statuses_quiet:
  "2 \<le> length buf \<Longrightarrow> returns (gen_level_status m e cx buf n) (quiet n)"
  "2 \<le> length buf \<Longrightarrow> returns (gen_level_status_temp m e cx buf n) (quiet n)"
  unfolding gen_level_status_def gen_level_status_temp_def Let_def
  by (rule returns_rules quiet_steps | (simp; fail))+

end
