(* ===== verification/Lightness.thy ===== *)
theory Lightness
  imports Journeys
begin

text \<open>The Light Lightness server, setup server and client of device_composition.c.\<close>

abbreviation LIGHT_LIGHTNESS_STATUS :: opcode where "LIGHT_LIGHTNESS_STATUS \<equiv> OP_2 0x82 0x4E"
abbreviation LIGHT_LIGHTNESS_LINEAR_STATUS :: opcode where "LIGHT_LIGHTNESS_LINEAR_STATUS \<equiv> OP_2 0x82 0x52"
abbreviation LIGHT_LIGHTNESS_LAST_STATUS :: opcode where "LIGHT_LIGHTNESS_LAST_STATUS \<equiv> OP_2 0x82 0x54"
abbreviation LIGHT_LIGHTNESS_DEFAULT_STATUS :: opcode where "LIGHT_LIGHTNESS_DEFAULT_STATUS \<equiv> OP_2 0x82 0x56"
abbreviation LIGHT_LIGHTNESS_RANGE_STATUS :: opcode where "LIGHT_LIGHTNESS_RANGE_STATUS \<equiv> OP_2 0x82 0x58"

section \<open>Lightness actual and linear\<close>

definition light_lightness_get :: handler where
  "light_lightness_get m e cx buf n = do {
     p \<leftarrow> cur16 ACTUAL n;
     (p, n) \<leftarrow> add_target e
       (lt_current (light n) \<noteq> lt_target (light n) \<and> tr_counter (trans n) \<noteq> 0)
       (tgt16 ACTUAL) p n;
     model_send e (2 + 5 + 4) LIGHT_LIGHTNESS_STATUS p ''Unable to send LightLightnessAct Status response'' n
   }"

definition light_lightness_publish :: "env \<Rightarrow> model \<Rightarrow> node \<Rightarrow> node option" where
  "light_lightness_publish e m n =
     (if e_pub_addr e m = 0 then Some n
      else do {
        p \<leftarrow> cur16 ACTUAL n;
        (p, n) \<leftarrow> add_target e (tr_counter (trans n) \<noteq> 0) (tgt16 ACTUAL) p n;
        model_publish e m LIGHT_LIGHTNESS_STATUS p n
      })"

definition light_lightness_set_unack :: handler where
  "light_lightness_set_unack m e cx buf n = do {
     (actual, buf) \<leftarrow> pull_le16 buf;
     (tid, buf) \<leftarrow> pull_u8 buf;
     if tid_repeated e cx tid n then Some n
     else case opt_fields (c_tt n) buf of
       None \<Rightarrow> Some n
     | Some (tt, delay) \<Rightarrow> do {
         n \<leftarrow> set_target ACTUAL actual (begin_transition e cx tid tt delay NON_MOVE n);
         if lt_target (light n) \<noteq> lt_current (light n) then do {
           n \<leftarrow> set_transition_values ACTUAL n;
           let n = (if tr_counter (trans n) = 0 then light_finish n else n);
           let n = set_just_started True n;
           n \<leftarrow> light_lightness_publish e m n;
           light_lightness_actual_handler n
         } else Some n
       }
   }"

definition light_lightness_set :: handler where
  "light_lightness_set m e cx buf n = do {
     (actual, buf) \<leftarrow> pull_le16 buf;
     (tid, buf) \<leftarrow> pull_u8 buf;
     if tid_repeated e cx tid n then light_lightness_get m e cx buf n
     else case opt_fields (c_tt n) buf of
       None \<Rightarrow> Some n
     | Some (tt, delay) \<Rightarrow> do {
         n \<leftarrow> set_target ACTUAL actual (begin_transition e cx tid tt delay NON_MOVE n);
         if lt_target (light n) \<noteq> lt_current (light n) then do {
           n \<leftarrow> set_transition_values ACTUAL n;
           let n = (if tr_counter (trans n) = 0 then light_finish n else n);
           let n = set_just_started True n;
           n \<leftarrow> light_lightness_get m e cx buf n;
           n \<leftarrow> light_lightness_publish e m n;
           light_lightness_actual_handler n
         } else light_lightness_get m e cx buf n
       }
   }"

definition light_lightness_linear_get :: handler where
  "light_lightness_linear_get m e cx buf n = do {
     p \<leftarrow> cur16 LINEAR n;
     (p, n) \<leftarrow> add_target e
       (lt_current (light n) \<noteq> lt_target (light n) \<and> tr_counter (trans n) \<noteq> 0)
       (tgt16 LINEAR) p n;
     model_send e (2 + 5 + 4) LIGHT_LIGHTNESS_LINEAR_STATUS p ''Unable to send LightLightnessLin Status response'' n
   }"

definition light_lightness_linear_publish :: "env \<Rightarrow> model \<Rightarrow> node \<Rightarrow> node option" where
  "light_lightness_linear_publish e m n =
     (if e_pub_addr e m = 0 then Some n
      else do {
        p \<leftarrow> cur16 LINEAR n;
        (p, n) \<leftarrow> add_target e (tr_counter (trans n) \<noteq> 0) (tgt16 LINEAR) p n;
        model_publish e m LIGHT_LIGHTNESS_LINEAR_STATUS p n
      })"

definition light_lightness_linear_set_unack :: handler where
  "light_lightness_linear_set_unack m e cx buf n = do {
     (linear, buf) \<leftarrow> pull_le16 buf;
     (tid, buf) \<leftarrow> pull_u8 buf;
     if tid_repeated e cx tid n then Some n
     else case opt_fields (c_tt n) buf of
       None \<Rightarrow> Some n
     | Some (tt, delay) \<Rightarrow> do {
         n \<leftarrow> set_target LINEAR linear (begin_transition e cx tid tt delay NON_MOVE n);
         if lt_target (light n) \<noteq> lt_current (light n) then do {
           n \<leftarrow> set_transition_values LINEAR n;
           let n = (if tr_counter (trans n) = 0 then light_finish n else n);
           let n = set_just_started True n;
           n \<leftarrow> light_lightness_linear_publish e m n;
           light_lightness_linear_handler n
         } else Some n
       }
   }"

definition light_lightness_linear_set :: handler where
  "light_lightness_linear_set m e cx buf n = do {
     (linear, buf) \<leftarrow> pull_le16 buf;
     (tid, buf) \<leftarrow> pull_u8 buf;
     if tid_repeated e cx tid n then light_lightness_linear_get m e cx buf n
     else case opt_fields (c_tt n) buf of
       None \<Rightarrow> Some n
     | Some (tt, delay) \<Rightarrow> do {
         n \<leftarrow> set_target LINEAR linear (begin_transition e cx tid tt delay NON_MOVE n);
         if lt_target (light n) \<noteq> lt_current (light n) then do {
           n \<leftarrow> set_transition_values LINEAR n;
           let n = (if tr_counter (trans n) = 0 then light_finish n else n);
           let n = set_just_started True n;
           n \<leftarrow> light_lightness_linear_get m e cx buf n;
           n \<leftarrow> light_lightness_linear_publish e m n;
           light_lightness_linear_handler n
         } else light_lightness_linear_get m e cx buf n
       }
   }"

section \<open>Last, default and range\<close>

definition light_lightness_last_get :: handler where
  "light_lightness_last_get m e cx buf n =
     model_send e (2 + 2 + 4) LIGHT_LIGHTNESS_LAST_STATUS (le16 (lt_last (light n)))
       ''Unable to send LightLightnessLast Status response'' n"

definition light_lightness_default_get :: handler where
  "light_lightness_default_get m e cx buf n =
     model_send e (2 + 2 + 4) LIGHT_LIGHTNESS_DEFAULT_STATUS (le16 (lt_def (light n)))
       ''Unable to send LightLightnessDef Status response'' n"

definition light_lightness_range_get :: handler where
  "light_lightness_range_get m e cx buf n =
     (let n = n\<lparr>light := (light n)\<lparr>lt_status_code := RANGE_SUCCESSFULLY_UPDATED\<rparr>\<rparr>
      in model_send e (2 + 5 + 4) LIGHT_LIGHTNESS_RANGE_STATUS
           ([lt_status_code (light n)] @ le16 (lt_range_min (light n)) @ le16 (lt_range_max (light n)))
           ''Unable to send LightLightnessRange Status response'' n)"

definition light_lightness_default_publish :: "env \<Rightarrow> model \<Rightarrow> node \<Rightarrow> node option" where
  "light_lightness_default_publish e m n =
     (if e_pub_addr e m = 0 then Some n
      else model_publish e m LIGHT_LIGHTNESS_DEFAULT_STATUS (le16 (lt_def (light n))) n)"

definition light_lightness_default_set_unack :: handler where
  "light_lightness_default_set_unack m e cx buf n = do {
     (lightness, buf) \<leftarrow> pull_le16 buf;
     let lightness = constrain_lightness n lightness;
     if lt_def (light n) \<noteq> lightness then do {
       let n = n\<lparr>light := (light n)\<lparr>lt_def := lightness\<rparr>\<rparr>;
       n \<leftarrow> light_lightness_default_publish e m n;
       Some (save_on_flash DEF_STATES n)
     } else Some n
   }"

definition light_lightness_default_set :: handler where
  "light_lightness_default_set m e cx buf n = do {
     (lightness, buf) \<leftarrow> pull_le16 buf;
     let lightness = constrain_lightness n lightness;
     if lt_def (light n) \<noteq> lightness then do {
       let n = n\<lparr>light := (light n)\<lparr>lt_def := lightness\<rparr>\<rparr>;
       n \<leftarrow> light_lightness_default_get m e cx buf n;
       n \<leftarrow> light_lightness_default_publish e m n;
       Some (save_on_flash DEF_STATES n)
     } else light_lightness_default_get m e cx buf n
   }"

definition light_lightness_range_publish :: "env \<Rightarrow> model \<Rightarrow> node \<Rightarrow> node option" where
  "light_lightness_range_publish e m n =
     (if e_pub_addr e m = 0 then Some n
      else model_publish e m LIGHT_LIGHTNESS_RANGE_STATUS
             ([lt_status_code (light n)] @ le16 (lt_range_min (light n)) @ le16 (lt_range_max (light n))) n)"

definition light_lightness_range_set_unack :: handler where
  "light_lightness_range_set_unack m e cx buf n = do {
     (mn, buf) \<leftarrow> pull_le16 buf;
     (mx, buf) \<leftarrow> pull_le16 buf;
     if mn = 0 \<or> mx = 0 then Some n
     else if mn \<le> mx then do {
       let n = n\<lparr>light := (light n)\<lparr>lt_status_code := RANGE_SUCCESSFULLY_UPDATED\<rparr>\<rparr>;
       if lt_range_min (light n) \<noteq> mn \<or> lt_range_max (light n) \<noteq> mx then do {
         let n = n\<lparr>light := (light n)\<lparr>lt_range_min := mn, lt_range_max := mx\<rparr>\<rparr>;
         n \<leftarrow> light_lightness_range_publish e m n;
         Some (save_on_flash LIGHTNESS_RANGE n)
       } else Some n
     } else Some (n\<lparr>light := (light n)\<lparr>lt_status_code := CANNOT_SET_RANGE_MAX\<rparr>\<rparr>)
   }"

definition light_lightness_range_set :: handler where
  "light_lightness_range_set m e cx buf n = do {
     (mn, buf) \<leftarrow> pull_le16 buf;
     (mx, buf) \<leftarrow> pull_le16 buf;
     if mn = 0 \<or> mx = 0 then Some n
     else if mn \<le> mx then do {
       let n = n\<lparr>light := (light n)\<lparr>lt_status_code := RANGE_SUCCESSFULLY_UPDATED\<rparr>\<rparr>;
       if lt_range_min (light n) \<noteq> mn \<or> lt_range_max (light n) \<noteq> mx then do {
         let n = n\<lparr>light := (light n)\<lparr>lt_range_min := mn, lt_range_max := mx\<rparr>\<rparr>;
         n \<leftarrow> light_lightness_range_get m e cx buf n;
         n \<leftarrow> light_lightness_range_publish e m n;
         Some (save_on_flash LIGHTNESS_RANGE n)
       } else light_lightness_range_get m e cx buf n
     } else Some (n\<lparr>light := (light n)\<lparr>lt_status_code := CANNOT_SET_RANGE_MAX\<rparr>\<rparr>)
   }"

section \<open>The client\<close>

definition light_lightness_status :: handler where
  "light_lightness_status m e cx buf n = do {
     let n = emit (Printk ''Acknownledgement from LIGHT_LIGHTNESS_SRV (Actual)'' []) n;
     (v, buf) \<leftarrow> pull_le16 buf;
     let n = emit (Printk ''Present Lightness = %04x'' [uint v]) n;
     if length buf = 3 then do {
       (v, buf) \<leftarrow> pull_le16 buf;
       let n = emit (Printk ''Target Lightness = %04x'' [uint v]) n;
       (v, buf) \<leftarrow> pull_u8 buf;
       let n = emit (Printk ''Remaining Time = %02x'' [uint v]) n;
       Some n
     } else Some n
   }"

definition light_lightness_linear_status :: handler where
  "light_lightness_linear_status m e cx buf n = do {
     let n = emit (Printk ''Acknownledgement from LIGHT_LIGHTNESS_SRV (Linear)'' []) n;
     (v, buf) \<leftarrow> pull_le16 buf;
     let n = emit (Printk ''Present Lightness = %04x'' [uint v]) n;
     if length buf = 3 then do {
       (v, buf) \<leftarrow> pull_le16 buf;
       let n = emit (Printk ''Target Lightness = %04x'' [uint v]) n;
       (v, buf) \<leftarrow> pull_u8 buf;
       let n = emit (Printk ''Remaining Time = %02x'' [uint v]) n;
       Some n
     } else Some n
   }"

definition light_lightness_last_status :: handler where
  "light_lightness_last_status m e cx buf n = do {
     let n = emit (Printk ''Acknownledgement from LIGHT_LIGHTNESS_SRV (Last)'' []) n;
     (v, buf) \<leftarrow> pull_le16 buf;
     let n = emit (Printk ''Lightness = %04x'' [uint v]) n;
     Some n
   }"

definition light_lightness_default_status :: handler where
  "light_lightness_default_status m e cx buf n = do {
     let n = emit (Printk ''Acknownledgement from LIGHT_LIGHTNESS_SRV (Default)'' []) n;
     (v, buf) \<leftarrow> pull_le16 buf;
     let n = emit (Printk ''Lightness = %04x'' [uint v]) n;
     Some n
   }"

definition light_lightness_range_status :: handler where
  "light_lightness_range_status m e cx buf n = do {
     let n = emit (Printk ''Acknownledgement from LIGHT_LIGHTNESS_SRV (Lightness Range)'' []) n;
     (v, buf) \<leftarrow> pull_u8 buf;
     let n = emit (Printk ''Status Code = %02x'' [uint v]) n;
     (v, buf) \<leftarrow> pull_le16 buf;
     let n = emit (Printk ''Range Min = %04x'' [uint v]) n;
     (v, buf) \<leftarrow> pull_le16 buf;
     let n = emit (Printk ''Range Max = %04x'' [uint v]) n;
     Some n
   }"

section \<open>The servers keep their contracts\<close>

lemma light_lightness_get_quiet: "node_ok n \<Longrightarrow> returns (light_lightness_get m e cx buf n) (quiet n)"
  unfolding light_lightness_get_def by (rule send_status_quiet) simp_all

lemma light_lightness_publish_quiet: "node_ok n \<Longrightarrow> returns (light_lightness_publish e (Root 11) n) (quiet n)"
  unfolding light_lightness_publish_def by (rule publish_status_quiet(1) [where cap = 7]) simp_all

lemma light_lightness_linear_get_quiet: "node_ok n \<Longrightarrow> returns (light_lightness_linear_get m e cx buf n) (quiet n)"
  unfolding light_lightness_linear_get_def by (rule send_status_quiet) simp_all

lemma light_lightness_linear_publish_quiet:
  "node_ok n \<Longrightarrow> returns (light_lightness_linear_publish e (Root 11) n) (quiet n)"
  unfolding light_lightness_linear_publish_def by (rule publish_status_quiet(1) [where cap = 7]) simp_all

lemmas light_lightness_quiet = light_lightness_get_quiet light_lightness_publish_quiet
  light_lightness_linear_get_quiet light_lightness_linear_publish_quiet

interpretation actual_unack_srv: set_server ACTUAL light_changed light_finish Lightness_Actual_Work light_lightness_set_unack
    "\<lambda>m e cx buf n. Some n" light_lightness_publish "Root 11" parse_16 3 "\<lambda>v. True" "set_target ACTUAL"
  by unfold_locales ((rule parse_defined, assumption)
    | simp add: light_lightness_set_unack_def server_simps light_lightness_quiet set_target_view split: server_splits)+

interpretation actual_srv: set_server ACTUAL light_changed light_finish Lightness_Actual_Work light_lightness_set
    light_lightness_get light_lightness_publish "Root 11" parse_16 3 "\<lambda>v. True" "set_target ACTUAL"
  by unfold_locales ((rule parse_defined, assumption)
    | simp add: light_lightness_set_def server_simps light_lightness_quiet set_target_view split: server_splits)+

interpretation linear_unack_srv: set_server LINEAR light_changed light_finish Lightness_Linear_Work light_lightness_linear_set_unack
    "\<lambda>m e cx buf n. Some n" light_lightness_linear_publish "Root 11" parse_16 3 "\<lambda>v. True" "set_target LINEAR"
  by unfold_locales ((rule parse_defined, assumption)
    | simp add: light_lightness_linear_set_unack_def server_simps light_lightness_quiet set_target_view
        split: server_splits)+

interpretation linear_srv: set_server LINEAR light_changed light_finish Lightness_Linear_Work light_lightness_linear_set
    light_lightness_linear_get light_lightness_linear_publish "Root 11" parse_16 3 "\<lambda>v. True" "set_target LINEAR"
  by unfold_locales ((rule parse_defined, assumption)
    | simp add: light_lightness_linear_set_def server_simps light_lightness_quiet set_target_view
        split: server_splits)+

section \<open>The other messages leave the light where it is\<close>

lemma light_lightness_last_get_quiet: "returns (light_lightness_last_get m e cx buf n) (quiet n)"
  by (simp add: light_lightness_last_get_def model_send_quiet)

lemma light_lightness_default_get_quiet: "returns (light_lightness_default_get m e cx buf n) (quiet n)"
  by (simp add: light_lightness_default_get_def model_send_quiet)

lemma light_lightness_range_get_unmoved: "unmoved n n' \<Longrightarrow> returns (light_lightness_range_get m e cx buf n') (unmoved n)"
  unfolding light_lightness_range_get_def Let_def
  by (rule quiet_end, rule model_send_quiet) (simp_all add: unmoved_steps)

lemma light_lightness_default_publish_quiet: "returns (light_lightness_default_publish e (Root 12) n) (quiet n)"
  unfolding light_lightness_default_publish_def
  by (rule quiet_if, rule model_publish_quiet [where cap = 7]) simp_all

lemma light_lightness_range_publish_quiet: "returns (light_lightness_range_publish e (Root 12) n) (quiet n)"
  unfolding light_lightness_range_publish_def
  by (rule quiet_if, rule model_publish_quiet [where cap = 7]) simp_all

lemma light_lightness_default_set_unack_unmoved:
  "2 \<le> length buf \<Longrightarrow> returns (light_lightness_default_set_unack (Root 12) e cx buf n) (unmoved n)"
  unfolding light_lightness_default_set_unack_def Let_def
  by (rule returns_rules quiet_bind [OF light_lightness_default_publish_quiet] unmoved_steps | assumption)+

lemma light_lightness_default_set_unmoved:
  "2 \<le> length buf \<Longrightarrow> returns (light_lightness_default_set (Root 12) e cx buf n) (unmoved n)"
  unfolding light_lightness_default_set_def Let_def
  by (rule returns_rules quiet_bind [OF light_lightness_default_publish_quiet]
      quiet_bind [OF light_lightness_default_get_quiet] quiet_end [OF light_lightness_default_get_quiet]
      unmoved_steps | assumption)+

lemma light_lightness_range_set_unack_unmoved:
  "4 \<le> length buf \<Longrightarrow> returns (light_lightness_range_set_unack (Root 12) e cx buf n) (unmoved n)"
  unfolding light_lightness_range_set_unack_def Let_def
  by (rule returns_rules quiet_bind [OF light_lightness_range_publish_quiet] unmoved_steps | assumption | (simp; fail))+

lemma light_lightness_range_set_unmoved:
  "4 \<le> length buf \<Longrightarrow> returns (light_lightness_range_set (Root 12) e cx buf n) (unmoved n)"
  unfolding light_lightness_range_set_def Let_def
  by (rule returns_rules quiet_bind [OF light_lightness_range_publish_quiet]
      unmoved_bind [OF light_lightness_range_get_unmoved] light_lightness_range_get_unmoved
      unmoved_steps | assumption | (simp; fail))+

lemma light_lightness_statuses_quiet:
  "2 \<le> length buf \<Longrightarrow> returns (light_lightness_status m e cx buf n) (quiet n)"
  "2 \<le> length buf \<Longrightarrow> returns (light_lightness_linear_status m e cx buf n) (quiet n)"
  "2 \<le> length buf \<Longrightarrow> returns (light_lightness_last_status m e cx buf n) (quiet n)"
  "2 \<le> length buf \<Longrightarrow> returns (light_lightness_default_status m e cx buf n) (quiet n)"
  "5 \<le> length buf \<Longrightarrow> returns (light_lightness_range_status m e cx buf n) (quiet n)"
  unfolding light_lightness_status_def light_lightness_linear_status_def light_lightness_last_status_def
    light_lightness_default_status_def light_lightness_range_status_def Let_def
  by (rule returns_rules quiet_steps | (simp; fail))+

end
