(* ===== verification/LightCtl.thy ===== *)
theory LightCtl
  imports Journeys
begin

text \<open>
  The Light CTL server, setup server, temperature server and client of device_composition.c:
  lightness, colour temperature and Delta UV moved together.
\<close>

abbreviation LIGHT_CTL_STATUS :: opcode where "LIGHT_CTL_STATUS \<equiv> OP_2 0x82 0x60"
abbreviation LIGHT_CTL_TEMP_RANGE_STATUS :: opcode where "LIGHT_CTL_TEMP_RANGE_STATUS \<equiv> OP_2 0x82 0x63"
abbreviation LIGHT_CTL_TEMP_STATUS :: opcode where "LIGHT_CTL_TEMP_STATUS \<equiv> OP_2 0x82 0x66"
abbreviation LIGHT_CTL_DEFAULT_STATUS :: opcode where "LIGHT_CTL_DEFAULT_STATUS \<equiv> OP_2 0x82 0x68"

section \<open>Light CTL\<close>

definition light_ctl_get :: handler where
  "light_ctl_get m e cx buf n = do {
     p \<leftarrow> cur32 CTL_LIGHT CTL_TEMP n;
     (p, n) \<leftarrow> add_target e
       ((lt_current (light n) \<noteq> lt_target (light n) \<or> tm_current (temp n) \<noteq> tm_target (temp n)) \<and> tr_counter (trans n) \<noteq> 0)
       (tgt32 CTL_LIGHT CTL_TEMP) p n;
     model_send e (2 + 9 + 4) LIGHT_CTL_STATUS p ''Unable to send LightCTL Status response'' n
   }"

definition light_ctl_publish :: "env \<Rightarrow> model \<Rightarrow> node \<Rightarrow> node option" where
  "light_ctl_publish e m n =
     (if e_pub_addr e m = 0 then Some n
      else do {
        p \<leftarrow> cur32 CTL_LIGHT CTL_TEMP n;
        (p, n) \<leftarrow> add_target e (tr_counter (trans n) \<noteq> 0) (tgt32 CTL_LIGHT CTL_TEMP) p n;
        model_publish e m LIGHT_CTL_STATUS p n
      })"

definition light_ctl_set_unack :: handler where
  "light_ctl_set_unack m e cx buf n = do {
     (lightness, buf) \<leftarrow> pull_le16 buf;
     (tempv, buf) \<leftarrow> pull_le16 buf;
     (delta_uv, buf) \<leftarrow> pull_le16 buf;
     (tid, buf) \<leftarrow> pull_u8 buf;
     if tempv < TEMP_MIN \<or> tempv > TEMP_MAX then Some n
     else if tid_repeated e cx tid n then Some n
     else case opt_fields (c_tt n) buf of
       None \<Rightarrow> Some n
     | Some (tt, delay) \<Rightarrow> do {
         n \<leftarrow> set_target CTL_LIGHT lightness (begin_transition e cx tid tt delay NON_MOVE n);
         n \<leftarrow> set_target CTL_TEMP tempv n;
         n \<leftarrow> set_target CTL_DELTA_UV delta_uv n;
         if lt_target (light n) \<noteq> lt_current (light n) \<or> tm_target (temp n) \<noteq> tm_current (temp n) \<or>
            dv_target (duv n) \<noteq> dv_current (duv n) then do {
           n \<leftarrow> set_transition_values CTL_LIGHT n;
           let n = (if tr_counter (trans n) = 0 then duv_finish (temp_finish (light_finish n)) else n);
           let n = set_just_started True n;
           n \<leftarrow> light_ctl_publish e m n;
           light_ctl_handler n
         } else Some n
       }
   }"

definition light_ctl_set :: handler where
  "light_ctl_set m e cx buf n = do {
     (lightness, buf) \<leftarrow> pull_le16 buf;
     (tempv, buf) \<leftarrow> pull_le16 buf;
     (delta_uv, buf) \<leftarrow> pull_le16 buf;
     (tid, buf) \<leftarrow> pull_u8 buf;
     if tempv < TEMP_MIN \<or> tempv > TEMP_MAX then Some n
     else if tid_repeated e cx tid n then light_ctl_get m e cx buf n
     else case opt_fields (c_tt n) buf of
       None \<Rightarrow> Some n
     | Some (tt, delay) \<Rightarrow> do {
         n \<leftarrow> set_target CTL_LIGHT lightness (begin_transition e cx tid tt delay NON_MOVE n);
         n \<leftarrow> set_target CTL_TEMP tempv n;
         n \<leftarrow> set_target CTL_DELTA_UV delta_uv n;
         if lt_target (light n) \<noteq> lt_current (light n) \<or> tm_target (temp n) \<noteq> tm_current (temp n) \<or>
            dv_target (duv n) \<noteq> dv_current (duv n) then do {
           n \<leftarrow> set_transition_values CTL_LIGHT n;
           let n = (if tr_counter (trans n) = 0 then duv_finish (temp_finish (light_finish n)) else n);
           let n = set_just_started True n;
           n \<leftarrow> light_ctl_get m e cx buf n;
           n \<leftarrow> light_ctl_publish e m n;
           light_ctl_handler n
         } else light_ctl_get m e cx buf n
       }
   }"

section \<open>Temperature range and defaults\<close>

definition light_ctl_temp_range_get :: handler where
  "light_ctl_temp_range_get m e cx buf n =
     (let n = n\<lparr>temp := (temp n)\<lparr>tm_status_code := RANGE_SUCCESSFULLY_UPDATED\<rparr>\<rparr>
      in model_send e (2 + 5 + 4) LIGHT_CTL_TEMP_RANGE_STATUS
           ([tm_status_code (temp n)] @ le16 (tm_range_min (temp n)) @ le16 (tm_range_max (temp n)))
           ''Unable to send LightCTL Temp Range Status response'' n)"

definition light_ctl_default_get :: handler where
  "light_ctl_default_get m e cx buf n =
     model_send e (2 + 6 + 4) LIGHT_CTL_DEFAULT_STATUS
       (le16 (lt_def (light n)) @ le16 (tm_def (temp n)) @ le16 (dv_def (duv n)))
       ''Unable to send LightCTL Default Status response'' n"

definition light_ctl_default_publish :: "env \<Rightarrow> model \<Rightarrow> node \<Rightarrow> node option" where
  "light_ctl_default_publish e m n =
     (if e_pub_addr e m = 0 then Some n
      else model_publish e m LIGHT_CTL_DEFAULT_STATUS
             (le16 (lt_def (light n)) @ le16 (tm_def (temp n)) @ le16 (dv_def (duv n))) n)"

definition set_ctl_defaults :: "u16 \<Rightarrow> u16 \<Rightarrow> s16 \<Rightarrow> node \<Rightarrow> node" where
  "set_ctl_defaults lightness tempv delta_uv n =
     n\<lparr>light := (light n)\<lparr>lt_def := lightness\<rparr>, temp := (temp n)\<lparr>tm_def := tempv\<rparr>,
       duv := (duv n)\<lparr>dv_def := delta_uv\<rparr>\<rparr>"

definition light_ctl_default_set_unack :: handler where
  "light_ctl_default_set_unack m e cx buf n = do {
     (lightness, buf) \<leftarrow> pull_le16 buf;
     (tempv, buf) \<leftarrow> pull_le16 buf;
     (delta_uv, buf) \<leftarrow> pull_le16 buf;
     if tempv < TEMP_MIN \<or> tempv > TEMP_MAX then Some n
     else do {
       let lightness = constrain_lightness n lightness;
       let tempv = constrain_temperature n tempv;
       if lt_def (light n) \<noteq> lightness \<or> tm_def (temp n) \<noteq> tempv \<or> dv_def (duv n) \<noteq> delta_uv then do {
         n \<leftarrow> light_ctl_default_publish e m (set_ctl_defaults lightness tempv delta_uv n);
         Some (save_on_flash DEF_STATES n)
       } else Some n
     }
   }"

definition light_ctl_default_set :: handler where
  "light_ctl_default_set m e cx buf n = do {
     (lightness, buf) \<leftarrow> pull_le16 buf;
     (tempv, buf) \<leftarrow> pull_le16 buf;
     (delta_uv, buf) \<leftarrow> pull_le16 buf;
     if tempv < TEMP_MIN \<or> tempv > TEMP_MAX then Some n
     else do {
       let lightness = constrain_lightness n lightness;
       let tempv = constrain_temperature n tempv;
       if lt_def (light n) \<noteq> lightness \<or> tm_def (temp n) \<noteq> tempv \<or> dv_def (duv n) \<noteq> delta_uv then do {
         n \<leftarrow> light_ctl_default_get m e cx buf (set_ctl_defaults lightness tempv delta_uv n);
         n \<leftarrow> light_ctl_default_publish e m n;
         Some (save_on_flash DEF_STATES n)
       } else light_ctl_default_get m e cx buf n
     }
   }"

definition light_ctl_temp_range_publish :: "env \<Rightarrow> model \<Rightarrow> node \<Rightarrow> node option" where
  "light_ctl_temp_range_publish e m n =
     (if e_pub_addr e m = 0 then Some n
      else model_publish e m LIGHT_CTL_TEMP_RANGE_STATUS
             ([tm_status_code (temp n)] @ le16 (tm_range_min (temp n)) @ le16 (tm_range_max (temp n))) n)"

definition light_ctl_temp_range_set_unack :: handler where
  "light_ctl_temp_range_set_unack m e cx buf n = do {
     (mn, buf) \<leftarrow> pull_le16 buf;
     (mx, buf) \<leftarrow> pull_le16 buf;
     if mn < TEMP_MIN \<or> mn > TEMP_MAX \<or> mx < TEMP_MIN \<or> mx > TEMP_MAX then Some n
     else if mn \<le> mx then do {
       let n = n\<lparr>temp := (temp n)\<lparr>tm_status_code := RANGE_SUCCESSFULLY_UPDATED\<rparr>\<rparr>;
       if tm_range_min (temp n) \<noteq> mn \<or> tm_range_max (temp n) \<noteq> mx then do {
         let n = n\<lparr>temp := (temp n)\<lparr>tm_range_min := mn, tm_range_max := mx\<rparr>\<rparr>;
         n \<leftarrow> light_ctl_temp_range_publish e m n;
         Some (save_on_flash TEMPERATURE_RANGE n)
       } else Some n
     } else Some (n\<lparr>temp := (temp n)\<lparr>tm_status_code := CANNOT_SET_RANGE_MAX\<rparr>\<rparr>)
   }"

definition light_ctl_temp_range_set :: handler where
  "light_ctl_temp_range_set m e cx buf n = do {
     (mn, buf) \<leftarrow> pull_le16 buf;
     (mx, buf) \<leftarrow> pull_le16 buf;
     if mn < TEMP_MIN \<or> mn > TEMP_MAX \<or> mx < TEMP_MIN \<or> mx > TEMP_MAX then Some n
     else if mn \<le> mx then do {
       let n = n\<lparr>temp := (temp n)\<lparr>tm_status_code := RANGE_SUCCESSFULLY_UPDATED\<rparr>\<rparr>;
       if tm_range_min (temp n) \<noteq> mn \<or> tm_range_max (temp n) \<noteq> mx then do {
         let n = n\<lparr>temp := (temp n)\<lparr>tm_range_min := mn, tm_range_max := mx\<rparr>\<rparr>;
         n \<leftarrow> light_ctl_temp_range_get m e cx buf n;
         n \<leftarrow> light_ctl_temp_range_publish e m n;
         Some (save_on_flash TEMPERATURE_RANGE n)
       } else light_ctl_temp_range_get m e cx buf n
     } else Some (n\<lparr>temp := (temp n)\<lparr>tm_status_code := CANNOT_SET_RANGE_MAX\<rparr>\<rparr>)
   }"

section \<open>The client\<close>

definition light_ctl_status :: handler where
  "light_ctl_status m e cx buf n = do {
     let n = emit (Printk ''Acknownledgement from LIGHT_CTL_SRV'' []) n;
     (v, buf) \<leftarrow> pull_le16 buf;
     let n = emit (Printk ''Present CTL Lightness = %04x'' [uint v]) n;
     (v, buf) \<leftarrow> pull_le16 buf;
     let n = emit (Printk ''Present CTL Temperature = %04x'' [uint v]) n;
     if length buf = 5 then do {
       (v, buf) \<leftarrow> pull_le16 buf;
       let n = emit (Printk ''Target CTL Lightness = %04x'' [uint v]) n;
       (v, buf) \<leftarrow> pull_le16 buf;
       let n = emit (Printk ''Target CTL Temperature = %04x'' [uint v]) n;
       (v, buf) \<leftarrow> pull_u8 buf;
       let n = emit (Printk ''Remaining Time = %02x'' [uint v]) n;
       Some n
     } else Some n
   }"

definition light_ctl_temp_range_status :: handler where
  "light_ctl_temp_range_status m e cx buf n = do {
     let n = emit (Printk ''Acknownledgement from LIGHT_CTL_SRV (Temperature Range)'' []) n;
     (v, buf) \<leftarrow> pull_u8 buf;
     let n = emit (Printk ''Status Code = %02x'' [uint v]) n;
     (v, buf) \<leftarrow> pull_le16 buf;
     let n = emit (Printk ''Range Min = %04x'' [uint v]) n;
     (v, buf) \<leftarrow> pull_le16 buf;
     let n = emit (Printk ''Range Max = %04x'' [uint v]) n;
     Some n
   }"

definition light_ctl_temp_status :: handler where
  "light_ctl_temp_status m e cx buf n = do {
     let n = emit (Printk ''Acknownledgement from LIGHT_CTL_TEMP_SRV'' []) n;
     (v, buf) \<leftarrow> pull_le16 buf;
     let n = emit (Printk ''Present CTL Temperature = %04x'' [uint v]) n;
     (v, buf) \<leftarrow> pull_le16 buf;
     let n = emit (Printk ''Present CTL Delta UV = %04x'' [uint v]) n;
     if length buf = 5 then do {
       (v, buf) \<leftarrow> pull_le16 buf;
       let n = emit (Printk ''Target CTL Temperature = %04x'' [uint v]) n;
       (v, buf) \<leftarrow> pull_le16 buf;
       let n = emit (Printk ''Target CTL Delta UV = %04x'' [uint v]) n;
       (v, buf) \<leftarrow> pull_u8 buf;
       let n = emit (Printk ''Remaining Time = %02x'' [uint v]) n;
       Some n
     } else Some n
   }"

definition light_ctl_default_status :: handler where
  "light_ctl_default_status m e cx buf n = do {
     let n = emit (Printk ''Acknownledgement from LIGHT_CTL_SRV (Default)'' []) n;
     (v, buf) \<leftarrow> pull_le16 buf;
     let n = emit (Printk ''Lightness = %04x'' [uint v]) n;
     (v, buf) \<leftarrow> pull_le16 buf;
     let n = emit (Printk ''Temperature = %04x'' [uint v]) n;
     (v, buf) \<leftarrow> pull_le16 buf;
     let n = emit (Printk ''Delta UV = %04x'' [uint v]) n;
     Some n
   }"

section \<open>Light CTL Temperature\<close>

definition light_ctl_temp_get :: handler where
  "light_ctl_temp_get m e cx buf n = do {
     p \<leftarrow> cur32 CTL_TEMP CTL_DELTA_UV n;
     (p, n) \<leftarrow> add_target e
       ((tm_current (temp n) \<noteq> tm_target (temp n) \<or> dv_current (duv n) \<noteq> dv_target (duv n)) \<and> tr_counter (trans n) \<noteq> 0)
       (tgt32 CTL_TEMP CTL_DELTA_UV) p n;
     model_send e (2 + 9 + 4) LIGHT_CTL_TEMP_STATUS p ''Unable to send LightCTL Temp. Status response'' n
   }"

definition light_ctl_temp_publish :: "env \<Rightarrow> model \<Rightarrow> node \<Rightarrow> node option" where
  "light_ctl_temp_publish e m n =
     (if e_pub_addr e m = 0 then Some n
      else do {
        p \<leftarrow> cur32 CTL_TEMP CTL_DELTA_UV n;
        (p, n) \<leftarrow> add_target e (tr_counter (trans n) \<noteq> 0) (tgt32 CTL_TEMP CTL_DELTA_UV) p n;
        model_publish e m LIGHT_CTL_TEMP_STATUS p n
      })"

definition light_ctl_temp_set_unack :: handler where
  "light_ctl_temp_set_unack m e cx buf n = do {
     (tempv, buf) \<leftarrow> pull_le16 buf;
     (delta_uv, buf) \<leftarrow> pull_le16 buf;
     (tid, buf) \<leftarrow> pull_u8 buf;
     if tempv < TEMP_MIN \<or> tempv > TEMP_MAX then Some n
     else if tid_repeated e cx tid n then Some n
     else case opt_fields (c_tt n) buf of
       None \<Rightarrow> Some n
     | Some (tt, delay) \<Rightarrow> do {
         n \<leftarrow> set_target CTL_TEMP tempv (begin_transition e cx tid tt delay NON_MOVE n);
         n \<leftarrow> set_target CTL_DELTA_UV delta_uv n;
         if tm_target (temp n) \<noteq> tm_current (temp n) \<or>
            dv_target (duv n) \<noteq> dv_current (duv n) then do {
           n \<leftarrow> set_transition_values CTL_TEMP n;
           let n = (if tr_counter (trans n) = 0 then duv_finish (temp_finish n) else n);
           let n = set_just_started True n;
           n \<leftarrow> light_ctl_temp_publish e m n;
           light_ctl_temp_handler n
         } else Some n
       }
   }"

definition light_ctl_temp_set :: handler where
  "light_ctl_temp_set m e cx buf n = do {
     (tempv, buf) \<leftarrow> pull_le16 buf;
     (delta_uv, buf) \<leftarrow> pull_le16 buf;
     (tid, buf) \<leftarrow> pull_u8 buf;
     if tempv < TEMP_MIN \<or> tempv > TEMP_MAX then Some n
     else if tid_repeated e cx tid n then light_ctl_temp_get m e cx buf n
     else case opt_fields (c_tt n) buf of
       None \<Rightarrow> Some n
     | Some (tt, delay) \<Rightarrow> do {
         n \<leftarrow> set_target CTL_TEMP tempv (begin_transition e cx tid tt delay NON_MOVE n);
         n \<leftarrow> set_target CTL_DELTA_UV delta_uv n;
         if tm_target (temp n) \<noteq> tm_current (temp n) \<or>
            dv_target (duv n) \<noteq> dv_current (duv n) then do {
           n \<leftarrow> set_transition_values CTL_TEMP n;
           let n = (if tr_counter (trans n) = 0 then duv_finish (temp_finish n) else n);
           let n = set_just_started True n;
           n \<leftarrow> light_ctl_temp_get m e cx buf n;
           n \<leftarrow> light_ctl_temp_publish e m n;
           light_ctl_temp_handler n
         } else light_ctl_temp_get m e cx buf n
       }
   }"

section \<open>The servers keep their contracts\<close>

lemma light_ctl_get_quiet: "node_ok n \<Longrightarrow> returns (light_ctl_get m e cx buf n) (quiet n)"
  unfolding light_ctl_get_def by (rule send_status_quiet) simp_all

lemma light_ctl_publish_quiet: "node_ok n \<Longrightarrow> returns (light_ctl_publish e (Root 14) n) (quiet n)"
  unfolding light_ctl_publish_def by (rule publish_status_quiet(2) [where cap = 11]) simp_all

lemma light_ctl_temp_get_quiet: "node_ok n \<Longrightarrow> returns (light_ctl_temp_get m e cx buf n) (quiet n)"
  unfolding light_ctl_temp_get_def by (rule send_status_quiet) simp_all

lemma light_ctl_temp_publish_quiet: "node_ok n \<Longrightarrow> returns (light_ctl_temp_publish e (S0 2) n) (quiet n)"
  unfolding light_ctl_temp_publish_def by (rule publish_status_quiet(2) [where cap = 11]) simp_all

lemmas light_ctl_quiet = light_ctl_get_quiet light_ctl_publish_quiet light_ctl_temp_get_quiet light_ctl_temp_publish_quiet

text \<open>A CTL message aims at several quantities, one after the other.\<close>

definition aim_ctl :: "u16 \<times> u16 \<times> s16 \<Rightarrow> node \<Rightarrow> node option" where
  "aim_ctl a n = (case a of (lightness, tempv, delta_uv) \<Rightarrow> do {
     n \<leftarrow> set_target CTL_LIGHT lightness n;
     n \<leftarrow> set_target CTL_TEMP tempv n;
     set_target CTL_DELTA_UV delta_uv n })"

definition aim_ctl_temp :: "u16 \<times> s16 \<Rightarrow> node \<Rightarrow> node option" where
  "aim_ctl_temp a n = (case a of (tempv, delta_uv) \<Rightarrow> do {
     n \<leftarrow> set_target CTL_TEMP tempv n;
     set_target CTL_DELTA_UV delta_uv n })"

lemma aim_bind:
  assumes "node_ok n" "ty \<noteq> MOVE_TEMP" "\<And>m. node_ok m \<Longrightarrow> returns (f m) (\<lambda>n'. aimed m n' \<and> node_ok n')"
  shows "returns (set_target ty v n \<bind> f) (\<lambda>n'. aimed n n' \<and> node_ok n')"
proof -
  obtain m where m: "set_target ty v n = Some m" "aimed n m" "node_ok m"
    using set_target_view [OF assms(1,2)] by (auto elim: returnsE)
  show ?thesis using returns_mono [OF assms(3) [OF m(3)]] m aimed_trans [OF m(2)] by simp
qed

lemma aim_ctl_ok: "node_ok n \<Longrightarrow> returns (aim_ctl a n) (\<lambda>n'. aimed n n' \<and> node_ok n')"
  unfolding aim_ctl_def by (cases a; hypsubst; unfold prod.case; (rule aim_bind set_target_view | assumption | (simp; fail))+)

lemma aim_ctl_temp_ok: "node_ok n \<Longrightarrow> returns (aim_ctl_temp a n) (\<lambda>n'. aimed n n' \<and> node_ok n')"
  unfolding aim_ctl_temp_def by (cases a; hypsubst; unfold prod.case; (rule aim_bind set_target_view | assumption | (simp; fail))+)

abbreviation ctl_valid :: "u16 \<times> u16 \<times> s16 \<Rightarrow> bool" where
  "ctl_valid a \<equiv> TEMP_MIN \<le> fst (snd a) \<and> fst (snd a) \<le> TEMP_MAX"
abbreviation ctl_temp_valid :: "u16 \<times> s16 \<Rightarrow> bool" where
  "ctl_temp_valid a \<equiv> TEMP_MIN \<le> fst a \<and> fst a \<le> TEMP_MAX"

interpretation ctl_unack_srv: set_server CTL_LIGHT "\<lambda>n. light_changed n \<or> temp_changed n \<or> duv_changed n"
    "\<lambda>n. duv_finish (temp_finish (light_finish n))" Light_Ctl_Work light_ctl_set_unack
    "\<lambda>m e cx buf n. Some n" light_ctl_publish "Root 14" parse_16_16_16 7 ctl_valid aim_ctl
  by unfold_locales ((rule parse_defined aim_ctl_ok aim_ctl_temp_ok, assumption)
    | simp add: light_ctl_set_unack_def server_simps light_ctl_quiet aim_ctl_def split: server_splits)+

interpretation ctl_srv: set_server CTL_LIGHT "\<lambda>n. light_changed n \<or> temp_changed n \<or> duv_changed n"
    "\<lambda>n. duv_finish (temp_finish (light_finish n))" Light_Ctl_Work light_ctl_set
    light_ctl_get light_ctl_publish "Root 14" parse_16_16_16 7 ctl_valid aim_ctl
  by unfold_locales ((rule parse_defined aim_ctl_ok aim_ctl_temp_ok, assumption)
    | simp add: light_ctl_set_def server_simps light_ctl_quiet aim_ctl_def split: server_splits)+

interpretation ctl_temp_unack_srv: set_server CTL_TEMP "\<lambda>n. temp_changed n \<or> duv_changed n"
    "\<lambda>n. duv_finish (temp_finish n)" Light_Ctl_Temp_Work light_ctl_temp_set_unack
    "\<lambda>m e cx buf n. Some n" light_ctl_temp_publish "S0 2" parse_16_16 5 ctl_temp_valid aim_ctl_temp
  by unfold_locales ((rule parse_defined aim_ctl_ok aim_ctl_temp_ok, assumption)
    | simp add: light_ctl_temp_set_unack_def server_simps light_ctl_quiet aim_ctl_temp_def
        split: server_splits)+

interpretation ctl_temp_srv: set_server CTL_TEMP "\<lambda>n. temp_changed n \<or> duv_changed n"
    "\<lambda>n. duv_finish (temp_finish n)" Light_Ctl_Temp_Work light_ctl_temp_set
    light_ctl_temp_get light_ctl_temp_publish "S0 2" parse_16_16 5 ctl_temp_valid aim_ctl_temp
  by unfold_locales ((rule parse_defined aim_ctl_ok aim_ctl_temp_ok, assumption)
    | simp add: light_ctl_temp_set_def server_simps light_ctl_quiet aim_ctl_temp_def
        split: server_splits)+

section \<open>The other messages leave the light where it is\<close>

lemma light_ctl_default_get_quiet: "returns (light_ctl_default_get m e cx buf n) (quiet n)"
  by (simp add: light_ctl_default_get_def model_send_quiet)

lemma light_ctl_default_publish_quiet: "returns (light_ctl_default_publish e (Root 15) n) (quiet n)"
  unfolding light_ctl_default_publish_def
  by (rule quiet_if, rule model_publish_quiet [where cap = 11]) simp_all

lemma light_ctl_temp_range_publish_quiet: "returns (light_ctl_temp_range_publish e (Root 15) n) (quiet n)"
  unfolding light_ctl_temp_range_publish_def
  by (rule quiet_if, rule model_publish_quiet [where cap = 11]) simp_all

lemma light_ctl_temp_range_get_unmoved:
  "unmoved n n' \<Longrightarrow> returns (light_ctl_temp_range_get m e cx buf n') (unmoved n)"
  unfolding light_ctl_temp_range_get_def Let_def
  by (rule quiet_end, rule model_send_quiet) (simp_all add: unmoved_steps)

lemma set_ctl_defaults_unmoved: "unmoved n (set_ctl_defaults a b d n)"
  by (simp add: set_ctl_defaults_def unmoved_def all_channels armed_def timer_state_def node_ok_def temp_range_ok_def)

lemma light_ctl_default_set_unack_unmoved:
  "6 \<le> length buf \<Longrightarrow> returns (light_ctl_default_set_unack (Root 15) e cx buf n) (unmoved n)"
  unfolding light_ctl_default_set_unack_def Let_def
  by (rule returns_rules quiet_bind [OF light_ctl_default_publish_quiet] set_ctl_defaults_unmoved unmoved_steps
      | assumption | (simp; fail))+

lemma light_ctl_default_set_unmoved:
  "6 \<le> length buf \<Longrightarrow> returns (light_ctl_default_set (Root 15) e cx buf n) (unmoved n)"
  unfolding light_ctl_default_set_def Let_def
  by (rule returns_rules quiet_bind [OF light_ctl_default_publish_quiet] quiet_bind [OF light_ctl_default_get_quiet]
      quiet_end [OF light_ctl_default_get_quiet] set_ctl_defaults_unmoved unmoved_steps
      | assumption | (simp; fail))+

lemma light_ctl_statuses_quiet:
  "4 \<le> length buf \<Longrightarrow> returns (light_ctl_status m e cx buf n) (quiet n)"
  "5 \<le> length buf \<Longrightarrow> returns (light_ctl_temp_range_status m e cx buf n) (quiet n)"
  "4 \<le> length buf \<Longrightarrow> returns (light_ctl_temp_status m e cx buf n) (quiet n)"
  "6 \<le> length buf \<Longrightarrow> returns (light_ctl_default_status m e cx buf n) (quiet n)"
  unfolding light_ctl_status_def light_ctl_temp_range_status_def light_ctl_temp_status_def
    light_ctl_default_status_def Let_def
  by (rule returns_rules quiet_steps | (simp; fail))+

section \<open>Setting the temperature range\<close>

text \<open>
  The handler accepts any range within 800 .. 20000 with minimum at most maximum. The invariant
  survives only when the new range is not a single point and contains the present and the target
  temperature, which nothing in the code checks.
\<close>

definition temp_range_fits :: "node \<Rightarrow> u16 \<Rightarrow> u16 \<Rightarrow> bool" where
  "temp_range_fits n mn mx \<longleftrightarrow> mn < mx \<and> mn \<le> tm_current (temp n) \<and> tm_current (temp n) \<le> mx \<and>
     mn \<le> tm_target (temp n) \<and> tm_target (temp n) \<le> mx"

definition temp_range_accepted :: "u16 \<Rightarrow> u16 \<Rightarrow> bool" where
  "temp_range_accepted mn mx \<longleftrightarrow>
     TEMP_MIN \<le> mn \<and> mn \<le> TEMP_MAX \<and> TEMP_MIN \<le> mx \<and> mx \<le> TEMP_MAX \<and> mn \<le> mx"

definition temp_range_message_fits :: "node \<Rightarrow> u8 list \<Rightarrow> bool" where
  "temp_range_message_fits n buf = (case pull_le16 buf of None \<Rightarrow> True
     | Some (mn, r) \<Rightarrow> (case pull_le16 r of None \<Rightarrow> True
       | Some (mx, _) \<Rightarrow> temp_range_accepted mn mx \<longrightarrow> temp_range_fits n mn mx))"

definition with_temp_range :: "u16 \<Rightarrow> u16 \<Rightarrow> node \<Rightarrow> node" where
  "with_temp_range mn mx n = n\<lparr>temp := (temp n)
     \<lparr>tm_status_code := RANGE_SUCCESSFULLY_UPDATED, tm_range_min := mn, tm_range_max := mx\<rparr>\<rparr>"

lemma with_temp_range_inv:
  assumes "node_inv n" "temp_range_accepted mn mx" "temp_range_fits n mn mx"
  shows "node_inv (with_temp_range mn mx n)" "cur c (with_temp_range mn mx n) = cur c n"
proof -
  show "cur c (with_temp_range mn mx n) = cur c n" by (cases c) (simp_all add: with_temp_range_def)
  have "tick_ok (with_temp_range mn mx n) = tick_ok n"
    by (rule tick_ok_cong) (simp_all add: all_channels with_temp_range_def armed_def timer_state_def)
  then show "node_inv (with_temp_range mn mx n)" using assms
    by (simp add: node_inv_def node_ok_def with_temp_range_def temp_range_accepted_def temp_range_fits_def temp_range_ok_def)
qed

lemma temp_range_parts:
  assumes "4 \<le> length buf"
  obtains mn mx r r' where "pull_le16 buf = Some (mn, r)" "pull_le16 r = Some (mx, r')"
  using pull_le16_ex [of 2 buf] pull_le16_ex [of 0] assms by fastforce

lemma light_ctl_temp_range_set_unack_eq:
  assumes "pull_le16 buf = Some (mn, r)" "pull_le16 r = Some (mx, r')"
  shows "light_ctl_temp_range_set_unack m e cx buf n =
    (if \<not> (TEMP_MIN \<le> mn \<and> mn \<le> TEMP_MAX \<and> TEMP_MIN \<le> mx \<and> mx \<le> TEMP_MAX) then Some n
     else if \<not> temp_range_accepted mn mx then Some (n\<lparr>temp := (temp n)\<lparr>tm_status_code := CANNOT_SET_RANGE_MAX\<rparr>\<rparr>)
     else if tm_range_min (temp n) = mn \<and> tm_range_max (temp n) = mx
     then Some (n\<lparr>temp := (temp n)\<lparr>tm_status_code := RANGE_SUCCESSFULLY_UPDATED\<rparr>\<rparr>)
     else do {
       n \<leftarrow> light_ctl_temp_range_publish e m (with_temp_range mn mx n);
       Some (save_on_flash TEMPERATURE_RANGE n) })"
  unfolding light_ctl_temp_range_set_unack_def using assms
  by (auto simp: temp_range_accepted_def with_temp_range_def not_less not_le)

lemma light_ctl_temp_range_set_eq:
  assumes "pull_le16 buf = Some (mn, r)" "pull_le16 r = Some (mx, r')"
  shows "light_ctl_temp_range_set m e cx buf n =
    (if \<not> (TEMP_MIN \<le> mn \<and> mn \<le> TEMP_MAX \<and> TEMP_MIN \<le> mx \<and> mx \<le> TEMP_MAX) then Some n
     else if \<not> temp_range_accepted mn mx then Some (n\<lparr>temp := (temp n)\<lparr>tm_status_code := CANNOT_SET_RANGE_MAX\<rparr>\<rparr>)
     else if tm_range_min (temp n) = mn \<and> tm_range_max (temp n) = mx
     then light_ctl_temp_range_get m e cx r' (n\<lparr>temp := (temp n)\<lparr>tm_status_code := RANGE_SUCCESSFULLY_UPDATED\<rparr>\<rparr>)
     else do {
       n \<leftarrow> light_ctl_temp_range_get m e cx r' (with_temp_range mn mx n);
       n \<leftarrow> light_ctl_temp_range_publish e m n;
       Some (save_on_flash TEMPERATURE_RANGE n) })"
  unfolding light_ctl_temp_range_set_def using assms
  by (auto simp: temp_range_accepted_def with_temp_range_def not_less not_le)

lemma status_code_keeps:
  assumes "node_inv n"
  shows "node_inv (n\<lparr>temp := (temp n)\<lparr>tm_status_code := s\<rparr>\<rparr>)" "cur c (n\<lparr>temp := (temp n)\<lparr>tm_status_code := s\<rparr>\<rparr>) = cur c n"
  using unmoved_stored(13) [OF unmoved_refl, of n s] assms by (simp_all only: unmoved_inv) (simp add: unmoved_def)

lemma status_code_stays: "node_inv n \<Longrightarrow> reacts n (n\<lparr>temp := (temp n)\<lparr>tm_status_code := s\<rparr>\<rparr>)"
  by (rule unmoved_stays, assumption, rule unmoved_stored(13) [OF unmoved_refl])

lemma light_ctl_temp_range_set_unack_inv:
  assumes "node_inv n" "4 \<le> length buf" "temp_range_message_fits n buf"
  shows "returns (light_ctl_temp_range_set_unack (Root 15) e cx buf n) (reacts n)"
proof -
  obtain mn mx r r' where p: "pull_le16 buf = Some (mn, r)" "pull_le16 r = Some (mx, r')"
    using assms(2) by (rule temp_range_parts)
  have "returns (light_ctl_temp_range_publish e (Root 15) k \<bind> (\<lambda>n. Some (save_on_flash TEMPERATURE_RANGE n))) (reacts n)"
    if "node_inv k" "\<And>c. cur c k = cur c n" for k
    by (rule unmoved_reacts [OF that])
      (rule quiet_bind [OF light_ctl_temp_range_publish_quiet] returns_rules unmoved_steps | assumption)+
  then show ?thesis unfolding light_ctl_temp_range_set_unack_eq [OF p]
    using assms p with_temp_range_inv [OF assms(1)]
    by (auto simp: temp_range_message_fits_def simp del: returns_bind
        intro!: returns_rules reacts_self status_code_stays)
qed

lemma light_ctl_temp_range_set_inv:
  assumes "node_inv n" "4 \<le> length buf" "temp_range_message_fits n buf"
  shows "returns (light_ctl_temp_range_set (Root 15) e cx buf n) (reacts n)"
proof -
  obtain mn mx r r' where p: "pull_le16 buf = Some (mn, r)" "pull_le16 r = Some (mx, r')"
    using assms(2) by (rule temp_range_parts)
  have a: "returns (light_ctl_temp_range_get (Root 15) e cx r' k \<bind> (\<lambda>n. light_ctl_temp_range_publish e (Root 15) n \<bind>
      (\<lambda>n. Some (save_on_flash TEMPERATURE_RANGE n)))) (reacts n)" if "node_inv k" "\<And>c. cur c k = cur c n" for k
    by (rule unmoved_reacts [OF that])
      (rule quiet_bind [OF light_ctl_temp_range_publish_quiet] unmoved_bind [OF light_ctl_temp_range_get_unmoved]
        returns_rules unmoved_steps | assumption)+
  have b: "returns (light_ctl_temp_range_get (Root 15) e cx r' k) (reacts n)" if "node_inv k" "\<And>c. cur c k = cur c n" for k
    by (rule unmoved_reacts [OF that light_ctl_temp_range_get_unmoved [OF unmoved_refl]])
  show ?thesis unfolding light_ctl_temp_range_set_eq [OF p]
    using assms p with_temp_range_inv [OF assms(1)] status_code_keeps [OF assms(1)]
    by (auto simp: temp_range_message_fits_def simp del: returns_bind
        intro!: returns_rules a b reacts_self status_code_stays)
qed

end
