(* ===== verification/GenPower.thy ===== *)
theory GenPower
  imports Journeys
begin

text \<open>
  The Generic Default Transition Time and Generic Power OnOff servers and clients, and the vendor
  model, of device_composition.c.
\<close>

unbundle bit_operations_syntax

abbreviation GEN_DEF_TRANS_TIME_STATUS :: opcode where "GEN_DEF_TRANS_TIME_STATUS \<equiv> OP_2 0x82 0x10"
abbreviation GEN_ONPOWERUP_STATUS :: opcode where "GEN_ONPOWERUP_STATUS \<equiv> OP_2 0x82 0x12"
abbreviation CID_ZEPHYR :: u16 where "CID_ZEPHYR \<equiv> 2"

section \<open>Default transition time\<close>

definition gen_def_trans_time_get :: handler where
  "gen_def_trans_time_get m e cx buf n =
     model_send e (2 + 1 + 4) GEN_DEF_TRANS_TIME_STATUS [c_tt n]
       ''Unable to send GEN_DEF_TT_SRV Status response'' n"

definition gen_def_trans_time_publish :: "env \<Rightarrow> model \<Rightarrow> node \<Rightarrow> node option" where
  "gen_def_trans_time_publish e m n =
     (if e_pub_addr e m = 0 then Some n else model_publish e m GEN_DEF_TRANS_TIME_STATUS [c_tt n] n)"

definition gen_def_trans_time_set_unack :: handler where
  "gen_def_trans_time_set_unack m e cx buf n = do {
     (tt, buf) \<leftarrow> pull_u8 buf;
     if tt AND 0x3F = 0x3F then Some n
     else if c_tt n \<noteq> tt then do {
       n \<leftarrow> gen_def_trans_time_publish e m (n\<lparr>c_tt := tt\<rparr>);
       Some (save_on_flash GEN_DEF_TRANS_TIME_STATE n)
     } else Some n
   }"

definition gen_def_trans_time_set :: handler where
  "gen_def_trans_time_set m e cx buf n = do {
     (tt, buf) \<leftarrow> pull_u8 buf;
     if tt AND 0x3F = 0x3F then Some n
     else if c_tt n \<noteq> tt then do {
       n \<leftarrow> gen_def_trans_time_get m e cx buf (n\<lparr>c_tt := tt\<rparr>);
       n \<leftarrow> gen_def_trans_time_publish e m n;
       Some (save_on_flash GEN_DEF_TRANS_TIME_STATE n)
     } else gen_def_trans_time_get m e cx buf n
   }"

definition gen_def_trans_time_status :: handler where
  "gen_def_trans_time_status m e cx buf n = do {
     let n = emit (Printk ''Acknownledgement from GEN_DEF_TT_SRV'' []) n;
     (v, buf) \<leftarrow> pull_u8 buf;
     let n = emit (Printk ''Transition Time = %02x'' [uint v]) n;
     Some n
   }"

section \<open>Power OnOff\<close>

definition gen_onpowerup_get :: handler where
  "gen_onpowerup_get m e cx buf n =
     model_send e (2 + 1 + 4) GEN_ONPOWERUP_STATUS [c_onpowerup n]
       ''Unable to send GEN_POWER_ONOFF_SRV Status response'' n"

definition gen_onpowerup_status :: handler where
  "gen_onpowerup_status m e cx buf n = do {
     let n = emit (Printk ''Acknownledgement from GEN_POWER_ONOFF_SRV'' []) n;
     (v, buf) \<leftarrow> pull_u8 buf;
     let n = emit (Printk ''OnPowerUp = %02x'' [uint v]) n;
     Some n
   }"

definition gen_onpowerup_publish :: "env \<Rightarrow> model \<Rightarrow> node \<Rightarrow> node option" where
  "gen_onpowerup_publish e m n =
     (if e_pub_addr e m = 0 then Some n else model_publish e m GEN_ONPOWERUP_STATUS [c_onpowerup n] n)"

definition gen_onpowerup_set_unack :: handler where
  "gen_onpowerup_set_unack m e cx buf n = do {
     (onpowerup, buf) \<leftarrow> pull_u8 buf;
     if onpowerup > STATE_RESTORE then Some n
     else if c_onpowerup n \<noteq> onpowerup then do {
       n \<leftarrow> gen_onpowerup_publish e m (n\<lparr>c_onpowerup := onpowerup\<rparr>);
       Some (save_on_flash GEN_ONPOWERUP_STATE n)
     } else Some n
   }"

definition gen_onpowerup_set :: handler where
  "gen_onpowerup_set m e cx buf n = do {
     (onpowerup, buf) \<leftarrow> pull_u8 buf;
     if onpowerup > STATE_RESTORE then Some n
     else if c_onpowerup n \<noteq> onpowerup then do {
       n \<leftarrow> gen_onpowerup_get m e cx buf (n\<lparr>c_onpowerup := onpowerup\<rparr>);
       n \<leftarrow> gen_onpowerup_publish e m n;
       Some (save_on_flash GEN_ONPOWERUP_STATE n)
     } else gen_onpowerup_get m e cx buf n
   }"

section \<open>Vendor model\<close>

definition vnd_get :: handler where
  "vnd_get m e cx buf n =
     (let n = n\<lparr>vnd_user_data := (vnd_user_data n)\<lparr>vn_response := 0xA578FEB3\<rparr>\<rparr>
      in model_send e (3 + 6 + 4) (OP_3 0x04 CID_ZEPHYR)
           (le16 (word_of_int (vn_current (vnd_user_data n))) @ le32 (vn_response (vnd_user_data n)))
           ''Unable to send VENDOR Status response'' n)"

definition vnd_repeated :: "env \<Rightarrow> msg_ctx \<Rightarrow> u8 \<Rightarrow> vendor_state \<Rightarrow> bool" where
  "vnd_repeated e cx tid v \<longleftrightarrow>
     vn_last_tid v = tid \<and> vn_last_src_addr v = cx_addr cx \<and> vn_last_dst_addr v = cx_recv_dst cx \<and>
     e_now e - vn_last_msg_timestamp v \<le> 6000"

definition vnd_set_unack :: handler where
  "vnd_set_unack m e cx buf n = do {
     (current, buf) \<leftarrow> pull_le16 buf;
     (tid, buf) \<leftarrow> pull_u8 buf;
     if vnd_repeated e cx tid (vnd_user_data n) then Some n
     else do {
       let n = n\<lparr>vnd_user_data := (vnd_user_data n)
                 \<lparr>vn_last_tid := tid, vn_last_src_addr := cx_addr cx, vn_last_dst_addr := cx_recv_dst cx,
                  vn_last_msg_timestamp := e_now e, vn_current := uint current\<rparr>\<rparr>;
       let n = emit (Printk ''Vendor model message = %04x'' [vn_current (vnd_user_data n)]) n;
       Some (update_vnd_led_gpio n)
     }
   }"

definition vnd_set :: handler where
  "vnd_set m e cx buf n = do {
     n \<leftarrow> vnd_set_unack m e cx buf n;
     vnd_get m e cx buf n
   }"

definition vnd_status :: handler where
  "vnd_status m e cx buf n = do {
     let n = emit (Printk ''Acknownledgement from Vendor'' []) n;
     (v, buf) \<leftarrow> pull_le16 buf;
     let n = emit (Printk ''cmd = %04x'' [uint v]) n;
     (v, buf) \<leftarrow> pull_le32 buf;
     let n = emit (Printk ''response = %08x'' [uint v]) n;
     Some n
   }"

section \<open>None of them moves the light\<close>

lemma gen_def_trans_time_get_quiet: "returns (gen_def_trans_time_get m e cx buf n) (quiet n)"
  by (simp add: gen_def_trans_time_get_def model_send_quiet)

lemma gen_def_trans_time_publish_quiet: "returns (gen_def_trans_time_publish e (Root 6) n) (quiet n)"
  unfolding gen_def_trans_time_publish_def by (rule quiet_if, rule model_publish_quiet [where cap = 3]) simp_all

lemma gen_onpowerup_get_quiet: "returns (gen_onpowerup_get m e cx buf n) (quiet n)"
  by (simp add: gen_onpowerup_get_def model_send_quiet)

lemma gen_onpowerup_publish_quiet: "returns (gen_onpowerup_publish e (Root 9) n) (quiet n)"
  unfolding gen_onpowerup_publish_def by (rule quiet_if, rule model_publish_quiet [where cap = 3]) simp_all

lemma gen_def_trans_time_set_unmoved:
  "1 \<le> length buf \<Longrightarrow> returns (gen_def_trans_time_set_unack (Root 6) e cx buf n) (unmoved n)"
  "1 \<le> length buf \<Longrightarrow> returns (gen_def_trans_time_set (Root 6) e cx buf n) (unmoved n)"
  unfolding gen_def_trans_time_set_unack_def gen_def_trans_time_set_def Let_def
  by (rule returns_rules quiet_bind [OF gen_def_trans_time_publish_quiet] quiet_bind [OF gen_def_trans_time_get_quiet]
      quiet_end [OF gen_def_trans_time_get_quiet] unmoved_steps | assumption | (simp; fail))+

lemma gen_onpowerup_set_unmoved:
  "1 \<le> length buf \<Longrightarrow> returns (gen_onpowerup_set_unack (Root 9) e cx buf n) (unmoved n)"
  "1 \<le> length buf \<Longrightarrow> returns (gen_onpowerup_set (Root 9) e cx buf n) (unmoved n)"
  unfolding gen_onpowerup_set_unack_def gen_onpowerup_set_def Let_def
  by (rule returns_rules quiet_bind [OF gen_onpowerup_publish_quiet] quiet_bind [OF gen_onpowerup_get_quiet]
      quiet_end [OF gen_onpowerup_get_quiet] unmoved_steps | assumption | (simp; fail))+

lemma update_vnd_led_gpio_quiet: "quiet n (update_vnd_led_gpio n)"
  by (simp add: update_vnd_led_gpio_def quiet_emit)

lemma vnd_get_unmoved: "returns (vnd_get m e cx buf n) (unmoved n)"
  unfolding vnd_get_def Let_def
  by (rule quiet_end, rule model_send_quiet) (simp_all add: unmoved_steps)

lemma vnd_set_unack_unmoved: "3 \<le> length buf \<Longrightarrow> returns (vnd_set_unack m e cx buf n) (unmoved n)"
  unfolding vnd_set_unack_def Let_def
  by (rule returns_rules unmoved_steps unmoved_trans [OF _ quiet_unmoved [OF update_vnd_led_gpio_quiet]]
      | assumption | (simp; fail))+

lemma vnd_set_unmoved: "3 \<le> length buf \<Longrightarrow> returns (vnd_set m e cx buf n) (unmoved n)"
  unfolding vnd_set_def
  by (rule unmoved_bind [OF vnd_set_unack_unmoved]) (auto intro: returns_mono [OF vnd_get_unmoved] unmoved_trans)

lemma gen_power_statuses_quiet:
  "1 \<le> length buf \<Longrightarrow> returns (gen_def_trans_time_status m e cx buf n) (quiet n)"
  "1 \<le> length buf \<Longrightarrow> returns (gen_onpowerup_status m e cx buf n) (quiet n)"
  "6 \<le> length buf \<Longrightarrow> returns (vnd_status m e cx buf n) (quiet n)"
  unfolding gen_def_trans_time_status_def gen_onpowerup_status_def vnd_status_def Let_def
  by (rule returns_rules quiet_steps | (simp; fail))+

end
