(* ===== verification/Composition.thy ===== *)
theory Composition
  imports GenOnOff GenLevel Lightness LightCtl GenPower
begin

text \<open>
  The tables at the end of device_composition.c: for every model the opcodes it accepts, the least
  payload each needs and the handler, and the arrays of models of the two elements. The mesh
  stack looks a received message up in them and calls the handler when the payload is at least
  that long; the two foundation models (configuration and health) are the stack's own.
\<close>

type_synonym model_op = "opcode \<times> nat \<times> handler"

section \<open>Opcode tables\<close>

definition gen_onoff_srv_op :: "model_op list" where
  "gen_onoff_srv_op =
    [(OP_2 0x82 0x01, 0, gen_onoff_get),
     (OP_2 0x82 0x02, 2, gen_onoff_set),
     (OP_2 0x82 0x03, 2, gen_onoff_set_unack)]"

definition gen_onoff_cli_op :: "model_op list" where
  "gen_onoff_cli_op =
    [(OP_2 0x82 0x04, 1, gen_onoff_status)]"

definition gen_level_srv_op :: "model_op list" where
  "gen_level_srv_op =
    [(OP_2 0x82 0x05, 0, gen_level_get),
     (OP_2 0x82 0x06, 3, gen_level_set),
     (OP_2 0x82 0x07, 3, gen_level_set_unack),
     (OP_2 0x82 0x09, 5, gen_delta_set),
     (OP_2 0x82 0x0A, 5, gen_delta_set_unack),
     (OP_2 0x82 0x0B, 3, gen_move_set),
     (OP_2 0x82 0x0C, 3, gen_move_set_unack)]"

definition gen_level_cli_op :: "model_op list" where
  "gen_level_cli_op =
    [(OP_2 0x82 0x08, 2, gen_level_status)]"

definition gen_def_trans_time_srv_op :: "model_op list" where
  "gen_def_trans_time_srv_op =
    [(OP_2 0x82 0x0D, 0, gen_def_trans_time_get),
     (OP_2 0x82 0x0E, 1, gen_def_trans_time_set),
     (OP_2 0x82 0x0F, 1, gen_def_trans_time_set_unack)]"

definition gen_def_trans_time_cli_op :: "model_op list" where
  "gen_def_trans_time_cli_op =
    [(OP_2 0x82 0x10, 1, gen_def_trans_time_status)]"

definition gen_power_onoff_srv_op :: "model_op list" where
  "gen_power_onoff_srv_op =
    [(OP_2 0x82 0x11, 0, gen_onpowerup_get)]"

definition gen_power_onoff_setup_srv_op :: "model_op list" where
  "gen_power_onoff_setup_srv_op =
    [(OP_2 0x82 0x13, 1, gen_onpowerup_set),
     (OP_2 0x82 0x14, 1, gen_onpowerup_set_unack)]"

definition gen_power_onoff_cli_op :: "model_op list" where
  "gen_power_onoff_cli_op =
    [(OP_2 0x82 0x12, 1, gen_onpowerup_status)]"

definition light_lightness_srv_op :: "model_op list" where
  "light_lightness_srv_op =
    [(OP_2 0x82 0x4B, 0, light_lightness_get),
     (OP_2 0x82 0x4C, 3, light_lightness_set),
     (OP_2 0x82 0x4D, 3, light_lightness_set_unack),
     (OP_2 0x82 0x4F, 0, light_lightness_linear_get),
     (OP_2 0x82 0x50, 3, light_lightness_linear_set),
     (OP_2 0x82 0x51, 3, light_lightness_linear_set_unack),
     (OP_2 0x82 0x53, 0, light_lightness_last_get),
     (OP_2 0x82 0x55, 0, light_lightness_default_get),
     (OP_2 0x82 0x57, 0, light_lightness_range_get)]"

definition light_lightness_setup_srv_op :: "model_op list" where
  "light_lightness_setup_srv_op =
    [(OP_2 0x82 0x59, 2, light_lightness_default_set),
     (OP_2 0x82 0x5A, 2, light_lightness_default_set_unack),
     (OP_2 0x82 0x5B, 4, light_lightness_range_set),
     (OP_2 0x82 0x5C, 4, light_lightness_range_set_unack)]"

definition light_lightness_cli_op :: "model_op list" where
  "light_lightness_cli_op =
    [(OP_2 0x82 0x4E, 2, light_lightness_status),
     (OP_2 0x82 0x52, 2, light_lightness_linear_status),
     (OP_2 0x82 0x54, 2, light_lightness_last_status),
     (OP_2 0x82 0x56, 2, light_lightness_default_status),
     (OP_2 0x82 0x58, 5, light_lightness_range_status)]"

definition light_ctl_srv_op :: "model_op list" where
  "light_ctl_srv_op =
    [(OP_2 0x82 0x5D, 0, light_ctl_get),
     (OP_2 0x82 0x5E, 7, light_ctl_set),
     (OP_2 0x82 0x5F, 7, light_ctl_set_unack),
     (OP_2 0x82 0x62, 0, light_ctl_temp_range_get),
     (OP_2 0x82 0x67, 0, light_ctl_default_get)]"

definition light_ctl_setup_srv_op :: "model_op list" where
  "light_ctl_setup_srv_op =
    [(OP_2 0x82 0x69, 6, light_ctl_default_set),
     (OP_2 0x82 0x6A, 6, light_ctl_default_set_unack),
     (OP_2 0x82 0x6B, 4, light_ctl_temp_range_set),
     (OP_2 0x82 0x6C, 4, light_ctl_temp_range_set_unack)]"

definition light_ctl_cli_op :: "model_op list" where
  "light_ctl_cli_op =
    [(OP_2 0x82 0x60, 4, light_ctl_status),
     (OP_2 0x82 0x63, 5, light_ctl_temp_range_status),
     (OP_2 0x82 0x66, 4, light_ctl_temp_status),
     (OP_2 0x82 0x68, 6, light_ctl_default_status)]"

definition light_ctl_temp_srv_op :: "model_op list" where
  "light_ctl_temp_srv_op =
    [(OP_2 0x82 0x61, 0, light_ctl_temp_get),
     (OP_2 0x82 0x64, 5, light_ctl_temp_set),
     (OP_2 0x82 0x65, 5, light_ctl_temp_set_unack)]"

definition vnd_ops :: "model_op list" where
  "vnd_ops =
    [(OP_3 0x01 CID_ZEPHYR, 0, vnd_get),
     (OP_3 0x02 CID_ZEPHYR, 3, vnd_set),
     (OP_3 0x03 CID_ZEPHYR, 3, vnd_set_unack),
     (OP_3 0x04 CID_ZEPHYR, 6, vnd_status)]"

definition gen_level_srv_op_temp :: "model_op list" where
  "gen_level_srv_op_temp =
    [(OP_2 0x82 0x05, 0, gen_level_get_temp),
     (OP_2 0x82 0x06, 3, gen_level_set_temp),
     (OP_2 0x82 0x07, 3, gen_level_set_unack_temp),
     (OP_2 0x82 0x09, 5, gen_delta_set_temp),
     (OP_2 0x82 0x0A, 5, gen_delta_set_unack_temp),
     (OP_2 0x82 0x0B, 3, gen_move_set_temp),
     (OP_2 0x82 0x0C, 3, gen_move_set_unack_temp)]"

definition gen_level_cli_op_temp :: "model_op list" where
  "gen_level_cli_op_temp =
    [(OP_2 0x82 0x08, 2, gen_level_status_temp)]"

section \<open>Models\<close>

definition root_models :: "model_op list list" where
  "root_models =
    [[], [], gen_onoff_srv_op, gen_onoff_cli_op, gen_level_srv_op, gen_level_cli_op,
     gen_def_trans_time_srv_op, gen_def_trans_time_cli_op, gen_power_onoff_srv_op,
     gen_power_onoff_setup_srv_op, gen_power_onoff_cli_op, light_lightness_srv_op,
     light_lightness_setup_srv_op, light_lightness_cli_op, light_ctl_srv_op, light_ctl_setup_srv_op,
     light_ctl_cli_op]"

definition vnd_models :: "model_op list list" where
  "vnd_models = [vnd_ops]"

definition s0_models :: "model_op list list" where
  "s0_models = [gen_level_srv_op_temp, gen_level_cli_op_temp, light_ctl_temp_srv_op]"

fun model_ops :: "model \<Rightarrow> model_op list" where
  "model_ops (Root i) = (if i < length root_models then root_models ! i else [])"
| "model_ops Vnd = hd vnd_models"
| "model_ops (S0 i) = (if i < length s0_models then s0_models ! i else [])"

end
