(* ===== verification/Buttons.thy ===== *)
theory Buttons
  imports Composition
begin

text \<open>
  publisher.c and the button callback of app_gpio.c: the client messages the four buttons publish.
  Which message a button sends is fixed when the program is built, by which macros are defined;
  the model takes the set of defined macros as a parameter, and \<open>default_features\<close> is the
  configuration the file has.
\<close>

unbundle bit_operations_syntax

datatype feature =
    F_ONOFF | F_ONOFF_TT | F_VND_MODEL_TEST | F_GENERIC_LEVEL | F_ONOFF_GET | F_GENERIC_DELTA_LEVEL
  | F_GENERIC_MOVE_LEVEL_TT | F_LIGHT_LIGHTNESS_TT | F_LIGHT_CTL | F_LIGHT_CTL_TT | F_LIGHT_CTL_TEMP

type_synonym features = "feature \<Rightarrow> bool"

definition default_features :: features where
  "default_features f \<longleftrightarrow> f = F_ONOFF \<or> f = F_GENERIC_LEVEL"

abbreviation GEN_ONOFF_GET :: opcode where "GEN_ONOFF_GET \<equiv> OP_2 0x82 0x01"
abbreviation GEN_ONOFF_SET_UNACK :: opcode where "GEN_ONOFF_SET_UNACK \<equiv> OP_2 0x82 0x03"
abbreviation GEN_LEVEL_SET_UNACK :: opcode where "GEN_LEVEL_SET_UNACK \<equiv> OP_2 0x82 0x07"
abbreviation GEN_DELTA_SET_UNACK :: opcode where "GEN_DELTA_SET_UNACK \<equiv> OP_2 0x82 0x0A"
abbreviation GEN_MOVE_SET_UNACK :: opcode where "GEN_MOVE_SET_UNACK \<equiv> OP_2 0x82 0x0C"
abbreviation LIGHT_LIGHTNESS_SET_UNACK :: opcode where "LIGHT_LIGHTNESS_SET_UNACK \<equiv> OP_2 0x82 0x4D"
abbreviation LIGHT_CTL_SET_UNACK :: opcode where "LIGHT_CTL_SET_UNACK \<equiv> OP_2 0x82 0x5F"
abbreviation LIGHT_CTL_TEMP_SET_UNACK :: opcode where "LIGHT_CTL_TEMP_SET_UNACK \<equiv> OP_2 0x82 0x65"
abbreviation LEVEL_S25 :: s16 where "LEVEL_S25 \<equiv> - 16384"
abbreviation LEVEL_S100 :: s16 where "LEVEL_S100 \<equiv> 32767"
abbreviation LEVEL_U25 :: u16 where "LEVEL_U25 \<equiv> 16384"
abbreviation LEVEL_U100 :: u16 where "LEVEL_U100 \<equiv> 65535"

section \<open>Publishing a request\<close>

text \<open>
  The message is built in \<open>model->pub->msg\<close>, which must have room for it, and handed to
  \<open>bt_mesh_model_publish\<close>; the function prints the error at its end. \<open>publish_tid\<close> puts the
  transaction identifier, which it increments, between the two parts of the payload.
\<close>

definition client_publish :: "env \<Rightarrow> model \<Rightarrow> opcode \<Rightarrow> u8 list \<Rightarrow> node \<Rightarrow> node option" where
  "client_publish e m op payload n =
     (case pub_size m of
        None \<Rightarrow> None
      | Some cap \<Rightarrow>
          if opcode_len op + length payload \<le> cap
          then let n = emit (Mesh_model_publish m op payload) n
               in Some (if e_publish_err e \<noteq> 0
                        then emit (Printk ''bt_mesh_model_publish: err: %d'' [e_publish_err e]) n else n)
          else None)"

definition publish_tid :: "env \<Rightarrow> model \<Rightarrow> opcode \<Rightarrow> u8 list \<Rightarrow> u8 list \<Rightarrow> node \<Rightarrow> node option" where
  "publish_tid e m op before after n =
     client_publish e m op (before @ [button_tid n] @ after) (n\<lparr>button_tid := button_tid n + 1\<rparr>)"

section \<open>The four buttons\<close>

definition publish_button_0 :: "features \<Rightarrow> env \<Rightarrow> node \<Rightarrow> node option" where
  "publish_button_0 d e n =
     (if d F_ONOFF then publish_tid e (Root 3) GEN_ONOFF_SET_UNACK [0x01] [] n
      else if d F_ONOFF_TT then publish_tid e (Root 3) GEN_ONOFF_SET_UNACK [0x01] [0x45, 0x28] n
      else if d F_VND_MODEL_TEST then publish_tid e Vnd (OP_3 0x03 CID_ZEPHYR) (le16 0x0001) [] n
      else Some n)"

definition publish_button_1 :: "features \<Rightarrow> env \<Rightarrow> node \<Rightarrow> node option" where
  "publish_button_1 d e n =
     (if d F_ONOFF then publish_tid e (Root 3) GEN_ONOFF_SET_UNACK [0x00] [] n
      else if d F_ONOFF_TT then publish_tid e (Root 3) GEN_ONOFF_SET_UNACK [0x00] [0x45, 0x28] n
      else if d F_VND_MODEL_TEST then publish_tid e Vnd (OP_3 0x03 CID_ZEPHYR) (le16 0x0000) [] n
      else Some n)"

definition publish_button_2 :: "features \<Rightarrow> env \<Rightarrow> node \<Rightarrow> node option" where
  "publish_button_2 d e n =
     (if d F_GENERIC_LEVEL then publish_tid e (Root 5) GEN_LEVEL_SET_UNACK (le16 LEVEL_S25) [] n
      else if d F_ONOFF_GET then client_publish e (Root 3) GEN_ONOFF_GET [] n
      else if d F_GENERIC_DELTA_LEVEL then publish_tid e (Root 5) GEN_DELTA_SET_UNACK (le32 100) [] n
      else if d F_GENERIC_MOVE_LEVEL_TT then publish_tid e (Root 5) GEN_MOVE_SET_UNACK (le16 655) [0x41, 0x00] n
      else if d F_LIGHT_LIGHTNESS_TT
      then publish_tid e (Root 13) LIGHT_LIGHTNESS_SET_UNACK (le16 LEVEL_U25) [0x45, 0x28] n
      else if d F_LIGHT_CTL
      then publish_tid e (Root 16) LIGHT_CTL_SET_UNACK (le16 LEVEL_U25 @ le16 0x0320 @ le16 0x0000) [] n
      else if d F_LIGHT_CTL_TT
      then publish_tid e (Root 16) LIGHT_CTL_SET_UNACK (le16 LEVEL_U25 @ le16 0x0320 @ le16 0x0000) [0x45, 0x00] n
      else if d F_LIGHT_CTL_TEMP
      then publish_tid e (Root 16) LIGHT_CTL_TEMP_SET_UNACK (le16 0x0320 @ le16 0x0000) [] n
      else Some n)"

definition publish_button_3 :: "features \<Rightarrow> env \<Rightarrow> node \<Rightarrow> node option" where
  "publish_button_3 d e n =
     (if d F_GENERIC_LEVEL then publish_tid e (Root 5) GEN_LEVEL_SET_UNACK (le16 LEVEL_S100) [] n
      else if d F_GENERIC_DELTA_LEVEL then publish_tid e (Root 5) GEN_DELTA_SET_UNACK (le32 (- 100)) [] n
      else if d F_GENERIC_MOVE_LEVEL_TT then publish_tid e (Root 5) GEN_MOVE_SET_UNACK (le16 (- 655)) [0x41, 0x00] n
      else if d F_LIGHT_LIGHTNESS_TT
      then publish_tid e (Root 13) LIGHT_LIGHTNESS_SET_UNACK (le16 LEVEL_U100) [0x45, 0x28] n
      else if d F_LIGHT_CTL
      then publish_tid e (Root 16) LIGHT_CTL_SET_UNACK (le16 LEVEL_U100 @ le16 0x4E20 @ le16 0x0000) [] n
      else if d F_LIGHT_CTL_TT
      then publish_tid e (Root 16) LIGHT_CTL_SET_UNACK (le16 LEVEL_U100 @ le16 0x4E20 @ le16 0x0000) [0x45, 0x00] n
      else if d F_LIGHT_CTL_TEMP
      then publish_tid e (Root 16) LIGHT_CTL_TEMP_SET_UNACK (le16 0x4E20 @ le16 0x0000) [] n
      else Some n)"

text \<open>
  \<open>pin i\<close> is what \<open>gpio_pin_get\<close> reads for button \<open>i\<close>. \<open>publish_one_button\<close> is the other branch
  of the \<open>#ifndef ONE_LED_ONE_BUTTON_BOARD\<close>: the one button toggles the state it sends.
\<close>

definition publish :: "features \<Rightarrow> (nat \<Rightarrow> int) \<Rightarrow> env \<Rightarrow> node \<Rightarrow> node option" where
  "publish d pin e n =
     (if pin 0 = 1 then publish_button_0 d e n
      else if pin 1 = 1 then publish_button_1 d e n
      else if pin 2 = 1 then publish_button_2 d e n
      else if pin 3 = 1 then publish_button_3 d e n
      else Some n)"

definition publish_one_button :: "features \<Rightarrow> (nat \<Rightarrow> int) \<Rightarrow> env \<Rightarrow> node \<Rightarrow> node option" where
  "publish_one_button d pin e n =
     (if pin 0 = 1 \<and> d F_ONOFF
      then let n = n\<lparr>button_state := button_state n XOR 0x01\<rparr>
           in publish_tid e (Root 3) GEN_ONOFF_SET_UNACK [button_state n] [] n
      else Some n)"

definition button_pressed :: "node \<Rightarrow> node" where
  "button_pressed n = emit (K_work_submit Button_Work) n"

section \<open>What every configuration can rely on\<close>

lemmas button_defs = publish_button_0_def publish_button_1_def publish_button_2_def publish_button_3_def

text \<open>
  A request that can be served: some model of a node of this kind takes its opcode, and the
  payload has the length that model demands.
\<close>

definition served :: "opcode \<Rightarrow> nat \<Rightarrow> bool" where
  "served op len \<longleftrightarrow> (\<exists>ops \<in> set (root_models @ vnd_models @ s0_models). \<exists>(op', k, h) \<in> set ops. op' = op \<and> k \<le> len)"

definition requested :: "node \<Rightarrow> model \<Rightarrow> opcode \<Rightarrow> u8 list \<Rightarrow> node \<Rightarrow> bool" where
  "requested n m op payload n' \<longleftrightarrow>
     (\<exists>evs. trace n' = trace n @ Mesh_model_publish m op payload # evs \<and> (\<forall>ev \<in> set evs. \<exists>t args. ev = Printk t args))"

lemma client_publish_requested:
  assumes "pub_size m = Some cap" "opcode_len op + length payload \<le> cap"
  shows "returns (client_publish e m op payload n) (requested n m op payload)"
  using assms by (simp add: client_publish_def requested_def Let_def)

lemma publish_tid_requested:
  assumes "pub_size m = Some cap" "opcode_len op + (length xs + 1 + length ys) \<le> cap"
  shows "returns (publish_tid e m op xs ys n) (\<lambda>n'. requested n m op (xs @ [button_tid n] @ ys) n' \<and> button_tid n' = button_tid n + 1)"
  using assms by (simp add: publish_tid_def client_publish_def requested_def Let_def)

lemma requests_served:
  "served GEN_ONOFF_GET k" "2 \<le> k \<Longrightarrow> served GEN_ONOFF_SET_UNACK k" "3 \<le> k \<Longrightarrow> served GEN_LEVEL_SET_UNACK k"
  "5 \<le> k \<Longrightarrow> served GEN_DELTA_SET_UNACK k" "3 \<le> k \<Longrightarrow> served GEN_MOVE_SET_UNACK k"
  "3 \<le> k \<Longrightarrow> served LIGHT_LIGHTNESS_SET_UNACK k" "7 \<le> k \<Longrightarrow> served LIGHT_CTL_SET_UNACK k"
  "5 \<le> k \<Longrightarrow> served LIGHT_CTL_TEMP_SET_UNACK k" "3 \<le> k \<Longrightarrow> served (OP_3 0x03 CID_ZEPHYR) k"
  by (simp_all add: served_def root_models_def vnd_models_def s0_models_def gen_onoff_srv_op_def gen_level_srv_op_def
      light_lightness_srv_op_def light_ctl_srv_op_def light_ctl_temp_srv_op_def vnd_ops_def)

text \<open>
  The buttons that have a message in a configuration, and what a press of such a button has done:
  one message is published, and it is served.
\<close>

definition button_sends :: "features \<Rightarrow> nat \<Rightarrow> bool" where
  "button_sends d i \<longleftrightarrow>
     (if i < 2 then d F_ONOFF \<or> d F_ONOFF_TT \<or> d F_VND_MODEL_TEST
      else d F_GENERIC_LEVEL \<or> i = 2 \<and> d F_ONOFF_GET \<or> d F_GENERIC_DELTA_LEVEL \<or> d F_GENERIC_MOVE_LEVEL_TT \<or>
        d F_LIGHT_LIGHTNESS_TT \<or> d F_LIGHT_CTL \<or> d F_LIGHT_CTL_TT \<or> d F_LIGHT_CTL_TEMP)"

definition press_served :: "node \<Rightarrow> node \<Rightarrow> bool" where
  "press_served n n' \<longleftrightarrow> (\<exists>m op payload. requested n m op payload n' \<and> served op (length payload))"

lemma publish_tid_served:
  assumes "pub_size m = Some cap" "opcode_len op + (length xs + 1 + length ys) \<le> cap" "served op (length xs + (1 + length ys))"
  shows "returns (publish_tid e m op xs ys n) (press_served n)"
  using publish_tid_requested [OF assms(1,2)] by (rule returns_mono) (use assms(3) in \<open>force simp: press_served_def\<close>)

lemma client_publish_served:
  assumes "pub_size m = Some cap" "opcode_len op + length payload \<le> cap" "served op (length payload)"
  shows "returns (client_publish e m op payload n) (press_served n)"
  using client_publish_requested [OF assms(1,2)] by (rule returns_mono) (use assms(3) in \<open>force simp: press_served_def\<close>)

text \<open>What a press of button \<open>i\<close> does.\<close>

definition press_effect :: "features \<Rightarrow> nat \<Rightarrow> node \<Rightarrow> node \<Rightarrow> bool" where
  "press_effect d i n n' \<longleftrightarrow> (if button_sends d i then press_served n n' else n' = n)"

lemma publish_tid_effect:
  assumes "pub_size m = Some cap" "opcode_len op + (length xs + 1 + length ys) \<le> cap" "served op (length xs + (1 + length ys))"
    and "button_sends d i"
  shows "returns (publish_tid e m op xs ys n) (press_effect d i n)"
  by (rule returns_mono [OF publish_tid_served [OF assms(1-3)]]) (simp add: press_effect_def assms(4))

lemma client_publish_effect:
  assumes "pub_size m = Some cap" "opcode_len op + length payload \<le> cap" "served op (length payload)" "button_sends d i"
  shows "returns (client_publish e m op payload n) (press_effect d i n)"
  by (rule returns_mono [OF client_publish_served [OF assms(1-3)]]) (simp add: press_effect_def assms(4))

lemma no_effect: "\<not> button_sends d i \<Longrightarrow> returns (Some n) (press_effect d i n)"
  by (simp add: press_effect_def)

lemma button_effects:
  "returns (publish_button_0 d e n) (press_effect d 0 n)" "returns (publish_button_1 d e n) (press_effect d 1 n)"
  "returns (publish_button_2 d e n) (press_effect d 2 n)" "returns (publish_button_3 d e n) (press_effect d 3 n)"
  unfolding button_defs
  by (rule if_returns | (rule no_effect, simp add: button_sends_def) |
      (rule publish_tid_effect client_publish_effect, simp, simp, simp add: requests_served, simp add: button_sends_def))+


end
