(* ===== verification/NodeMain.thy ===== *)
theory NodeMain
  imports Buttons
begin

text \<open>
  main.c, ble_mesh.c and no_transition_work_handler.c:
  the node from power-up on, and the work items and timers that are not steps of a transition.
\<close>

section \<open>The state at power-up\<close>

definition light_default_var_init :: "node \<Rightarrow> node" where
  "light_default_var_init n =
     (let n = n\<lparr>c_tt := 0, c_onpowerup := STATE_DEFAULT\<rparr>;
          n = n\<lparr>light := (light n)\<lparr>lt_range_min := LIGHTNESS_MIN, lt_range_max := LIGHTNESS_MAX,
                                    lt_last := LIGHTNESS_MAX, lt_def := LIGHTNESS_MAX\<rparr>\<rparr>;
          n = set_light_target (lt_def (light n)) n;
          n = n\<lparr>temp := (temp n)\<lparr>tm_range_min := TEMP_MIN, tm_range_max := TEMP_MAX, tm_def := TEMP_MAX\<rparr>\<rparr>;
          n = set_temp_target (tm_def (temp n)) n;
          n = n\<lparr>duv := (duv n)\<lparr>dv_def := DELTA_UV_DEF\<rparr>\<rparr>
      in set_duv_target (dv_def (duv n)) n)"

definition retrieve_ranges :: "node \<Rightarrow> node" where
  "retrieve_ranges n =
     (let n = (if lt_range (light n) \<noteq> 0
               then n\<lparr>light := (light n)\<lparr>lt_range_max := ucast (drop_bit 16 (lt_range (light n))),
                                          lt_range_min := ucast (lt_range (light n))\<rparr>\<rparr>
               else n)
      in if tm_range (temp n) \<noteq> 0
         then n\<lparr>temp := (temp n)\<lparr>tm_range_max := ucast (drop_bit 16 (tm_range (temp n))),
                                  tm_range_min := ucast (tm_range (temp n))\<rparr>\<rparr>
         else n)"

text \<open>
  The rest of \<open>light_default_status_init\<close>, after the ranges: what was stored is brought into the
  range, then the switch on \<open>onpowerup\<close> picks the values to start from.
\<close>

definition constrain_stored :: "node \<Rightarrow> node" where
  "constrain_stored n =
     n\<lparr>light := (light n)\<lparr>lt_last := constrain_lightness n (lt_last (light n)),
                           lt_def := constrain_lightness n (lt_def (light n)),
                           lt_target := constrain_lightness n (lt_target (light n))\<rparr>,
       temp := (temp n)\<lparr>tm_def := constrain_temperature n (tm_def (temp n)),
                         tm_target := constrain_temperature n (tm_target (temp n))\<rparr>\<rparr>"

definition power_up_values :: "node \<Rightarrow> node" where
  "power_up_values n =
     (let n = set_duv_current (dv_def (duv n)) (set_temp_current (tm_def (temp n)) n)
      in if c_onpowerup n = STATE_OFF then set_light_current 0 n
         else if c_onpowerup n = STATE_DEFAULT
         then set_light_current (if lt_def (light n) = 0 then lt_last (light n) else lt_def (light n)) n
         else if c_onpowerup n = STATE_RESTORE
         then set_duv_current (dv_target (duv n))
                (set_temp_current (tm_target (temp n)) (set_light_current (lt_target (light n)) n))
         else n)"

definition light_default_status_init :: "node \<Rightarrow> node" where
  "light_default_status_init n =
     (let n = power_up_values (constrain_stored (retrieve_ranges n))
      in n\<lparr>light := (light n)\<lparr>lt_target := lt_current (light n)\<rparr>,
           temp := (temp n)\<lparr>tm_target := tm_current (temp n)\<rparr>,
           duv := (duv n)\<lparr>dv_target := dv_current (duv n)\<rparr>\<rparr>)"

section \<open>Unprovisioning by repeated power cycles\<close>

definition short_time_multireset_bt_mesh_unprovisioning :: "node \<Rightarrow> node" where
  "short_time_multireset_bt_mesh_unprovisioning n =
     save_on_flash RESET_COUNTER
       (if reset_counter n \<ge> 4
        then emit Mesh_reset (emit (Printk ''BT Mesh reset'' []) (n\<lparr>reset_counter := 0\<rparr>))
        else (emit (Printk ''Reset Counter -> %d'' [uint (reset_counter n)]) n)
               \<lparr>reset_counter := reset_counter n + 1\<rparr>)"

definition reset_counter_timer_handler :: "node \<Rightarrow> node" where
  "reset_counter_timer_handler n =
     emit (Printk ''Reset Counter set to Zero'' []) (save_on_flash RESET_COUNTER (n\<lparr>reset_counter := 0\<rparr>))"

section \<open>Starting Bluetooth, and main\<close>

text \<open>
  What the services answer during start-up. \<open>b_oob\<close> is the identity address that
  \<open>bt_le_oob_get_local\<close> stores, \<open>None\<close> when it fails; \<open>b_entries\<close> are the entries below
  \<open>ps\<close> that \<open>settings_load\<close> finds, which it hands to \<open>ps_set\<close> if that handler is registered.
\<close>

record boot_env =
  b_settings_init_err :: int
  b_register_err :: int
  b_bt_err :: int
  b_mesh_err :: int
  b_oob :: "u8 list option"
  b_name_next :: "string \<Rightarrow> nat \<times> bool"
  b_entries :: "(string \<times> read_cb) list"

definition settings_load :: "boot_env \<Rightarrow> node \<Rightarrow> node" where
  "settings_load b n =
     (if b_settings_init_err b = 0 \<and> b_register_err b = 0
      then fold (\<lambda>(key, rd) n. snd (ps_set (b_name_next b) key rd n)) (b_entries b) n else n)"

definition bt_ready :: "boot_env \<Rightarrow> node \<Rightarrow> node" where
  "bt_ready b n =
     (let n = emit (Printk ''Bluetooth initialized'' []) n
      in if b_mesh_err b \<noteq> 0
         then emit (Printk ''Initializing mesh failed (err %d)'' [b_mesh_err b]) n
         else let n = settings_load b n;
                  n = (case b_oob b of
                         None \<Rightarrow> emit (Printk ''Identity Address unavailable'' []) n
                       | Some a \<Rightarrow> n\<lparr>dev_uuid := take 6 a @ drop 6 (dev_uuid n)\<rparr>)
              in emit (Printk ''Mesh initialized'' []) (emit Mesh_prov_enable n))"

definition prov_reset :: "node \<Rightarrow> node" where
  "prov_reset n = emit Mesh_prov_enable n"

definition node_main :: "boot_env \<Rightarrow> node \<Rightarrow> node option" where
  "node_main b n =
     (let n = light_default_var_init n;
          n = emit (Printk ''Initializing...'' []) n;
          n = snd (ps_settings_init (b_settings_init_err b) (b_register_err b) n)
      in if b_bt_err b \<noteq> 0 then Some (emit (Printk ''Bluetooth init failed (err %d)'' [b_bt_err b]) n)
         else do {
           n \<leftarrow> update_light_state (light_default_status_init (bt_ready b n));
           let n = short_time_multireset_bt_mesh_unprovisioning n;
           Some (emit (K_timer_start Reset_Counter_Timer 7000 0) n)
         })"

section \<open>When the light has settled\<close>

definition unsolicitedly_publish_states_work_handler :: "(nat \<Rightarrow> env) \<Rightarrow> node \<Rightarrow> node option" where
  "unsolicitedly_publish_states_work_handler es n = do {
     n \<leftarrow> gen_onoff_publish (es 0) (Root 2) n;
     n \<leftarrow> gen_level_publish (es 1) (Root 4) n;
     n \<leftarrow> light_lightness_publish (es 2) (Root 11) n;
     n \<leftarrow> light_lightness_linear_publish (es 3) (Root 11) n;
     n \<leftarrow> light_ctl_publish (es 4) (Root 14) n;
     n \<leftarrow> gen_level_publish_temp (es 5) (S0 0) n;
     light_ctl_temp_publish (es 6) (S0 2) n
   }"

definition unsolicitedly_publish_states_timer_handler :: "node \<Rightarrow> node" where
  "unsolicitedly_publish_states_timer_handler n = emit (K_work_submit Unsolicited_Work) n"

definition no_transition_work_handler :: "env \<Rightarrow> node \<Rightarrow> node option" where
  "no_transition_work_handler e n =
     (if \<not> e_provisioned e then Some n
      else do {
        let (readjust, n) =
          (if lt_target (light n) \<noteq> lt_current (light n) then (True, light_finish n) else (False, n));
        let (readjust, n) =
          (if tm_target (temp n) \<noteq> tm_current (temp n) then (True, temp_finish n) else (readjust, n));
        let (readjust, n) =
          (if dv_target (duv n) \<noteq> dv_current (duv n) then (True, duv_finish n) else (readjust, n));
        let n = (if lt_current (light n) \<noteq> 0
                 then save_on_flash LIGHTNESS_LAST_STATE
                        (n\<lparr>light := (light n)\<lparr>lt_last := lt_current (light n)\<rparr>\<rparr>)
                 else n);
        n \<leftarrow> (if readjust then update_led_gpio n else Some n);
        Some (emit (K_timer_start Unsolicited_Timer 5000 0) n)
      })"

section \<open>The work items of a transition\<close>

fun transition_work :: "work \<Rightarrow> env \<Rightarrow> node \<Rightarrow> node option" where
  "transition_work Onoff_Work e n = onoff_work_handler e n"
| "transition_work Level_Lightness_Work e n = level_lightness_work_handler e n"
| "transition_work Level_Temp_Work e n = level_temp_work_handler e n"
| "transition_work Lightness_Actual_Work e n = light_lightness_actual_work_handler e n"
| "transition_work Lightness_Linear_Work e n = light_lightness_linear_work_handler e n"
| "transition_work Light_Ctl_Work e n = light_ctl_work_handler e n"
| "transition_work Light_Ctl_Temp_Work e n = light_ctl_temp_work_handler e n"
| "transition_work _ e n = Some n"

end
