(* ===== verification/NodeSystem.thy ===== *)
theory NodeSystem
  imports Moves NodeMain
begin

text \<open>
  The whole node as the services drive it: the stimuli that reach the application, what it runs
  for each, the states it can be in after boot, and the invariant that keeps every reaction
  within defined C.
\<close>

section \<open>The lamp a node is\<close>

text \<open>
  The abstract machine the node implements: for each quantity of the light what is shown, what is
  aimed at, and the ends of its range. A request may change the aim and the range, and may show a
  quantity at its aim at once; a transition shows values between what was shown and the aim; a
  move drives one quantity within its range.
\<close>

record lamp =
  shown :: "channel \<Rightarrow> int"
  aim :: "channel \<Rightarrow> int"
  low :: "channel \<Rightarrow> int"
  high :: "channel \<Rightarrow> int"

inductive lamp_step :: "lamp \<Rightarrow> lamp \<Rightarrow> bool" where
  request: "(\<And>c. shown l' c = shown l c \<or> shown l' c = aim l' c) \<Longrightarrow> lamp_step l l'"
| glide: "(\<And>c. aim l' c = aim l c) \<Longrightarrow>
    (\<And>c. min (shown l c) (aim l c) \<le> shown l' c \<and> shown l' c \<le> max (shown l c) (aim l c)) \<Longrightarrow> lamp_step l l'"
| drift: "(\<And>c'. aim l' c' = aim l c') \<Longrightarrow> (\<And>c'. c' \<noteq> c \<Longrightarrow> shown l' c' = shown l c') \<Longrightarrow>
    min (low l c) (high l c) \<le> shown l' c \<Longrightarrow> shown l' c \<le> max (low l c) (high l c) \<Longrightarrow> lamp_step l l'"

inductive_cases lamp_stepE: "lamp_step l l'"

fun lower_end :: "channel \<Rightarrow> node \<Rightarrow> int" where
  "lower_end Light_ch n = uint (lt_range_min (light n))"
| "lower_end Temp_ch n = uint (tm_range_min (temp n))"
| "lower_end Duv_ch n = INT16_MIN"

fun upper_end :: "channel \<Rightarrow> node \<Rightarrow> int" where
  "upper_end Light_ch n = uint (lt_range_max (light n))"
| "upper_end Temp_ch n = uint (tm_range_max (temp n))"
| "upper_end Duv_ch n = INT16_MAX"

definition lamp_of :: "node \<Rightarrow> lamp" where
  "lamp_of n = \<lparr>shown = (\<lambda>c. cur c n), aim = (\<lambda>c. tgt c n), low = (\<lambda>c. lower_end c n), high = (\<lambda>c. upper_end c n)\<rparr>"

definition lamp_inv :: "node \<Rightarrow> node \<Rightarrow> bool" where
  "lamp_inv n n' \<longleftrightarrow> node_inv n' \<and> lamp_step (lamp_of n) (lamp_of n')"

lemma lamp_of_sel [simp]:
  "shown (lamp_of n) c = cur c n" "aim (lamp_of n) c = tgt c n" "low (lamp_of n) c = lower_end c n"
  "high (lamp_of n) c = upper_end c n"
  by (simp_all add: lamp_of_def)

lemma reacts_lamp: "reacts n n' \<Longrightarrow> lamp_inv n n'"
  by (auto simp: reacts_def lamp_inv_def intro!: lamp_step.request)

lemma reacts_lamp_returns: "returns x (reacts n) \<Longrightarrow> returns x (lamp_inv n)"
  by (erule returns_mono) (rule reacts_lamp)

lemma glide_lamp:
  assumes "node_inv n'" "\<And>c. tgt c n' = tgt c n"
    "\<And>c. min (cur c n) (tgt c n) \<le> cur c n' \<and> cur c n' \<le> max (cur c n) (tgt c n)"
  shows "lamp_inv n n'"
  using assms by (auto simp: lamp_inv_def intro!: lamp_step.glide)

section \<open>The ticks of a transition\<close>

lemma first_tick_stops:
  assumes "node_ok n" "tr_counter (trans n) = 0"
  shows "returns (first_tick e n) (lamp_inv n)"
proof -
  let ?m = "set_just_started False n"
  have "node_ok ?m" using assms(1) node_ok_cong [of ?m n] by simp
  then have u: "returns (update_light_state ?m) (quiet (?m\<lparr>reset_done := True\<rparr>))"
    by (intro update_light_state_quiet node_ok_led_ok)
  have "lamp_inv n (k_timer_stop n')" if q: "quiet (?m\<lparr>reset_done := True\<rparr>) n'" for n'
  proof (rule glide_lamp)
    show "node_inv (k_timer_stop n')"
      using \<open>node_ok ?m\<close> quiet_channels(4) [OF q] node_ok_cong [of "?m\<lparr>reset_done := True\<rparr>" ?m]
        node_ok_cong [of "k_timer_stop n'" n'] by (intro node_invI) simp_all
    have ch: "cur c (k_timer_stop n') = cur c n" "tgt c (k_timer_stop n') = tgt c n" for c
      using quiet_channels [OF q] channel_cong [of "k_timer_stop n'" n'] channel_cong [of "?m\<lparr>reset_done := True\<rparr>" n]
      by simp_all
    show "tgt c (k_timer_stop n') = tgt c n" for c by (rule ch)
    show "min (cur c n) (tgt c n) \<le> cur c (k_timer_stop n') \<and> cur c (k_timer_stop n') \<le> max (cur c n) (tgt c n)" for c
      unfolding ch by simp
  qed
  then show ?thesis using assms(2) by (auto simp: first_tick_def Let_def intro: returns_mono [OF u])
qed

context ramp_handler
begin

lemma safe:
  assumes "node_inv n" "armed n = Some w" "work_channels w = C" "tr_type (trans n) \<noteq> MOVE"
  shows "returns (tick e n) (lamp_inv n)"
proof -
  let ?k = "uint (tr_counter (trans n))"
  have r: "ramp_ready C ?k n" "C \<noteq> {}" "tr_just_started (trans n) \<or> tr_counter (trans n) \<noteq> 0"
    using assms by (simp_all add: node_inv_def tick_ok_def ramp_ready_def)
  have k0: "1 \<le> ?k" if "tr_counter (trans n) \<noteq> 0"
    using that uint_0_iff [of "tr_counter (trans n)"] uint_ge_0 [of "tr_counter (trans n)"] by linarith
  have run: "lamp_inv n n'" if "ramping C j n'" "advanced C i n n'" "1 \<le> j" "0 \<le> i" "i < ?k" for n' i j
  proof (rule glide_lamp)
    show "node_inv n'" using that(1-3) assms(2,3) r(2)
      by (auto simp: node_inv_def tick_ok_def ramping_def ramp_ready_def advanced_def)
    show "tgt c n' = tgt c n" for c using that(2) by (simp add: advanced_def)
    show "min (cur c n) (tgt c n) \<le> cur c n' \<and> cur c n' \<le> max (cur c n) (tgt c n)" for c
      using that(2) ramp_between [OF _ that(4,5), of "cur c n" "tgt c n" "dlt c n"] r(1)
      by (auto simp: advanced_def ramp_ready_def)
  qed
  consider "tr_just_started (trans n)" "tr_counter (trans n) = 0" | "ramp_started C ?k n" "1 \<le> ?k"
    | "ramping C 1 n" | "ramping C ?k n" "2 \<le> ?k"
  proof (cases "tr_counter (trans n) = 0")
    case True
    then show ?thesis using that(1) r(3) by simp
  next
    case False
    note k = k0 [OF False]
    show ?thesis
    proof (cases "tr_just_started (trans n)")
      case True
      then show ?thesis using that(2) k r(1) by (simp add: ramp_started_def)
    next
      case not_started: False
      then have "ramping C ?k n" using r(1) by (simp add: ramping_def)
      then show ?thesis using that(3,4) k by (cases "?k = 1") simp_all
    qed
  qed
  then show ?thesis
  proof cases
    case 1
    then show ?thesis using first_tick_stops [OF _ 1(2)] tick_started assms(1) by (simp add: node_inv_def)
  next
    case 2
    then show ?thesis using run by (auto intro!: returns_mono [OF first])
  next
    case 3
    have "lamp_inv n n'" if "arrived C n n'" for n'
      using that by (intro glide_lamp node_invI) (auto simp: arrived_def)
    then show ?thesis by (rule returns_mono [OF last [OF 3]])
  next
    case 4
    then show ?thesis using run [of "?k - 1"] by (auto intro!: returns_mono [OF step])
  qed
qed

text \<open>From any state of a running transition: the timer stops after the steps that are left.\<close>

lemma runs_out:
  assumes "node_inv n" "armed n = Some w" "work_channels w = C" "tr_type (trans n) \<noteq> MOVE"
    "uint (tr_counter (trans n)) + 1 \<le> int (length es)"
  shows "returns (run_timer tick es n) (\<lambda>n'. node_ok n' \<and> armed n' = None \<and> (\<forall>c. tgt c n' = tgt c n))"
proof -
  let ?k = "uint (tr_counter (trans n))"
  have r: "ramp_ready C ?k n" "tr_just_started (trans n) \<or> tr_counter (trans n) \<noteq> 0"
    using assms by (simp_all add: node_inv_def tick_ok_def ramp_ready_def)
  have an: "armed n \<noteq> None" using assms(2) by simp
  obtain e es' where es: "es = e # es'" "?k \<le> int (length es')"
    using assms(5) uint_ge_0 [of "tr_counter (trans n)"] by (cases es) auto
  have k0: "1 \<le> ?k" if "tr_counter (trans n) \<noteq> 0"
    using that uint_0_iff [of "tr_counter (trans n)"] uint_ge_0 [of "tr_counter (trans n)"] by linarith
  have fin: "node_ok m' \<and> armed m' = None \<and> (\<forall>c. tgt c m' = tgt c n)"
    if "arrived C m m'" "\<forall>c. tgt c m = tgt c n" for m m'
    using that by (simp add: arrived_def)
  consider "tr_just_started (trans n)" "?k = 0" | "tr_just_started (trans n)" "1 \<le> ?k" | "\<not> tr_just_started (trans n)" "1 \<le> ?k"
    using r(2) k0 by (cases "tr_counter (trans n) = 0") auto
  then show ?thesis
  proof cases
    case 1
    then have "ramp_started C 0 n" using r(1) by (simp add: ramp_started_def)
    then have "returns (tick e n \<bind> run_timer tick es') (\<lambda>n'. node_ok n' \<and> armed n' = None \<and> (\<forall>c. tgt c n' = tgt c n))"
      by (rule returns_bindI [OF first_finishes [OF _ an]]) (simp add: run_timer_stopped)
    then show ?thesis by (simp only: es(1) run_timer.simps an if_False)
  next
    case 2
    then have "ramp_started C ?k n" using r(1) by (simp add: ramp_started_def)
    from first [OF this 2(2)]
    have "returns (tick e n \<bind> run_timer tick es') (\<lambda>n'. node_ok n' \<and> armed n' = None \<and> (\<forall>c. tgt c n' = tgt c n))"
    proof (rule returns_bindI)
      fix m assume m: "ramping C ?k m \<and> advanced C 0 n m"
      then have "returns (run_timer tick es' m) (arrived C m)"
        using 2(2) es(2) an by (intro timer_finishes) (auto simp: advanced_def)
      then show "returns (run_timer tick es' m) (\<lambda>n'. node_ok n' \<and> armed n' = None \<and> (\<forall>c. tgt c n' = tgt c n))"
        by (rule returns_mono) (use m fin in \<open>auto simp: advanced_def\<close>)
    qed
    then show ?thesis by (simp only: es(1) run_timer.simps an if_False)
  next
    case 3
    then have "ramping C ?k n" using r(1) by (simp add: ramping_def)
    then have "returns (run_timer tick es n) (arrived C n)" using 3(2) an assms(5) by (intro timer_finishes [where k = ?k]) auto
    then show ?thesis by (rule returns_mono) (use fin in blast)
  qed
qed

end

context move_handler
begin

lemma safe:
  assumes "node_inv n" "armed n = Some w" "tr_type (trans n) = MOVE" "w = Level_Lightness_Work \<or> w = Level_Temp_Work"
    "lower_end ch n = uint (lower n)" "upper_end ch n = uint (upper n)"
  shows "returns (tick e n) (lamp_inv n)"
proof (cases "tr_just_started (trans n)")
  case True
  let ?m = "n\<lparr>trans := (trans n)\<lparr>tr_just_started := False, tr_start_timestamp := e_now e\<rparr>\<rparr>"
  have nz: "tr_counter (trans n) \<noteq> 0" using assms by (simp add: node_inv_def tick_ok_def)
  have "node_ok ?m" "armed ?m = armed n"
    using assms(1) node_ok_cong [of ?m n] armed_cong [of ?m n] by (simp_all add: node_inv_def)
  then have "node_inv ?m" using assms nz by (auto simp: node_inv_def tick_ok_def)
  then have "lamp_inv n ?m" using channel_cong [of ?m n] by (intro glide_lamp) simp_all
  then show ?thesis using True nz by (simp add: tick_started first_tick_def)
next
  case False
  then have m: "moving n" using assms by (simp add: node_inv_def tick_ok_def moving_def)
  show ?thesis
  proof (rule returns_mono [OF move_tick [OF m]])
    fix n' assume v: "moved n n'"
    have "node_inv n'" using assms(2,4) v by (auto simp: moved_def moving_def node_inv_def tick_ok_def split: if_splits)
    moreover have "lamp_step (lamp_of n) (lamp_of n')"
      by (rule lamp_step.drift [where c = ch])
        (use v assms(5,6) in \<open>auto simp: moved_def next_level_def into_range_def\<close>)
    ultimately show "lamp_inv n n'" by (simp add: lamp_inv_def)
  qed
qed

end

lemma transition_work_safe:
  assumes "node_inv n" "armed n = Some w"
  shows "returns (transition_work w e n) (lamp_inv n)"
proof -
  have w: "work_channels w \<noteq> {}" "tr_type (trans n) = MOVE \<Longrightarrow> w = Level_Lightness_Work \<or> w = Level_Temp_Work"
    using assms by (auto simp: node_inv_def tick_ok_def split: if_splits)
  show ?thesis
  proof (cases "tr_type (trans n) = MOVE")
    case True
    then show ?thesis using w(2) lightness_move.safe [OF assms True] temp_move.safe [OF assms True] by auto
  next
    case False
    then show ?thesis using w(1) onoff.safe [OF assms] level_lightness.safe [OF assms] level_temp.safe [OF assms]
      lightness_actual.safe [OF assms] lightness_linear.safe [OF assms] light_ctl.safe [OF assms]
      light_ctl_temp.safe [OF assms] by (cases w) simp_all
  qed
qed

lemma transition_work_runs_out:
  assumes "node_inv n" "armed n = Some w" "tr_type (trans n) \<noteq> MOVE" "uint (tr_counter (trans n)) + 1 \<le> int (length es)"
  shows "returns (run_timer (transition_work w) es n) (\<lambda>n'. node_ok n' \<and> armed n' = None \<and> (\<forall>c. tgt c n' = tgt c n))"
proof -
  have eta: "transition_work Onoff_Work = onoff_work_handler" "transition_work Level_Lightness_Work = level_lightness_work_handler"
    "transition_work Level_Temp_Work = level_temp_work_handler"
    "transition_work Lightness_Actual_Work = light_lightness_actual_work_handler"
    "transition_work Lightness_Linear_Work = light_lightness_linear_work_handler"
    "transition_work Light_Ctl_Work = light_ctl_work_handler" "transition_work Light_Ctl_Temp_Work = light_ctl_temp_work_handler"
    by (intro ext, simp)+
  have "work_channels w \<noteq> {}" using assms(1,2) by (simp add: node_inv_def tick_ok_def)
  then show ?thesis using onoff.runs_out [OF assms(1,2) _ assms(3,4)] level_lightness.runs_out [OF assms(1,2) _ assms(3,4)]
    level_temp.runs_out [OF assms(1,2) _ assms(3,4)] lightness_actual.runs_out [OF assms(1,2) _ assms(3,4)]
    lightness_linear.runs_out [OF assms(1,2) _ assms(3,4)] light_ctl.runs_out [OF assms(1,2) _ assms(3,4)]
    light_ctl_temp.runs_out [OF assms(1,2) _ assms(3,4)] by (cases w) (simp_all add: eta)
qed

section \<open>Every message handler keeps the invariant\<close>

text \<open>
  The messages the node can take without leaving defined C: a delta whose addition fits 32 bits,
  and a temperature range that contains the light's temperature.
\<close>

definition message_fits :: "opcode \<Rightarrow> u8 list \<Rightarrow> node \<Rightarrow> bool" where
  "message_fits op bs n =
     (if op = OP_2 0x82 0x09 \<or> op = OP_2 0x82 0x0A
      then (case parse_32 bs of None \<Rightarrow> True | Some (delta, _) \<Rightarrow> delta_fits delta)
      else if op = OP_2 0x82 0x6B \<or> op = OP_2 0x82 0x6C then temp_range_message_fits n bs
      else True)"

fun op_safe :: "model \<Rightarrow> model_op \<Rightarrow> bool" where
  "op_safe m (op, k, h) \<longleftrightarrow> (\<forall>e cx bs n. k \<le> length bs \<longrightarrow> node_inv n \<longrightarrow> message_fits op bs n \<longrightarrow>
     returns (h m e cx bs n) (reacts n))"

lemma op_safe_inv:
  "(\<And>e cx bs n. node_inv n \<Longrightarrow> k \<le> length bs \<Longrightarrow> returns (h m e cx bs n) (reacts n)) \<Longrightarrow> op_safe m (op, k, h)"
  by simp

lemma op_safe_quiet:
  "(\<And>e cx bs n. node_ok n \<Longrightarrow> k \<le> length bs \<Longrightarrow> returns (h m e cx bs n) (quiet n)) \<Longrightarrow> op_safe m (op, k, h)"
  using node_inv_ok quiet_reacts by (intro op_safe_inv) blast

lemma op_safe_unmoved:
  "(\<And>e cx bs n. k \<le> length bs \<Longrightarrow> returns (h m e cx bs n) (unmoved n)) \<Longrightarrow> op_safe m (op, k, h)"
  using unmoved_reacts by (intro op_safe_inv) blast

lemma op_safe_delta:
  assumes "\<And>e cx bs n. node_inv n \<Longrightarrow> 5 \<le> length bs \<Longrightarrow>
    (\<And>delta tid rest. parse_32 bs = Some (delta, tid, rest) \<Longrightarrow> delta_fits delta) \<Longrightarrow> returns (h m e cx bs n) (reacts n)"
  shows "op_safe m (OP_2 0x82 0x09, 5, h)" "op_safe m (OP_2 0x82 0x0A, 5, h)"
  by (auto simp: message_fits_def split: option.splits intro!: assms)

lemma op_safe_temp_range:
  assumes "\<And>e cx bs n. node_inv n \<Longrightarrow> 4 \<le> length bs \<Longrightarrow> temp_range_message_fits n bs \<Longrightarrow> returns (h m e cx bs n) (reacts n)"
  shows "op_safe m (OP_2 0x82 0x6B, 4, h)" "op_safe m (OP_2 0x82 0x6C, 4, h)"
  using assms by (simp_all add: message_fits_def)

lemmas op_tables = gen_onoff_srv_op_def gen_onoff_cli_op_def gen_level_srv_op_def gen_level_cli_op_def
  gen_def_trans_time_srv_op_def gen_def_trans_time_cli_op_def gen_power_onoff_srv_op_def
  gen_power_onoff_setup_srv_op_def gen_power_onoff_cli_op_def light_lightness_srv_op_def
  light_lightness_setup_srv_op_def light_lightness_cli_op_def light_ctl_srv_op_def light_ctl_setup_srv_op_def
  light_ctl_cli_op_def light_ctl_temp_srv_op_def vnd_ops_def gen_level_srv_op_temp_def gen_level_cli_op_temp_def

lemma table_safe_Cons: "op_safe m x \<Longrightarrow> \<forall>y \<in> set xs. op_safe m y \<Longrightarrow> \<forall>y \<in> set (x # xs). op_safe m y"
  by simp

lemma table_safe_Nil: "\<forall>y \<in> set []. op_safe m y"
  by simp

lemmas set_handlers_safe = gen_onoff.safe gen_onoff_unack.safe level_srv.safe level_unack_srv.safe
  level_temp_srv.safe level_unack_temp_srv.safe actual_srv.safe actual_unack_srv.safe linear_srv.safe
  linear_unack_srv.safe ctl_srv.safe ctl_unack_srv.safe ctl_temp_srv.safe ctl_temp_unack_srv.safe
  move_srv.safe move_unack_srv.safe move_temp_srv.safe move_unack_temp_srv.safe

lemmas delta_handlers_safe = delta_srv.safe delta_unack_srv.safe delta_temp_srv.safe delta_unack_temp_srv.safe

lemmas temp_range_handlers_safe = light_ctl_temp_range_set_inv light_ctl_temp_range_set_unack_inv

lemmas quiet_handlers = gen_onoff_get_quiet gen_onoff_status_quiet gen_level_get_quiet gen_level_get_temp_quiet
  gen_level_statuses_quiet light_lightness_get_quiet light_lightness_linear_get_quiet light_lightness_last_get_quiet
  light_lightness_default_get_quiet light_lightness_statuses_quiet light_ctl_get_quiet light_ctl_temp_get_quiet
  light_ctl_default_get_quiet light_ctl_statuses_quiet gen_def_trans_time_get_quiet gen_onpowerup_get_quiet
  gen_power_statuses_quiet

lemmas unmoved_handlers = light_lightness_range_get_unmoved [OF unmoved_refl] light_lightness_default_set_unack_unmoved
  light_lightness_default_set_unmoved light_lightness_range_set_unack_unmoved light_lightness_range_set_unmoved
  light_ctl_temp_range_get_unmoved [OF unmoved_refl] light_ctl_default_set_unack_unmoved light_ctl_default_set_unmoved
  gen_def_trans_time_set_unmoved gen_onpowerup_set_unmoved vnd_get_unmoved vnd_set_unack_unmoved vnd_set_unmoved

text \<open>The tables, each under the model that holds it.\<close>

lemma tables_safe:
  "\<forall>x \<in> set gen_onoff_srv_op. op_safe (Root 2) x" "\<forall>x \<in> set gen_onoff_cli_op. op_safe (Root 3) x"
  "\<forall>x \<in> set gen_level_srv_op. op_safe (Root 4) x" "\<forall>x \<in> set gen_level_cli_op. op_safe (Root 5) x"
  "\<forall>x \<in> set gen_def_trans_time_srv_op. op_safe (Root 6) x"
  "\<forall>x \<in> set gen_def_trans_time_cli_op. op_safe (Root 7) x"
  "\<forall>x \<in> set gen_power_onoff_srv_op. op_safe (Root 8) x"
  "\<forall>x \<in> set gen_power_onoff_setup_srv_op. op_safe (Root 9) x"
  "\<forall>x \<in> set gen_power_onoff_cli_op. op_safe (Root 10) x"
  "\<forall>x \<in> set light_lightness_srv_op. op_safe (Root 11) x"
  "\<forall>x \<in> set light_lightness_setup_srv_op. op_safe (Root 12) x"
  "\<forall>x \<in> set light_lightness_cli_op. op_safe (Root 13) x"
  "\<forall>x \<in> set light_ctl_srv_op. op_safe (Root 14) x" "\<forall>x \<in> set light_ctl_setup_srv_op. op_safe (Root 15) x"
  "\<forall>x \<in> set light_ctl_cli_op. op_safe (Root 16) x"
  "\<forall>x \<in> set vnd_ops. op_safe Vnd x" "\<forall>x \<in> set gen_level_srv_op_temp. op_safe (S0 0) x"
  "\<forall>x \<in> set gen_level_cli_op_temp. op_safe (S0 1) x" "\<forall>x \<in> set light_ctl_temp_srv_op. op_safe (S0 2) x"
  unfolding op_tables
  by ((rule table_safe_Cons table_safe_Nil
    | (rule op_safe_inv, rule set_handlers_safe, assumption, assumption)
    | (rule op_safe_quiet, rule quiet_handlers, (assumption+)?)
    | (rule op_safe_unmoved, rule unmoved_handlers, (assumption+)?)
    | (rule op_safe_delta, rule delta_handlers_safe, assumption, assumption, assumption)
    | (rule op_safe_temp_range, rule temp_range_handlers_safe, assumption, assumption, assumption))+)

text \<open>The same over the arrays of models, by their index.\<close>

lemma indexed_tables_safe:
  "list_all (\<lambda>(i, ops). \<forall>x \<in> set ops. op_safe (Root i) x) (enumerate 0 root_models)"
  "list_all (\<lambda>(i, ops). \<forall>x \<in> set ops. op_safe (S0 i) x) (enumerate 0 s0_models)"
  using tables_safe by (simp_all add: root_models_def s0_models_def eval_nat_numeral del: op_safe.simps)

lemma model_ops_safe: "x \<in> set (model_ops m) \<Longrightarrow> op_safe m x"
proof (cases m)
  case (Root i)
  assume x: "x \<in> set (model_ops m)"
  then have "(i, root_models ! i) \<in> set (enumerate 0 root_models)"
    using Root by (simp add: in_set_enumerate_eq split: if_splits)
  then show ?thesis using x indexed_tables_safe(1) unfolding Root list_all_iff
    by (auto split: if_splits simp del: op_safe.simps)
next
  case Vnd
  assume "x \<in> set (model_ops m)"
  then show ?thesis using tables_safe(16) unfolding Vnd by (simp add: vnd_models_def)
next
  case (S0 i)
  assume x: "x \<in> set (model_ops m)"
  then have "(i, s0_models ! i) \<in> set (enumerate 0 s0_models)"
    using S0 by (simp add: in_set_enumerate_eq split: if_splits)
  then show ?thesis using x indexed_tables_safe(2) unfolding S0 list_all_iff
    by (auto split: if_splits simp del: op_safe.simps)
qed

section \<open>The other work items and timers\<close>

text \<open>When nothing moves, the node takes the targets over, remembers the lightness and reports later.\<close>

definition all_finish :: "node \<Rightarrow> node" where
  "all_finish n = duv_finish (temp_finish (light_finish n))"

definition note_lightness :: "node \<Rightarrow> node" where
  "note_lightness n = (if lt_current (light n) \<noteq> 0
     then save_on_flash LIGHTNESS_LAST_STATE (n\<lparr>light := (light n)\<lparr>lt_last := lt_current (light n)\<rparr>\<rparr>) else n)"

lemma no_transition_work_eq:
  "e_provisioned e \<Longrightarrow> no_transition_work_handler e n =
     (let m = note_lightness (all_finish n)
      in (if light_changed n \<or> temp_changed n \<or> duv_changed n then update_led_gpio m else Some m)
           \<bind> (\<lambda>m. Some (emit (K_timer_start Unsolicited_Timer 5000 0) m)))"
  by (cases "light_changed n"; cases "temp_changed n"; cases "duv_changed n")
    (simp_all add: no_transition_work_handler_def all_finish_def note_lightness_def finish_defs Let_def)

lemma all_finish_fields:
  "only_current n (all_finish n)" "cur c (all_finish n) = tgt c n" "node_ok n \<Longrightarrow> node_ok (all_finish n)"
proof -
  show f: "only_current n (all_finish n)" unfolding all_finish_def by (rule finish_frames)
  have c: "cur c (all_finish n) = tgt c n" for c unfolding all_finish_def by (cases c) (simp_all add: finish_defs)
  show "cur c (all_finish n) = tgt c n" by (rule c)
  show "node_ok (all_finish n)" if "node_ok n"
    by (rule only_current_node_ok [OF f that]) (simp_all add: c del: cur.simps tgt.simps)
qed

lemma note_lightness_unmoved: "unmoved n (note_lightness n)"
  by (simp add: note_lightness_def unmoved_steps)

lemma no_transition_work_unmoved:
  assumes "node_ok n" "e_provisioned e"
  shows "returns (no_transition_work_handler e n) (unmoved (all_finish n))"
proof -
  let ?m = "note_lightness (all_finish n)"
  have m: "unmoved (all_finish n) ?m" by (rule note_lightness_unmoved)
  then have ok: "node_ok ?m" using all_finish_fields(3) [OF assms(1)] by (simp add: unmoved_def)
  have "returns (if light_changed n \<or> temp_changed n \<or> duv_changed n then update_led_gpio ?m else Some ?m) (quiet ?m)"
    using update_led_gpio_returns [OF node_ok_led_ok [OF ok]] by simp
  then show ?thesis
    unfolding no_transition_work_eq [OF assms(2)] Let_def
    by (rule quiet_bind [OF _ m]) (simp add: unmoved_steps)
qed

lemma no_transition_work_returns:
  assumes "node_ok n" "armed n = None" "e_provisioned e"
  shows "returns (no_transition_work_handler e n)
    (\<lambda>n'. node_inv n' \<and> armed n' = None \<and> (\<forall>c. cur c n' = tgt c n \<and> tgt c n' = tgt c n))"
proof (rule returns_mono [OF no_transition_work_unmoved [OF assms(1,3)]])
  fix k assume "unmoved (all_finish n) k"
  moreover have "armed (all_finish n) = None" "tgt c (all_finish n) = tgt c n" for c
    using only_current_fields [OF all_finish_fields(1) [of n]] assms(2) by simp_all
  ultimately show "node_inv k \<and> armed k = None \<and> (\<forall>c. cur c k = tgt c n \<and> tgt c k = tgt c n)"
    using all_finish_fields(2,3) assms(1) by (auto simp: unmoved_def intro: node_invI)
qed

lemma no_transition_work_safe:
  assumes "node_inv n" "armed n = None"
  shows "returns (no_transition_work_handler e n) (reacts n)"
proof (cases "e_provisioned e")
  case True
  show ?thesis by (rule returns_mono [OF no_transition_work_returns [OF node_inv_ok [OF assms(1)] assms(2) True]]) (simp add: reacts_def)
next
  case False
  then show ?thesis using reacts_self [OF assms(1)] by (simp add: no_transition_work_handler_def)
qed

lemma storage_work_unmoved: "unmoved n (storage_work_handler n)"
  unfolding storage_work_handler_def save_reset_counter_def save_gen_def_trans_time_state_def
    save_gen_onpowerup_state_def save_def_states_def save_lightness_last_state_def save_last_target_states_def
    save_lightness_range_def save_temperature_range_def Let_def
  by (simp add: unmoved_steps)

lemma unsolicited_work_quiet:
  assumes "node_ok n"
  shows "returns (unsolicitedly_publish_states_work_handler es n) (quiet n)"
proof -
  have chain: "returns (x \<bind> f) (quiet n)"
    if "returns x (quiet k)" "node_ok k" "quiet n k" "\<And>k'. node_ok k' \<Longrightarrow> quiet n k' \<Longrightarrow> returns (f k') (quiet n)" for x f k
    using that(1) by (rule returns_bindI) (use that quiet_channels(4) quiet_trans in blast)
  have last: "returns x (quiet n)" if "returns x (quiet k)" "quiet n k" for x k
    using that(1) by (rule returns_mono) (rule quiet_trans [OF that(2)])
  show ?thesis unfolding unsolicitedly_publish_states_work_handler_def
    by (insert assms) ((rule chain, (rule gen_onoff_publish_quiet gen_level_quiet light_lightness_quiet light_ctl_quiet, assumption),
          assumption, (assumption | rule quiet_refl))
      | (rule last, rule light_ctl_temp_publish_quiet, assumption, assumption))+
qed

lemma publish_tid_unmoved:
  "pub_size m = Some cap \<Longrightarrow> opcode_len op + (length xs + 1 + length ys) \<le> cap \<Longrightarrow> returns (publish_tid e m op xs ys n) (unmoved n)"
  by (simp add: publish_tid_def client_publish_def Let_def unmoved_steps)

lemma publish_unmoved: "returns (publish d pin e n) (unmoved n)"
  by (simp add: publish_def button_defs publish_tid_unmoved client_publish_def Let_def unmoved_steps)

lemma reset_counter_timer_unmoved: "unmoved n (reset_counter_timer_handler n)"
  by (simp add: reset_counter_timer_handler_def unmoved_steps)

section \<open>Boot\<close>

text \<open>
  The temperature range that \<open>retrieve_ranges\<close> unpacks is what the settings held: nothing (zero),
  or a word the storage work item packed. The second must be a proper range.
\<close>

definition stored_temp_range_ok :: "u32 \<Rightarrow> bool" where
  "stored_temp_range_ok r \<longleftrightarrow> r = 0 \<or>
     TEMP_MIN \<le> (ucast r :: u16) \<and> (ucast r :: u16) < ucast (drop_bit 16 r) \<and> (ucast (drop_bit 16 r) :: u16) \<le> TEMP_MAX"

definition before_bluetooth :: "boot_env \<Rightarrow> node" where
  "before_bluetooth b = snd (ps_settings_init (b_settings_init_err b) (b_register_err b)
     (emit (Printk ''Initializing...'' []) (light_default_var_init node_zero)))"

definition boot_ok :: "boot_env \<Rightarrow> bool" where
  "boot_ok b \<longleftrightarrow> b_bt_err b = 0 \<and> stored_temp_range_ok (tm_range (temp (bt_ready b (before_bluetooth b))))"

text \<open>Loading settings writes neither the two bounds nor the transition nor the trace.\<close>

definition same_bounds :: "node \<Rightarrow> node \<Rightarrow> bool" where
  "same_bounds n n' \<longleftrightarrow> tm_range_min (temp n') = tm_range_min (temp n) \<and> tm_range_max (temp n') = tm_range_max (temp n) \<and>
     timer_state n' = timer_state n"

lemma same_bounds_refl: "same_bounds n n"
  by (simp add: same_bounds_def)

lemma same_bounds_trans: "same_bounds n n' \<Longrightarrow> same_bounds n' n'' \<Longrightarrow> same_bounds n n''"
  by (simp add: same_bounds_def)

lemmas rd_defs = rd_rc_def rd_gdtt_def rd_gpo_def rd_ld_def rd_td_def rd_dd_def rd_ll_def rd_llt_def rd_tlt_def
  rd_dlt_def rd_lr_def rd_tr_def

lemma ps_entry_bounds: "same_bounds n (snd s) \<Longrightarrow> (\<And>n. same_bounds n (snd (rd n))) \<Longrightarrow> same_bounds n (snd (ps_entry m name rd s))"
  by (auto simp: ps_entry_def intro: same_bounds_trans)

lemma rd_bounds: "same_bounds n (snd (rd_rc rd n))" "same_bounds n (snd (rd_gdtt rd n))" "same_bounds n (snd (rd_gpo rd n))"
  "same_bounds n (snd (rd_ld rd n))" "same_bounds n (snd (rd_td rd n))" "same_bounds n (snd (rd_dd rd n))"
  "same_bounds n (snd (rd_ll rd n))" "same_bounds n (snd (rd_llt rd n))" "same_bounds n (snd (rd_tlt rd n))"
  "same_bounds n (snd (rd_dlt rd n))" "same_bounds n (snd (rd_lr rd n))" "same_bounds n (snd (rd_tr rd n))"
  by (simp_all add: rd_defs same_bounds_def timer_state_def split: prod.split)

lemma ps_set_bounds: "same_bounds n (snd (ps_set name_next key rd n))"
proof (cases "name_next key")
  case (Pair key_len has_next)
  show ?thesis unfolding ps_set_def Pair prod.case Let_def
    by (simp only: snd_conv if_distrib [of snd] split: if_split)
      (intro conjI impI same_bounds_refl ps_entry_bounds rd_bounds, simp add: same_bounds_refl)
qed

lemma settings_load_bounds: "same_bounds n (settings_load b n)"
proof -
  have "same_bounds m (fold (\<lambda>(key, rd) n. snd (ps_set (b_name_next b) key rd n)) es m)" for m es
    by (induction es arbitrary: m) (auto simp: same_bounds_refl intro: same_bounds_trans ps_set_bounds)
  then show ?thesis by (simp add: settings_load_def same_bounds_refl)
qed

lemma bt_ready_bounds: "same_bounds n (bt_ready b n)"
  using settings_load_bounds [of "emit (Printk ''Bluetooth initialized'' []) n" b]
  by (auto simp: bt_ready_def same_bounds_def Let_def timer_step_untimed timer_state_def [of "_\<lparr>dev_uuid := _\<rparr>"]
      simp flip: timer_state_def split: option.split)

lemma retrieve_ranges_temp_ok:
  assumes "tm_range_min (temp n) = TEMP_MIN" "tm_range_max (temp n) = TEMP_MAX" "stored_temp_range_ok (tm_range (temp n))"
  shows "temp_range_ok (retrieve_ranges n)"
  using assms by (auto simp: retrieve_ranges_def Let_def temp_range_ok_def stored_temp_range_ok_def)

lemma retrieve_ranges_fields:
  "c_onpowerup (retrieve_ranges n) = c_onpowerup n" "trace (retrieve_ranges n) = trace n"
  "tm_def (temp (retrieve_ranges n)) = tm_def (temp n)" "tm_target (temp (retrieve_ranges n)) = tm_target (temp n)"
  by (simp_all add: retrieve_ranges_def Let_def)

lemma status_init_temp:
  "tm_range_min (temp (light_default_status_init n)) = tm_range_min (temp (retrieve_ranges n))"
  "tm_range_max (temp (light_default_status_init n)) = tm_range_max (temp (retrieve_ranges n))"
  "tm_target (temp (light_default_status_init n)) = tm_current (temp (light_default_status_init n))"
  "tm_current (temp (light_default_status_init n)) =
     constrain_temperature (retrieve_ranges n) (if c_onpowerup n = STATE_RESTORE then tm_target (temp n) else tm_def (temp n))"
  by (simp_all add: light_default_status_init_def power_up_values_def constrain_stored_def retrieve_ranges_fields Let_def)

lemma status_init_frame: "trace (light_default_status_init n) = trace n"
  by (simp add: light_default_status_init_def power_up_values_def constrain_stored_def retrieve_ranges_fields Let_def)

lemma status_init_ok:
  assumes "temp_range_ok (retrieve_ranges n)"
  shows "node_ok (light_default_status_init n)"
proof -
  have "node_ok ((retrieve_ranges n)\<lparr>temp := (temp (retrieve_ranges n))
      \<lparr>tm_current := tm_range_min (temp (retrieve_ranges n)), tm_target := tm_range_min (temp (retrieve_ranges n))\<rparr>\<rparr>)" (is "node_ok ?m")
    using assms by (auto simp: node_ok_def temp_range_ok_def)
  from constrain_temperature_range [OF this] show ?thesis
    using assms constrain_temperature_cong [of ?m "retrieve_ranges n"]
    by (simp add: node_ok_def temp_range_ok_def status_init_temp)
qed

lemma multireset_unmoved: "unmoved n (short_time_multireset_bt_mesh_unprovisioning n)"
  by (simp add: short_time_multireset_bt_mesh_unprovisioning_def unmoved_steps)

lemma before_bluetooth_bounds:
  "tm_range_min (temp (before_bluetooth b)) = TEMP_MIN" "tm_range_max (temp (before_bluetooth b)) = TEMP_MAX"
  "timer_state (before_bluetooth b) = (None, False)"
  by (simp_all add: before_bluetooth_def ps_settings_init_def light_default_var_init_def node_zero_def Let_def
      timer_state_def emit_def)

lemma node_main_eq:
  "b_bt_err b = 0 \<Longrightarrow> node_main b node_zero = do {
     n \<leftarrow> update_light_state (light_default_status_init (bt_ready b (before_bluetooth b)));
     Some (emit (K_timer_start Reset_Counter_Timer 7000 0) (short_time_multireset_bt_mesh_unprovisioning n)) }"
  by (simp add: node_main_def before_bluetooth_def Let_def)

lemma node_main_returns:
  assumes "boot_ok b"
  shows "returns (node_main b node_zero) (\<lambda>n. node_inv n \<and> armed n = None)"
proof -
  let ?r = "bt_ready b (before_bluetooth b)"
  let ?s = "light_default_status_init ?r"
  have r: "tm_range_min (temp ?r) = TEMP_MIN" "tm_range_max (temp ?r) = TEMP_MAX" "timer_state ?r = (None, False)"
    using bt_ready_bounds [of "before_bluetooth b" b] by (simp_all add: same_bounds_def before_bluetooth_bounds)
  have ok: "node_ok ?s"
    using assms r by (intro status_init_ok retrieve_ranges_temp_ok) (simp_all add: boot_ok_def)
  have arm: "armed ?s = None"
    using armed_cong [OF status_init_frame [of ?r]] r(3) by (simp add: armed_def)
  have u: "unmoved ?s (?s\<lparr>reset_done := True\<rparr>)" by (intro unmoved_stored unmoved_refl)
  have "returns (node_main b node_zero) (unmoved ?s)"
    unfolding node_main_eq [of b, OF conjunct1 [OF assms [unfolded boot_ok_def]]]
    by (rule quiet_bind [OF update_light_state_quiet [OF node_ok_led_ok [OF ok]] u])
      (simp add: unmoved_steps unmoved_trans [OF _ multireset_unmoved])
  then show ?thesis using ok arm by (elim returns_mono) (auto simp: unmoved_def intro: node_invI)
qed

section \<open>The reachable states\<close>

text \<open>
  What can reach the node. A message is the opcode, its context and payload, as the access layer
  delivers it to a model; the transition timer's work item runs only while that timer is armed, and
  the work item that ends a change only when no transition is running (the order in which the
  work queue serves them; an overlap is discussed in the root theory).
\<close>

datatype stimulus =
    Message model opcode env msg_ctx "u8 list"
  | Tick env
  | Settle env
  | Store
  | Publish_Due
  | Publish_States "nat \<Rightarrow> env"
  | Button_Down
  | Button_Read "nat \<Rightarrow> int" env
  | Reset_Due
  | Unprovisioned

fun find_op :: "opcode \<Rightarrow> model_op list \<Rightarrow> (nat \<times> handler) option" where
  "find_op op [] = None"
| "find_op op ((op', k, h) # ops) = (if op = op' then Some (k, h) else find_op op ops)"

definition deliver :: "model \<Rightarrow> opcode \<Rightarrow> env \<Rightarrow> msg_ctx \<Rightarrow> u8 list \<Rightarrow> node \<Rightarrow> node option" where
  "deliver m op e cx bs n = (case find_op op (model_ops m) of
     None \<Rightarrow> Some n
   | Some (k, h) \<Rightarrow> if length bs < k then Some n else h m e cx bs n)"

fun react :: "stimulus \<Rightarrow> node \<Rightarrow> node option" where
  "react (Message m op e cx bs) n = deliver m op e cx bs n"
| "react (Tick e) n = (case armed n of None \<Rightarrow> Some n | Some w \<Rightarrow> transition_work w e n)"
| "react (Settle e) n = no_transition_work_handler e n"
| "react Store n = Some (storage_work_handler n)"
| "react Publish_Due n = Some (unsolicitedly_publish_states_timer_handler n)"
| "react (Publish_States es) n = unsolicitedly_publish_states_work_handler es n"
| "react Button_Down n = Some (button_pressed n)"
| "react (Button_Read pin e) n = publish default_features pin e n"
| "react Reset_Due n = Some (reset_counter_timer_handler n)"
| "react Unprovisioned n = Some (prov_reset n)"

fun occurs :: "stimulus \<Rightarrow> node \<Rightarrow> bool" where
  "occurs (Message m op e cx bs) n = message_fits op bs n"
| "occurs (Tick e) n = (armed n \<noteq> None)"
| "occurs (Settle e) n = (armed n = None)"
| "occurs _ n = True"

inductive reachable :: "boot_env \<Rightarrow> node \<Rightarrow> bool" for b where
  boot: "boot_ok b \<Longrightarrow> node_main b node_zero = Some n \<Longrightarrow> reachable b n"
| stimulus: "reachable b n \<Longrightarrow> occurs s n \<Longrightarrow> react s n = Some n' \<Longrightarrow> reachable b n'"

lemma find_op_mem: "find_op op ops = Some (k, h) \<Longrightarrow> (op, k, h) \<in> set ops"
  by (induction op ops rule: find_op.induct) (auto split: if_splits)

lemma deliver_safe:
  assumes "node_inv n" "message_fits op bs n"
  shows "returns (deliver m op e cx bs n) (reacts n)"
proof (cases "find_op op (model_ops m)")
  case (Some kh)
  then obtain k h where kh: "kh = (k, h)" "op_safe m (op, k, h)"
    using find_op_mem model_ops_safe by (cases kh) blast
  then show ?thesis using assms Some reacts_self [OF assms(1)] by (simp add: deliver_def)
qed (simp add: deliver_def reacts_self [OF assms(1)])

lemma react_safe: "node_inv n \<Longrightarrow> occurs s n \<Longrightarrow> returns (react s n) (lamp_inv n)"
proof (cases s)
  case (Tick e)
  assume "node_inv n" "occurs s n"
  then show ?thesis using transition_work_safe unfolding Tick by (auto split: option.split)
next
  case (Publish_States es)
  assume "node_inv n"
  then show ?thesis using quiet_reacts unsolicited_work_quiet node_inv_ok unfolding Publish_States
    by (simp add: reacts_lamp_returns)
qed (auto simp: deliver_safe no_transition_work_safe unmoved_stays storage_work_unmoved
    reset_counter_timer_unmoved unsolicitedly_publish_states_timer_handler_def button_pressed_def
    prov_reset_def unmoved_stored(2) [OF unmoved_refl]
    intro!: reacts_lamp reacts_lamp_returns unmoved_reacts [OF _ _ publish_unmoved])

lemma reachable_inv: "reachable b n \<Longrightarrow> node_inv n"
proof (induction rule: reachable.induct)
  case (boot n)
  then show ?case using node_main_returns by (auto dest: returns_Some_imp)
next
  case (stimulus n s n')
  have "returns (react s n) (lamp_inv n)" using stimulus.IH stimulus.hyps(2) by (rule react_safe)
  then show ?case using stimulus.hyps(3) by (simp add: lamp_inv_def)
qed

inductive_cases reachableE: "reachable b n"

end
