(* ===== verification/Persistence.thy ===== *)
theory Persistence
  imports NodeSystem
begin

text \<open>
  What survives a power cycle: which variables each storage identifier writes, that the settings
  handler reads them back, the values the light starts from, and unprovisioning by repeated
  power cycles.
\<close>

section \<open>The stored variables\<close>

text \<open>
  The keys below \<open>ps\<close>, and the bytes of the variable behind each, as the processor (little-endian)
  has them in memory.
\<close>

definition ps_keys :: "string list" where
  "ps_keys = [''rc'', ''gdtt'', ''gpo'', ''ld'', ''td'', ''dd'', ''ll'', ''llt'', ''tlt'', ''dlt'', ''lr'', ''tr'']"

definition slot :: "string \<Rightarrow> node \<Rightarrow> u8 list" where
  "slot k n =
     (if k = ''rc'' then [reset_counter n] else if k = ''gdtt'' then [c_tt n]
      else if k = ''gpo'' then [c_onpowerup n]
      else if k = ''ld'' then le16 (lt_def (light n)) else if k = ''td'' then le16 (tm_def (temp n))
      else if k = ''dd'' then le16 (dv_def (duv n))
      else if k = ''ll'' then le16 (lt_last (light n)) else if k = ''llt'' then le16 (lt_target (light n))
      else if k = ''tlt'' then le16 (tm_target (temp n)) else if k = ''dlt'' then le16 (dv_target (duv n))
      else if k = ''lr'' then le32 (lt_range (light n)) else if k = ''tr'' then le32 (tm_range (temp n))
      else [])"

text \<open>What the settings subsystem answers for a stored value, and for a key with no subtree.\<close>

definition reader :: "u8 list \<Rightarrow> read_cb" where
  "reader bs = (\<lambda>len. Inr (take len bs))"

definition plain_name :: "string \<Rightarrow> nat \<times> bool" where
  "plain_name k = (length k, False)"

definition load_entries :: "(string \<times> u8 list) list \<Rightarrow> node \<Rightarrow> node" where
  "load_entries es n = fold (\<lambda>(k, bs) n. snd (ps_set plain_name k (reader bs) n)) es n"

text \<open>The entries an operation saved, in order, from the events it left.\<close>

fun saved_entries :: "event list \<Rightarrow> (string \<times> u8 list) list" where
  "saved_entries [] = []"
| "saved_entries (Settings_save_one key bs # evs) = (drop 3 key, bs) # saved_entries evs"
| "saved_entries (_ # evs) = saved_entries evs"

definition saves_of :: "u8 \<Rightarrow> string list" where
  "saves_of i =
     (if i = RESET_COUNTER then [''rc''] else if i = GEN_DEF_TRANS_TIME_STATE then [''gdtt'']
      else if i = GEN_ONPOWERUP_STATE then [''gpo''] else if i = DEF_STATES then [''ld'', ''td'', ''dd'']
      else if i = LIGHTNESS_LAST_STATE then [''ll''] else if i = LAST_TARGET_STATES then [''llt'', ''tlt'', ''dlt'']
      else if i = LIGHTNESS_RANGE then [''lr''] else if i = TEMPERATURE_RANGE then [''tr''] else [])"

section \<open>One entry\<close>

lemma overwrite_all [simp]: "length bs = length old \<Longrightarrow> overwrite old bs = bs"
  by (simp add: overwrite_def)

lemma read_back:
  "read_u8 (reader [v]) x = (1, v)"
  "read_u16 (reader (le16 w)) y = (2, w)"
  "read_u32 (reader (le32 d)) z = (4, d)"
proof -
  show "read_u8 (reader [v]) x = (1, v)" by (simp add: read_u8_def reader_def)
  show "read_u16 (reader (le16 w)) y = (2, w)"
    using pull_le16_le16 [of w "[]"] by (simp add: read_u16_def reader_def length_le16)
  show "read_u32 (reader (le32 d)) z = (4, d)"
    using pull_le32_le32 [of d "[]"] by (simp add: read_u32_def reader_def length_le32)
qed

text \<open>
  Which comparisons of the chain succeed for each key: its own, and for the key \<open>ll\<close> also that
  of \<open>llt\<close>, since only the first \<open>key_len\<close> characters are compared.
\<close>

lemma ps_set_keys:
  "snd (ps_set plain_name ''rc'' rd n) = snd (rd_rc rd n)"
  "snd (ps_set plain_name ''gdtt'' rd n) = snd (rd_gdtt rd n)"
  "snd (ps_set plain_name ''gpo'' rd n) = snd (rd_gpo rd n)"
  "snd (ps_set plain_name ''ld'' rd n) = snd (rd_ld rd n)"
  "snd (ps_set plain_name ''td'' rd n) = snd (rd_td rd n)"
  "snd (ps_set plain_name ''dd'' rd n) = snd (rd_dd rd n)"
  "snd (ps_set plain_name ''ll'' rd n) = snd (rd_llt rd (snd (rd_ll rd n)))"
  "snd (ps_set plain_name ''llt'' rd n) = snd (rd_llt rd n)"
  "snd (ps_set plain_name ''tlt'' rd n) = snd (rd_tlt rd n)"
  "snd (ps_set plain_name ''dlt'' rd n) = snd (rd_dlt rd n)"
  "snd (ps_set plain_name ''lr'' rd n) = snd (rd_lr rd n)"
  "snd (ps_set plain_name ''tr'' rd n) = snd (rd_tr rd n)"
  by (simp_all add: ps_set_def plain_name_def ps_entry_def strncmp_eq_def Let_def)

lemma read_slots:
  "snd (rd_rc (reader (slot ''rc'' m)) n) = n\<lparr>reset_counter := reset_counter m\<rparr>"
  "snd (rd_gdtt (reader (slot ''gdtt'' m)) n) = n\<lparr>c_tt := c_tt m\<rparr>"
  "snd (rd_gpo (reader (slot ''gpo'' m)) n) = n\<lparr>c_onpowerup := c_onpowerup m\<rparr>"
  "snd (rd_ld (reader (slot ''ld'' m)) n) = n\<lparr>light := (light n)\<lparr>lt_def := lt_def (light m)\<rparr>\<rparr>"
  "snd (rd_td (reader (slot ''td'' m)) n) = n\<lparr>temp := (temp n)\<lparr>tm_def := tm_def (temp m)\<rparr>\<rparr>"
  "snd (rd_dd (reader (slot ''dd'' m)) n) = n\<lparr>duv := (duv n)\<lparr>dv_def := dv_def (duv m)\<rparr>\<rparr>"
  "snd (rd_ll (reader (slot ''ll'' m)) n) = n\<lparr>light := (light n)\<lparr>lt_last := lt_last (light m)\<rparr>\<rparr>"
  "snd (rd_llt (reader (slot ''llt'' m)) n) = set_light_target (lt_target (light m)) n"
  "snd (rd_llt (reader (slot ''ll'' m)) n) = set_light_target (lt_last (light m)) n"
  "snd (rd_tlt (reader (slot ''tlt'' m)) n) = set_temp_target (tm_target (temp m)) n"
  "snd (rd_dlt (reader (slot ''dlt'' m)) n) = set_duv_target (dv_target (duv m)) n"
  "snd (rd_lr (reader (slot ''lr'' m)) n) = n\<lparr>light := (light n)\<lparr>lt_range := lt_range (light m)\<rparr>\<rparr>"
  "snd (rd_tr (reader (slot ''tr'' m)) n) = n\<lparr>temp := (temp n)\<lparr>tm_range := tm_range (temp m)\<rparr>\<rparr>"
  by (simp_all add: rd_defs slot_def read_back)

lemma ps_set_slot:
  assumes "k \<in> set ps_keys" "k' \<in> set ps_keys"
  shows "slot k' (snd (ps_set plain_name k (reader (slot k m)) n)) =
    (if k' = k \<or> k = ''ll'' \<and> k' = ''llt'' then slot k m else slot k' n)"
  using assms unfolding ps_keys_def
  by (simp, elim disjE) (simp_all add: ps_set_keys read_slots, simp_all add: slot_def)

section \<open>Saving and loading\<close>

lemma saved_entries_append [simp]: "saved_entries (a @ b) = saved_entries a @ saved_entries b"
  by (induction a rule: saved_entries.induct) simp_all

lemma storage_work_saves:
  "saved_entries (trace (storage_work_handler n)) =
     saved_entries (trace n) @ map (\<lambda>k. (k, slot k (storage_work_handler n))) (saves_of (storage_id n))"
  by (simp add: storage_work_handler_def save_reset_counter_def save_gen_def_trans_time_state_def
      save_gen_onpowerup_state_def save_def_states_def save_lightness_last_state_def save_last_target_states_def
      save_lightness_range_def save_temperature_range_def save_on_flash_def saves_of_def Let_def)
    (simp add: slot_def)

lemma load_entries_Cons: "load_entries ((k, bs) # es) n = load_entries es (snd (ps_set plain_name k (reader bs) n))"
  by (simp add: load_entries_def)

lemma load_entries_slot:
  assumes "distinct ks" "set ks \<subseteq> set ps_keys" "k' \<in> set ps_keys" "k' = ''llt'' \<longrightarrow> ''ll'' \<notin> set ks"
  shows "slot k' (load_entries (map (\<lambda>k. (k, slot k (saved k))) ks) n) =
    (if k' \<in> set ks then slot k' (saved k') else slot k' n)"
  using assms
proof (induction ks arbitrary: n)
  case Nil
  then show ?case by (simp add: load_entries_def)
next
  case (Cons k ks)
  let ?n = "snd (ps_set plain_name k (reader (slot k (saved k))) n)"
  have "slot k' ?n = (if k' = k then slot k (saved k) else slot k' n)"
    using Cons.prems ps_set_slot [of k k' "saved k" n] by auto
  then show ?case using Cons.IH [of ?n] Cons.prems by (auto simp: load_entries_Cons)
qed

lemma saves_distinct: "distinct (saves_of i)" "set (saves_of i) \<subseteq> set ps_keys"
    "\<not> (''ll'' \<in> set (saves_of i) \<and> ''llt'' \<in> set (saves_of i))"
  by (auto simp: saves_of_def ps_keys_def)

text \<open>
  C11: Whatever variables the storage work item writes for its identifier, the settings handler
  restores to the same values in any other state when it is handed the entries back.
\<close>

theorem saved_state_reloaded:
  assumes "k \<in> set (saves_of (storage_id n))"
  shows "slot k (load_entries (drop (length (saved_entries (trace n))) (saved_entries (trace (storage_work_handler n)))) m)
    = slot k (storage_work_handler n)"
proof -
  have "k \<in> set ps_keys" "k = ''llt'' \<longrightarrow> ''ll'' \<notin> set (saves_of (storage_id n))"
    using assms saves_distinct [of "storage_id n"] by auto
  then show ?thesis using assms unfolding storage_work_saves by (simp add: load_entries_slot saves_distinct)
qed

lemma saved_state_reloaded_witness:
  "slot ''tlt'' (load_entries (drop (length (saved_entries (trace (sample_node\<lparr>storage_id := LAST_TARGET_STATES\<rparr>))))
      (saved_entries (trace (storage_work_handler (sample_node\<lparr>storage_id := LAST_TARGET_STATES\<rparr>))))) node_zero)
    = slot ''tlt'' (storage_work_handler (sample_node\<lparr>storage_id := LAST_TARGET_STATES\<rparr>))"
  by (rule saved_state_reloaded) (simp add: saves_of_def)

lemma settings_load_entries:
  assumes "b_settings_init_err b = 0" "b_register_err b = 0" "b_name_next b = plain_name"
    "b_entries b = map (\<lambda>(k, bs). (k, reader bs)) es"
  shows "settings_load b n = load_entries es n"
  using assms by (simp add: settings_load_def load_entries_def fold_map comp_def case_prod_unfold)

text \<open>
  C12: After settings_load, every variable of which the store holds a well-formed entry has the
  stored value, whatever the order of the entries, and every other variable is unchanged. The
  lightness target is the exception when the entry of the last lightness is present.
\<close>

theorem settings_restore_every_variable:
  assumes "b_settings_init_err b = 0" "b_register_err b = 0" "b_name_next b = plain_name"
    "b_entries b = map (\<lambda>(k, bs). (k, reader bs)) (map (\<lambda>k. (k, slot k (saved k))) ks)"
    "distinct ks" "set ks \<subseteq> set ps_keys" "k \<in> set ps_keys" "k = ''llt'' \<longrightarrow> ''ll'' \<notin> set ks"
  shows "slot k (settings_load b n) = (if k \<in> set ks then slot k (saved k) else slot k n)"
  unfolding settings_load_entries [OF assms(1-4)] by (rule load_entries_slot [OF assms(5-8)])

definition sample_boot :: boot_env where
  "sample_boot = \<lparr>b_settings_init_err = 0, b_register_err = 0, b_bt_err = 0, b_mesh_err = 0, b_oob = None,
     b_name_next = plain_name, b_entries = []\<rparr>"

lemma settings_restore_every_variable_witness:
  "slot ''gpo'' (settings_load (sample_boot\<lparr>b_entries := map (\<lambda>(k, bs). (k, reader bs))
      (map (\<lambda>k. (k, slot k sample_node)) [''ll'', ''gpo'', ''tr''])\<rparr>) node_zero) =
    (if ''gpo'' \<in> set [''ll'', ''gpo'', ''tr''] then slot ''gpo'' sample_node else slot ''gpo'' node_zero)"
  by (rule settings_restore_every_variable) (simp_all add: sample_boot_def ps_keys_def)

theorem restored_target_depends_on_order:
  "lt_target (light (load_entries [(''ll'', slot ''ll'' m), (''llt'', slot ''llt'' m)] n)) = lt_target (light m) \<and>
   lt_target (light (load_entries [(''llt'', slot ''llt'' m), (''ll'', slot ''ll'' m)] n)) = lt_last (light m)"
  by (simp add: load_entries_Cons ps_set_keys read_slots load_entries_def)

theorem second_request_replaces_first:
  "saved_entries (trace (storage_work_handler (save_on_flash j (save_on_flash i n)))) =
     saved_entries (trace n) @ map (\<lambda>k. (k, slot k (storage_work_handler (save_on_flash j (save_on_flash i n))))) (saves_of j)"
  by (simp add: storage_work_saves) (simp add: save_on_flash_def)

section \<open>The ranges\<close>

lemma pack_range_halves:
  "ucast (drop_bit 16 (pack_range mn mx)) = mx" "ucast (pack_range mn mx) = mn"
  "pack_range mn mx = 0 \<longleftrightarrow> mn = 0 \<and> mx = 0"
proof -
  have hi: "drop_bit 16 (pack_range mn mx) = ucast mx"
    unfolding pack_range_def
    by (rule bit_word_eqI) (auto simp: bit_simps dest: bit_imp_le_length)
  then show hi': "ucast (drop_bit 16 (pack_range mn mx)) = mx" by (simp add: unsigned_ucast_eq take_bit_word_eq_self)
  show lo: "ucast (pack_range mn mx) = mn"
    unfolding pack_range_def
    by (rule bit_word_eqI) (auto simp: bit_simps dest: bit_imp_le_length)
  show "pack_range mn mx = 0 \<longleftrightarrow> mn = 0 \<and> mx = 0"
  proof
    assume z: "pack_range mn mx = 0"
    show "mn = 0 \<and> mx = 0" using hi' lo unfolding z by simp
  qed (simp add: pack_range_def)
qed

text \<open>
  A range that was set, saved, and loaded after the power cycle is the range again once
  \<open>light_default_status_init\<close> has unpacked it. Zero is what an empty store leaves in the packed word.
\<close>

lemma load_ranges:
  "lt_range (light (load_entries [(''lr'', slot ''lr'' m)] n)) = lt_range (light m)"
  "tm_range (temp (load_entries [(''tr'', slot ''tr'' m)] n)) = tm_range (temp m)"
  by (simp_all add: load_entries_Cons ps_set_keys read_slots load_entries_def)

lemma status_init_lightness_range:
  "lt_range_min (light (light_default_status_init n)) = lt_range_min (light (retrieve_ranges n))"
  "lt_range_max (light (light_default_status_init n)) = lt_range_max (light (retrieve_ranges n))"
  by (simp_all add: light_default_status_init_def power_up_values_def constrain_stored_def Let_def)

theorem ranges_survive_power_cycle:
  assumes "lt_range_max (light n) \<noteq> 0" "tm_range_max (temp n) \<noteq> 0"
  shows "lt_range_min (light (light_default_status_init (load_entries [(''lr'', slot ''lr'' (save_lightness_range n))] m)))
      = lt_range_min (light n) \<and>
    lt_range_max (light (light_default_status_init (load_entries [(''lr'', slot ''lr'' (save_lightness_range n))] m)))
      = lt_range_max (light n) \<and>
    tm_range_min (temp (light_default_status_init (load_entries [(''tr'', slot ''tr'' (save_temperature_range n))] m)))
      = tm_range_min (temp n) \<and>
    tm_range_max (temp (light_default_status_init (load_entries [(''tr'', slot ''tr'' (save_temperature_range n))] m)))
      = tm_range_max (temp n)"
  using assms
  by (simp add: status_init_lightness_range status_init_temp retrieve_ranges_def load_ranges Let_def
      save_lightness_range_def save_temperature_range_def pack_range_halves)

lemma ranges_survive_power_cycle_witness:
  "lt_range_min (light (light_default_status_init (load_entries [(''lr'', slot ''lr'' (save_lightness_range sample_node))] node_zero)))
      = lt_range_min (light sample_node) \<and>
    lt_range_max (light (light_default_status_init (load_entries [(''lr'', slot ''lr'' (save_lightness_range sample_node))] node_zero)))
      = lt_range_max (light sample_node) \<and>
    tm_range_min (temp (light_default_status_init (load_entries [(''tr'', slot ''tr'' (save_temperature_range sample_node))] node_zero)))
      = tm_range_min (temp sample_node) \<and>
    tm_range_max (temp (light_default_status_init (load_entries [(''tr'', slot ''tr'' (save_temperature_range sample_node))] node_zero)))
      = tm_range_max (temp sample_node)"
  by (rule ranges_survive_power_cycle) (simp_all add: sample_defs)

section \<open>Power-up\<close>

text \<open>
  The abstract rule of the Generic OnPowerUp state: dark, the default lightness (or the last one,
  when no default is set), or what was aimed at when the power went; each brought into its range.
\<close>

definition in_range :: "u16 \<Rightarrow> u16 \<Rightarrow> u16 \<Rightarrow> u16" where
  "in_range mn mx v = max mn (min mx v)"

definition lit_in_range :: "u16 \<Rightarrow> u16 \<Rightarrow> u16 \<Rightarrow> u16" where
  "lit_in_range mn mx v = (if v = 0 then 0 else in_range mn mx v)"

definition start_lightness :: "u8 \<Rightarrow> lightness \<Rightarrow> u16" where
  "start_lightness policy l =
     (if policy = STATE_OFF then 0
      else lit_in_range (lt_range_min l) (lt_range_max l)
        (if policy = STATE_RESTORE then lt_target l else if lt_def l = 0 then lt_last l else lt_def l))"

definition start_temperature :: "u8 \<Rightarrow> temperature \<Rightarrow> u16" where
  "start_temperature policy t =
     in_range (tm_range_min t) (tm_range_max t) (if policy = STATE_RESTORE then tm_target t else tm_def t)"

lemma constrain_in_range:
  "lt_range_min (light n) \<le> lt_range_max (light n) \<Longrightarrow> 0 < lt_range_min (light n) \<Longrightarrow>
     constrain_lightness n v = lit_in_range (lt_range_min (light n)) (lt_range_max (light n)) v"
  "tm_range_min (temp n) \<le> tm_range_max (temp n) \<Longrightarrow>
     constrain_temperature n v = in_range (tm_range_min (temp n)) (tm_range_max (temp n)) v"
  by (auto simp: constrain_lightness_def constrain_temperature_def lit_in_range_def in_range_def
      max_def min_def word_gt_0)

lemma in_range_zero: "0 < mn \<Longrightarrow> lit_in_range mn mx v = 0 \<longleftrightarrow> v = 0"
  by (auto simp: lit_in_range_def in_range_def max_def min_def split: if_splits)

text \<open>
  C13: At power-up the light starts as the stored OnPowerUp state prescribes: dark, at the default
  lightness (or the last one when no default is set), or at the last targets, each brought into its
  range; and every target equals the value shown.
\<close>

theorem power_up_state:
  assumes "c_onpowerup n \<in> {STATE_OFF, STATE_DEFAULT, STATE_RESTORE}" "m = retrieve_ranges n"
    "0 < lt_range_min (light m)" "lt_range_min (light m) \<le> lt_range_max (light m)"
    "tm_range_min (temp m) \<le> tm_range_max (temp m)"
  shows "lt_current (light (light_default_status_init n)) = start_lightness (c_onpowerup n) (light m) \<and>
    tm_current (temp (light_default_status_init n)) = start_temperature (c_onpowerup n) (temp m) \<and>
    dv_current (duv (light_default_status_init n)) = (if c_onpowerup n = STATE_RESTORE then dv_target (duv m) else dv_def (duv m)) \<and>
    (\<forall>c. tgt c (light_default_status_init n) = cur c (light_default_status_init n))"
proof -
  have f: "c_onpowerup n = c_onpowerup m" unfolding assms(2) by (simp add: retrieve_ranges_fields)
  have v: "constrain_lightness m v = lit_in_range (lt_range_min (light m)) (lt_range_max (light m)) v"
    "constrain_temperature m v = in_range (tm_range_min (temp m)) (tm_range_max (temp m)) v" for v
    by (rule constrain_in_range, (rule assms)+)+
  have t: "\<forall>c. tgt c (light_default_status_init n) = cur c (light_default_status_init n)"
    by (simp add: all_channels light_default_status_init_def Let_def)
  show ?thesis using assms(1) t unfolding f
    by (auto simp: light_default_status_init_def power_up_values_def constrain_stored_def Let_def v
        assms(2) [symmetric] start_lightness_def start_temperature_def in_range_zero [OF assms(3)])
qed

lemma power_up_state_witness:
  "lt_current (light (light_default_status_init sample_node)) = start_lightness (c_onpowerup sample_node) (light sample_node) \<and>
    tm_current (temp (light_default_status_init sample_node)) = start_temperature (c_onpowerup sample_node) (temp sample_node) \<and>
    dv_current (duv (light_default_status_init sample_node)) =
      (if c_onpowerup sample_node = STATE_RESTORE then dv_target (duv sample_node) else dv_def (duv sample_node)) \<and>
    (\<forall>c. tgt c (light_default_status_init sample_node) = cur c (light_default_status_init sample_node))"
  by (rule power_up_state) (simp_all add: sample_defs retrieve_ranges_def)

section \<open>Unprovisioning by repeated power cycles\<close>

lemma ps_set_trace: "trace (snd (ps_set name_next k rd n)) = trace n"
proof -
  have e: "trace (snd (ps_entry m name r s)) = trace (snd s)" if "\<And>n. trace (snd (r n)) = trace n" for m name r s
    using that by (simp add: ps_entry_def)
  have r: "trace (snd (rd_rc rd n)) = trace n" "trace (snd (rd_gdtt rd n)) = trace n" "trace (snd (rd_gpo rd n)) = trace n"
    "trace (snd (rd_ld rd n)) = trace n" "trace (snd (rd_td rd n)) = trace n" "trace (snd (rd_dd rd n)) = trace n"
    "trace (snd (rd_ll rd n)) = trace n" "trace (snd (rd_llt rd n)) = trace n" "trace (snd (rd_tlt rd n)) = trace n"
    "trace (snd (rd_dlt rd n)) = trace n" "trace (snd (rd_lr rd n)) = trace n" "trace (snd (rd_tr rd n)) = trace n" for n
    by (simp_all add: rd_defs split: prod.split)
  show ?thesis
  proof (cases "name_next k")
    case (Pair key_len has_next)
    show ?thesis unfolding ps_set_def Pair prod.case Let_def by (simp add: e r)
  qed
qed

lemma settings_load_trace: "trace (settings_load b n) = trace n"
proof -
  have "trace (fold (\<lambda>(key, rd) n. snd (ps_set (b_name_next b) key rd n)) es m) = trace m" for es m
    by (induction es arbitrary: m) (auto simp: ps_set_trace)
  then show ?thesis by (simp add: settings_load_def)
qed

definition loaded_counter :: "boot_env \<Rightarrow> u8" where
  "loaded_counter b = reset_counter (bt_ready b (before_bluetooth b))"

lemma before_reset:
  "Mesh_reset \<notin> set (trace (bt_ready b (before_bluetooth b)))"
  by (auto simp: bt_ready_def before_bluetooth_def ps_settings_init_def light_default_var_init_def node_zero_def
      settings_load_trace emit_def Let_def split: option.split)

lemma update_led_gpio_resets:
  "update_led_gpio n = Some n' \<Longrightarrow> reset_counter n' = reset_counter n \<and>
    (Mesh_reset \<in> set (trace n') \<longleftrightarrow> Mesh_reset \<in> set (trace n))"
  by (cases "led_power n"; cases "led_color n") (auto simp: update_led_gpio_def)

lemma update_light_state_resets:
  assumes "update_light_state n = Some n'"
  shows "reset_counter n' = reset_counter n \<and> (Mesh_reset \<in> set (trace n') \<longleftrightarrow> Mesh_reset \<in> set (trace n))"
proof -
  obtain m where m: "update_led_gpio n = Some m"
    using assms by (cases "update_led_gpio n") (simp_all add: update_light_state_def)
  then show ?thesis using assms update_led_gpio_resets [OF m] by (auto simp: update_light_state_def split: if_splits)
qed

lemma status_init_counter: "reset_counter (light_default_status_init n) = reset_counter n"
  by (simp add: light_default_status_init_def power_up_values_def constrain_stored_def retrieve_ranges_def Let_def)

lemma boot_counts:
  assumes "boot_ok b" "node_main b node_zero = Some n"
  shows "reset_counter n = (if 4 \<le> loaded_counter b then 0 else loaded_counter b + 1) \<and>
    (Mesh_reset \<in> set (trace n) \<longleftrightarrow> 4 \<le> loaded_counter b) \<and> storage_id n = RESET_COUNTER"
proof -
  let ?s = "light_default_status_init (bt_ready b (before_bluetooth b))"
  obtain m where m: "update_light_state ?s = Some m"
    "n = emit (K_timer_start Reset_Counter_Timer 7000 0) (short_time_multireset_bt_mesh_unprovisioning m)"
    using assms(2) unfolding node_main_eq [OF conjunct1 [OF assms(1) [unfolded boot_ok_def]]]
    by (auto simp: bind_eq_Some_conv)
  have "reset_counter m = loaded_counter b" "Mesh_reset \<notin> set (trace m)"
    using update_light_state_resets [OF m(1)] before_reset
    by (simp_all add: status_init_counter status_init_frame loaded_counter_def)
  then show ?thesis unfolding m(2)
    by (auto simp: short_time_multireset_bt_mesh_unprovisioning_def save_on_flash_def)
qed

lemma counter_mod5:
  "4 \<le> (word_of_nat (i mod 5) :: u8) \<longleftrightarrow> i mod 5 = 4"
  "(if 4 \<le> (word_of_nat (i mod 5) :: u8) then 0 else word_of_nat (i mod 5) + 1) = (word_of_nat (Suc i mod 5) :: u8)"
proof -
  have "i mod 5 < 5" by simp
  then consider "i mod 5 = 0" | "i mod 5 = 1" | "i mod 5 = 2" | "i mod 5 = 3" | "i mod 5 = 4" by linarith
  note cases = this
  show four: "4 \<le> (word_of_nat (i mod 5) :: u8) \<longleftrightarrow> i mod 5 = 4"
    by (rule cases) (simp_all add: word_le_nat_alt)
  show "(if 4 \<le> (word_of_nat (i mod 5) :: u8) then 0 else word_of_nat (i mod 5) + 1) = (word_of_nat (Suc i mod 5) :: u8)"
    unfolding four by (rule cases) (simp_all add: mod_Suc)
qed

text \<open>
  A sequence of boots, each within seven seconds of the one before, so that the counter the
  \<open>i\<close>th boot saved is the one the next boot loads: every fifth one unprovisions the node.
\<close>

text \<open>
  C14: In a sequence of boots that each load the counter the previous one saved (none of them
  lasting the seven seconds that reset it), exactly every fifth boot resets the mesh configuration.
\<close>

theorem every_fifth_quick_boot_unprovisions:
  assumes "\<And>i. boot_ok (b i)" "\<And>i. node_main (b i) node_zero = Some (n i)"
    "loaded_counter (b 0) = 0" "\<And>i. loaded_counter (b (Suc i)) = reset_counter (n i)"
  shows "Mesh_reset \<in> set (trace (n i)) \<longleftrightarrow> i mod 5 = 4"
proof -
  have "loaded_counter (b i) = word_of_nat (i mod 5)" for i
  proof (induction i)
    case 0
    show ?case using assms(3) by simp
  next
    case (Suc i)
    show ?case using boot_counts [OF assms(1,2), of i] assms(4) [of i] unfolding Suc counter_mod5(2) by simp
  qed
  then show ?thesis using boot_counts [OF assms(1,2), of i] counter_mod5(1) [of i] by simp
qed

definition counting_boot :: "nat \<Rightarrow> boot_env" where
  "counting_boot i = sample_boot\<lparr>b_entries := [(''rc'', reader [word_of_nat (i mod 5)])]\<rparr>"

lemma counting_boot_facts:
  "loaded_counter (counting_boot i) = word_of_nat (i mod 5)" "boot_ok (counting_boot i)"
  by (simp_all add: loaded_counter_def boot_ok_def counting_boot_def sample_boot_def bt_ready_def before_bluetooth_def
      ps_settings_init_def light_default_var_init_def settings_load_def ps_set_keys rd_rc_def read_back Let_def
      stored_temp_range_ok_def node_zero_def)

lemma every_fifth_quick_boot_unprovisions_witness:
  "Mesh_reset \<in> set (trace (the (node_main (counting_boot 4) node_zero))) \<longleftrightarrow> (4 :: nat) mod 5 = 4"
proof (rule every_fifth_quick_boot_unprovisions [where b = counting_boot and n = "\<lambda>i. the (node_main (counting_boot i) node_zero)"])
  show boots: "node_main (counting_boot i) node_zero = Some (the (node_main (counting_boot i) node_zero))" for i
    using node_main_returns [OF counting_boot_facts(2), of i] by (auto elim: returnsE)
  show "loaded_counter (counting_boot (Suc i)) = reset_counter (the (node_main (counting_boot i) node_zero))" for i
    using boot_counts [OF counting_boot_facts(2) boots, of i] unfolding counting_boot_facts(1) counter_mod5(2) by simp
qed (simp_all add: counting_boot_facts)

end
