(* ===== verification/Servers.thy ===== *)
theory Servers
  imports GenOnOff GenLevel Lightness LightCtl
begin

text \<open>
  What the servers of the node promise their clients, stated over the whole handlers and the runs
  of the timer they start: a set message settles at its target, moves there in even steps,
  is taken at most once, and is refused when it is malformed.
\<close>

section \<open>Every set handler with the work item it starts\<close>

interpretation onoff_journey: set_journey ONOFF light_changed light_finish Onoff_Work gen_onoff_set
    gen_onoff_get gen_onoff_publish "Root 2" parse_8 2 "\<lambda>v. v \<le> STATE_ON" "\<lambda>v. set_target ONOFF (ucast v)"
    onoff_work_handler light_advance light_finish
  unfolding set_journey_def work_channels.simps by (intro conjI gen_onoff.set_server_axioms onoff.ramp_handler_axioms)

interpretation level_journey: set_journey LEVEL_LIGHT light_changed light_finish Level_Lightness_Work gen_level_set
    gen_level_get gen_level_publish "Root 4" parse_16 3 "\<lambda>v. True" "set_target LEVEL_LIGHT"
    level_lightness_work_handler light_advance light_finish
  unfolding set_journey_def work_channels.simps by (intro conjI level_srv.set_server_axioms level_lightness.ramp_handler_axioms)

interpretation level_temp_journey: set_journey LEVEL_TEMP temp_changed temp_finish Level_Temp_Work gen_level_set_temp
    gen_level_get_temp gen_level_publish_temp "S0 0" parse_16 3 "\<lambda>v. True" "set_target LEVEL_TEMP"
    level_temp_work_handler temp_advance temp_finish
  unfolding set_journey_def work_channels.simps by (intro conjI level_temp_srv.set_server_axioms level_temp.ramp_handler_axioms)

interpretation actual_journey: set_journey ACTUAL light_changed light_finish Lightness_Actual_Work light_lightness_set
    light_lightness_get light_lightness_publish "Root 11" parse_16 3 "\<lambda>v. True" "set_target ACTUAL"
    light_lightness_actual_work_handler light_advance light_finish
  unfolding set_journey_def work_channels.simps by (intro conjI actual_srv.set_server_axioms lightness_actual.ramp_handler_axioms)

interpretation linear_journey: set_journey LINEAR light_changed light_finish Lightness_Linear_Work light_lightness_linear_set
    light_lightness_linear_get light_lightness_linear_publish "Root 11" parse_16 3 "\<lambda>v. True" "set_target LINEAR"
    light_lightness_linear_work_handler light_advance light_finish
  unfolding set_journey_def work_channels.simps by (intro conjI linear_srv.set_server_axioms lightness_linear.ramp_handler_axioms)

interpretation ctl_journey: set_journey CTL_LIGHT "\<lambda>n. light_changed n \<or> temp_changed n \<or> duv_changed n"
    "\<lambda>n. duv_finish (temp_finish (light_finish n))" Light_Ctl_Work light_ctl_set
    light_ctl_get light_ctl_publish "Root 14" parse_16_16_16 7 ctl_valid aim_ctl light_ctl_work_handler
    "\<lambda>n. duv_advance (temp_advance (light_advance n))" "\<lambda>n. duv_finish (temp_finish (light_finish n))"
  unfolding set_journey_def work_channels.simps by (intro conjI ctl_srv.set_server_axioms light_ctl.ramp_handler_axioms)

interpretation ctl_temp_journey: set_journey CTL_TEMP "\<lambda>n. temp_changed n \<or> duv_changed n" "\<lambda>n. duv_finish (temp_finish n)" Light_Ctl_Temp_Work
    light_ctl_temp_set light_ctl_temp_get light_ctl_temp_publish "S0 2" parse_16_16 5 ctl_temp_valid aim_ctl_temp
    light_ctl_temp_work_handler "\<lambda>n. duv_advance (temp_advance n)" "\<lambda>n. duv_finish (temp_finish n)"
  unfolding set_journey_def work_channels.simps by (intro conjI ctl_temp_srv.set_server_axioms light_ctl_temp.ramp_handler_axioms)

section \<open>Where a message aims\<close>

lemma parse_fields:
  "parse_8 (v # tid # rest) = Some (v, tid, rest)"
  "parse_16 (le16 w @ tid # rest) = Some (w, tid, rest)"
  "parse_16_16 (le16 w @ le16 x @ tid # rest) = Some ((w, x), tid, rest)"
  "parse_16_16_16 (le16 w @ le16 x @ le16 y @ tid # rest) = Some ((w, x, y), tid, rest)"
  "parse_32 (le32 d @ tid # rest) = Some (sint d, tid, rest)"
  by (simp_all add: parse_8_def parse_16_def parse_16_16_def parse_16_16_16_def parse_32_def)

lemma constrain_lightness_cong:
  "light m = light n \<Longrightarrow> constrain_lightness m v = constrain_lightness n v"
  by (simp add: constrain_lightness_def)

definition onoff_target :: "lightness \<Rightarrow> u8 \<Rightarrow> u16" where
  "onoff_target l onoff = (if onoff = 0 then 0 else if lt_def l = 0 then lt_last l else lt_def l)"

lemma onoff_values: "(v :: u8) \<le> 1 \<Longrightarrow> v = 0 \<or> v = 1"
  by (simp add: word_le_def word_uint_eq_iff) (use uint_ge_0 [of v] in linarith)

lemma set_target_onoff:
  "v \<le> STATE_ON \<Longrightarrow> set_target ONOFF (ucast v) n = Some (save_if_restore (set_light_target (onoff_target (light n) v) n))"
  by (drule onoff_values) (auto simp: set_target_def save_if_restore_def onoff_target_def)

lemma set_target_linear:
  "linear_to_actual v = Some t \<Longrightarrow>
   set_target LINEAR v n = Some (save_if_restore (set_light_target (constrain_lightness n t) n))"
  by (simp add: set_target_def save_if_restore_def Let_def constrain_lightness_def)

lemma set_target_level_temp:
  "level_to_light_ctl_temp n v = Some t \<Longrightarrow> set_target LEVEL_TEMP v n = Some (save_if_restore (set_temp_target t n))"
  by (simp add: set_target_def save_if_restore_def)

lemma level_to_temp_cong: "temp m = temp n \<Longrightarrow> level_to_light_ctl_temp m v = level_to_light_ctl_temp n v"
  by (simp add: level_to_light_ctl_temp_def)

text \<open>Reading channels as the words they are.\<close>

lemma word_eqs: "uint (v :: u16) = uint v' \<longleftrightarrow> v = v'" "sint (d :: s16) = sint d' \<longleftrightarrow> d = d'"
  by (auto dest: signed_word_eqI unsigned_word_eqI)

section \<open>The sample node\<close>

lemma sample_facts:
  "node_ok sample_node" "\<not> tid_repeated sample_env sample_ctx 7 sample_node"
  "tid_repeated sample_env sample_ctx 7 (begin_transition sample_env sample_ctx 7 0 0 NON_MOVE sample_node)"
  "opt_fields (c_tt sample_node) [0x4A, 2] = Some (0x4A, 2)" "opt_fields (c_tt sample_node) [0x7F, 0] = None"
  "opt_fields (c_tt sample_node) [] = Some (0, 0)"
  by (simp_all add: sample_defs node_ok_def temp_range_ok_def tid_repeated_def)

section \<open>A set message settles at its target\<close>

theorem gen_onoff_set_settles:
  assumes "node_ok n" "onoff \<le> STATE_ON" "\<not> tid_repeated e cx tid n"
    "opt_fields (c_tt n) opt = Some (tt, delay)" "11 \<le> length es"
  shows "returns (gen_onoff_set (Root 2) e cx (onoff # tid # opt) n \<bind> run_timer onoff_work_handler es)
    (\<lambda>n'. node_inv n' \<and> armed n' = None \<and>
       lt_current (light n') = onoff_target (light n) onoff \<and> lt_target (light n') = onoff_target (light n) onoff \<and>
       tm_current (temp n') = tm_current (temp n) \<and> dv_current (duv n') = dv_current (duv n))"
  by (rule returns_mono [OF onoff_journey.settles [OF assms(1) parse_fields(1) assms(2-5)]])
    (auto simp: set_target_onoff [OF assms(2)] all_channels word_eqs)

lemma gen_onoff_set_settles_witness:
  "returns (gen_onoff_set (Root 2) sample_env sample_ctx (1 # 7 # [0x4A, 2]) sample_node
      \<bind> run_timer onoff_work_handler (replicate 11 sample_env))
    (\<lambda>n'. node_inv n' \<and> armed n' = None \<and>
       lt_current (light n') = onoff_target (light sample_node) 1 \<and> lt_target (light n') = onoff_target (light sample_node) 1 \<and>
       tm_current (temp n') = tm_current (temp sample_node) \<and> dv_current (duv n') = dv_current (duv sample_node))"
  by (rule gen_onoff_set_settles) (simp_all add: sample_facts)

theorem gen_level_set_settles:
  assumes "node_ok n" "\<not> tid_repeated e cx tid n" "opt_fields (c_tt n) opt = Some (tt, delay)" "11 \<le> length es"
  shows "returns (gen_level_set (Root 4) e cx (le16 level @ tid # opt) n \<bind> run_timer level_lightness_work_handler es)
    (\<lambda>n'. node_inv n' \<and> armed n' = None \<and>
       lt_current (light n') = constrain_lightness n (word_of_int (sint level + 32768)) \<and>
       lt_target (light n') = lt_current (light n') \<and>
       tm_current (temp n') = tm_current (temp n) \<and> dv_current (duv n') = dv_current (duv n))"
  by (rule returns_mono [OF level_journey.settles [OF assms(1) parse_fields(2) TrueI assms(2-4)]])
    (auto simp: set_target_eqs all_channels word_eqs constrain_lightness_cong [of "begin_transition e cx tid tt delay NON_MOVE n" n])

lemma gen_level_set_settles_witness:
  "returns (gen_level_set (Root 4) sample_env sample_ctx (le16 100 @ 7 # [0x4A, 2]) sample_node
      \<bind> run_timer level_lightness_work_handler (replicate 11 sample_env))
    (\<lambda>n'. node_inv n' \<and> armed n' = None \<and>
       lt_current (light n') = constrain_lightness sample_node (word_of_int (sint (100 :: s16) + 32768)) \<and>
       lt_target (light n') = lt_current (light n') \<and>
       tm_current (temp n') = tm_current (temp sample_node) \<and> dv_current (duv n') = dv_current (duv sample_node))"
  by (rule gen_level_set_settles) (simp_all add: sample_facts)

theorem gen_level_set_temp_settles:
  assumes "node_ok n" "\<not> tid_repeated e cx tid n" "opt_fields (c_tt n) opt = Some (tt, delay)" "11 \<le> length es"
  shows "returns (gen_level_set_temp (S0 0) e cx (le16 level @ tid # opt) n \<bind> run_timer level_temp_work_handler es)
    (\<lambda>n'. node_inv n' \<and> armed n' = None \<and>
       level_to_light_ctl_temp n level = Some (tm_current (temp n')) \<and> tm_target (temp n') = tm_current (temp n') \<and>
       lt_current (light n') = lt_current (light n) \<and> dv_current (duv n') = dv_current (duv n))"
proof -
  have "returns (level_to_light_ctl_temp n level) (temp_in_range n)"
    using assms(1) by (intro level_to_light_ctl_temp_in_range) (simp add: node_ok_def)
  then obtain t where t: "level_to_light_ctl_temp n level = Some t" by (rule returnsE)
  then have t': "level_to_light_ctl_temp (begin_transition e cx tid tt delay NON_MOVE n) level = Some t"
    using level_to_temp_cong [of "begin_transition e cx tid tt delay NON_MOVE n" n] by simp
  show ?thesis
    by (rule returns_mono [OF level_temp_journey.settles [OF assms(1) parse_fields(2) TrueI assms(2-4)]])
      (auto simp: set_target_level_temp [OF t'] t all_channels word_eqs)
qed

lemma gen_level_set_temp_settles_witness:
  "returns (gen_level_set_temp (S0 0) sample_env sample_ctx (le16 100 @ 7 # [0x4A, 2]) sample_node
      \<bind> run_timer level_temp_work_handler (replicate 11 sample_env))
    (\<lambda>n'. node_inv n' \<and> armed n' = None \<and>
       level_to_light_ctl_temp sample_node 100 = Some (tm_current (temp n')) \<and> tm_target (temp n') = tm_current (temp n') \<and>
       lt_current (light n') = lt_current (light sample_node) \<and> dv_current (duv n') = dv_current (duv sample_node))"
  by (rule gen_level_set_temp_settles) (simp_all add: sample_facts)

theorem light_lightness_set_settles:
  assumes "node_ok n" "\<not> tid_repeated e cx tid n" "opt_fields (c_tt n) opt = Some (tt, delay)" "11 \<le> length es"
  shows "returns (light_lightness_set (Root 11) e cx (le16 actual @ tid # opt) n
      \<bind> run_timer light_lightness_actual_work_handler es)
    (\<lambda>n'. node_inv n' \<and> armed n' = None \<and>
       lt_current (light n') = constrain_lightness n actual \<and> lt_target (light n') = lt_current (light n') \<and>
       tm_current (temp n') = tm_current (temp n) \<and> dv_current (duv n') = dv_current (duv n))"
  by (rule returns_mono [OF actual_journey.settles [OF assms(1) parse_fields(2) TrueI assms(2-4)]])
    (auto simp: set_target_eqs all_channels word_eqs constrain_lightness_cong [of "begin_transition e cx tid tt delay NON_MOVE n" n])

lemma light_lightness_set_settles_witness:
  "returns (light_lightness_set (Root 11) sample_env sample_ctx (le16 500 @ 7 # [0x4A, 2]) sample_node
      \<bind> run_timer light_lightness_actual_work_handler (replicate 11 sample_env))
    (\<lambda>n'. node_inv n' \<and> armed n' = None \<and>
       lt_current (light n') = constrain_lightness sample_node 500 \<and> lt_target (light n') = lt_current (light n') \<and>
       tm_current (temp n') = tm_current (temp sample_node) \<and> dv_current (duv n') = dv_current (duv sample_node))"
  by (rule light_lightness_set_settles) (simp_all add: sample_facts)

theorem light_lightness_linear_set_settles:
  assumes "node_ok n" "\<not> tid_repeated e cx tid n" "opt_fields (c_tt n) opt = Some (tt, delay)" "11 \<le> length es"
  shows "returns (light_lightness_linear_set (Root 11) e cx (le16 lin @ tid # opt) n
      \<bind> run_timer light_lightness_linear_work_handler es)
    (\<lambda>n'. node_inv n' \<and> armed n' = None \<and>
       map_option (constrain_lightness n) (linear_to_actual lin) = Some (lt_current (light n')) \<and>
       lt_target (light n') = lt_current (light n') \<and>
       tm_current (temp n') = tm_current (temp n) \<and> dv_current (duv n') = dv_current (duv n))"
proof -
  obtain t where t: "linear_to_actual lin = Some t" using linear_to_actual_defined by blast
  show ?thesis
    by (rule returns_mono [OF linear_journey.settles [OF assms(1) parse_fields(2) TrueI assms(2-4)]])
      (auto simp: set_target_linear [OF t] t all_channels word_eqs
        constrain_lightness_cong [of "begin_transition e cx tid tt delay NON_MOVE n" n])
qed

lemma light_lightness_linear_set_settles_witness:
  "returns (light_lightness_linear_set (Root 11) sample_env sample_ctx (le16 500 @ 7 # []) sample_node
      \<bind> run_timer light_lightness_linear_work_handler (replicate 11 sample_env))
    (\<lambda>n'. node_inv n' \<and> armed n' = None \<and>
       map_option (constrain_lightness sample_node) (linear_to_actual 500) = Some (lt_current (light n')) \<and>
       lt_target (light n') = lt_current (light n') \<and>
       tm_current (temp n') = tm_current (temp sample_node) \<and> dv_current (duv n') = dv_current (duv sample_node))"
  by (rule light_lightness_linear_set_settles) (simp_all add: sample_facts)

lemma aim_ctl_eq: "\<exists>n1. aim_ctl (l, t, d) n = Some n1 \<and> lt_target (light n1) = constrain_lightness n l \<and>
    tm_target (temp n1) = constrain_temperature n t \<and> dv_target (duv n1) = d"
  by (simp add: aim_ctl_def set_target_eqs constrain_temperature_cong [of "save_if_restore _" n])

lemma aim_ctl_temp_eq: "\<exists>n1. aim_ctl_temp (t, d) n = Some n1 \<and> lt_target (light n1) = lt_target (light n) \<and>
    tm_target (temp n1) = constrain_temperature n t \<and> dv_target (duv n1) = d"
  by (simp add: aim_ctl_temp_def set_target_eqs)



theorem light_ctl_temp_set_settles:
  assumes "node_ok n" "TEMP_MIN \<le> tempv" "tempv \<le> TEMP_MAX" "\<not> tid_repeated e cx tid n"
    "opt_fields (c_tt n) opt = Some (tt, delay)" "11 \<le> length es"
  shows "returns (light_ctl_temp_set (S0 2) e cx (le16 tempv @ le16 delta_uv @ tid # opt) n
      \<bind> run_timer light_ctl_temp_work_handler es)
    (\<lambda>n'. node_inv n' \<and> armed n' = None \<and>
       tm_current (temp n') = constrain_temperature n tempv \<and> dv_current (duv n') = delta_uv \<and>
       tm_target (temp n') = tm_current (temp n') \<and> dv_target (duv n') = dv_current (duv n') \<and>
       lt_current (light n') = lt_current (light n))"
proof -
  let ?b = "begin_transition e cx tid tt delay NON_MOVE n"
  have v: "ctl_temp_valid (tempv, delta_uv)" using assms(2,3) by simp
  obtain n1 where n1: "aim_ctl_temp (tempv, delta_uv) ?b = Some n1"
    "tm_target (temp n1) = constrain_temperature n tempv" "dv_target (duv n1) = delta_uv"
    using aim_ctl_temp_eq [of tempv delta_uv ?b] constrain_temperature_cong [of ?b n] by auto
  show ?thesis
    by (rule returns_mono [OF ctl_temp_journey.settles [OF assms(1) parse_fields(3) v assms(4-6)]])
      (auto simp: n1 all_channels word_eqs)
qed

lemma light_ctl_temp_set_settles_witness:
  "returns (light_ctl_temp_set (S0 2) sample_env sample_ctx (le16 3000 @ le16 5 @ 7 # [0x4A, 2]) sample_node
      \<bind> run_timer light_ctl_temp_work_handler (replicate 11 sample_env))
    (\<lambda>n'. node_inv n' \<and> armed n' = None \<and>
       tm_current (temp n') = constrain_temperature sample_node 3000 \<and> dv_current (duv n') = 5 \<and>
       tm_target (temp n') = tm_current (temp n') \<and> dv_target (duv n') = dv_current (duv n') \<and>
       lt_current (light n') = lt_current (light sample_node))"
  by (rule light_ctl_temp_set_settles) (simp_all add: sample_facts)

section \<open>The way there\<close>

theorem gen_onoff_set_on_the_way:
  assumes "node_ok n" "onoff \<le> STATE_ON" "\<not> tid_repeated e cx tid n" "opt_fields (c_tt n) opt = Some (tt, delay)"
    "tt AND 0x3F \<noteq> 0" "lt_current (light n) \<noteq> onoff_target (light n) onoff"
    "int (length es) < uint (transition_counter tt)"
  shows "returns (gen_onoff_set (Root 2) e cx (onoff # tid # opt) n \<bind> run_ticks onoff_work_handler (e0 # es))
    (\<lambda>n'. let c0 = uint (lt_current (light n)); t = uint (onoff_target (light n) onoff); c = uint (lt_current (light n'))
          in armed n' = Some Onoff_Work \<and> min c0 t \<le> c \<and> c \<le> max c0 t \<and>
             c = c0 - int (length es) * c_div (c0 - t) (uint (transition_counter tt)))"
proof -
  let ?b = "begin_transition e cx tid tt delay NON_MOVE n"
  let ?n1 = "save_if_restore (set_light_target (onoff_target (light n) onoff) ?b)"
  have n1: "set_target ONOFF (ucast onoff) ?b = Some ?n1" using set_target_onoff [OF assms(2), of ?b] by simp
  have "\<exists>c \<in> work_channels Onoff_Work. cur c n \<noteq> tgt c ?n1" using assms(6) by (simp add: word_eqs)
  from onoff_journey.on_the_way [OF assms(1) parse_fields(1) assms(2-5) n1 this assms(7)]
  show ?thesis by (rule returns_mono) (simp add: Let_def)
qed

lemma gen_onoff_set_on_the_way_witness:
  "returns (gen_onoff_set (Root 2) sample_env sample_ctx (1 # 7 # [0x4A, 2]) sample_node
      \<bind> run_ticks onoff_work_handler (sample_env # [sample_env, sample_env]))
    (\<lambda>n'. let c0 = uint (lt_current (light sample_node)); t = uint (onoff_target (light sample_node) 1);
              c = uint (lt_current (light n'))
          in armed n' = Some Onoff_Work \<and> min c0 t \<le> c \<and> c \<le> max c0 t \<and>
             c = c0 - int (length [sample_env, sample_env]) * c_div (c0 - t) (uint (transition_counter 0x4A)))"
  by (rule gen_onoff_set_on_the_way) (simp_all add: sample_facts,
      simp_all add: sample_defs onoff_target_def transition_counter_def tt_duration_def tt_unit_def)

section \<open>Retransmissions and refusals\<close>

text \<open>
  What a retransmission causes: one status message that begins with the present value, perhaps the
  print of an error, and nothing else but a recomputed remaining time.
\<close>

definition answered :: "opcode \<Rightarrow> u8 list option \<Rightarrow> node \<Rightarrow> node \<Rightarrow> bool" where
  "answered op present n n' \<longleftrightarrow> quiet n n' \<and> (\<exists>p rest evs. present = Some p \<and>
     trace n' = trace n @ Mesh_model_send op (p @ rest) # evs \<and> (\<forall>ev \<in> set evs. \<exists>msg args. ev = Printk msg args))"

lemma add_target_keeps:
  "add_target e b t p n = Some (p', n') \<Longrightarrow> trace n' = trace n \<and> (\<exists>rest. p' = p @ rest)"
  by (auto simp: add_target_def Let_def bind_eq_Some_conv split: if_splits)

lemma model_send_trace:
  "model_send e cap op p err n = Some n' \<Longrightarrow>
   \<exists>evs. trace n' = trace n @ Mesh_model_send op p # evs \<and> (\<forall>ev \<in> set evs. \<exists>msg args. ev = Printk msg args)"
  by (auto simp: model_send_def emit_def split: if_splits)

lemma status_answered:
  assumes "returns (present \<bind> (\<lambda>p. add_target e b t p n \<bind> (\<lambda>(p, n). model_send e cap op p err n))) (quiet n)"
  shows "returns (present \<bind> (\<lambda>p. add_target e b t p n \<bind> (\<lambda>(p, n). model_send e cap op p err n))) (answered op present n)"
proof -
  obtain p p' n1 n2 where p: "present = Some p" "add_target e b t p n = Some (p', n1)" "model_send e cap op p' err n1 = Some n2" "quiet n n2"
    using assms by (auto simp: returns_eq_Some bind_eq_Some_conv)
  obtain rest where r: "p' = p @ rest" "trace n1 = trace n" using add_target_keeps [OF p(2)] by blast
  have "answered op (Some p) n n2"
    unfolding answered_def using p(4) model_send_trace [OF p(3)] r by auto
  with p show ?thesis by simp
qed

lemma statuses_answered:
  assumes "node_ok n"
  shows "returns (gen_onoff_get m e cx buf n) (answered GEN_ONOFF_STATUS (map_option (\<lambda>i. [word_of_int i]) (get_current ONOFF n)) n)"
    "returns (gen_level_get m e cx buf n) (answered GEN_LEVEL_STATUS (cur16 LEVEL_LIGHT n) n)"
    "returns (gen_level_get_temp m e cx buf n) (answered GEN_LEVEL_STATUS (cur16 LEVEL_TEMP n) n)"
    "returns (light_lightness_get m e cx buf n) (answered LIGHT_LIGHTNESS_STATUS (cur16 ACTUAL n) n)"
    "returns (light_lightness_linear_get m e cx buf n) (answered LIGHT_LIGHTNESS_LINEAR_STATUS (cur16 LINEAR n) n)"
    "returns (light_ctl_get m e cx buf n) (answered LIGHT_CTL_STATUS (cur32 CTL_LIGHT CTL_TEMP n) n)"
    "returns (light_ctl_temp_get m e cx buf n) (answered LIGHT_CTL_TEMP_STATUS (cur32 CTL_TEMP CTL_DELTA_UV n) n)"
proof -
  obtain i where i: "get_current ONOFF n = Some i" using get_current_defined [OF assms] by blast
  have "gen_onoff_get m e cx buf n = (map_option (\<lambda>i. [word_of_int i]) (get_current ONOFF n) \<bind> (\<lambda>p. add_target e
       (lt_current (light n) \<noteq> lt_target (light n) \<and> tr_counter (trans n) \<noteq> 0)
       (\<lambda>n. map_option (\<lambda>t. [word_of_int t]) (get_target ONOFF n)) p n \<bind> (\<lambda>(p, n).
     model_send e (2 + 3 + 4) GEN_ONOFF_STATUS p ''Unable to send GEN_ONOFF_SRV Status response'' n)))"
    by (simp only: gen_onoff_get_def i option.map Option.bind.bind_lunit)
  then show "returns (gen_onoff_get m e cx buf n) (answered GEN_ONOFF_STATUS (map_option (\<lambda>i. [word_of_int i]) (get_current ONOFF n)) n)"
    using gen_onoff_get_quiet [OF assms, of m e cx buf] by (simp only: status_answered)
  show "returns (gen_level_get m e cx buf n) (answered GEN_LEVEL_STATUS (cur16 LEVEL_LIGHT n) n)"
    "returns (gen_level_get_temp m e cx buf n) (answered GEN_LEVEL_STATUS (cur16 LEVEL_TEMP n) n)"
    "returns (light_lightness_get m e cx buf n) (answered LIGHT_LIGHTNESS_STATUS (cur16 ACTUAL n) n)"
    "returns (light_lightness_linear_get m e cx buf n) (answered LIGHT_LIGHTNESS_LINEAR_STATUS (cur16 LINEAR n) n)"
    "returns (light_ctl_get m e cx buf n) (answered LIGHT_CTL_STATUS (cur32 CTL_LIGHT CTL_TEMP n) n)"
    "returns (light_ctl_temp_get m e cx buf n) (answered LIGHT_CTL_TEMP_STATUS (cur32 CTL_TEMP CTL_DELTA_UV n) n)"
    unfolding gen_level_get_def gen_level_get_temp_def light_lightness_get_def light_lightness_linear_get_def light_ctl_get_def
      light_ctl_temp_get_def
    by (rule status_answered, rule send_status_quiet [OF assms], simp)+
qed

text \<open>
  C6: In each of the nine acknowledged set and move handlers, a message whose transaction
  identifier, source and destination are those of the last message of the past six seconds, with an
  on/off value and a temperature that are valid, received in a state whose temperatures lie in a
  proper range, is answered by exactly one status message of the model's kind that begins with the
  present value; nothing else happens but the print of an error, and the light, the transition and
  the timer stay as they are.
\<close>

theorem retransmission_only_answered:
  assumes "node_ok n" "tid_repeated e cx tid n" "onoff \<le> STATE_ON" "TEMP_MIN \<le> tempv" "tempv \<le> TEMP_MAX"
  shows "returns (gen_onoff_set m e cx (onoff # tid # opt) n)
      (answered GEN_ONOFF_STATUS (map_option (\<lambda>i. [word_of_int i]) (get_current ONOFF n)) n) \<and>
    returns (gen_level_set m e cx (le16 x @ tid # opt) n) (answered GEN_LEVEL_STATUS (cur16 LEVEL_LIGHT n) n) \<and>
    returns (gen_move_set m e cx (le16 x @ tid # opt) n) (answered GEN_LEVEL_STATUS (cur16 LEVEL_LIGHT n) n) \<and>
    returns (gen_level_set_temp m e cx (le16 x @ tid # opt) n) (answered GEN_LEVEL_STATUS (cur16 LEVEL_TEMP n) n) \<and>
    returns (gen_move_set_temp m e cx (le16 x @ tid # opt) n) (answered GEN_LEVEL_STATUS (cur16 LEVEL_TEMP n) n) \<and>
    returns (light_lightness_set m e cx (le16 x @ tid # opt) n) (answered LIGHT_LIGHTNESS_STATUS (cur16 ACTUAL n) n) \<and>
    returns (light_lightness_linear_set m e cx (le16 x @ tid # opt) n) (answered LIGHT_LIGHTNESS_LINEAR_STATUS (cur16 LINEAR n) n) \<and>
    returns (light_ctl_set m e cx (le16 x @ le16 tempv @ le16 y @ tid # opt) n)
      (answered LIGHT_CTL_STATUS (cur32 CTL_LIGHT CTL_TEMP n) n) \<and>
    returns (light_ctl_temp_set m e cx (le16 tempv @ le16 y @ tid # opt) n)
      (answered LIGHT_CTL_TEMP_STATUS (cur32 CTL_TEMP CTL_DELTA_UV n) n)"
proof -
  have "\<not> STATE_ON < onoff" "\<not> tempv < TEMP_MIN" "\<not> TEMP_MAX < tempv" using assms(3-5) by simp_all
  then show ?thesis using assms(2) statuses_answered [OF assms(1)]
  by (simp add: gen_onoff_set_def gen_level_set_def gen_move_set_def gen_level_set_temp_def gen_move_set_temp_def
      light_lightness_set_def light_lightness_linear_set_def light_ctl_set_def light_ctl_temp_set_def)
qed

lemma retransmission_only_answered_witness:
  "returns (gen_onoff_set (Root 2) sample_env sample_ctx (1 # 7 # [])
      (begin_transition sample_env sample_ctx 7 0 0 NON_MOVE sample_node))
     (answered GEN_ONOFF_STATUS (Some [0]) (begin_transition sample_env sample_ctx 7 0 0 NON_MOVE sample_node))"
proof -
  let ?n = "begin_transition sample_env sample_ctx 7 0 0 NON_MOVE sample_node"
  have cur: "map_option (\<lambda>i. [word_of_int i :: u8]) (get_current ONOFF ?n) = Some [0]" by code_simp
  have "returns (gen_onoff_set (Root 2) sample_env sample_ctx (1 # 7 # []) ?n)
      (answered GEN_ONOFF_STATUS (map_option (\<lambda>i. [word_of_int i]) (get_current ONOFF ?n)) ?n)"
    by (rule retransmission_only_answered [where tempv = TEMP_MIN, THEN conjunct1]) (simp_all add: sample_facts)
  then show ?thesis unfolding cur .
qed

theorem unack_retransmission_ignored:
  assumes "tid_repeated e cx tid n"
  shows "gen_onoff_set_unack m e cx (b # tid # opt) n = Some n \<and>
    gen_level_set_unack m e cx (le16 x @ tid # opt) n = Some n \<and>
    gen_move_set_unack m e cx (le16 x @ tid # opt) n = Some n \<and>
    gen_level_set_unack_temp m e cx (le16 x @ tid # opt) n = Some n \<and>
    gen_move_set_unack_temp m e cx (le16 x @ tid # opt) n = Some n \<and>
    light_lightness_set_unack m e cx (le16 x @ tid # opt) n = Some n \<and>
    light_lightness_linear_set_unack m e cx (le16 x @ tid # opt) n = Some n \<and>
    light_ctl_set_unack m e cx (le16 x @ le16 y @ le16 z @ tid # opt) n = Some n \<and>
    light_ctl_temp_set_unack m e cx (le16 x @ le16 y @ tid # opt) n = Some n"
  using assms
  by (simp add: gen_onoff_set_unack_def gen_level_set_unack_def gen_move_set_unack_def gen_level_set_unack_temp_def
      gen_move_set_unack_temp_def light_lightness_set_unack_def light_lightness_linear_set_unack_def
      light_ctl_set_unack_def light_ctl_temp_set_unack_def)

lemma unack_retransmission_ignored_witness:
  "gen_onoff_set_unack (Root 2) sample_env sample_ctx (1 # 7 # []) (begin_transition sample_env sample_ctx 7 0 0 NON_MOVE sample_node)
     = Some (begin_transition sample_env sample_ctx 7 0 0 NON_MOVE sample_node)"
  using unack_retransmission_ignored [of sample_env sample_ctx 7 "begin_transition sample_env sample_ctx 7 0 0 NON_MOVE sample_node"
      "Root 2" 1 "[]"] sample_facts by simp

theorem bad_transition_fields_ignored:
  assumes "\<not> tid_repeated e cx tid n" "opt_fields (c_tt n) opt = None"
  shows "gen_onoff_set m e cx (b # tid # opt) n = Some n \<and>
    gen_level_set m e cx (le16 x @ tid # opt) n = Some n \<and>
    gen_move_set m e cx (le16 x @ tid # opt) n = Some n \<and>
    gen_level_set_temp m e cx (le16 x @ tid # opt) n = Some n \<and>
    gen_move_set_temp m e cx (le16 x @ tid # opt) n = Some n \<and>
    light_lightness_set m e cx (le16 x @ tid # opt) n = Some n \<and>
    light_lightness_linear_set m e cx (le16 x @ tid # opt) n = Some n \<and>
    light_ctl_set m e cx (le16 x @ le16 y @ le16 z @ tid # opt) n = Some n \<and>
    light_ctl_temp_set m e cx (le16 x @ le16 y @ tid # opt) n = Some n"
  using assms
  by (simp add: gen_onoff_set_def gen_level_set_def gen_move_set_def gen_level_set_temp_def gen_move_set_temp_def
      light_lightness_set_def light_lightness_linear_set_def light_ctl_set_def light_ctl_temp_set_def)

lemma bad_transition_fields_ignored_witness:
  "gen_onoff_set (Root 2) sample_env sample_ctx (1 # 7 # [0x7F, 0]) sample_node = Some sample_node"
  using bad_transition_fields_ignored [of sample_env sample_ctx 7 sample_node "[0x7F, 0]" "Root 2" 1] sample_facts by blast

lemma opt_fields_None: "opt_fields def_tt opt = None \<longleftrightarrow>
    length opt \<noteq> 0 \<and> (length opt \<noteq> 2 \<or> hd opt AND 0x3F = 0x3F)"
  by (cases "(def_tt, opt)" rule: opt_fields.cases) auto

theorem out_of_range_values_ignored:
  assumes "STATE_ON < onoff" "tempv < TEMP_MIN \<or> TEMP_MAX < tempv"
  shows "gen_onoff_set m e cx (onoff # tid # opt) n = Some n \<and>
    gen_onoff_set_unack m e cx (onoff # tid # opt) n = Some n \<and>
    light_ctl_set m e cx (le16 x @ le16 tempv @ le16 y @ tid # opt) n = Some n \<and>
    light_ctl_set_unack m e cx (le16 x @ le16 tempv @ le16 y @ tid # opt) n = Some n \<and>
    light_ctl_temp_set m e cx (le16 tempv @ le16 y @ tid # opt) n = Some n \<and>
    light_ctl_temp_set_unack m e cx (le16 tempv @ le16 y @ tid # opt) n = Some n \<and>
    light_ctl_default_set m e cx (le16 x @ le16 tempv @ le16 y) n = Some n \<and>
    light_ctl_default_set_unack m e cx (le16 x @ le16 tempv @ le16 y) n = Some n"
  using assms pull_le16_le16 [of y "[]"]
  by (simp add: gen_onoff_set_def gen_onoff_set_unack_def light_ctl_set_def light_ctl_set_unack_def
      light_ctl_temp_set_def light_ctl_temp_set_unack_def light_ctl_default_set_def light_ctl_default_set_unack_def)

lemma out_of_range_values_ignored_witness:
  "light_ctl_set (Root 14) sample_env sample_ctx (le16 0 @ le16 799 @ le16 0 @ 7 # []) sample_node = Some sample_node"
  using out_of_range_values_ignored [of 2 799 "Root 14" sample_env sample_ctx 7 "[]" sample_node 0 0] by simp

theorem set_message_taken_once:
  assumes "node_ok n" "onoff \<le> STATE_ON" "\<not> tid_repeated e cx tid n" "opt_fields (c_tt n) opt = Some (tt, delay)"
    "e_now e' - e_now e \<le> 6000"
  shows "returns (gen_onoff_set (Root 2) e cx (onoff # tid # opt) n)
    (\<lambda>n1. returns (gen_onoff_set (Root 2) e' cx (onoff # tid # opt) n1) (quiet n1))"
  by (rule gen_onoff.taken_once [OF assms(1) parse_fields(1) assms(2-5)])

lemma set_message_taken_once_witness:
  "returns (gen_onoff_set (Root 2) sample_env sample_ctx (1 # 7 # [0x4A, 2]) sample_node)
    (\<lambda>n1. returns (gen_onoff_set (Root 2) (sample_env\<lparr>e_now := 16000\<rparr>) sample_ctx (1 # 7 # [0x4A, 2]) n1) (quiet n1))"
  by (rule set_message_taken_once) (simp_all add: sample_facts, simp add: sample_defs)

section \<open>Acknowledged and unacknowledged messages move the light alike\<close>

interpretation onoff_pair: set_pair ONOFF light_changed light_finish Onoff_Work gen_onoff_set
    gen_onoff_get gen_onoff_publish "Root 2" parse_8 2 "\<lambda>v. v \<le> STATE_ON" "\<lambda>v. set_target ONOFF (ucast v)" gen_onoff_set_unack
  unfolding set_pair_def by (intro conjI gen_onoff.set_server_axioms gen_onoff_unack.set_server_axioms)

interpretation level_pair: set_pair LEVEL_LIGHT light_changed light_finish Level_Lightness_Work gen_level_set
    gen_level_get gen_level_publish "Root 4" parse_16 3 "\<lambda>v. True" "set_target LEVEL_LIGHT" gen_level_set_unack
  unfolding set_pair_def by (intro conjI level_srv.set_server_axioms level_unack_srv.set_server_axioms)

interpretation level_temp_pair: set_pair LEVEL_TEMP temp_changed temp_finish Level_Temp_Work gen_level_set_temp
    gen_level_get_temp gen_level_publish_temp "S0 0" parse_16 3 "\<lambda>v. True" "set_target LEVEL_TEMP" gen_level_set_unack_temp
  unfolding set_pair_def by (intro conjI level_temp_srv.set_server_axioms level_unack_temp_srv.set_server_axioms)

interpretation actual_pair: set_pair ACTUAL light_changed light_finish Lightness_Actual_Work light_lightness_set
    light_lightness_get light_lightness_publish "Root 11" parse_16 3 "\<lambda>v. True" "set_target ACTUAL" light_lightness_set_unack
  unfolding set_pair_def by (intro conjI actual_srv.set_server_axioms actual_unack_srv.set_server_axioms)

interpretation linear_pair: set_pair LINEAR light_changed light_finish Lightness_Linear_Work light_lightness_linear_set
    light_lightness_linear_get light_lightness_linear_publish "Root 11" parse_16 3 "\<lambda>v. True" "set_target LINEAR"
    light_lightness_linear_set_unack
  unfolding set_pair_def by (intro conjI linear_srv.set_server_axioms linear_unack_srv.set_server_axioms)

interpretation ctl_pair: set_pair CTL_LIGHT "\<lambda>n. light_changed n \<or> temp_changed n \<or> duv_changed n"
    "\<lambda>n. duv_finish (temp_finish (light_finish n))" Light_Ctl_Work light_ctl_set
    light_ctl_get light_ctl_publish "Root 14" parse_16_16_16 7 ctl_valid aim_ctl light_ctl_set_unack
  unfolding set_pair_def by (intro conjI ctl_srv.set_server_axioms ctl_unack_srv.set_server_axioms)

interpretation ctl_temp_pair: set_pair CTL_TEMP "\<lambda>n. temp_changed n \<or> duv_changed n" "\<lambda>n. duv_finish (temp_finish n)"
    Light_Ctl_Temp_Work light_ctl_temp_set light_ctl_temp_get light_ctl_temp_publish "S0 2" parse_16_16 5 ctl_temp_valid
    aim_ctl_temp light_ctl_temp_set_unack
  unfolding set_pair_def by (intro conjI ctl_temp_srv.set_server_axioms ctl_temp_unack_srv.set_server_axioms)

text \<open>
  C7: For each of the seven set messages the acknowledged and the unacknowledged handler do the same
  to the light: whatever the payload of at least the length the table of the model asks for, they
  leave the same present values, targets and timer, in every state whose temperatures lie in a
  proper range.
\<close>

theorem ack_unack_same_light:
  assumes "node_ok n" "2 \<le> length b" "3 \<le> length w" "7 \<le> length c" "5 \<le> length t"
  shows "returns (gen_onoff_set (Root 2) e cx b n) (\<lambda>a. returns (gen_onoff_set_unack (Root 2) e cx b n) (same_channels a)) \<and>
    returns (gen_level_set (Root 4) e cx w n) (\<lambda>a. returns (gen_level_set_unack (Root 4) e cx w n) (same_channels a)) \<and>
    returns (gen_level_set_temp (S0 0) e cx w n) (\<lambda>a. returns (gen_level_set_unack_temp (S0 0) e cx w n) (same_channels a)) \<and>
    returns (light_lightness_set (Root 11) e cx w n)
      (\<lambda>a. returns (light_lightness_set_unack (Root 11) e cx w n) (same_channels a)) \<and>
    returns (light_lightness_linear_set (Root 11) e cx w n)
      (\<lambda>a. returns (light_lightness_linear_set_unack (Root 11) e cx w n) (same_channels a)) \<and>
    returns (light_ctl_set (Root 14) e cx c n) (\<lambda>a. returns (light_ctl_set_unack (Root 14) e cx c n) (same_channels a)) \<and>
    returns (light_ctl_temp_set (S0 2) e cx t n)
      (\<lambda>a. returns (light_ctl_temp_set_unack (S0 2) e cx t n) (same_channels a))"
  using assms by (intro conjI onoff_pair.same level_pair.same level_temp_pair.same actual_pair.same linear_pair.same
      ctl_pair.same ctl_temp_pair.same) simp_all

text \<open>Well formed messages with a transition time, each of which starts a transition.\<close>

lemma ack_unack_same_light_witness:
  "returns (gen_onoff_set (Root 2) sample_env sample_ctx [1, 7, 0x4A, 2] sample_node)
     (\<lambda>a. returns (gen_onoff_set_unack (Root 2) sample_env sample_ctx [1, 7, 0x4A, 2] sample_node) (same_channels a)) \<and>
   returns (light_ctl_set (Root 14) sample_env sample_ctx [0, 128, 0xB8, 0x0B, 0, 0, 7, 0x4A, 2] sample_node)
     (\<lambda>a. returns (light_ctl_set_unack (Root 14) sample_env sample_ctx [0, 128, 0xB8, 0x0B, 0, 0, 7, 0x4A, 2] sample_node) (same_channels a))"
proof -
  let ?b = "[1, 7, 0x4A, 2] :: u8 list" and ?c = "[0, 128, 0xB8, 0x0B, 0, 0, 7, 0x4A, 2] :: u8 list"
  have "node_ok sample_node" by (simp add: sample_facts)
  from ack_unack_same_light [OF this, of ?b ?b ?c ?c sample_env sample_ctx] show ?thesis by simp
qed

section \<open>Delta and move messages\<close>

interpretation delta_trip: delta_journey LEVEL_LIGHT light_changed light_finish Level_Lightness_Work gen_delta_set
    gen_level_get gen_level_publish "Root 4" DELTA_LEVEL_LIGHT "get_current LEVEL_LIGHT" "\<lambda>n. lt_delta (light n)"
    ll_delta_set "\<lambda>v n. n\<lparr>ll_delta_set := v\<rparr>" level_lightness_work_handler light_advance light_finish
  unfolding delta_journey_def work_channels.simps by (intro conjI delta_srv.delta_server_axioms level_lightness.ramp_handler_axioms)

interpretation delta_temp_trip: delta_journey LEVEL_TEMP temp_changed temp_finish Level_Temp_Work gen_delta_set_temp
    gen_level_get_temp gen_level_publish_temp "S0 0" LEVEL_TEMP "get_current LEVEL_TEMP" "\<lambda>n. tm_delta (temp n)"
    ll_delta_set_temp "\<lambda>v n. n\<lparr>ll_delta_set_temp := v\<rparr>" level_temp_work_handler temp_advance temp_finish
  unfolding delta_journey_def work_channels.simps by (intro conjI delta_temp_srv.delta_server_axioms level_temp.ramp_handler_axioms)

text \<open>With the full range, a delta message adds to the lightness and saturates at its ends.\<close>

lemma level_of_lightness: "get_current LEVEL_LIGHT n = Some (uint (lt_current (light n)) - 32768)"
proof -
  have "- 32768 \<le> uint (lt_current (light n)) - 32768" "uint (lt_current (light n)) - 32768 \<le> 32767"
    using uint_ge_0 [of "lt_current (light n)"] uint_le_65535 [of "lt_current (light n)"] by linarith+
  then show ?thesis using sint_of_int_s16 [of "uint (lt_current (light n)) - 32768"] by (simp add: get_current_def)
qed

lemma clamp16_range: "- 32768 \<le> clamp16 i" "clamp16 i \<le> 32767"
  by (simp_all add: clamp16_def)

lemma no_word_between: "(m :: u16) \<le> 1 \<Longrightarrow> \<not> (0 < t \<and> t < m)"
  unfolding word_less_def word_le_def uint_0_eq uint_1_eq by linarith

lemma constrain2_full:
  assumes "lt_range_min (light n) \<le> 1" "lt_range_max (light n) = 65535"
  shows "constrain_target_lightness2 (set_light_target t n) = set_light_target t n"
proof -
  have "\<not> t > lt_range_max (light n)" using assms(2) uint_le_65535 [of t] by (simp add: word_le_def not_less)
  then show ?thesis using no_word_between [OF assms(1), of t] by (auto simp: constrain_target_lightness2_def)
qed

lemma set_target_delta_full:
  assumes "lt_range_min (light n) \<le> 1" "lt_range_max (light n) = 65535" "- 32768 \<le> i" "i \<le> 32767"
  shows "set_target DELTA_LEVEL_LIGHT (word_of_int i) n = Some (save_if_restore (set_light_target (word_of_int (i + 32768)) n))"
  using sint_of_int_s16 [OF assms(3,4)] constrain2_full [OF assms(1,2)]
  by (simp add: set_target_def save_if_restore_def)

theorem gen_delta_set_settles:
  assumes "node_ok n" "\<not> tid_repeated e cx tid n" "opt_fields (c_tt n) opt = Some (tt, delay)" "11 \<le> length es"
    "lt_range_min (light n) \<le> 1" "lt_range_max (light n) = 65535" "delta_fits (sint delta)"
  shows "returns (gen_delta_set (Root 4) e cx (le32 delta @ tid # opt) n \<bind> run_timer level_lightness_work_handler es)
    (\<lambda>n'. node_inv n' \<and> armed n' = None \<and> lt_target (light n') = lt_current (light n') \<and>
       uint (lt_current (light n')) = max 0 (min 65535 (uint (lt_current (light n)) + sint delta)))"
proof -
  let ?i = "uint (lt_current (light n)) - 32768"
  let ?n = "n\<lparr>ll_delta_set := word_of_int ?i\<rparr>"
  let ?c = "clamp16 (?i + sint delta)"
  have i: "sint (word_of_int ?i :: s16) = ?i"
    using uint_ge_0 [of "lt_current (light n)"] uint_le_65535 [of "lt_current (light n)"] by (intro sint_of_int_s16) linarith+
  have t: "set_target DELTA_LEVEL_LIGHT (word_of_int ?c) (begin_transition e cx tid tt delay NON_MOVE ?n) =
      Some (save_if_restore (set_light_target (word_of_int (?c + 32768)) (begin_transition e cx tid tt delay NON_MOVE ?n)))"
    by (rule set_target_delta_full) (use assms(5,6) clamp16_range in simp_all)
  have u: "uint (word_of_int (?c + 32768) :: u16) = max 0 (min 65535 (uint (lt_current (light n)) + sint delta))"
    using clamp16_range [of "?i + sint delta"] by (subst uint_of_int_u16) (auto simp: clamp16_def)
  then have u: "uint (word_of_int ?c + 32768 :: u16) = max 0 (min 65535 (uint (lt_current (light n)) + sint delta))" by simp
  show ?thesis
    by (rule returns_mono [OF delta_trip.settles [OF assms(1) parse_fields(5) assms(2,7,3) level_of_lightness assms(4)]])
      (auto simp only: i t option.inject all_channels, auto simp: word_eqs, simp add: u)
qed

lemma gen_delta_set_settles_witness:
  "returns (gen_delta_set (Root 4) sample_env sample_ctx (le32 100 @ 7 # [0x4A, 2]) sample_node
      \<bind> run_timer level_lightness_work_handler (replicate 11 sample_env))
    (\<lambda>n'. node_inv n' \<and> armed n' = None \<and> lt_target (light n') = lt_current (light n') \<and>
       uint (lt_current (light n')) = max 0 (min 65535 (uint (lt_current (light sample_node)) + sint (100 :: u32))))"
  by (rule gen_delta_set_settles) (simp_all add: sample_facts, simp_all add: sample_defs delta_fits_def)

text \<open>
  A move message with a transition time: after \<open>length es\<close> steps the lightness is that many deltas
  on, or at the end of the range, where the timer has been stopped.
\<close>

lemma light_bounds_aimed: "aimed n n1 \<Longrightarrow>
    lt_range_min (light n1) = lt_range_min (light n) \<and> lt_range_max (light n1) = lt_range_max (light n)"
  by (simp add: aimed_fields)

lemma temp_bounds_aimed: "aimed n n1 \<Longrightarrow>
    tm_range_min (temp n1) = tm_range_min (temp n) \<and> tm_range_max (temp n1) = tm_range_max (temp n)"
  by (simp add: aimed_fields)

lemma put_delta_views:
  "dlt Light_ch (set_light_delta d n) = d" "cur c (set_light_delta d n) = cur c n"
  "dlt Temp_ch (set_temp_delta d n) = d" "cur c (set_temp_delta d n) = cur c n"
  by (cases c; simp)+

interpretation move_trip: move_journey gen_move_set gen_level_get gen_level_publish "Root 4"
    MOVE_LIGHT light_changed "\<lambda>n. lt_range_min (light n)" "\<lambda>n. lt_range_max (light n)" "\<lambda>n. lt_current (light n)" set_light_delta
    Level_Lightness_Work level_lightness_work_handler Light_ch set_light_current
  unfolding move_journey_def
  by (intro conjI move_srv.move_server_axioms lightness_move.move_handler_axioms move_journey_axioms.intro)
    (auto simp: set_target_eqs changed_channels put_delta_views light_bounds_aimed simp del: cur.simps dlt.simps)

interpretation move_temp_trip: move_journey gen_move_set_temp gen_level_get_temp gen_level_publish_temp "S0 0"
    MOVE_TEMP temp_changed "\<lambda>n. tm_range_min (temp n)" "\<lambda>n. tm_range_max (temp n)" "\<lambda>n. tm_current (temp n)" set_temp_delta
    Level_Temp_Work level_temp_work_handler Temp_ch set_temp_current
  unfolding move_journey_def
  by (intro conjI move_temp_srv.move_server_axioms temp_move.move_handler_axioms move_journey_axioms.intro)
    (auto simp: set_target_eqs changed_channels put_delta_views temp_bounds_aimed simp del: cur.simps dlt.simps)




end
