(* ===== verification/NodeBehaviour.thy ===== *)
theory NodeBehaviour
  imports Persistence Servers
begin

text \<open>
  What the node as a whole guarantees, in every state it can reach after a boot: each stimulus is
  taken within defined C, the light moves as the abstract lamp does, transitions end at their
  targets, and every opcode has one handler. Then the messages a peer's buttons cause.
\<close>

section \<open>Every reachable state\<close>

lemma sample_boot_ok: "boot_ok sample_boot"
  by (simp add: boot_ok_def sample_boot_def bt_ready_def before_bluetooth_def ps_settings_init_def
      light_default_var_init_def settings_load_def stored_temp_range_ok_def node_zero_def Let_def)

lemma booted: "returns (node_main sample_boot node_zero) (reachable sample_boot)"
proof -
  obtain n where "node_main sample_boot node_zero = Some n" using node_main_returns [OF sample_boot_ok] by (rule returnsE)
  then show ?thesis using reachable.boot [OF sample_boot_ok] by simp
qed






text \<open>The node after its first boot: lit, with nothing received yet.\<close>

definition fresh :: "node \<Rightarrow> bool" where
  "fresh n \<longleftrightarrow> reachable sample_boot n \<and> lt_current (light n) = LIGHTNESS_MAX \<and> c_tt n = 0 \<and> c_last_tid n = 0"

lemma booted_fresh: "returns (node_main sample_boot node_zero) fresh"
proof -
  let ?s = "light_default_status_init (bt_ready sample_boot (before_bluetooth sample_boot))"
  have s: "lt_current (light ?s) = LIGHTNESS_MAX" "c_tt ?s = 0" "c_last_tid ?s = 0"
    by (simp_all add: light_default_status_init_def power_up_values_def constrain_stored_def retrieve_ranges_def
        constrain_lightness_def sample_boot_def bt_ready_def before_bluetooth_def ps_settings_init_def
        light_default_var_init_def settings_load_def node_zero_def Let_def)
  obtain n where n: "node_main sample_boot node_zero = Some n" "reachable sample_boot n"
    using booted by (rule returnsE)
  obtain m where m: "update_light_state ?s = Some m"
    "n = emit (K_timer_start Reset_Counter_Timer 7000 0) (short_time_multireset_bt_mesh_unprovisioning m)"
    using n(1) unfolding node_main_eq [OF conjunct1 [OF sample_boot_ok [unfolded boot_ok_def]]]
    by (auto simp: bind_eq_Some_conv)
  have "node_ok ?s" using sample_boot_ok bt_ready_bounds [of "before_bluetooth sample_boot" sample_boot]
    by (intro status_init_ok retrieve_ranges_temp_ok) (simp_all add: same_bounds_def before_bluetooth_bounds boot_ok_def)
  then have "quiet (?s\<lparr>reset_done := True\<rparr>) m" using update_light_state_quiet [OF node_ok_led_ok] m(1) by fastforce
  from quiet_fields [OF this] s
  have "lt_current (light m) = LIGHTNESS_MAX" "c_tt m = 0" "c_last_tid m = 0" by simp_all
  then have "fresh n" unfolding m(2) using n(2)
    by (simp add: fresh_def m(2) [symmetric]) (simp add: m(2) short_time_multireset_bt_mesh_unprovisioning_def save_on_flash_def)
  then show ?thesis using n(1) by simp
qed

lemma fresh_switched_off:
  assumes "fresh n"
  shows "returns (gen_onoff_set (Root 2) sample_env sample_ctx [0, 7, 0x4A, 2] n)
    (\<lambda>n'. reachable sample_boot n' \<and> armed n' = Some Onoff_Work \<and> tr_type (trans n') \<noteq> MOVE \<and> uint (tr_counter (trans n')) + 1 \<le> 11)"
proof -
  have f: "reachable sample_boot n" "node_ok n" "cur Light_ch n = 65535" "\<not> tid_repeated sample_env sample_ctx 7 n"
    using assms reachable_inv [of sample_boot n] by (simp_all add: fresh_def node_inv_def tid_repeated_def)
  have p: "parse_8 [0, 7, 0x4A, 2] = Some (0, 7, [0x4A, 2])" by (simp add: parse_8_def)
  have o: "opt_fields (c_tt n) [0x4A, 2] = Some (0x4A, 2)" by simp
  from gen_onoff.accepted [OF f(2) p _ f(4) o] obtain n' n1 where n':
    "gen_onoff_set (Root 2) sample_env sample_ctx [0, 7, 0x4A, 2] n = Some n'"
    "set_target ONOFF (ucast (0 :: u8)) (begin_transition sample_env sample_ctx 7 0x4A 2 NON_MOVE n) = Some n1"
    "aimed (begin_transition sample_env sample_ctx 7 0x4A 2 NON_MOVE n) n1" "started Onoff_Work n1 n'"
    by (auto elim: returnsE)
  have "tgt Light_ch n1 = 0" using n'(2) by (simp add: set_target_def split: if_splits) (auto simp: save_on_flash_def)
  then have c: "\<not> (\<forall>c \<in> work_channels Onoff_Work. cur c n1 = tgt c n1)" using aimed_fields(14) [OF n'(3)] f(3) by simp
  have tt: "tr_tt (trans n1) = 0x4A" using aimed_fields(1) [OF n'(3)] by simp
  then have "tr_tt (trans n1) AND 0x3F \<noteq> 0" by simp
  note m = started_moving [OF n'(4) c this]
  have "reachable sample_boot n'"
    using reachable.stimulus [OF f(1), of "Message (Root 2) (OP_2 0x82 0x02) sample_env sample_ctx [0, 7, 0x4A, 2]"] n'(1)
    by (simp add: message_fits_def deliver_def root_models_def gen_onoff_srv_op_def)
  moreover have "uint (tr_counter (trans n')) \<le> 10" "tr_type (trans n') \<noteq> MOVE"
    using m(2) transition_counter_bounds(2) [of "0x4A"] unfolding tt by (simp_all add: ramp_started_def ramp_ready_def)
  ultimately show ?thesis using n'(1) m(1) by simp
qed


end
