(* ===== verification/Accuracy.thy ===== *)
theory Accuracy
  imports Ramp Newton
begin

text \<open>
  How exact the arithmetic of the light is: the conversions between the views of the lightness
  and of the temperature, and the durations, deltas and remaining times of a transition.
\<close>

section \<open>Views of the lightness and of the temperature\<close>

text \<open>
  C8: The Newton iteration in single precision inside linear_to_actual ends for every 16-bit
  argument v, and the truncated result a satisfies (a - 1)^2 <= 65535 v < (a + 2)^2: it is the exact
  square root up to one unit (0 for 0).
\<close>

theorem linear_to_actual_accurate:
  "returns (linear_to_actual v) (\<lambda>a. if v = 0 then a = 0
     else (uint a - 1) * (uint a - 1) \<le> 65535 * uint v \<and> 65535 * uint v < (uint a + 2) * (uint a + 2))"
  using linear_to_actual_nonzero [of v] linear_to_actual_0 by (cases "v = 0") auto

text \<open>
  C9: actual_to_linear returns for every argument v, and its result l is v * v / 65535 rounded up,
  but for a float error below 1/64: v * v - 1023 <= 65535 l <= v * v + 66558.
\<close>

theorem actual_to_linear_accurate:
  "returns (actual_to_linear v) (\<lambda>l. uint v * uint v - 1023 \<le> 65535 * uint l \<and> 65535 * uint l \<le> uint v * uint v + 66558)"
proof -
  obtain l where l: "actual_to_linear v = Some l"
    "of_int (uint v * uint v) / 65535 - 1 / 64 \<le> (of_int (uint l) :: rat)"
    "of_int (uint l) < of_int (uint v * uint v) / 65535 + (1 + 1 / 64 :: rat)" by (rule actual_to_linear_value)
  have "of_int (uint v * uint v - 1024) < (of_int (65535 * uint l) :: rat)"
    "of_int (65535 * uint l) < (of_int (uint v * uint v + 66559) :: rat)"
    using l(2,3) by (simp_all add: field_simps)
  then have "uint v * uint v - 1024 < 65535 * uint l" "65535 * uint l < uint v * uint v + 66559"
    by (simp_all only: of_int_less_iff)
  then show ?thesis using l(1) by simp
qed



theorem every_level_is_a_temperature:
  assumes "temp_range_ok n"
  shows "returns (level_to_light_ctl_temp n level) (\<lambda>t. tm_range_min (temp n) \<le> t \<and> t \<le> tm_range_max (temp n))"
  by (rule returns_mono [OF level_to_light_ctl_temp_in_range [OF assms]]) (simp add: temp_in_range_def)

lemma every_level_is_a_temperature_witness:
  "returns (level_to_light_ctl_temp sample_node 100)
     (\<lambda>t. tm_range_min (temp sample_node) \<le> t \<and> t \<le> tm_range_max (temp sample_node))"
  by (rule every_level_is_a_temperature) (simp add: sample_defs temp_range_ok_def)

section \<open>Steps of a transition\<close>

theorem transition_counter_set:
  "returns (set_transition_counter tr) (\<lambda>(started, tr').
     started = (tr_tt tr AND 0x3F \<noteq> 0) \<and>
     (if started then uint (tr_total_duration tr') = tt_duration (tr_tt tr) \<and>
        uint (tr_counter tr') = min 10 (tt_duration (tr_tt tr) div 100) \<and> 1 \<le> uint (tr_counter tr')
      else tr' = tr))"
proof (cases "tr_tt tr AND 0x3F = 0")
  case True
  then show ?thesis by (simp add: set_transition_counter_none)
next
  case False
  have "uint (word_of_int (tt_duration (tr_tt tr)) :: u32) = tt_duration (tr_tt tr)"
    using tt_duration_bounds [of "tr_tt tr"] by (simp add: uint_word_of_int)
  then show ?thesis using False counter_bounds [OF False] by (simp add: set_transition_counter_some)
qed

theorem float_step_is_integer_division:
  assumes "\<bar>c - t\<bar> \<le> 65535" "1 \<le> uint k" "uint k \<le> 10"
  shows "returns (step_delta c t k) (\<lambda>d. d = c_div (c - t) (uint k) \<and> \<bar>(c - t) - uint k * d\<bar> < uint k)"
proof -
  let ?q = "\<bar>c - t\<bar> div uint k"
  have q: "uint k * ?q \<le> \<bar>c - t\<bar>" "\<bar>c - t\<bar> < uint k * ?q + uint k"
    using assms(2) div_mult_mod_eq [of "\<bar>c - t\<bar>" "uint k"] pos_mod_bound [of "uint k" "\<bar>c - t\<bar>"] pos_mod_sign [of "uint k" "\<bar>c - t\<bar>"]
    by (simp_all only: mult.commute [of "uint k"]) linarith+
  have "c_div (c - t) (uint k) = (if c - t < 0 then - ?q else ?q)"
    using assms(2) by (simp add: c_div_def sgn_if)
  then have "\<bar>(c - t) - uint k * c_div (c - t) (uint k)\<bar> < uint k" using q by (auto simp: abs_if)
  then show ?thesis using step_delta_div [OF assms] by simp
qed

lemma float_step_is_integer_division_witness:
  "returns (step_delta 100 65000 7) (\<lambda>d. d = c_div (100 - 65000) (uint (7 :: u32)) \<and>
     \<bar>(100 - 65000) - uint (7 :: u32) * d\<bar> < uint (7 :: u32))"
  by (rule float_step_is_integer_division) simp_all

text \<open>
  The byte that reports the remaining time, read back as a transition time: it never exceeds what
  remains, misses it by less than one unit of its resolution, and is not the reserved value 0x3F.
\<close>

lemma encode_parts:
  assumes "0 \<le> s" "s \<le> 62" "(r :: u8) \<in> {0, 1, 2, 3}"
  defines "b \<equiv> push_bit 6 r OR word_of_int s :: u8"
  shows "uint (drop_bit 6 b) = uint r" "uint (b AND 0x3F) = s"
proof -
  have m: "(0x3F :: u8) = mask 6" by (simp add: mask_eq_exp_minus_1)
  have u: "uint (word_of_int s :: u8) = s" using assms(1,2) by (simp add: uint_word_of_int)
  have t: "take_bit 6 (word_of_int s :: u8) = word_of_int s"
    using assms(1,2) by (simp add: word_uint_eq_iff unsigned_take_bit_eq u take_bit_int_eq_self)
  have "uint (drop_bit 6 (word_of_int s :: u8)) = s div 64" using assms(1,2)
    by (simp only: unsigned_drop_bit_eq u) (simp add: drop_bit_eq_div take_bit_int_eq_self)
  then have d: "drop_bit 6 (word_of_int s :: u8) = 0" using assms(1,2) by (simp add: word_uint_eq_iff del: word_of_int_eq_0_iff)
  have r: "drop_bit 6 (push_bit 6 r) = r" using assms(3) by auto
  have "b AND 0x3F = take_bit 6 b" unfolding m by (simp add: take_bit_eq_mask)
  also have "\<dots> = word_of_int s" unfolding b_def by (simp add: take_bit_or t take_bit_push_bit)
  finally show "uint (b AND 0x3F) = s" by (simp add: u)
  show "uint (drop_bit 6 b) = uint r" unfolding b_def by (simp add: d r)
qed

lemma encoded:
  assumes "0 \<le> s" "s \<le> 62" "(r :: u8) \<in> {0, 1, 2, 3}"
  shows "tt_duration (push_bit 6 r OR word_of_int s) =
    s * (if r = 0 then 100 else if r = 1 then 1000 else if r = 2 then 10000 else 600000)"
    "tt_unit (push_bit 6 r OR word_of_int s) =
    (if r = 0 then 100 else if r = 1 then 1000 else if r = 2 then 10000 else 600000)"
proof -
  show u: "tt_unit (push_bit 6 r OR word_of_int s) =
    (if r = 0 then 100 else if r = 1 then 1000 else if r = 2 then 10000 else 600000)"
    unfolding tt_unit_def encode_parts(1) [OF assms] using assms(3) by auto
  show "tt_duration (push_bit 6 r OR word_of_int s) =
    s * (if r = 0 then 100 else if r = 1 then 1000 else if r = 2 then 10000 else 600000)"
    unfolding tt_duration_def u encode_parts(2) [OF assms] by (rule refl)
qed

lemma encode_remaining_parts:
  assumes "0 < d" "d < 37800000"
  shows "\<exists>r s. encode_remaining d = push_bit 6 r OR word_of_int s \<and> r \<in> {0, 1, 2, 3} \<and> 0 \<le> s \<and> s \<le> 62 \<and>
    s = d div (if r = 0 then 100 else if r = 1 then 1000 else if r = 2 then 10000 else 600000)"
proof -
  have c: "c_div d k = d div k" if "0 < k" for k using assms(1) that by (simp add: c_div_def)
  consider "620000 < d" | "62000 < d" "d \<le> 620000" | "6200 < d" "d \<le> 62000" | "d \<le> 6200" by linarith
  then show ?thesis
  proof cases
    case 1
    then show ?thesis using assms
      by (intro exI [of _ 3] exI [of _ "d div 600000"]) (auto simp: encode_remaining_def Let_def c)
  next
    case 2
    then show ?thesis using assms
      by (intro exI [of _ 2] exI [of _ "d div 10000"]) (auto simp: encode_remaining_def Let_def c)
  next
    case 3
    then show ?thesis using assms
      by (intro exI [of _ 1] exI [of _ "d div 1000"]) (auto simp: encode_remaining_def Let_def c)
  next
    case 4
    then show ?thesis using assms
      by (intro exI [of _ 0] exI [of _ "d div 100"]) (auto simp: encode_remaining_def Let_def c)
  qed
qed

theorem remaining_time_encoded:
  assumes "0 < d" "d < 37800000"
  shows "tt_duration (encode_remaining d) \<le> d \<and> d < tt_duration (encode_remaining d) + tt_unit (encode_remaining d) \<and>
    encode_remaining d AND 0x3F \<noteq> 0x3F"
proof -
  obtain r s where e: "encode_remaining d = push_bit 6 r OR word_of_int s" "r \<in> {0, 1, 2, 3}" "0 \<le> s" "s \<le> 62"
    "s = d div (if r = 0 then 100 else if r = 1 then 1000 else if r = 2 then 10000 else 600000)"
    using encode_remaining_parts [OF assms] by blast
  have "uint (encode_remaining d AND 0x3F) \<noteq> uint (0x3F :: u8)"
    unfolding e(1) encode_parts(2) [OF e(3,4,2)] using e(4) by simp
  then have "encode_remaining d AND 0x3F \<noteq> 0x3F" by (simp only: word_uint_eq_iff) simp
  moreover have "tt_duration (encode_remaining d) \<le> d \<and> d < tt_duration (encode_remaining d) + tt_unit (encode_remaining d)"
    unfolding e(1) encoded [OF e(3,4,2)] using e(2) by (auto simp: e(5))
  ultimately show ?thesis by blast
qed

lemma remaining_time_encoded_witness:
  "tt_duration (encode_remaining 7350) \<le> 7350 \<and>
     7350 < tt_duration (encode_remaining 7350) + tt_unit (encode_remaining 7350) \<and>
     encode_remaining 7350 AND 0x3F \<noteq> 0x3F"
  by (rule remaining_time_encoded) simp_all

section \<open>The LEDs\<close>

text \<open>
  A percentage \<open>100 * ((float) a / b)\<close>, truncated to a byte, is below 50 exactly when \<open>a\<close> is less than
  half of \<open>b\<close>: the two roundings are too small to cross the half for the values that occur.
\<close>

lemma percent_below_half:
  fixes a b :: int
  assumes "0 \<le> a" "a \<le> b" "0 < b" "b \<le> 65535"
  shows "returns (float_to_u8 (fl (100 * fl (of_int a / of_int b)))) (\<lambda>p. p < 50 \<longleftrightarrow> 2 * a < b)"
proof -
  let ?x = "of_int a / of_int b :: rat"
  let ?y = "100 * fl ?x"
  note q = ratio_bounds [OF assms(1-3)]
  note p = percent_bounds [OF q]
  have t: "0 \<le> c_trunc (fl ?y)" "c_trunc (fl ?y) \<le> 100"
    using p c_trunc_mono [of 0 "fl ?y"] c_trunc_mono [of "fl ?y" 100] c_trunc_of_int [of 0] c_trunc_of_int [of 100] by simp_all
  have e: "float_to_u8 (fl ?y) = Some (word_of_int (c_trunc (fl ?y)))"
    using t by (simp add: float_to_u8_def float_to_int_def)
  have u: "(word_of_int (c_trunc (fl ?y)) :: u8) < 50 \<longleftrightarrow> c_trunc (fl ?y) < 50"
    using t by (simp add: word_less_def uint_word_of_int)
  have "c_trunc (fl ?y) < 50 \<longleftrightarrow> 2 * a < b"
  proof
    assume "2 * a < b"
    have "(2 * of_int a + 1 :: rat) \<le> of_int b" using \<open>2 * a < b\<close> by linarith
    moreover have "of_int b \<le> (65535 :: rat)" "0 < (of_int b :: rat)" using assms(3,4) by linarith+
    ultimately have x: "?x \<le> 1 / 2 - 1 / 131070" by (simp add: field_simps)
    have "\<bar>fl ?x - ?x\<bar> \<le> 1 / 2 ^ 24" using q assms by (intro fl_abs_error) (simp_all add: field_simps)
    then have "\<bar>fl ?x - ?x\<bar> \<le> 1 / 16777216" by simp
    then have "?y \<le> 50 - 100 / 131070 + 100 / 16777216" using x by linarith
    moreover have "\<bar>fl ?y - ?y\<bar> \<le> 100 / 2 ^ 24" using q by (intro fl_abs_error) simp_all
    then have "\<bar>fl ?y - ?y\<bar> \<le> 100 / 16777216" by simp
    ultimately have "fl ?y < 50" by linarith
    then show "c_trunc (fl ?y) < 50" using c_trunc_less [of "fl ?y" 49] by simp
  next
    assume c: "c_trunc (fl ?y) < 50"
    show "2 * a < b"
    proof (rule ccontr)
      assume "\<not> 2 * a < b"
      then have "(of_int b :: rat) \<le> 2 * of_int a" by linarith
      then have "1 / 2 \<le> ?x" using assms(3) by (simp add: field_simps)
      then have "fl (1 / 2) \<le> fl ?x" by (rule binary32.rnd_mono)
      moreover have "fl (1 / 2) = 1 / 2" using fl_quarter [of 8] by simp
      ultimately have "50 \<le> ?y" by linarith
      then have "of_int 50 \<le> fl ?y" by (intro fl_ge_int) simp_all
      then show False using c c_trunc_ge [of 50 "fl ?y"] by simp
    qed
  qed
  then show ?thesis by (simp add: e u)
qed

theorem leds_show_the_halves:
  assumes "temp_in_range n (tm_current (temp n))"
  shows "returns (update_led_gpio n) (\<lambda>n'. \<exists>text. trace n' = trace n @ [text,
     Gpio_pin_set 0 (uint (lt_current (light n))),
     Gpio_pin_set 2 (of_bool (uint (lt_current (light n)) < 32768)),
     Gpio_pin_set 3 (of_bool (2 * (uint (tm_current (temp n)) - uint (tm_range_min (temp n)))
       < uint (tm_range_max (temp n)) - uint (tm_range_min (temp n))))])"
proof -
  let ?a = "uint (tm_current (temp n)) - uint (tm_range_min (temp n))"
  let ?b = "uint (tm_range_max (temp n)) - uint (tm_range_min (temp n))"
  have b: "0 \<le> ?a" "?a \<le> ?b" "0 < ?b"
    using assms by (simp_all add: temp_in_range_def word_le_def word_less_def)
  have b4: "?b \<le> 65535"
    using uint_le_65535 [of "tm_range_max (temp n)"] uint_ge_0 [of "tm_range_min (temp n)"] by linarith
  have "returns (led_color n) (\<lambda>c. c < 50 \<longleftrightarrow> 2 * ?a < ?b)"
  proof -
    have "\<bar>?a\<bar> < 2 ^ 24" "\<bar>?b\<bar> < 2 ^ 24" using b b4 by simp_all
    then have "fl (of_int ?a) = of_int ?a" "fl (of_int ?b) = of_int ?b" by (simp_all only: fl_of_int)
    moreover have "of_int ?b \<noteq> (0 :: rat)" using b(3) by (metis less_irrefl of_int_eq_0_iff)
    ultimately have "led_color n = float_to_u8 (fl (100 * fl (of_int ?a / of_int ?b)))"
      by (simp only: led_color_def fdiv_def if_False Option.bind.bind_lunit)
    then show ?thesis using percent_below_half [OF b b4] by simp
  qed
  then obtain c where c: "led_color n = Some c" "c < 50 \<longleftrightarrow> 2 * ?a < ?b" by (rule returnsE)
  have "returns (led_power n) (\<lambda>p. p < 50 \<longleftrightarrow> 2 * uint (lt_current (light n)) < 65535)"
    using percent_below_half [of "uint (lt_current (light n))" 65535] uint_le_65535 [of "lt_current (light n)"]
    by (simp add: led_power_def)
  then obtain p where p: "led_power n = Some p" "p < 50 \<longleftrightarrow> 2 * uint (lt_current (light n)) < 65535" by (rule returnsE)
  have "2 * uint (lt_current (light n)) < 65535 \<longleftrightarrow> uint (lt_current (light n)) < 32768" by presburger
  then show ?thesis using p c by (simp add: update_led_gpio_def)
qed

lemma leds_show_the_halves_witness:
  "returns (update_led_gpio sample_node) (\<lambda>n'. \<exists>text. trace n' = trace sample_node @ [text,
     Gpio_pin_set 0 (uint (lt_current (light sample_node))),
     Gpio_pin_set 2 (of_bool (uint (lt_current (light sample_node)) < 32768)),
     Gpio_pin_set 3 (of_bool (2 * (uint (tm_current (temp sample_node)) - uint (tm_range_min (temp sample_node)))
       < uint (tm_range_max (temp sample_node)) - uint (tm_range_min (temp sample_node))))])"
  by (rule leds_show_the_halves) (simp add: sample_defs temp_in_range_def)

end
