(* ===== verification/Dispatch.thy ===== *)
theory Dispatch
  imports NodeSystem "HOL-Library.Product_Lexorder"
begin

text \<open>
  How a message finds its handler. The access layer looks an opcode up in the tables of all models
  of the addressed element; the tables are ordered by opcode and no two tables of one element share
  an opcode, so the order in which they are searched does not matter.
\<close>

section \<open>Opcodes in the order of their bytes\<close>

instantiation opcode :: linorder
begin

fun opcode_key :: "opcode \<Rightarrow> nat \<times> nat \<times> nat" where
  "opcode_key (OP_2 a b) = (2, unat a, unat b)"
| "opcode_key (OP_3 a c) = (3, unat a, unat c)"

definition less_eq_opcode :: "opcode \<Rightarrow> opcode \<Rightarrow> bool" where
  "less_eq_opcode p q \<longleftrightarrow> opcode_key p \<le> opcode_key q"

definition less_opcode :: "opcode \<Rightarrow> opcode \<Rightarrow> bool" where
  "less_opcode p q \<longleftrightarrow> opcode_key p < opcode_key q"

lemma opcode_key_eq: "opcode_key p = opcode_key q \<Longrightarrow> p = q"
  by (cases p; cases q) (simp_all add: word_unat_eq_iff)

instance
  by intro_classes (auto simp: less_eq_opcode_def less_opcode_def intro: opcode_key_eq)

end

lemma opcode_less [simp]:
  "OP_2 a b < OP_2 a' b' \<longleftrightarrow> a < a' \<or> a = a' \<and> b < b'"
  "OP_3 a c < OP_3 a' c' \<longleftrightarrow> a < a' \<or> a = a' \<and> c < c'"
  by (auto simp: less_opcode_def less_prod_def less_eq_prod_def word_less_nat_alt word_unat_eq_iff)

section \<open>Looking an opcode up\<close>

lemma find_op_map_of: "find_op op ops = map_of ops op"
  by (induction op ops rule: find_op.induct) simp_all

lemma in_ordered_table:
  assumes "sorted_wrt (<) (map fst ops)"
  shows "(op, k, h) \<in> set ops \<longleftrightarrow> find_op op ops = Some (k, h)"
proof -
  have "distinct (map fst ops)" using assms by (simp add: strict_sorted_iff)
  then show ?thesis by (simp add: find_op_map_of)
qed

lemma concat_member:
  assumes "distinct (map fst (concat tables))" "i < length tables" "j < length tables"
    "(op, x) \<in> set (tables ! i)" "(op, y) \<in> set (tables ! j)"
  shows "i = j"
proof (rule ccontr)
  assume "i \<noteq> j"
  then obtain a b where ab: "a < b" "b < length tables" "op \<in> fst ` set (tables ! a)" "op \<in> fst ` set (tables ! b)"
    using assms(2-5) by (cases "i < j") (force simp: not_less le_less)+
  have t: "tables = take b tables @ tables ! b # drop (Suc b) tables" using ab(2) by (rule id_take_nth_drop)
  have "tables ! a \<in> set (take b tables)" using ab(1,2) by (auto simp: in_set_conv_nth)
  then have "op \<in> fst ` set (concat (take b tables))" using ab(3) by auto
  moreover have "distinct (map fst (concat (take b tables) @ tables ! b @ concat (drop (Suc b) tables)))"
    using assms(1) by (subst (asm) t) simp
  ultimately show False using ab(4) by (simp only: map_append distinct_append set_append set_map) blast
qed

lemmas table_defs = gen_onoff_srv_op_def gen_onoff_cli_op_def gen_level_srv_op_def gen_level_cli_op_def
  gen_def_trans_time_srv_op_def gen_def_trans_time_cli_op_def gen_power_onoff_srv_op_def
  gen_power_onoff_setup_srv_op_def gen_power_onoff_cli_op_def light_lightness_srv_op_def
  light_lightness_setup_srv_op_def light_lightness_cli_op_def light_ctl_srv_op_def
  light_ctl_setup_srv_op_def light_ctl_cli_op_def light_ctl_temp_srv_op_def vnd_ops_def
  gen_level_srv_op_temp_def gen_level_cli_op_temp_def

lemma root_tables_ordered: "\<forall>ops \<in> set root_models. sorted_wrt (<) (map fst ops)"
  unfolding root_models_def table_defs by simp

lemma s0_tables_ordered: "\<forall>ops \<in> set s0_models. sorted_wrt (<) (map fst ops)"
  unfolding s0_models_def table_defs by simp

lemma vnd_table_ordered: "sorted_wrt (<) (map fst vnd_ops)"
  unfolding table_defs by simp

lemma root_opcodes_distinct: "distinct (map fst (concat root_models))"
  unfolding root_models_def table_defs by simp

lemma s0_opcodes_distinct: "distinct (map fst (concat s0_models))"
  unfolding s0_models_def table_defs by simp

lemma model_ops_ordered: "sorted_wrt (<) (map fst (model_ops m))"
  using root_tables_ordered s0_tables_ordered vnd_table_ordered by (cases m) (auto simp: vnd_models_def)

section \<open>One handler for every opcode\<close>

fun element :: "model \<Rightarrow> nat" where
  "element (Root i) = 0"
| "element Vnd = 0"
| "element (S0 i) = 1"

lemma vendor_opcodes: "(op, k, h) \<in> set (model_ops Vnd) \<Longrightarrow> \<exists>b cid. op = OP_3 b cid"
  by (auto simp: vnd_models_def vnd_ops_def)

lemma root_opcodes: "(op, k, h) \<in> set (model_ops (Root i)) \<Longrightarrow> \<exists>a b. op = OP_2 a b"
proof -
  assume "(op, k, h) \<in> set (model_ops (Root i))"
  then have "op \<in> set (map fst (concat root_models))" by (force split: if_splits)
  moreover have "\<forall>op \<in> set (map fst (concat root_models)). opcode_len op = 2"
    unfolding root_models_def table_defs by simp
  ultimately have "opcode_len op = 2" by (rule bspec [rotated])
  then show ?thesis by (cases op) simp_all
qed

lemma one_model_per_opcode:
  assumes "(op, k, h) \<in> set (model_ops m)" "(op, k', h') \<in> set (model_ops m')" "element m = element m'"
  shows "m = m'"
proof (cases m; cases m')
  fix i j assume m: "m = Root i" "m' = Root j"
  then show ?thesis using assms concat_member [OF root_opcodes_distinct, of i j op "(k, h)" "(k', h')"]
    by (auto split: if_splits)
next
  fix i j assume m: "m = S0 i" "m' = S0 j"
  then show ?thesis using assms concat_member [OF s0_opcodes_distinct, of i j op "(k, h)" "(k', h')"]
    by (auto split: if_splits)
qed (use assms root_opcodes vendor_opcodes in fastforce)+

theorem one_handler_per_opcode:
  assumes "(op, k, h) \<in> set (model_ops m)" "(op, k', h') \<in> set (model_ops m')" "element m = element m'"
  shows "m' = m \<and> k' = k \<and> h' = h \<and>
    deliver m op e cx bs n = (if length bs < k then Some n else h m e cx bs n)"
proof -
  have "m' = m" using one_model_per_opcode [OF assms] by simp
  then show ?thesis using assms in_ordered_table [OF model_ops_ordered] by (auto simp: deliver_def)
qed

lemma one_handler_per_opcode_witness:
  "deliver (Root 2) (OP_2 0x82 0x02) sample_env sample_ctx [1, 7] sample_node = gen_onoff_set (Root 2) sample_env sample_ctx [1, 7] sample_node"
  using one_handler_per_opcode [of "OP_2 0x82 0x02" 2 gen_onoff_set "Root 2" 2 gen_onoff_set "Root 2" sample_env sample_ctx "[1, 7]" sample_node]
  by (simp add: root_models_def gen_onoff_srv_op_def)

end
