(* ===== verification/Hazards.thy ===== *)
theory Hazards
  imports NodeSystem
begin

text \<open>
  What the node does not guard against: the stimuli that \<open>occurs\<close> leaves out, and that leaving
  them out is necessary.
\<close>

section \<open>A temperature range of one point\<close>

lemma point_range_undefined:
  assumes "tm_range_min (temp n) = tm_range_max (temp n)"
  shows "update_led_gpio n = None"
  using assms by (cases "led_power n") (simp_all add: update_led_gpio_def led_color_def fdiv_def)

theorem point_range_accepted:
  assumes "TEMP_MIN \<le> t" "t \<le> TEMP_MAX"
  shows "returns (light_ctl_temp_range_set_unack (Root 15) e cx (le16 t @ le16 t @ rest) n)
    (\<lambda>n'. tm_range_min (temp n') = t \<and> tm_range_max (temp n') = t \<and> update_led_gpio n' = None)"
proof -
  have p: "pull_le16 (le16 t @ le16 t @ rest) = Some (t, le16 t @ rest)" "pull_le16 (le16 t @ rest) = Some (t, rest)"
    by simp_all
  have publish: "returns (light_ctl_temp_range_publish e (Root 15) (with_temp_range t t n))
      (\<lambda>n'. tm_range_min (temp n') = t \<and> tm_range_max (temp n') = t)"
    by (rule returns_mono [OF light_ctl_temp_range_publish_quiet]) (simp add: quiet_fields with_temp_range_def)
  show ?thesis unfolding light_ctl_temp_range_set_unack_eq [OF p]
    using assms publish by (auto simp: temp_range_accepted_def save_on_flash_def intro!: point_range_undefined elim!: returns_mono)
qed

lemma point_range_accepted_witness:
  "returns (light_ctl_temp_range_set_unack (Root 15) sample_env sample_ctx (le16 4000 @ le16 4000 @ []) sample_node)
    (\<lambda>n'. tm_range_min (temp n') = 4000 \<and> tm_range_max (temp n') = 4000 \<and> update_led_gpio n' = None)"
  by (rule point_range_accepted) simp_all

section \<open>A delta beyond 32 bits\<close>

context delta_server
begin

lemma overflows:
  assumes "parse_32 buf = Some (delta, tid, rest)" "\<not> tid_repeated e cx tid n" "level n = Some i"
    "sint (word_of_int i :: s16) + delta < int32_min \<or> int32_max < sint (word_of_int i :: s16) + delta"
  shows "handler m e cx buf n = None"
  using assms by (auto simp: handler_eq get_put s32_checked_def)

end

theorem delta_overflow_undefined:
  assumes "parse_32 buf = Some (delta, tid, rest)" "\<not> tid_repeated e cx tid n"
    "uint (lt_current (light n)) - 32768 + delta < - 2147483648 \<or> 2147483647 < uint (lt_current (light n)) - 32768 + delta"
  shows "gen_delta_set (Root 4) e cx buf n = None \<and> gen_delta_set_unack (Root 4) e cx buf n = None"
proof -
  have v: "sint (word_of_int (uint (lt_current (light n)) - 32768) :: s16) = uint (lt_current (light n)) - 32768"
    using uint_le_65535 [of "lt_current (light n)"] by (intro sint_of_int_s16) simp_all
  then have l: "get_current LEVEL_LIGHT n = Some (uint (lt_current (light n)) - 32768)"
    by (simp only: get_current_def state_binding.case add_uminus_conv_diff)
  show ?thesis using delta_srv.overflows [OF assms(1,2) l, unfolded v] delta_unack_srv.overflows [OF assms(1,2) l, unfolded v] assms(3)
    by simp
qed

lemma delta_overflow_undefined_witness:
  "gen_delta_set (Root 4) sample_env sample_ctx [0xFF, 0xFF, 0xFF, 0x7F, 7] (sample_node\<lparr>light := (light sample_node)\<lparr>lt_current := 65535\<rparr>\<rparr>) = None"
  using delta_overflow_undefined [of "[0xFF, 0xFF, 0xFF, 0x7F, 7]" 2147483647 7 "[]" sample_env sample_ctx
      "sample_node\<lparr>light := (light sample_node)\<lparr>lt_current := 65535\<rparr>\<rparr>"]
  by (simp add: parse_32_def sample_defs tid_repeated_def)

section \<open>Settling while a transition runs\<close>

theorem late_settling_overshoots:
  assumes "node_ok n" "e_provisioned e" "\<not> tr_just_started (trans n)" "1 < tr_counter (trans n)"
  shows "returns (no_transition_work_handler e n \<bind> onoff_work_handler e')
    (\<lambda>n'. lt_current (light n') = lt_target (light n) - word_of_int (lt_delta (light n)))"
proof -
  have "returns (onoff_work_handler e' k) (\<lambda>n'. lt_current (light n') = lt_target (light n) - word_of_int (lt_delta (light n)))"
    if "unmoved (all_finish n) k" for k
  proof -
    let ?k = "light_advance (set_counter (tr_counter (trans k) - 1) k)"
    have f: "cur Light_ch k = tgt Light_ch n" "dlt Light_ch k = dlt Light_ch n" "node_ok k"
      "tr_counter (trans k) = tr_counter (trans n)" "\<not> tr_just_started (trans k)"
      using that only_current_fields [OF all_finish_fields(1) [of n]] all_finish_fields(2,3) assms(1,3)
      by (simp_all only: unmoved_def not_False_eq_True)
    have "returns (update_light_state ?k) (quiet (?k\<lparr>reset_done := True\<rparr>))"
      using f(3) node_ok_cong [of ?k k] by (intro update_light_state_quiet node_ok_led_ok) (simp add: light_advance_def)
    then have "returns (update_light_state ?k) (\<lambda>n'. light n' = light ?k)"
      by (rule returns_mono) (simp add: quiet_fields)
    moreover have "onoff_work_handler e' k = update_light_state ?k"
      using assms(4) f(4,5) by (auto simp: onoff_work_handler_def Let_def)
    moreover have "lt_current (light ?k) = lt_target (light n) - word_of_int (lt_delta (light n))"
      using f(1,2) by (simp add: light_advance_def word_uint_eq_iff [symmetric])
    ultimately show ?thesis by (auto elim!: returns_mono)
  qed
  then show ?thesis by (rule returns_bindI [OF no_transition_work_unmoved [OF assms(1,2)]])
qed

lemma late_settling_overshoots_witness:
  "returns (no_transition_work_handler sample_env (sample_node\<lparr>trans := (trans sample_node)\<lparr>tr_just_started := False, tr_counter := 9\<rparr>,
       light := (light sample_node)\<lparr>lt_target := 65535, lt_delta := - 6553\<rparr>\<rparr>) \<bind> onoff_work_handler sample_env)
    (\<lambda>n'. lt_current (light n') = 6552)"
  by (rule returns_mono [OF late_settling_overshoots]) (simp_all add: sample_defs node_ok_def temp_range_ok_def)

end
