(* ===== verification/Enigma.thy ===== *)
theory Enigma
  imports Prelude
begin

text \<open>
  samples/userspace/shared_mem/src/enc.c and the wheels main.c gives it: a rotor machine. Three
  wheels are passed on the way in and, through their reverse tables, on the way out; between the
  two stands the reflector. Reading or writing an array out of its bounds is \<open>None\<close>.
\<close>

section \<open>The machine\<close>

abbreviation WHEEL_SIZE :: int where "WHEEL_SIZE \<equiv> 26"

record machine =
  W1 :: "u8 list"
  W2 :: "u8 list"
  W3 :: "u8 list"
  R :: "u8 list"
  W1R :: "u8 list"
  W2R :: "u8 list"
  W3R :: "u8 list"
  IW1 :: int
  IW2 :: int
  IW3 :: int

definition array_get :: "'a list \<Rightarrow> int \<Rightarrow> 'a option" where
  "array_get xs i = (if 0 \<le> i \<and> i < int (length xs) then Some (xs ! nat i) else None)"

definition array_set :: "'a list \<Rightarrow> int \<Rightarrow> 'a \<Rightarrow> 'a list option" where
  "array_set xs i x = (if 0 \<le> i \<and> i < int (length xs) then Some (xs[nat i := x]) else None)"

definition c_mod :: "int \<Rightarrow> int \<Rightarrow> int" where
  "c_mod a b = a - b * c_div a b"

definition IMOD :: "int \<Rightarrow> int \<Rightarrow> int" where
  "IMOD a b = c_mod (a + b) WHEEL_SIZE"

definition char_to_index :: "u8 \<Rightarrow> int" where
  "char_to_index c = (if c < 97 \<or> c > 122 then - 1 else uint c - 97)"

definition index_to_char :: "int \<Rightarrow> u8" where
  "index_to_char i = (if i < 0 \<or> i > 25 then 0xFF else word_of_int (97 + i))"

definition update_wheel_index :: "machine \<Rightarrow> machine" where
  "update_wheel_index m =
     (let m = m\<lparr>IW1 := IW1 m + 1\<rparr>;
          m = (if IW1 m \<ge> WHEEL_SIZE then m\<lparr>IW1 := c_mod (IW1 m) WHEEL_SIZE, IW2 := IW2 m + 1\<rparr> else m);
          m = (if IW2 m \<ge> WHEEL_SIZE then m\<lparr>IW2 := c_mod (IW2 m) WHEEL_SIZE, IW3 := IW3 m + 1\<rparr> else m)
      in if IW3 m \<ge> WHEEL_SIZE then m\<lparr>IW3 := c_mod (IW3 m) WHEEL_SIZE\<rparr> else m)"

text \<open>One line of \<open>enig_enc\<close>: a wheel at position \<open>iw\<close>, entered at the absolute index \<open>i\<close>.\<close>

definition through :: "u8 list \<Rightarrow> int \<Rightarrow> int \<Rightarrow> int option" where
  "through w iw i = do {
     b \<leftarrow> array_get w (IMOD iw i);
     Some (c_mod (uint b + WHEEL_SIZE - iw) WHEEL_SIZE)
   }"

definition enig_enc :: "u8 \<Rightarrow> machine \<Rightarrow> (u8 \<times> machine) option" where
  "enig_enc pt m =
     (let tmpIndex = char_to_index pt
      in if tmpIndex = - 1 then Some (0xFF, m)
         else do {
           i \<leftarrow> through (W1 m) (IW1 m) tmpIndex;
           i \<leftarrow> through (W2 m) (IW2 m) i;
           i \<leftarrow> through (W3 m) (IW3 m) i;
           b \<leftarrow> array_get (R m) i;
           let i = uint b;
           i \<leftarrow> through (W3R m) (IW3 m) i;
           i \<leftarrow> through (W2R m) (IW2 m) i;
           i \<leftarrow> through (W1R m) (IW1 m) i;
           Some (index_to_char i, update_wheel_index m)
         })"

text \<open>\<open>calc_rev_wheel\<close>: the result code and the table written so far; the loop stops at a bad entry.\<close>

fun calc_rev_loop :: "u8 list \<Rightarrow> int list \<Rightarrow> u8 list \<Rightarrow> (int \<times> u8 list) option" where
  "calc_rev_loop wheel [] backpath = Some (1, backpath)"
| "calc_rev_loop wheel (i # is) backpath = do {
     b \<leftarrow> array_get wheel i;
     if uint b \<ge> WHEEL_SIZE then Some (- 1, backpath)
     else do {
       backpath \<leftarrow> array_set backpath (uint b) (word_of_int i);
       calc_rev_loop wheel is backpath
     }
   }"

definition calc_rev_wheel :: "u8 list \<Rightarrow> u8 list \<Rightarrow> (int \<times> u8 list) option" where
  "calc_rev_wheel wheel backpath = calc_rev_loop wheel [0..25] backpath"

text \<open>The wheels of main.h.\<close>

definition START_WHEEL :: "u8 list" where
  "START_WHEEL = [0, 1, 2, 3, 4, 5, 6, 7, 8, 9, 10, 11, 12, 13, 14, 15, 16, 17, 18, 19, 20, 21, 22, 23, 24, 25]"

definition START_WHEEL2 :: "u8 list" where
  "START_WHEEL2 = [6, 7, 8, 9, 10, 11, 12, 13, 14, 15, 16, 17, 18, 19, 20, 21, 22, 23, 24, 25, 5, 0, 4, 1, 3, 2]"

definition REFLECT :: "u8 list" where
  "REFLECT = [1, 0, 3, 2, 5, 4, 7, 6, 9, 8, 11, 10, 13, 12, 15, 14, 17, 16, 19, 18, 21, 20, 23, 22, 25, 24]"

section \<open>What a wheel and a reflector promise\<close>

locale rotor =
  fixes w wr :: "u8 list"
  assumes sizes: "length w = 26" "length wr = 26"
    and entry: "i < 26 \<Longrightarrow> unat (w ! i) < 26"
    and entry_rev: "i < 26 \<Longrightarrow> unat (wr ! i) < 26"
    and rev_entry: "i < 26 \<Longrightarrow> wr ! unat (w ! i) = of_nat i"
    and entry_of_rev: "i < 26 \<Longrightarrow> w ! unat (wr ! i) = of_nat i"

locale reflector =
  fixes r :: "u8 list"
  assumes size: "length r = 26"
    and entry: "i < 26 \<Longrightarrow> unat (r ! i) < 26"
    and involution: "i < 26 \<Longrightarrow> r ! unat (r ! i) = of_nat i"
    and no_fixed_point: "i < 26 \<Longrightarrow> unat (r ! i) \<noteq> i"

lemma c_mod_nonneg: "0 \<le> a \<Longrightarrow> 0 < b \<Longrightarrow> c_mod a b = a mod b"
  by (simp add: c_mod_def c_div_nonneg minus_mult_div_eq_mod)

lemma array_get_in: "0 \<le> i \<Longrightarrow> i < int (length xs) \<Longrightarrow> array_get xs i = Some (xs ! nat i)"
  by (simp add: array_get_def)

lemma rotated_back:
  fixes b iw :: int
  assumes "0 \<le> b" "b < 26"
  shows "(iw + (b + 26 - iw) mod 26) mod 26 = b"
  using assms by (simp add: mod_add_right_eq)

lemma unrotated:
  fixes i iw :: int
  assumes "0 \<le> i" "i < 26"
  shows "((iw + i) mod 26 + 26 - iw) mod 26 = i"
proof -
  have "((iw + i) mod 26 + 26 - iw) mod 26 = ((iw + i) + (26 - iw)) mod 26"
    by (simp only: add_diff_eq [symmetric] mod_add_left_eq)
  also have "\<dots> = (i + 26) mod 26" by (simp only: add.commute add_diff_cancel_left' add_diff_eq [symmetric]) simp
  finally show ?thesis using assms by simp
qed

text \<open>The wheel as a function of the absolute index: a permutation whose inverse is the reverse table.\<close>

lemma through_eq:
  assumes "length w = 26" "0 \<le> iw" "iw < 26" "0 \<le> i" "i < 26"
  shows "through w iw i = Some ((uint (w ! nat ((iw + i) mod 26)) + 26 - iw) mod 26)"
proof -
  let ?b = "w ! nat ((iw + i) mod 26)"
  have "IMOD iw i = (iw + i) mod 26" using assms by (simp add: IMOD_def c_mod_nonneg)
  moreover have "array_get w ((iw + i) mod 26) = Some ?b" using assms(1) by (simp add: array_get_def)
  moreover have "c_mod (uint ?b + 26 - iw) 26 = (uint ?b + 26 - iw) mod 26"
    using assms(3) uint_ge_0 [of ?b] by (intro c_mod_nonneg) linarith+
  ultimately show ?thesis by (simp add: through_def)
qed

lemma uint_of_small: "k < 256 \<Longrightarrow> uint (of_nat k :: u8) = int k"
  by (simp add: unsigned_of_nat take_bit_nat_eq_self)

lemma through_inverse:
  assumes "length w = 26" "length wr = 26" "\<And>i. i < 26 \<Longrightarrow> unat (w ! i) < 26"
    "\<And>i. i < 26 \<Longrightarrow> wr ! unat (w ! i) = of_nat i" "0 \<le> iw" "iw < 26" "0 \<le> i" "i < 26"
  shows "returns (through w iw i) (\<lambda>j. 0 \<le> j \<and> j < 26 \<and> through wr iw j = Some i)"
proof -
  let ?k = "nat ((iw + i) mod 26)"
  let ?j = "(uint (w ! ?k) + 26 - iw) mod 26"
  have k: "?k < 26" by simp
  have b: "uint (w ! ?k) < 26" using assms(3) [OF k] by (simp only: unat_eq_nat_uint nat_less_iff uint_ge_0)
  have "uint (wr ! nat (uint (w ! ?k))) = int ?k"
    using assms(4) [OF k] uint_of_small [of ?k] k by (simp only: nat_uint_eq)
  then have "uint (wr ! nat (uint (w ! ?k))) = (iw + i) mod 26" by simp
  moreover have "(iw + ?j) mod 26 = uint (w ! ?k)" using b by (intro rotated_back) simp_all
  ultimately have "through wr iw ?j = Some (((iw + i) mod 26 + 26 - iw) mod 26)"
    using assms(2,5,6) by (subst through_eq) simp_all
  moreover have "((iw + i) mod 26 + 26 - iw) mod 26 = i" using assms(7,8) by (rule unrotated)
  ultimately show ?thesis using through_eq [OF assms(1,5-8)] by simp
qed

context rotor
begin

lemma inward:
  assumes "0 \<le> iw" "iw < 26" "0 \<le> i" "i < 26"
  shows "returns (through w iw i) (\<lambda>j. 0 \<le> j \<and> j < 26 \<and> through wr iw j = Some i)"
  by (rule through_inverse [OF sizes entry rev_entry assms])

lemma outward:
  assumes "0 \<le> iw" "iw < 26" "0 \<le> i" "i < 26"
  shows "returns (through wr iw i) (\<lambda>j. 0 \<le> j \<and> j < 26 \<and> through w iw j = Some i)"
  by (rule through_inverse [OF sizes(2,1) entry_rev entry_of_rev assms])

end

context reflector
begin

lemma reflected:
  assumes "0 \<le> i" "i < 26"
  shows "returns (array_get r i) (\<lambda>b. uint b < 26 \<and> uint b \<noteq> i \<and> array_get r (uint b) = Some (word_of_int i))"
proof -
  have k: "nat i < 26" using assms by simp
  have "uint (r ! nat i) < 26" using entry [OF k] by (simp only: unat_eq_nat_uint nat_less_iff uint_ge_0)
  moreover have "uint (r ! nat i) \<noteq> i" using no_fixed_point [OF k] by (metis nat_uint_eq)
  moreover have "(of_nat (nat i) :: u8) = word_of_int i" using assms(1) by (metis of_int_of_nat_eq nat_0_le)
  then have "r ! nat (uint (r ! nat i)) = word_of_int i" using involution [OF k] by (simp only: nat_uint_eq)
  ultimately show ?thesis using assms size by (simp add: array_get_def)
qed

end

section \<open>One letter\<close>

definition machine_ok :: "machine \<Rightarrow> bool" where
  "machine_ok m \<longleftrightarrow> rotor (W1 m) (W1R m) \<and> rotor (W2 m) (W2R m) \<and> rotor (W3 m) (W3R m) \<and> reflector (R m) \<and>
     0 \<le> IW1 m \<and> IW1 m < 26 \<and> 0 \<le> IW2 m \<and> IW2 m < 26 \<and> 0 \<le> IW3 m \<and> IW3 m < 26"

definition scramble :: "machine \<Rightarrow> int \<Rightarrow> int option" where
  "scramble m i = do {
     i \<leftarrow> through (W1 m) (IW1 m) i;
     i \<leftarrow> through (W2 m) (IW2 m) i;
     i \<leftarrow> through (W3 m) (IW3 m) i;
     b \<leftarrow> array_get (R m) i;
     i \<leftarrow> through (W3R m) (IW3 m) (uint b);
     i \<leftarrow> through (W2R m) (IW2 m) i;
     through (W1R m) (IW1 m) i
   }"

lemma enig_enc_eq:
  "enig_enc c m = (if char_to_index c = - 1 then Some (0xFF, m)
     else scramble m (char_to_index c) \<bind> (\<lambda>i. Some (index_to_char i, update_wheel_index m)))"
  by (simp add: enig_enc_def scramble_def Let_def)

lemma scramble_involution:
  assumes "machine_ok m" "0 \<le> i" "i < 26"
  shows "returns (scramble m i) (\<lambda>j. 0 \<le> j \<and> j < 26 \<and> j \<noteq> i \<and> scramble m j = Some i)"
proof -
  from assms(1) have w: "rotor (W1 m) (W1R m)" "rotor (W2 m) (W2R m)" "rotor (W3 m) (W3R m)" "reflector (R m)"
    and p: "0 \<le> IW1 m" "IW1 m < 26" "0 \<le> IW2 m" "IW2 m < 26" "0 \<le> IW3 m" "IW3 m < 26"
    by (simp_all add: machine_ok_def)
  obtain i1 where i1: "through (W1 m) (IW1 m) i = Some i1" "0 \<le> i1" "i1 < 26" "through (W1R m) (IW1 m) i1 = Some i"
    using rotor.inward [OF w(1) p(1,2) assms(2,3)] by (auto elim: returnsE)
  obtain i2 where i2: "through (W2 m) (IW2 m) i1 = Some i2" "0 \<le> i2" "i2 < 26" "through (W2R m) (IW2 m) i2 = Some i1"
    using rotor.inward [OF w(2) p(3,4) i1(2,3)] by (auto elim: returnsE)
  obtain i3 where i3: "through (W3 m) (IW3 m) i2 = Some i3" "0 \<le> i3" "i3 < 26" "through (W3R m) (IW3 m) i3 = Some i2"
    using rotor.inward [OF w(3) p(5,6) i2(2,3)] by (auto elim: returnsE)
  obtain b where b: "array_get (R m) i3 = Some b" "uint b < 26" "uint b \<noteq> i3" "array_get (R m) (uint b) = Some (word_of_int i3)"
    using reflector.reflected [OF w(4) i3(2,3)] by (auto elim: returnsE)
  obtain o3 where o3: "through (W3R m) (IW3 m) (uint b) = Some o3" "0 \<le> o3" "o3 < 26" "through (W3 m) (IW3 m) o3 = Some (uint b)"
    using rotor.outward [OF w(3) p(5,6) uint_ge_0 b(2)] by (auto elim: returnsE)
  obtain o2 where o2: "through (W2R m) (IW2 m) o3 = Some o2" "0 \<le> o2" "o2 < 26" "through (W2 m) (IW2 m) o2 = Some o3"
    using rotor.outward [OF w(2) p(3,4) o3(2,3)] by (auto elim: returnsE)
  obtain o1 where o1: "through (W1R m) (IW1 m) o2 = Some o1" "0 \<le> o1" "o1 < 26" "through (W1 m) (IW1 m) o1 = Some o2"
    using rotor.outward [OF w(1) p(1,2) o2(2,3)] by (auto elim: returnsE)
  have "scramble m i = Some o1" using i1(1) i2(1) i3(1) b(1) o3(1) o2(1) o1(1) by (simp add: scramble_def)
  moreover have "uint (word_of_int i3 :: u8) = i3" using i3(2,3) by (simp add: uint_word_of_int)
  then have "scramble m o1 = Some i" using i1(4) i2(4) i3(4) b(4) o3(4) o2(4) o1(4) by (simp add: scramble_def)
  moreover have "o1 \<noteq> i" using b(3) i1(1) i2(1) i3(1) o3(4) o2(4) o1(4) by auto
  ultimately show ?thesis using o1(2,3) by simp
qed

lemma letter_index:
  assumes "97 \<le> c" "c \<le> 122"
  shows "char_to_index c = uint c - 97" "0 \<le> char_to_index c" "char_to_index c < 26" "char_to_index c \<noteq> - 1"
  using assms by (simp_all add: char_to_index_def word_le_def word_less_def)

lemma index_letter:
  assumes "0 \<le> i" "i < 26"
  shows "97 \<le> index_to_char i" "index_to_char i \<le> 122" "char_to_index (index_to_char i) = i"
proof -
  have u: "uint (index_to_char i) = 97 + i"
    using assms by (simp add: index_to_char_def del: wi_hom_add of_int_add) (simp add: uint_word_of_int flip: of_int_add)
  then show "97 \<le> index_to_char i" "index_to_char i \<le> 122" using assms by (simp_all add: word_le_def)
  then show "char_to_index (index_to_char i) = i" using u by (simp add: letter_index(1))
qed

lemma letter_index_back: "97 \<le> c \<Longrightarrow> c \<le> 122 \<Longrightarrow> index_to_char (char_to_index c) = c"
  by (simp add: letter_index(1)) (simp add: index_to_char_def word_le_def)

lemma update_wheel_index_ok:
  assumes "machine_ok m"
  shows "machine_ok (update_wheel_index m)"
  using assms by (auto simp: machine_ok_def update_wheel_index_def Let_def c_mod_nonneg)

definition letter :: "u8 \<Rightarrow> bool" where
  "letter c \<longleftrightarrow> 97 \<le> c \<and> c \<le> 122"

lemma letter_both_ways:
  assumes "machine_ok m" "letter c"
  shows "returns (enig_enc c m) (\<lambda>(d, m'). letter d \<and> d \<noteq> c \<and> enig_enc d m = Some (c, m') \<and> machine_ok m')"
proof -
  have c: "97 \<le> c" "c \<le> 122" using assms(2) by (simp_all add: letter_def)
  note i = letter_index [OF c]
  obtain j where j: "scramble m (char_to_index c) = Some j" "0 \<le> j" "j < 26" "j \<noteq> char_to_index c"
      "scramble m j = Some (char_to_index c)"
    using scramble_involution [OF assms(1) i(2,3)] by (auto elim: returnsE)
  note d = index_letter [OF j(2,3)]
  have "index_to_char j \<noteq> c" using d(3) j(4) by metis
  then show ?thesis using j d i(4) letter_index_back [OF c] update_wheel_index_ok [OF assms(1)]
    by (simp add: enig_enc_eq letter_def)
qed

section \<open>The reverse tables\<close>

lemma calc_rev_loop_result:
  assumes "length w = 26" "length bp = 26" "distinct w" "\<forall>b \<in> set w. uint b < 26" "distinct is" "set is \<subseteq> {0..25}"
  shows "returns (calc_rev_loop w is bp) (\<lambda>(rc, bp'). rc = 1 \<and> length bp' = 26 \<and>
    (\<forall>i \<in> set is. bp' ! unat (w ! nat i) = word_of_int i) \<and>
    (\<forall>j. (\<forall>i \<in> set is. unat (w ! nat i) \<noteq> j) \<longrightarrow> bp' ! j = bp ! j))"
  using assms(2,5,6)
proof (induction "is" arbitrary: bp)
  case Nil
  then show ?case by simp
next
  case (Cons i rest)
  let ?b = "w ! nat i"
  let ?bp = "bp[unat ?b := word_of_int i]"
  have i: "0 \<le> i" "i < 26" using Cons.prems(3) by simp_all
  have "?b \<in> set w" using i assms(1) by (intro nth_mem) simp
  then have b: "uint ?b < 26" using assms(4) by blast
  then have u: "unat ?b < 26" by (simp only: unat_eq_nat_uint nat_less_iff uint_ge_0)
  have step: "calc_rev_loop w (i # rest) bp = calc_rev_loop w rest ?bp"
    using i b Cons.prems(1) assms(1) by (simp add: array_get_def array_set_def)
  have other: "unat (w ! nat k) \<noteq> unat ?b" if "k \<in> set rest" for k
  proof -
    have "k \<noteq> i" "0 \<le> k" "k \<le> 25" using that Cons.prems(2,3) by auto
    then have "w ! nat k \<noteq> ?b" using i assms(1,3) by (simp add: nth_eq_iff_index_eq)
    then show ?thesis by (simp add: word_unat_eq_iff)
  qed
  show ?case unfolding step
  proof (rule returns_mono [OF Cons.IH])
    show "length ?bp = 26" "distinct rest" "set rest \<subseteq> {0..25}" using Cons.prems by simp_all
  next
    fix x assume r: "case x of (rc, bp') \<Rightarrow> rc = 1 \<and> length bp' = 26 \<and> (\<forall>i \<in> set rest. bp' ! unat (w ! nat i) = word_of_int i) \<and>
      (\<forall>j. (\<forall>i \<in> set rest. unat (w ! nat i) \<noteq> j) \<longrightarrow> bp' ! j = ?bp ! j)"
    obtain rc bp' where x: "x = (rc, bp')" by (cases x)
    have "bp' ! unat ?b = word_of_int i" using r other u Cons.prems(1) unfolding x by simp
    then show "case x of (rc, bp') \<Rightarrow> rc = 1 \<and> length bp' = 26 \<and> (\<forall>k \<in> set (i # rest). bp' ! unat (w ! nat k) = word_of_int k) \<and>
      (\<forall>j. (\<forall>k \<in> set (i # rest). unat (w ! nat k) \<noteq> j) \<longrightarrow> bp' ! j = bp ! j)"
      using r unfolding x by simp
  qed
qed

lemma calc_rev_wheel_inverts:
  assumes "length w = 26" "length bp = 26" "distinct w" "\<forall>b \<in> set w. uint b < 26"
  shows "returns (calc_rev_wheel w bp) (\<lambda>(rc, wr). rc = 1 \<and> rotor w wr)"
proof -
  obtain wr where wr: "calc_rev_wheel w bp = Some (1, wr)" "length wr = 26"
      "\<forall>i \<in> {0..25}. wr ! unat (w ! nat i) = word_of_int i"
    using calc_rev_loop_result [OF assms, of "[0..25]"] by (auto simp: calc_rev_wheel_def elim: returnsE)
  have entry: "unat (w ! k) < 26" if "k < 26" for k
    using assms(1,4) that nth_mem [of k w] by (simp only: unat_eq_nat_uint nat_less_iff uint_ge_0) simp
  have rev_k: "wr ! unat (w ! k) = of_nat k" if "k < 26" for k
    using bspec [OF wr(3), of "int k"] that by simp
  have "inj_on (\<lambda>k. unat (w ! k)) {..<26}"
    using assms(1,3) by (auto simp: inj_on_def nth_eq_iff_index_eq simp flip: word_unat_eq_iff)
  then have onto: "(\<lambda>k. unat (w ! k)) ` {..<26} = {..<26}"
    using entry by (intro endo_inj_surj) auto
  have backward: "unat (wr ! j) < 26 \<and> w ! unat (wr ! j) = of_nat j" if "j < 26" for j
  proof -
    from onto that obtain k where k: "k < 26" "unat (w ! k) = j" by (metis (no_types, lifting) imageE lessThan_iff)
    then have "unat (wr ! j) = k" using rev_k [OF k(1)] by (simp add: unat_of_nat)
    moreover have "w ! k = of_nat j" unfolding k(2) [symmetric] by simp
    ultimately show ?thesis using k(1) by simp
  qed
  have "rotor w wr" using assms(1) wr(2) entry rev_k backward by unfold_locales simp_all
  then show ?thesis using wr(1) by simp
qed

section \<open>The machine of main.c\<close>

text \<open>
  \<open>main\<close> sets the machine up from the first wheel, which the build option ALTMSG selects; the reverse
  tables are zero before.
\<close>

definition start_machine :: "u8 list \<Rightarrow> machine option" where
  "start_machine w1 = do {
     (_, w1r) \<leftarrow> calc_rev_wheel w1 (replicate 26 0);
     (_, w2r) \<leftarrow> calc_rev_wheel START_WHEEL (replicate 26 0);
     (_, w3r) \<leftarrow> calc_rev_wheel START_WHEEL (replicate 26 0);
     Some \<lparr>W1 = w1, W2 = START_WHEEL, W3 = START_WHEEL, R = REFLECT, W1R = w1r, W2R = w2r, W3R = w3r,
       IW1 = 0, IW2 = 0, IW3 = 0\<rparr>
   }"

definition reverse_table :: "u8 list \<Rightarrow> u8 list" where
  "reverse_table w = (case calc_rev_wheel w (replicate 26 0) of Some (_, wr) \<Rightarrow> wr | None \<Rightarrow> [])"

lemma start_wheels: "distinct START_WHEEL" "distinct START_WHEEL2" "length START_WHEEL = 26" "length START_WHEEL2 = 26"
  "\<forall>b \<in> set START_WHEEL. uint b < 26" "\<forall>b \<in> set START_WHEEL2. uint b < 26"
  by (simp_all add: START_WHEEL_def START_WHEEL2_def)

lemma reverse_table_rotor:
  assumes "length w = 26" "distinct w" "\<forall>b \<in> set w. uint b < 26"
  shows "rotor w (reverse_table w)" "calc_rev_wheel w (replicate 26 0) = Some (1, reverse_table w)"
  using calc_rev_wheel_inverts [OF assms(1) _ assms(2,3), of "replicate 26 0"] by (auto simp: reverse_table_def elim: returnsE)

interpretation wheel: rotor START_WHEEL "reverse_table START_WHEEL"
  by (rule reverse_table_rotor) (rule start_wheels)+

interpretation wheel2: rotor START_WHEEL2 "reverse_table START_WHEEL2"
  by (rule reverse_table_rotor) (rule start_wheels)+

interpretation reflect: reflector REFLECT
proof -
  have "\<forall>i \<in> set [0..<26]. unat (REFLECT ! i) < 26 \<and> REFLECT ! unat (REFLECT ! i) = of_nat i \<and> unat (REFLECT ! i) \<noteq> i"
    by (simp add: REFLECT_def upt_rec)
  then show "reflector REFLECT" by unfold_locales (auto simp: REFLECT_def)
qed

lemma start_machine_ok:
  assumes "w1 \<in> {START_WHEEL, START_WHEEL2}"
  shows "returns (start_machine w1) machine_ok"
  using assms wheel.rotor_axioms wheel2.rotor_axioms reflect.reflector_axioms
  by (auto simp: start_machine_def reverse_table_rotor(2) start_wheels machine_ok_def)

theorem letters_encrypt_both_ways:
  assumes "w1 \<in> {START_WHEEL, START_WHEEL2}" "letter c" "0 \<le> i" "i < 26" "0 \<le> j" "j < 26" "0 \<le> k" "k < 26"
  shows "returns (start_machine w1) (\<lambda>m. returns (enig_enc c (m\<lparr>IW1 := i, IW2 := j, IW3 := k\<rparr>))
    (\<lambda>(d, m'). letter d \<and> d \<noteq> c \<and> machine_ok m' \<and>
       enig_enc d (m\<lparr>IW1 := i, IW2 := j, IW3 := k\<rparr>) = Some (c, m')))"
proof (rule returns_mono [OF start_machine_ok [OF assms(1)]])
  fix m assume "machine_ok m"
  then have "machine_ok (m\<lparr>IW1 := i, IW2 := j, IW3 := k\<rparr>)" using assms by (simp add: machine_ok_def)
  from letter_both_ways [OF this assms(2)] show "returns (enig_enc c (m\<lparr>IW1 := i, IW2 := j, IW3 := k\<rparr>))
    (\<lambda>(d, m'). letter d \<and> d \<noteq> c \<and> machine_ok m' \<and>
       enig_enc d (m\<lparr>IW1 := i, IW2 := j, IW3 := k\<rparr>) = Some (c, m'))"
    by (rule returns_mono) auto
qed

lemma letters_encrypt_both_ways_witness:
  "returns (start_machine START_WHEEL2) (\<lambda>m. returns (enig_enc 109 (m\<lparr>IW1 := 7, IW2 := 2, IW3 := 3\<rparr>))
    (\<lambda>(d, m'). letter d \<and> d \<noteq> 109 \<and> machine_ok m' \<and>
       enig_enc d (m\<lparr>IW1 := 7, IW2 := 2, IW3 := 3\<rparr>) = Some (109, m')))"
  by (rule letters_encrypt_both_ways) (simp_all add: letter_def)

end
