(* ===== verification/EnigmaThreads.thy ===== *)
theory EnigmaThreads
  imports Enigma
begin

text \<open>
  samples/userspace/shared_mem/src/main.c: a text through the rotor machine, and the three threads
  that hand texts on through shared memory, each holding the semaphore \<open>allforone\<close> while it works.
\<close>

section \<open>A text\<close>

text \<open>The loop of \<open>enc\<close> over the rest of \<open>enc_pt\<close>; \<open>index_out\<close> counts the letters written to \<open>enc_ct\<close>.\<close>

fun encode_loop :: "u8 list \<Rightarrow> int \<Rightarrow> u8 list \<Rightarrow> machine \<Rightarrow> (u8 list \<times> machine) option" where
  "encode_loop [] index_out ct m = Some (ct, m)"
| "encode_loop (c # cs) index_out ct m =
     (if c = 0 then array_set ct index_out 0 \<bind> (\<lambda>ct. Some (ct, m))
      else if c \<ge> 97 \<and> c \<le> 122 then do {
        (d, m) \<leftarrow> enig_enc c m;
        ct \<leftarrow> array_set ct index_out d;
        encode_loop cs (index_out + 1) ct m
      } else encode_loop cs index_out ct m)"

abbreviation SAMP_BLOCKSIZE :: nat where "SAMP_BLOCKSIZE \<equiv> 50"

definition encode_text :: "u8 list \<Rightarrow> machine \<Rightarrow> (u8 list \<times> machine) option" where
  "encode_text pt m = encode_loop pt 0 (replicate SAMP_BLOCKSIZE 0) (m\<lparr>IW1 := 7, IW2 := 2, IW3 := 3\<rparr>)"

text \<open>What the loop computes: the letters of the text up to its end, each through the machine in turn.\<close>

definition letters_of :: "u8 list \<Rightarrow> u8 list" where
  "letters_of pt = filter letter (takeWhile (\<lambda>c. c \<noteq> 0) pt)"

fun cipher :: "u8 list \<Rightarrow> machine \<Rightarrow> u8 list" where
  "cipher [] m = []"
| "cipher (c # cs) m = (case enig_enc c m of None \<Rightarrow> [] | Some (d, m') \<Rightarrow> d # cipher cs m')"

definition same_wheels :: "machine \<Rightarrow> machine \<Rightarrow> bool" where
  "same_wheels m m' \<longleftrightarrow> W1 m' = W1 m \<and> W2 m' = W2 m \<and> W3 m' = W3 m \<and> R m' = R m \<and>
     W1R m' = W1R m \<and> W2R m' = W2R m \<and> W3R m' = W3R m"

lemma enig_enc_wheels: "enig_enc c m = Some (d, m') \<Longrightarrow> same_wheels m m'"
  by (auto simp: enig_enc_eq same_wheels_def update_wheel_index_def Let_def bind_eq_Some_conv split: if_splits)

lemma same_wheels_trans: "same_wheels m m' \<Longrightarrow> same_wheels m' m'' \<Longrightarrow> same_wheels m m''"
  by (simp add: same_wheels_def)

lemma same_wheels_reset:
  "same_wheels m m' \<Longrightarrow> m'\<lparr>IW1 := i, IW2 := j, IW3 := k\<rparr> = m\<lparr>IW1 := i, IW2 := j, IW3 := k\<rparr>"
  by (simp add: same_wheels_def)

lemma letter_encrypted:
  assumes "machine_ok m" "letter c"
  obtains d m' where "enig_enc c m = Some (d, m')" "letter d" "d \<noteq> c" "enig_enc d m = Some (c, m')" "machine_ok m'"
    "same_wheels m m'"
  using letter_both_ways [OF assms] enig_enc_wheels that by (auto elim!: returnsE)

lemma letters_of_Cons:
  "letters_of (c # cs) = (if c = 0 then [] else if letter c then c # letters_of cs else letters_of cs)"
  by (simp add: letters_of_def)

lemma letters_of_length: "length (letters_of cs) \<le> length cs"
  unfolding letters_of_def by (rule order_trans [OF length_filter_le length_takeWhile_le])

lemma encode_loop_eq:
  assumes "machine_ok m" "length cs \<le> j"
  shows "returns (encode_loop cs (int (length xs)) (xs @ replicate j 0) m) (\<lambda>(ct, m').
    ct = xs @ cipher (letters_of cs) m @ replicate (j - length (letters_of cs)) 0 \<and> machine_ok m' \<and> same_wheels m m')"
  using assms
proof (induction cs arbitrary: j xs m)
  case Nil
  then show ?case by (simp add: letters_of_def same_wheels_def)
next
  case (Cons c cs)
  obtain j' where j: "j = Suc j'" "length cs \<le> j'" using Cons.prems(2) by (cases j) simp_all
  have put: "array_set (xs @ replicate j 0) (int (length xs)) d = Some ((xs @ [d]) @ replicate j' 0)" for d
    by (simp add: array_set_def j list_update_append)
  consider "c = 0" | "c \<noteq> 0" "letter c" | "c \<noteq> 0" "\<not> letter c" by blast
  then show ?case
  proof cases
    case 1
    then show ?thesis using Cons.prems(1) put [of 0] by (simp add: letters_of_Cons same_wheels_def j)
  next
    case 2
    obtain d m' where d: "enig_enc c m = Some (d, m')" "machine_ok m'" "same_wheels m m'"
      using Cons.prems(1) 2(2) by (rule letter_encrypted)
    have i: "int (length xs) + 1 = int (length (xs @ [d]))" by simp
    have "returns (encode_loop cs (int (length (xs @ [d]))) ((xs @ [d]) @ replicate j' 0) m') (\<lambda>(ct, m'').
        ct = (xs @ [d]) @ cipher (letters_of cs) m' @ replicate (j' - length (letters_of cs)) 0 \<and> machine_ok m'' \<and> same_wheels m' m'')"
      using d(2) j(2) by (rule Cons.IH)
    moreover have "encode_loop (c # cs) (int (length xs)) (xs @ replicate j 0) m =
        encode_loop cs (int (length (xs @ [d]))) ((xs @ [d]) @ replicate j' 0) m'"
      unfolding i [symmetric] using 2 d(1) put [of d] by (simp add: letter_def)
    ultimately show ?thesis using 2 d(1,3) j
      by (auto elim!: returns_mono simp: letters_of_Cons intro: same_wheels_trans)
  next
    case 3
    then have "encode_loop (c # cs) i ct m = encode_loop cs i ct m" for i ct by (auto simp: letter_def)
    moreover have "returns (encode_loop cs (int (length xs)) (xs @ replicate j 0) m) (\<lambda>(ct, m').
        ct = xs @ cipher (letters_of cs) m @ replicate (j - length (letters_of cs)) 0 \<and> machine_ok m' \<and> same_wheels m m')"
      using Cons.prems by (intro Cons.IH) simp_all
    ultimately show ?thesis using 3 by (simp only: letters_of_Cons if_False)
  qed
qed

lemma cipher_letters:
  assumes "machine_ok m" "\<forall>c \<in> set cs. letter c"
  shows "length (cipher cs m) = length cs" "\<forall>c \<in> set (cipher cs m). letter c" "cipher (cipher cs m) m = cs"
proof -
  have "length (cipher cs m) = length cs \<and> (\<forall>c \<in> set (cipher cs m). letter c) \<and> cipher (cipher cs m) m = cs"
    using assms
  proof (induction cs arbitrary: m)
    case (Cons c cs)
    have "letter c" using Cons.prems(2) by simp
    obtain d m' where d: "enig_enc c m = Some (d, m')" "letter d" "enig_enc d m = Some (c, m')" "machine_ok m'"
      using Cons.prems(1) \<open>letter c\<close> by (rule letter_encrypted)
    then show ?case using Cons.IH [OF d(4)] Cons.prems(2) by simp
  qed simp
  then show "length (cipher cs m) = length cs" "\<forall>c \<in> set (cipher cs m). letter c" "cipher (cipher cs m) m = cs"
    by blast+
qed

text \<open>The reflector sends no letter to itself, and so does the machine.\<close>

lemma cipher_differs: "machine_ok m \<Longrightarrow> \<forall>c \<in> set cs. letter c \<Longrightarrow> list_all2 (\<noteq>) (cipher cs m) cs"
proof (induction cs arbitrary: m)
  case (Cons c cs)
  have "letter c" using Cons.prems(2) by simp
  obtain d m' where "enig_enc c m = Some (d, m')" "d \<noteq> c" "machine_ok m'"
    using Cons.prems(1) \<open>letter c\<close> by (rule letter_encrypted)
  then show ?case using Cons by simp
qed simp

lemma letters_of_letters: "\<forall>c \<in> set (letters_of pt). letter c"
  by (simp add: letters_of_def)

lemma letters_of_padded: "\<forall>c \<in> set cs. letter c \<Longrightarrow> letters_of (cs @ replicate k 0) = cs"
  by (induction cs) (auto simp: letters_of_Cons letter_def, simp add: letters_of_def)

abbreviation at_start :: "machine \<Rightarrow> machine" where "at_start m \<equiv> m\<lparr>IW1 := 7, IW2 := 2, IW3 := 3\<rparr>"

lemma at_start_ok: "machine_ok m \<Longrightarrow> machine_ok (at_start m)"
  by (simp add: machine_ok_def)

lemma encode_text_eq:
  assumes "machine_ok m" "length pt = 50"
  shows "returns (encode_text pt m) (\<lambda>(ct, m'). ct = cipher (letters_of pt) (at_start m) @ replicate (50 - length (letters_of pt)) 0 \<and>
    length ct = 50 \<and> machine_ok m' \<and> same_wheels m m')"
proof -
  have "same_wheels m (at_start m)" by (simp add: same_wheels_def)
  moreover have "length (letters_of pt) \<le> 50" using letters_of_length [of pt] assms(2) by simp
  moreover note encode_loop_eq [OF at_start_ok [OF assms(1)], of pt 50 "[]"] cipher_letters(1) [OF at_start_ok [OF assms(1)] letters_of_letters]
  ultimately show ?thesis using assms(2) same_wheels_trans by (auto elim!: returns_mono simp: encode_text_def)
qed

text \<open>
  C16: With the wheels of the program, whichever of the two start wheels the build option selects,
  the encryption of a buffer of 50 bytes is one letter for each letter of its text, none of them the
  letter itself, then zeros; and encrypting it again gives the letters of the text back: upper case,
  spaces and punctuation are dropped. No letter is read or written out of its array.
\<close>

theorem texts_decrypt:
  assumes "w1 \<in> {START_WHEEL, START_WHEEL2}" "length pt = 50"
  shows "returns (start_machine w1 \<bind> encode_text pt) (\<lambda>(ct, m).
    (\<exists>cs. ct = cs @ replicate (50 - length cs) 0 \<and> list_all letter cs \<and> list_all2 (\<noteq>) cs (letters_of pt)) \<and>
    returns (encode_text ct m) (\<lambda>(text, _). text = letters_of pt @ replicate (50 - length (letters_of pt)) 0))"
proof (rule returns_bindI [OF start_machine_ok [OF assms(1)]])
  fix m assume m: "machine_ok m"
  note ok = at_start_ok [OF m]
  let ?c = "cipher (letters_of pt) (at_start m)"
  let ?z = "replicate (50 - length (letters_of pt)) 0"
  note c = cipher_letters [OF ok letters_of_letters [of pt]]
  define P where "P ct \<longleftrightarrow> (\<exists>cs. ct = cs @ replicate (50 - length cs) 0 \<and> list_all letter cs \<and> list_all2 (\<noteq>) cs (letters_of pt))" for ct
  have "list_all letter ?c" using c(2) by (simp add: list_all_iff)
  then have shape: "P (?c @ ?z)"
    unfolding P_def using cipher_differs [OF ok letters_of_letters [of pt]] c(1) by (intro exI [of _ ?c]) simp
  have "returns (encode_text (?c @ ?z) k) (\<lambda>(text, _). text = letters_of pt @ ?z)"
    if "machine_ok k" "same_wheels m k" "length (?c @ ?z) = 50" for k
    using encode_text_eq [OF that(1,3)] c
    by (auto elim!: returns_mono simp: letters_of_padded same_wheels_reset [OF that(2)])
  then show "returns (encode_text pt m) (\<lambda>(ct, m).
      (\<exists>cs. ct = cs @ replicate (50 - length cs) 0 \<and> list_all letter cs \<and> list_all2 (\<noteq>) cs (letters_of pt)) \<and>
      returns (encode_text ct m) (\<lambda>(text, _). text = letters_of pt @ ?z))"
    unfolding P_def [symmetric] using encode_text_eq [OF m assms(2)] shape by (auto elim!: returns_mono)
qed

lemma texts_decrypt_witness:
  "let pt = map of_char ''message'' @ replicate 43 0 in
   returns (start_machine START_WHEEL2 \<bind> encode_text pt) (\<lambda>(ct, m).
    (\<exists>cs. ct = cs @ replicate (50 - length cs) 0 \<and> list_all letter cs \<and> list_all2 (\<noteq>) cs (letters_of pt)) \<and>
    returns (encode_text ct m) (\<lambda>(text, _). text = letters_of pt @ replicate (50 - length (letters_of pt)) 0))"
  unfolding Let_def by (rule texts_decrypt) simp_all

section \<open>Shared memory\<close>

text \<open>The buffers and flags two threads share, the machine of \<open>enc\<close>, and the texts \<open>ct\<close> has printed.\<close>

record shared =
  fBUFIN :: u8
  BUFIN :: "u8 list"
  fBUFOUT :: u8
  BUFOUT :: "u8 list"
  mach :: machine
  printed :: "u8 list list"

definition memset :: "u8 list \<Rightarrow> u8 \<Rightarrow> nat \<Rightarrow> u8 list option" where
  "memset dst v n = (if n \<le> length dst then Some (replicate n v @ drop n dst) else None)"

definition memcpy :: "u8 list \<Rightarrow> u8 list \<Rightarrow> nat \<Rightarrow> u8 list option" where
  "memcpy dst src n = (if n \<le> length dst \<and> n \<le> length src then Some (take n src @ drop n dst) else None)"

definition ptMSG :: "u8 list" where
  "ptMSG = map of_char ''PT: message to encrypt'' @ [10, 0]"

text \<open>The build option ALTMSG selects the first wheel and the message encrypted with it.\<close>

definition W1_wheel :: "bool \<Rightarrow> u8 list" where
  "W1_wheel altmsg = (if altmsg then START_WHEEL else START_WHEEL2)"

definition ptMSG2 :: "bool \<Rightarrow> u8 list" where
  "ptMSG2 altmsg = (if altmsg then map of_char ''nfttbhfspfmdqzos'' else map of_char ''ofttbhfspgmeqzos'') @ [10, 0]"

text \<open>What \<open>pt\<close> does between taking and giving the semaphore, with the one or the other message.\<close>

definition pt_send :: "u8 list \<Rightarrow> shared \<Rightarrow> shared option" where
  "pt_send msg s =
     (if fBUFIN s = 0 then do {
        b \<leftarrow> memset (BUFIN s) 0 SAMP_BLOCKSIZE;
        b \<leftarrow> memcpy b msg (length msg);
        Some (s\<lparr>BUFIN := b, fBUFIN := 1\<rparr>)
      } else Some s)"

text \<open>
  What \<open>enc\<close> does. While \<open>fBUFOUT\<close> is set it sleeps without giving the semaphore back, and only \<open>ct\<close>
  clears the flag, after taking the semaphore: that wait does not end and is \<open>None\<close>.
\<close>

definition enc_turn :: "shared \<Rightarrow> shared option" where
  "enc_turn s =
     (if fBUFIN s = 1 then do {
        enc_pt \<leftarrow> memcpy (replicate 50 0) (BUFIN s) SAMP_BLOCKSIZE;
        let s = s\<lparr>fBUFIN := 0\<rparr>;
        (enc_ct, m) \<leftarrow> encode_text enc_pt (mach s);
        let s = s\<lparr>mach := m\<rparr>;
        if fBUFOUT s \<noteq> 0 then None
        else do {
          b \<leftarrow> memcpy (BUFOUT s) enc_ct SAMP_BLOCKSIZE;
          Some (s\<lparr>BUFOUT := b, fBUFOUT := 1\<rparr>)
        }
      } else Some s)"

definition ct_turn :: "shared \<Rightarrow> shared option" where
  "ct_turn s =
     (if fBUFOUT s = 1 then do {
        tbuf \<leftarrow> memset (replicate 60 0) 0 60;
        tbuf \<leftarrow> memcpy tbuf (BUFOUT s) SAMP_BLOCKSIZE;
        Some (s\<lparr>fBUFOUT := 0, printed := printed s @ [takeWhile (\<lambda>c. c \<noteq> 0) tbuf]\<rparr>)
      } else Some s)"

section \<open>Turns\<close>

text \<open>
  The semaphore starts with one token, so one thread holds it at a time; the kernel hands it to the
  thread that has waited longest. \<open>holders\<close> is the holder followed by the waiting threads; \<open>enc\<close> and
  \<open>ct\<close> ask again at once, \<open>pt\<close> after its first message asks again and after its second sleeps.
  \<open>sent\<close> is the messages that \<open>pt\<close> found room for.
\<close>

datatype thread = PT | ENC | CT

record threads =
  shm :: shared
  holders :: "thread list"
  second :: bool
  sent :: "u8 list list"

definition pt_turn :: "bool \<Rightarrow> threads \<Rightarrow> threads option" where
  "pt_turn altmsg t =
     (let msg = (if second t then ptMSG2 altmsg else ptMSG)
      in pt_send msg (shm t) \<bind> (\<lambda>s. Some (t\<lparr>shm := s, second := \<not> second t,
           holders := tl (holders t) @ (if second t then [] else [PT]),
           sent := sent t @ (if fBUFIN (shm t) = 0 then [msg] else [])\<rparr>)))"

fun turn :: "bool \<Rightarrow> thread \<Rightarrow> threads \<Rightarrow> threads option" where
  "turn altmsg ENC t = enc_turn (shm t) \<bind> (\<lambda>s. Some (t\<lparr>shm := s, holders := tl (holders t) @ [ENC]\<rparr>))"
| "turn altmsg CT t = ct_turn (shm t) \<bind> (\<lambda>s. Some (t\<lparr>shm := s, holders := tl (holders t) @ [CT]\<rparr>))"
| "turn altmsg PT t = pt_turn altmsg t"

definition main_threads :: "machine \<Rightarrow> threads" where
  "main_threads m = \<lparr>shm = \<lparr>fBUFIN = 0, BUFIN = replicate 63 0, fBUFOUT = 0, BUFOUT = replicate 63 0, mach = m, printed = []\<rparr>,
     holders = [ENC, CT], second = False, sent = []\<rparr>"

inductive running :: "bool \<Rightarrow> threads \<Rightarrow> bool" for altmsg where
  start: "start_machine (W1_wheel altmsg) = Some m \<Longrightarrow> running altmsg (main_threads m)"
| turn: "running altmsg t \<Longrightarrow> turn altmsg (hd (holders t)) t = Some t' \<Longrightarrow> running altmsg t'"
| wake: "running altmsg t \<Longrightarrow> PT \<notin> set (holders t) \<Longrightarrow> running altmsg (t\<lparr>holders := holders t @ [PT]\<rparr>)"

text \<open>The letters of a message through the machine of the main program, from the fixed positions.\<close>

definition coded :: "u8 list \<Rightarrow> u8 list \<Rightarrow> u8 list" where
  "coded w1 msg = (case start_machine w1 of None \<Rightarrow> [] | Some m \<Rightarrow> cipher (letters_of msg) (at_start m))"

definition ct_before_enc :: "thread list \<Rightarrow> bool" where
  "ct_before_enc q \<longleftrightarrow> CT \<in> set (takeWhile (\<lambda>x. x \<noteq> ENC) q)"

definition pending :: "u8 list \<Rightarrow> shared \<Rightarrow> u8 list list" where
  "pending w1 s = (if fBUFOUT s = 1 then [takeWhile (\<lambda>c. c \<noteq> 0) (take 50 (BUFOUT s))] else []) @
     (if fBUFIN s = 1 then [coded w1 (take 50 (BUFIN s))] else [])"

definition shm_ok :: "machine \<Rightarrow> shared \<Rightarrow> bool" where
  "shm_ok m s \<longleftrightarrow> fBUFIN s \<in> {0, 1} \<and> fBUFOUT s \<in> {0, 1} \<and> length (BUFIN s) = 63 \<and> length (BUFOUT s) = 63 \<and>
     machine_ok (mach s) \<and> same_wheels m (mach s)"

definition threads_inv :: "u8 list \<Rightarrow> threads \<Rightarrow> bool" where
  "threads_inv w1 t \<longleftrightarrow> (\<exists>m. start_machine w1 = Some m \<and> shm_ok m (shm t)) \<and>
     distinct (holders t) \<and> ENC \<in> set (holders t) \<and> CT \<in> set (holders t) \<and>
     (fBUFOUT (shm t) = 1 \<longrightarrow> ct_before_enc (holders t)) \<and>
     map (coded w1) (sent t) = printed (shm t) @ pending w1 (shm t)"

section \<open>One turn of each thread\<close>

lemma messages: "length ptMSG = 24" "length (ptMSG2 a) = 18"
  by (simp_all add: ptMSG_def ptMSG2_def)

lemma letters_of_more_zeros: "letters_of (xs @ replicate k 0) = letters_of xs"
  by (induction xs) (simp_all add: letters_of_Cons, simp add: letters_of_def)

lemma coded_more_zeros: "coded w1 (xs @ replicate k 0) = coded w1 xs"
  unfolding coded_def letters_of_more_zeros by (rule refl)

lemma takeWhile_more_zeros: "takeWhile (\<lambda>c. c \<noteq> 0) (xs @ replicate k 0) = takeWhile (\<lambda>c. c \<noteq> (0 :: u8)) xs"
  by (induction xs) simp_all

lemma pt_send_ok:
  assumes "shm_ok m s" "length msg \<le> 50"
  shows "returns (pt_send msg s) (\<lambda>s'. shm_ok m s' \<and> printed s' = printed s \<and> fBUFOUT s' = fBUFOUT s \<and>
    pending w1 s' = pending w1 s @ (if fBUFIN s = 0 then [coded w1 msg] else []))"
proof (cases "fBUFIN s = 0")
  case True
  then show ?thesis using assms
    by (simp add: pt_send_def memset_def memcpy_def shm_ok_def pending_def coded_more_zeros)
next
  case False
  then show ?thesis using assms by (simp add: pt_send_def)
qed

lemma takeWhile_letters: "\<forall>c \<in> set cs. letter c \<Longrightarrow> takeWhile (\<lambda>c. c \<noteq> 0) (cs @ replicate k 0) = cs"
  unfolding takeWhile_more_zeros by (auto simp: takeWhile_eq_all_conv letter_def)

lemma enc_turn_ok:
  assumes "start_machine w1 = Some m" "shm_ok m s" "fBUFOUT s \<noteq> 1"
  shows "returns (enc_turn s) (\<lambda>s'. shm_ok m s' \<and> printed s' = printed s \<and> pending w1 s' = pending w1 s)"
proof (cases "fBUFIN s = 1")
  case True
  let ?pt = "take 50 (BUFIN s)"
  have s: "length ?pt = 50" "machine_ok (mach s)" "same_wheels m (mach s)" "fBUFOUT s = 0"
    using assms(2,3) by (auto simp: shm_ok_def)
  obtain m' where m': "encode_text ?pt (mach s) =
      Some (cipher (letters_of ?pt) (at_start (mach s)) @ replicate (50 - length (letters_of ?pt)) 0, m')"
      "length (cipher (letters_of ?pt) (at_start (mach s)) @ replicate (50 - length (letters_of ?pt)) 0) = 50"
      "machine_ok m'" "same_wheels (mach s) m'"
    using encode_text_eq [OF s(2,1)] by (auto elim!: returnsE)
  have c: "coded w1 ?pt = cipher (letters_of ?pt) (at_start (mach s))"
    using assms(1) same_wheels_reset [OF s(3)] by (simp add: coded_def)
  have "\<forall>c \<in> set (coded w1 ?pt). letter c"
    unfolding c using at_start_ok [OF s(2)] letters_of_letters by (rule cipher_letters)
  note t = takeWhile_letters [OF this]
  have "enc_turn s = Some (s\<lparr>fBUFIN := 0, mach := m', fBUFOUT := 1,
      BUFOUT := coded w1 ?pt @ replicate (50 - length (letters_of ?pt)) 0 @ drop 50 (BUFOUT s)\<rparr>)"
    using True s(1,4) m'(1,2) assms(2) unfolding c
    by (simp add: enc_turn_def memcpy_def shm_ok_def)
  then show ?thesis using True s m'(2-4) assms(2) same_wheels_trans [OF s(3) m'(4)] t c
    by (simp add: shm_ok_def pending_def)
next
  case False
  then show ?thesis using assms(2) by (simp add: enc_turn_def)
qed

lemma enc_never_gives: "fBUFIN s = 1 \<Longrightarrow> fBUFOUT s = 1 \<Longrightarrow> enc_turn s = None"
  by (cases "memcpy (replicate 50 0) (BUFIN s) 50"; cases "encode_text (take 50 (BUFIN s)) (mach s)")
    (auto simp: enc_turn_def memcpy_def split: if_splits)

lemma ct_turn_ok:
  assumes "shm_ok m s"
  shows "returns (ct_turn s) (\<lambda>s'. shm_ok m s' \<and> fBUFOUT s' = 0 \<and> printed s' @ pending w1 s' = printed s @ pending w1 s)"
proof (cases "fBUFOUT s = 1")
  case True
  then show ?thesis using assms
    by (simp add: ct_turn_def memset_def memcpy_def shm_ok_def pending_def takeWhile_more_zeros)
next
  case False
  then show ?thesis using assms by (auto simp: ct_turn_def shm_ok_def)
qed

section \<open>All turns\<close>

lemma ct_before_enc_simps [simp]:
  "ct_before_enc (ENC # q) = False" "ct_before_enc (PT # q) = ct_before_enc q" "ct_before_enc (CT # q) = True"
  "\<not> ct_before_enc []"
  by (simp_all add: ct_before_enc_def)

lemma ct_before_enc_append: "ct_before_enc q \<Longrightarrow> ct_before_enc (q @ r)"
  by (induction q) (auto simp: ct_before_enc_def)

lemma ct_before_last: "CT \<in> set q \<Longrightarrow> ENC \<notin> set q \<Longrightarrow> ct_before_enc (q @ [ENC])"
  by (induction q) (auto simp: ct_before_enc_def)

lemma turn_ok:
  assumes "threads_inv w1 t"
  shows "returns (turn altmsg (hd (holders t)) t) (threads_inv w1)"
proof -
  obtain m where m: "start_machine w1 = Some m" "shm_ok m (shm t)" using assms by (auto simp: threads_inv_def)
  obtain x q where q: "holders t = x # q" using assms by (cases "holders t") (auto simp: threads_inv_def)
  note inv = assms [unfolded threads_inv_def q]
  show ?thesis
  proof (cases x)
    case PT
    let ?msg = "if second t then ptMSG2 altmsg else ptMSG"
    have "length ?msg \<le> 50" by (simp add: messages)
    then show ?thesis unfolding q PT using inv m pt_send_ok [OF m(2), of ?msg w1]
      by (auto simp: PT pt_turn_def Let_def threads_inv_def q ct_before_enc_append elim!: returns_mono)
  next
    case ENC
    then have "fBUFOUT (shm t) \<noteq> 1" using inv by simp
    moreover have "CT \<in> set q" "ENC \<notin> set q" using inv ENC by auto
    ultimately show ?thesis unfolding q ENC using inv m enc_turn_ok [OF m] ct_before_last
      by (auto simp: ENC threads_inv_def q elim!: returns_mono)
  next
    case CT
    then show ?thesis unfolding q CT using inv m ct_turn_ok [OF m(2), of w1]
      by (auto simp: CT threads_inv_def q elim!: returns_mono)
  qed
qed

lemma start_machine_wheel: "returns (start_machine (W1_wheel altmsg)) machine_ok"
  by (rule start_machine_ok) (simp add: W1_wheel_def)

lemma running_inv: "running altmsg t \<Longrightarrow> threads_inv (W1_wheel altmsg) t"
proof (induction rule: running.induct)
  case (start m)
  have "machine_ok m" using start_machine_wheel [of altmsg] start.hyps by simp
  then show ?case using start.hyps
    by (simp add: threads_inv_def main_threads_def shm_ok_def pending_def same_wheels_def)
next
  case (turn t t')
  then show ?case using turn_ok [OF turn.IH, of altmsg] by simp
next
  case (wake t)
  then show ?case by (auto simp: threads_inv_def ct_before_enc_append)
qed

text \<open>
  C17: With the semaphore handed to the thread that has waited longest, no turn of the three threads
  blocks with the semaphore held, and the messages printed are the encryptions of the messages sent,
  each once, in order, the last two at most still in the buffers.
\<close>

theorem messages_delivered_in_order:
  assumes "running altmsg t"
  shows "returns (turn altmsg (hd (holders t)) t) (running altmsg) \<and>
    map (coded (W1_wheel altmsg)) (sent t) = printed (shm t) @ pending (W1_wheel altmsg) (shm t)"
proof -
  have inv: "threads_inv (W1_wheel altmsg) t" using assms by (rule running_inv)
  obtain t' where "turn altmsg (hd (holders t)) t = Some t'" using turn_ok [OF inv] by (rule returnsE)
  then show ?thesis using running.turn [OF assms(1)] inv by (simp add: threads_inv_def)
qed

lemma messages_delivered_in_order_witness:
  "returns (start_machine (W1_wheel False)) (\<lambda>m. returns (turn False ENC (main_threads m)) (running False) \<and>
    map (coded (W1_wheel False)) [] = printed (shm (main_threads m)) @ pending (W1_wheel False) (shm (main_threads m)))"
proof -
  obtain m where m: "start_machine (W1_wheel False) = Some m" using start_machine_wheel by (rule returnsE)
  show ?thesis using messages_delivered_in_order [OF running.start [OF m]] m by (simp add: main_threads_def)
qed

text \<open>The two messages of \<open>pt\<close> are each other's encryption, as the README of the sample says.\<close>

lemma messages_match:
  "coded (W1_wheel altmsg) ptMSG = letters_of (ptMSG2 altmsg) \<and> coded (W1_wheel altmsg) (ptMSG2 altmsg) = letters_of ptMSG"
proof (cases altmsg)
  case True
  have *: "altmsg = True" using True by simp
  show ?thesis unfolding * by code_simp
next
  case False
  have *: "altmsg = False" using False by simp
  show ?thesis unfolding * by code_simp
qed

end
