(* ===== verification/Slip.thy ===== *)
theory Slip
  imports Prelude
begin

text \<open>
  samples/net/wpan_serial/src/main.c, the framing: \<open>slip_process_byte\<close> and the interrupt handler take
  packets out of the bytes of a serial line, \<open>slip_buffer\<close> and \<open>try_write\<close> put them there. A packet
  is the content of its last fragment, the only one this code reads or writes; whether a buffer
  can be allocated and how many bytes the last fragment holds is given.
\<close>

section \<open>The receiver\<close>

abbreviation SLIP_END :: u8 where "SLIP_END \<equiv> 192"
abbreviation SLIP_ESC :: u8 where "SLIP_ESC \<equiv> 219"
abbreviation SLIP_ESC_END :: u8 where "SLIP_ESC_END \<equiv> 220"
abbreviation SLIP_ESC_ESC :: u8 where "SLIP_ESC_ESC \<equiv> 221"

datatype slip_state = STATE_GARBAGE | STATE_OK | STATE_ESC

record line =
  slip_state :: slip_state
  pkt_curr :: "u8 list option"
  rx_queue :: "u8 list list"

text \<open>The end of \<open>slip_process_byte\<close>: a data byte for the packet, which may have to be allocated.\<close>

definition slip_add_byte :: "nat \<Rightarrow> bool \<Rightarrow> u8 \<Rightarrow> line \<Rightarrow> line" where
  "slip_add_byte room alloc c l =
     (case (case pkt_curr l of Some p \<Rightarrow> Some p | None \<Rightarrow> if alloc then Some [] else None) of
        None \<Rightarrow> l
      | Some p \<Rightarrow> if length p < room then l\<lparr>pkt_curr := Some (p @ [c])\<rparr> else l\<lparr>pkt_curr := None\<rparr>)"

definition slip_process_byte :: "nat \<Rightarrow> bool \<Rightarrow> u8 \<Rightarrow> line \<Rightarrow> int \<times> line" where
  "slip_process_byte room alloc c l =
     (case slip_state l of
        STATE_GARBAGE \<Rightarrow> (0, if c = SLIP_END then l\<lparr>slip_state := STATE_OK\<rparr> else l)
      | STATE_ESC \<Rightarrow>
          if c = SLIP_ESC_END then (0, slip_add_byte room alloc SLIP_END (l\<lparr>slip_state := STATE_OK\<rparr>))
          else if c = SLIP_ESC_ESC then (0, slip_add_byte room alloc SLIP_ESC (l\<lparr>slip_state := STATE_OK\<rparr>))
          else (0, l\<lparr>slip_state := STATE_GARBAGE\<rparr>)
      | STATE_OK \<Rightarrow>
          if c = SLIP_ESC then (0, l\<lparr>slip_state := STATE_ESC\<rparr>)
          else if c = SLIP_END then (1, l)
          else (0, slip_add_byte room alloc c l))"

text \<open>
  The interrupt handler: the inner loop takes the bytes the FIFO holds, each with the answer an
  allocation would get; a poll without received data (\<open>None\<close>) goes on to the next.
\<close>

definition received_byte :: "nat \<Rightarrow> u8 \<times> bool \<Rightarrow> line \<Rightarrow> line" where
  "received_byte room ca l =
     (let (r, l) = slip_process_byte room (snd ca) (fst ca) l
      in if r \<noteq> 0 then (case pkt_curr l of
           None \<Rightarrow> l
         | Some p \<Rightarrow> l\<lparr>rx_queue := rx_queue l @ [p], pkt_curr := None\<rparr>) else l)"

fun interrupt_handler :: "nat \<Rightarrow> (u8 \<times> bool) list option list \<Rightarrow> line \<Rightarrow> line" where
  "interrupt_handler room [] l = l"
| "interrupt_handler room (None # polls) l = interrupt_handler room polls l"
| "interrupt_handler room (Some bytes # polls) l = interrupt_handler room polls (fold (received_byte room) bytes l)"

section \<open>The sender\<close>

text \<open>\<open>slip_buf\<close> has a fixed size: a write beyond it is \<open>None\<close>.\<close>

definition put_byte :: "nat \<Rightarrow> u8 \<Rightarrow> u8 list \<Rightarrow> u8 list option" where
  "put_byte cap b sbuf = (if length sbuf < cap then Some (sbuf @ [b]) else None)"

fun slip_bytes :: "nat \<Rightarrow> u8 list \<Rightarrow> u8 list \<Rightarrow> u8 list option" where
  "slip_bytes cap [] sbuf = Some sbuf"
| "slip_bytes cap (b # bs) sbuf =
     (if b = SLIP_END then put_byte cap SLIP_ESC sbuf \<bind> put_byte cap SLIP_ESC_END
      else if b = SLIP_ESC then put_byte cap SLIP_ESC sbuf \<bind> put_byte cap SLIP_ESC_ESC
      else put_byte cap b sbuf) \<bind> slip_bytes cap bs"

definition slip_buffer :: "nat \<Rightarrow> u8 list \<Rightarrow> u8 list option" where
  "slip_buffer cap buf = slip_bytes cap buf [] \<bind> put_byte cap SLIP_END"

text \<open>
  \<open>try_write\<close> offers the rest to the driver until all is taken. \<open>fill k\<close> is the driver's answer to
  the \<open>k\<close>-th call; a driver never takes more than it is offered. The result is the return value and
  what was written.
\<close>

function try_write :: "(nat \<Rightarrow> int) \<Rightarrow> nat \<Rightarrow> u8 list \<Rightarrow> u8 list \<Rightarrow> int \<times> u8 list" where
  "try_write fill k written data =
     (if data = [] then (0, written)
      else let wrote = min (fill k) (int (length data))
           in if wrote \<le> 0 then (wrote, written)
              else try_write fill (k + 1) (written @ take (nat wrote) data) (drop (nat wrote) data))"
  by auto
termination
  by (relation "measure (\<lambda>(_, _, _, data). length data)") auto

declare try_write.simps [simp del]

section \<open>Frames\<close>

fun slip_encode :: "u8 list \<Rightarrow> u8 list" where
  "slip_encode [] = []"
| "slip_encode (b # bs) = (if b = SLIP_END then [SLIP_ESC, SLIP_ESC_END]
     else if b = SLIP_ESC then [SLIP_ESC, SLIP_ESC_ESC] else [b]) @ slip_encode bs"

lemma slip_encode_length: "length (slip_encode bs) \<le> 2 * length bs"
  by (induction bs) auto

lemma slip_bytes_eq:
  "length sbuf + length (slip_encode bs) \<le> cap \<Longrightarrow> slip_bytes cap bs sbuf = Some (sbuf @ slip_encode bs)"
  by (induction bs arbitrary: sbuf) (auto simp: put_byte_def split: if_splits)

lemma slip_buffer_fits:
  assumes "length bs \<le> n"
  shows "slip_buffer (1 + 2 * n) bs = Some (slip_encode bs @ [SLIP_END])"
  using slip_bytes_eq [of "[]" bs "1 + 2 * n"] slip_encode_length [of bs] assms
  by (simp add: slip_buffer_def put_byte_def)

lemma try_write_all:
  assumes "\<And>k. 0 < fill k"
  shows "try_write fill k written data = (0, written @ data)"
  using assms
proof (induction fill k written data rule: try_write.induct)
  case (1 fill k written data)
  show ?case
  proof (cases "data = []")
    case True
    then show ?thesis by (subst try_write.simps) simp
  next
    case False
    then have "\<not> min (fill k) (int (length data)) \<le> 0" using 1(2) [of k] by (simp add: min_def)
    then show ?thesis using 1 False by (subst try_write.simps) (simp add: Let_def)
  qed
qed

section \<open>Receiving frames\<close>

text \<open>The receiver in the middle of a frame of which it has the bytes \<open>xs\<close>.\<close>

definition holding :: "u8 list \<Rightarrow> line \<Rightarrow> line" where
  "holding xs l = l\<lparr>slip_state := STATE_OK, pkt_curr := (if xs = [] then None else Some xs)\<rparr>"

definition allocated :: "u8 list \<Rightarrow> (u8 \<times> bool) list" where
  "allocated bs = map (\<lambda>b. (b, True)) bs"

lemma allocated_simps [simp]:
  "allocated [] = []" "allocated (b # bs) = (b, True) # allocated bs" "allocated (bs @ cs) = allocated bs @ allocated cs"
  by (simp_all add: allocated_def)

lemma received_encoded_byte:
  assumes "length xs < room"
  shows "fold (received_byte room) (allocated (slip_encode [b])) (holding xs l) = holding (xs @ [b]) l"
  using assms by (auto simp: received_byte_def slip_process_byte_def holding_def slip_add_byte_def)

lemma received_encoded:
  "length xs + length bs \<le> room \<Longrightarrow> fold (received_byte room) (allocated (slip_encode bs)) (holding xs l) = holding (xs @ bs) l"
proof (induction bs arbitrary: xs)
  case (Cons b bs)
  have "slip_encode (b # bs) = slip_encode [b] @ slip_encode bs" by simp
  then show ?case using Cons.IH [of "xs @ [b]"] Cons.prems received_encoded_byte [of xs room b l]
    by (simp del: slip_encode.simps)
qed simp

lemma received_end:
  "xs \<noteq> [] \<Longrightarrow> received_byte room (SLIP_END, True) (holding xs l) = holding [] (l\<lparr>rx_queue := rx_queue l @ [xs]\<rparr>)"
  by (simp add: received_byte_def slip_process_byte_def holding_def)

definition frame_of :: "u8 list \<Rightarrow> u8 list" where
  "frame_of p = slip_encode p @ [SLIP_END]"

lemma received_frame:
  assumes "p \<noteq> []" "length p \<le> room"
  shows "fold (received_byte room) (allocated (frame_of p)) (holding [] l) = holding [] (l\<lparr>rx_queue := rx_queue l @ [p]\<rparr>)"
  using received_encoded [of "[]" p room l] received_end [OF assms(1)] assms by (simp add: frame_of_def)

lemma received_frames:
  "\<forall>p \<in> set ps. p \<noteq> [] \<and> length p \<le> room \<Longrightarrow>
   fold (received_byte room) (allocated (concat (map frame_of ps))) (holding [] l) = holding [] (l\<lparr>rx_queue := rx_queue l @ ps\<rparr>)"
proof (induction ps arbitrary: l)
  case (Cons p ps)
  then show ?case using received_frame [of p room l] by simp
qed (simp add: holding_def)

lemma interrupt_handler_eq:
  "interrupt_handler room polls l = fold (received_byte room) (concat (map (case_option [] id) polls)) l"
  by (induction room polls l rule: interrupt_handler.induct) simp_all

text \<open>
  C18: slip_buffer frames any packet that fits a buffer without writing beyond its own, and
  non-empty packets so framed arrive at an idle receiver as they were sent, in order, however the
  bytes are split over interrupts, when they fit the receiver's buffer and its allocations succeed.
\<close>

theorem frames_arrive:
  assumes "\<forall>p \<in> set ps. p \<noteq> [] \<and> length p \<le> room \<and> length p \<le> n" "slip_state l = STATE_OK" "pkt_curr l = None"
  shows "\<exists>frames. map (slip_buffer (1 + 2 * n)) ps = map Some frames \<and>
    (\<forall>polls. concat (map (case_option [] id) polls) = allocated (concat frames) \<longrightarrow>
       interrupt_handler room polls l = l\<lparr>rx_queue := rx_queue l @ ps\<rparr>)"
proof (intro exI [of _ "map frame_of ps"] conjI allI impI)
  show "map (slip_buffer (1 + 2 * n)) ps = map Some (map frame_of ps)"
    using assms(1) slip_buffer_fits by (simp add: frame_of_def)
  have idle: "holding [] l' = l'" if "slip_state l' = STATE_OK" "pkt_curr l' = None" for l'
    using that by (simp add: holding_def)
  show "interrupt_handler room polls l = l\<lparr>rx_queue := rx_queue l @ ps\<rparr>"
    if "concat (map (case_option [] id) polls) = allocated (concat (map frame_of ps))" for polls
    using that assms idle received_frames [of ps room l] by (simp add: interrupt_handler_eq)
qed

lemma frames_arrive_witness:
  "slip_buffer 257 [1, SLIP_END] = Some [1, SLIP_ESC, SLIP_ESC_END, SLIP_END] \<and> slip_buffer 257 [7] = Some [7, SLIP_END] \<and>
   interrupt_handler 128 [Some (allocated [1, SLIP_ESC]), None, Some (allocated [SLIP_ESC_END, SLIP_END, 7]), Some (allocated [SLIP_END])]
     \<lparr>slip_state = STATE_OK, pkt_curr = None, rx_queue = []\<rparr> =
   \<lparr>slip_state = STATE_OK, pkt_curr = None, rx_queue = [[1, SLIP_END], [7]]\<rparr>"
proof -
  let ?l = "\<lparr>slip_state = STATE_OK, pkt_curr = None, rx_queue = []\<rparr>"
  have f: "slip_buffer 257 [1, SLIP_END] = Some [1, SLIP_ESC, SLIP_ESC_END, SLIP_END]" "slip_buffer 257 [7] = Some [7, SLIP_END]"
    by (simp_all add: slip_buffer_def put_byte_def)
  have "\<exists>frames. map (slip_buffer (1 + 2 * 128)) [[1, SLIP_END], [7]] = map Some frames \<and>
    (\<forall>polls. concat (map (case_option [] id) polls) = allocated (concat frames) \<longrightarrow>
       interrupt_handler 128 polls ?l = ?l\<lparr>rx_queue := rx_queue ?l @ [[1, SLIP_END], [7]]\<rparr>)"
    by (rule frames_arrive) simp_all
  then obtain frames where "map (slip_buffer (1 + 2 * 128)) [[1, SLIP_END], [7]] = map Some frames"
    and arrive: "\<And>polls. concat (map (case_option [] id) polls) = allocated (concat frames) \<Longrightarrow>
       interrupt_handler 128 polls ?l = ?l\<lparr>rx_queue := rx_queue ?l @ [[1, SLIP_END], [7]]\<rparr>"
    by blast
  then have "map Some frames = map Some [[1, SLIP_ESC, SLIP_ESC_END, SLIP_END], [7, SLIP_END]]" using f by simp
  then have "frames = [[1, SLIP_ESC, SLIP_ESC_END, SLIP_END], [7, SLIP_END]]" by (simp only: inj_map_eq_map [OF inj_Some])
  then show ?thesis
    using f arrive [of "[Some (allocated [1, SLIP_ESC]), None, Some (allocated [SLIP_ESC_END, SLIP_END, 7]), Some (allocated [SLIP_END])]"]
    by simp
qed

section \<open>Damaged and long frames\<close>

lemma garbage_skipped:
  "SLIP_END \<notin> set garbage \<Longrightarrow> slip_state l = STATE_GARBAGE \<Longrightarrow> fold (received_byte room) (allocated garbage) l = l"
  by (induction garbage) (simp_all add: received_byte_def slip_process_byte_def)

lemma bad_escape:
  assumes "b \<noteq> SLIP_ESC_END" "b \<noteq> SLIP_ESC_ESC"
  shows "fold (received_byte room) (allocated [SLIP_ESC, b]) (holding xs l) = (holding xs l)\<lparr>slip_state := STATE_GARBAGE\<rparr>"
  using assms by (simp add: received_byte_def slip_process_byte_def holding_def)

lemma resynchronised:
  "received_byte room (SLIP_END, True) ((holding xs l)\<lparr>slip_state := STATE_GARBAGE\<rparr>) = holding xs l"
  by (simp add: received_byte_def slip_process_byte_def holding_def)

theorem bad_escape_joins_frames:
  assumes "b \<noteq> SLIP_ESC_END" "b \<noteq> SLIP_ESC_ESC" "SLIP_END \<notin> set garbage" "p \<noteq> []" "length xs + length p \<le> room"
  shows "fold (received_byte room) (allocated ([SLIP_ESC, b] @ garbage @ [SLIP_END] @ frame_of p)) (holding xs l) =
    holding [] (l\<lparr>rx_queue := rx_queue l @ [xs @ p]\<rparr>)"
proof -
  have "fold (received_byte room) (allocated (frame_of p)) (holding xs l) = holding [] (l\<lparr>rx_queue := rx_queue l @ [xs @ p]\<rparr>)"
    using received_encoded [OF assms(5)] received_end [of "xs @ p" room l] assms(4) by (simp add: frame_of_def)
  then show ?thesis
    using bad_escape [OF assms(1,2), of room xs l] resynchronised [of room xs l]
      garbage_skipped [OF assms(3), of "(holding xs l)\<lparr>slip_state := STATE_GARBAGE\<rparr>" room]
    by simp
qed

lemma bad_escape_joins_frames_witness:
  "fold (received_byte 128) (allocated ([SLIP_ESC, 5] @ [6] @ [SLIP_END] @ frame_of [7, 8]))
     (holding [1, 2] \<lparr>slip_state = STATE_OK, pkt_curr = None, rx_queue = []\<rparr>) =
   holding [] (\<lparr>slip_state = STATE_OK, pkt_curr = None, rx_queue = []\<rparr>\<lparr>rx_queue := [] @ [[1, 2] @ [7, 8]]\<rparr>)"
  using bad_escape_joins_frames [of 5 "[6]" "[7, 8]" "[1, 2]" 128 "\<lparr>slip_state = STATE_OK, pkt_curr = None, rx_queue = []\<rparr>"]
  by simp

lemma overflowing_byte:
  assumes "length xs = room" "xs \<noteq> []"
  shows "fold (received_byte room) (allocated (slip_encode [b])) (holding xs l) = holding [] l"
  using assms by (auto simp: received_byte_def slip_process_byte_def holding_def slip_add_byte_def)

lemma slip_encode_append [simp]: "slip_encode (bs @ cs) = slip_encode bs @ slip_encode cs"
  by (induction bs) simp_all

theorem long_frame_delivers_its_tail:
  assumes "length head = room" "0 < room" "tail \<noteq> []" "length tail \<le> room"
  shows "fold (received_byte room) (allocated (frame_of (head @ [b] @ tail))) (holding [] l) =
    holding [] (l\<lparr>rx_queue := rx_queue l @ [tail]\<rparr>)"
proof -
  have "head \<noteq> []" using assms(1,2) by auto
  have "frame_of (head @ [b] @ tail) = slip_encode head @ slip_encode [b] @ frame_of tail"
    by (simp add: frame_of_def)
  then show ?thesis using received_encoded [of "[]" head room l] overflowing_byte [OF assms(1) \<open>head \<noteq> []\<close>]
      received_frame [OF assms(3,4)] assms(1)
    by (simp del: slip_encode.simps)
qed

lemma long_frame_delivers_its_tail_witness:
  "fold (received_byte 2) (allocated (frame_of ([1, 2] @ [3] @ [4]))) (holding [] \<lparr>slip_state = STATE_OK, pkt_curr = None, rx_queue = []\<rparr>) =
   holding [] (\<lparr>slip_state = STATE_OK, pkt_curr = None, rx_queue = []\<rparr>\<lparr>rx_queue := [] @ [[4]]\<rparr>)"
  using long_frame_delivers_its_tail [of "[1, 2]" 2 "[4]" 3 "\<lparr>slip_state = STATE_OK, pkt_curr = None, rx_queue = []\<rparr>"]
  by simp

end
