(* ===== verification/SerialRadio.thy ===== *)
theory SerialRadio
  imports Slip
begin

text \<open>
  samples/net/wpan_serial/src/main.c, the requests: what the bridge does with a packet from the host
  and what it sends back. The radio driver, the allocation of packets and the random generator are
  given (\<open>radio_env\<close>); calls to the driver are recorded in \<open>radio_log\<close>.
\<close>

section \<open>State\<close>

datatype radio_call = Radio_tx "u8 list" | Radio_set_channel u16 | Radio_filter_short u16
  | Radio_filter_ieee "u8 list" | Radio_filter_pan_id u16 | Radio_start

record bridge =
  mac_addr :: "u8 list"
  tx_queue :: "u8 list list"
  radio_log :: "radio_call list"

text \<open>
  \<open>skipped i\<close> is what the \<open>i\<close>-th byte holds that \<open>net_pkt_skip\<close> leaves in a new packet; \<open>net_config\<close>
  is the PAN id and the channel when CONFIG_NET_CONFIG_SETTINGS is set.
\<close>

record radio_env =
  radio_tx_result :: int
  can_alloc :: bool
  skipped :: "nat \<Rightarrow> u8"
  rand32 :: u32
  radio_found :: bool
  hw_filter :: bool
  net_config :: "(u16 \<times> u16) option"

definition call_radio :: "radio_call \<Rightarrow> bridge \<Rightarrow> bridge" where
  "call_radio c s = s\<lparr>radio_log := radio_log s @ [c]\<rparr>"

fun net_buf_pull_u8 :: "u8 list \<Rightarrow> (u8 \<times> u8 list) option" where
  "net_buf_pull_u8 [] = None"
| "net_buf_pull_u8 (b # bs) = Some (b, bs)"

fun net_buf_pull_be16 :: "u8 list \<Rightarrow> (u16 \<times> u8 list) option" where
  "net_buf_pull_be16 (a # b # bs) = Some (word_of_int (256 * uint a + uint b), bs)"
| "net_buf_pull_be16 _ = None"

section \<open>Operations\<close>

definition send_data :: "radio_env \<Rightarrow> u8 list \<Rightarrow> u8 list \<Rightarrow> bridge \<Rightarrow> bridge" where
  "send_data e cfg data s =
     (if can_alloc e then s\<lparr>tx_queue := tx_queue s @ [cfg @ data @ map (skipped e) [0, 1, 2]]\<rparr> else s)"

definition get_ieee_addr :: "radio_env \<Rightarrow> bridge \<Rightarrow> bridge" where
  "get_ieee_addr e s = send_data e [33, 77] (rev (mac_addr s)) s"

definition process_request :: "radio_env \<Rightarrow> u8 list \<Rightarrow> bridge \<Rightarrow> bridge option" where
  "process_request e buf s = do {
     (cmd, buf) \<leftarrow> net_buf_pull_u8 buf;
     Some (if cmd = 77 then get_ieee_addr e s else s)
   }"

definition send_pkt_report :: "radio_env \<Rightarrow> u8 \<Rightarrow> u8 \<Rightarrow> u8 \<Rightarrow> bridge \<Rightarrow> bridge" where
  "send_pkt_report e seq status num_tx s = send_data e [33, 82] [seq, status, num_tx] s"

fun discard_attributes :: "nat \<Rightarrow> u8 list \<Rightarrow> u8 list option" where
  "discard_attributes 0 buf = Some buf"
| "discard_attributes (Suc k) buf = do {
     (_, buf) \<leftarrow> net_buf_pull_u8 buf;
     (_, buf) \<leftarrow> net_buf_pull_be16 buf;
     discard_attributes k buf
   }"

definition process_data :: "radio_env \<Rightarrow> u8 list \<Rightarrow> bridge \<Rightarrow> bridge option" where
  "process_data e buf s = do {
     (seq, buf) \<leftarrow> net_buf_pull_u8 buf;
     (num_attr, buf) \<leftarrow> net_buf_pull_u8 buf;
     buf \<leftarrow> discard_attributes (unat num_attr) buf;
     let s = call_radio (Radio_tx buf) s;
     Some (send_pkt_report e seq (word_of_int (radio_tx_result e)) 1 s)
   }"

definition set_channel :: "u8 \<Rightarrow> bridge \<Rightarrow> bridge" where
  "set_channel chan s = call_radio (Radio_set_channel (ucast chan)) s"

definition process_config :: "radio_env \<Rightarrow> u8 list \<Rightarrow> bridge \<Rightarrow> bridge option" where
  "process_config e buf s = do {
     (cmd, buf) \<leftarrow> net_buf_pull_u8 buf;
     if cmd = 83 then process_data e buf s
     else if cmd = 67 then do {
       (chan, buf) \<leftarrow> net_buf_pull_u8 buf;
       Some (set_channel chan s)
     } else Some s
   }"

text \<open>One round of \<open>rx_thread\<close> and of \<open>tx_thread\<close>; \<open>n\<close> is CONFIG_NET_BUF_DATA_SIZE.\<close>

definition rx_round :: "radio_env \<Rightarrow> u8 list \<Rightarrow> bridge \<Rightarrow> bridge option" where
  "rx_round e pkt s = do {
     (specifier, buf) \<leftarrow> net_buf_pull_u8 pkt;
     if specifier = 63 then process_request e buf s
     else if specifier = 33 then process_config e buf s
     else Some s
   }"

definition tx_round :: "nat \<Rightarrow> (nat \<Rightarrow> int) \<Rightarrow> u8 list \<Rightarrow> (int \<times> u8 list) option" where
  "tx_round n fill pkt =
     (if length pkt < 2 then None
      else slip_buffer (1 + 2 * n) (take (length pkt - 2) pkt) \<bind> (\<lambda>data. Some (try_write fill 0 [] data)))"

definition net_recv_data :: "u8 list \<Rightarrow> bridge \<Rightarrow> int \<times> bridge" where
  "net_recv_data pkt s = (0, s\<lparr>tx_queue := tx_queue s @ [pkt]\<rparr>)"

text \<open>\<open>get_mac\<close>: the random number fills the first four bytes, least significant first.\<close>

definition get_mac :: "radio_env \<Rightarrow> bridge \<Rightarrow> bridge" where
  "get_mac e s =
     (let r = rand32 e;
          b0 = ucast r;
          b1 = ucast (drop_bit 8 r);
          b2 = ucast (drop_bit 16 r);
          b3 = ucast (drop_bit 24 r)
      in s\<lparr>mac_addr := [or (and b0 (not 1)) 2, b1, b2, b3, 0x00, 0x4b, 0x12, 0x00]\<rparr>)"

definition init_ieee802154 :: "radio_env \<Rightarrow> bridge \<Rightarrow> bool \<times> bridge" where
  "init_ieee802154 e s =
     (if \<not> radio_found e then (False, s)
      else let s = get_mac e s;
               s = (if hw_filter e
                    then let short_addr = word_of_int (256 * uint (mac_addr s ! 0) + uint (mac_addr s ! 1));
                             s = call_radio (Radio_filter_short short_addr) s;
                             s = call_radio (Radio_filter_ieee (mac_addr s)) s
                         in (case net_config e of None \<Rightarrow> s | Some (pan_id, _) \<Rightarrow> call_radio (Radio_filter_pan_id pan_id) s)
                    else s);
               s = (case net_config e of None \<Rightarrow> s | Some (_, channel) \<Rightarrow> call_radio (Radio_set_channel channel) s)
           in (True, call_radio Radio_start s))"

section \<open>Which packets are read within their bounds\<close>

fun request_ok :: "u8 list \<Rightarrow> bool" where
  "request_ok [] = False"
| "request_ok [specifier] \<longleftrightarrow> specifier \<notin> {63, 33}"
| "request_ok (specifier # cmd # bs) \<longleftrightarrow> specifier = 33 \<longrightarrow>
     (cmd = 83 \<longrightarrow> 2 \<le> length bs \<and> 3 * unat (bs ! 1) \<le> length bs - 2) \<and> (cmd = 67 \<longrightarrow> bs \<noteq> [])"

lemma discard_attributes_eq:
  "discard_attributes k bs = (if 3 * k \<le> length bs then Some (drop (3 * k) bs) else None)"
proof (induction k bs rule: discard_attributes.induct)
  case (2 k bs)
  show ?case
  proof (cases "3 \<le> length bs")
    case True
    then obtain a b c cs where "bs = a # b # c # cs" by (metis Suc_le_length_iff numeral_3_eq_3)
    moreover have "drop (3 + 3 * k) bs = drop (3 * k) (drop 3 bs)" by (simp only: drop_drop add.commute)
    ultimately show ?thesis using 2 by (simp add: numeral_3_eq_3)
  next
    case False
    then have "bs = [] \<or> (\<exists>a. bs = [a]) \<or> (\<exists>a b. bs = [a, b])"
      by (cases bs; cases "tl bs"; cases "tl (tl bs)") auto
    then show ?thesis by auto
  qed
qed simp

lemma net_buf_pull_u8_eq: "net_buf_pull_u8 bs = (case bs of [] \<Rightarrow> None | b # r \<Rightarrow> Some (b, r))"
  by (cases bs) simp_all

lemma process_data_eq:
  "process_data e bs s = (if 2 \<le> length bs \<and> 3 * unat (bs ! 1) \<le> length bs - 2
     then Some (send_pkt_report e (hd bs) (word_of_int (radio_tx_result e)) 1
       (call_radio (Radio_tx (drop (2 + 3 * unat (bs ! 1)) bs)) s))
     else None)"
  by (cases bs; cases "tl bs") (auto simp: process_data_def discard_attributes_eq)

theorem requests_defined:
  "rx_round e pkt s \<noteq> None \<longleftrightarrow> request_ok pkt"
  by (cases pkt rule: request_ok.cases)
    (auto simp: rx_round_def process_request_def process_config_def process_data_eq net_buf_pull_u8_eq split: if_splits list.splits)

theorem data_request_answered:
  assumes "length attrs = 3 * unat num_attr" "can_alloc e" "6 \<le> n" "\<And>k. 0 < fill k"
  shows "returns (rx_round e ([33, 83, seq, num_attr] @ attrs @ payload) s) (\<lambda>s'.
    radio_log s' = radio_log s @ [Radio_tx payload] \<and>
    (\<exists>report. tx_queue s' = tx_queue s @ [report] \<and>
       tx_round n fill report = Some (0, frame_of [33, 82, seq, word_of_int (radio_tx_result e), 1, skipped e 0])))"
proof -
  have "rx_round e ([33, 83, seq, num_attr] @ attrs @ payload) s =
      Some (send_pkt_report e seq (word_of_int (radio_tx_result e)) 1 (call_radio (Radio_tx payload) s))"
    using assms(1) by (simp add: rx_round_def process_config_def process_data_eq)
  moreover have "slip_buffer (1 + 2 * n) [33, 82, seq, word_of_int (radio_tx_result e), 1, skipped e 0] =
      Some (frame_of [33, 82, seq, word_of_int (radio_tx_result e), 1, skipped e 0])"
    unfolding frame_of_def using assms(3) by (intro slip_buffer_fits) simp
  ultimately show ?thesis using assms(2) try_write_all [OF assms(4)]
    by (simp add: send_pkt_report_def send_data_def call_radio_def tx_round_def)
qed

lemma data_request_answered_witness:
  "returns (rx_round \<lparr>radio_tx_result = - 5, can_alloc = True, skipped = (\<lambda>_. 0), rand32 = 0, radio_found = True,
       hw_filter = False, net_config = None\<rparr> ([33, 83, 9, 1] @ [1, 2, 3] @ [0x41, 0x88]) \<lparr>mac_addr = [], tx_queue = [], radio_log = []\<rparr>)
    (\<lambda>s'. radio_log s' = [Radio_tx [0x41, 0x88]] \<and>
       (\<exists>report. tx_queue s' = [report] \<and>
          tx_round 128 (\<lambda>_. 1) report = Some (0, frame_of [33, 82, 9, - 5, 1, 0])))"
  by (rule returns_mono [OF data_request_answered [where n = 128 and fill = "\<lambda>_. 1"]]) simp_all

end
