(* ===== verification/Battery.thy ===== *)
theory Battery
  imports Prelude
begin

text \<open>
  samples/boards/nrf/battery: the voltage divider of battery.c (set-up, enabling, a sample), the
  discharge curve, and the time stamp of main.c. The devices found, what the drivers return and the
  conversion to millivolts are given. \<open>None\<close> is a read beyond the curve or a division by zero.
\<close>

section \<open>The divider\<close>

text \<open>
  \<open>gpio_label\<close> is whether the device tree names a pin that feeds the divider; \<open>to_millivolts\<close> is
  \<open>adc_raw_to_millivolts\<close> with the reference, gain and resolution that \<open>divider_setup\<close> chooses.
\<close>

record divider_config =
  gpio_label :: bool
  output_ohm :: u32
  full_ohm :: u32

record divider_env =
  adc_found :: bool
  gpio_found :: bool
  gpio_configure_result :: int
  adc_setup_result :: int
  gpio_set_result :: int
  adc_read_result :: int
  adc_raw :: s16
  to_millivolts :: "int \<Rightarrow> int"

record divider =
  adc :: bool
  gpio :: bool
  calibrate :: bool
  battery_ok :: bool
  feed :: "bool list"

abbreviation ENOENT :: int where "ENOENT \<equiv> 2"

definition divider_setup :: "divider_config \<Rightarrow> divider_env \<Rightarrow> divider \<Rightarrow> int \<times> divider" where
  "divider_setup cfg e d =
     (let d = d\<lparr>adc := adc_found e\<rparr>
      in if \<not> adc d then (- ENOENT, d)
         else let d' = (if gpio_label cfg then d\<lparr>gpio := gpio_found e\<rparr> else d)
              in if gpio_label cfg \<and> \<not> gpio d' then (- ENOENT, d')
                 else if gpio_label cfg \<and> gpio_configure_result e \<noteq> 0 then (gpio_configure_result e, d')
                 else (adc_setup_result e, d'\<lparr>calibrate := True\<rparr>))"

definition battery_setup :: "divider_config \<Rightarrow> divider_env \<Rightarrow> divider \<Rightarrow> int \<times> divider" where
  "battery_setup cfg e d = (let (rc, d) = divider_setup cfg e d in (rc, d\<lparr>battery_ok := (rc = 0)\<rparr>))"

definition battery_measure_enable :: "divider_env \<Rightarrow> bool \<Rightarrow> divider \<Rightarrow> int \<times> divider" where
  "battery_measure_enable e enable d =
     (if battery_ok d
      then if gpio d then (gpio_set_result e, d\<lparr>feed := feed d @ [enable]\<rparr>) else (0, d)
      else (- ENOENT, d))"

text \<open>The product and the quotient are those of \<open>u64_t\<close>; the result is stored in an \<open>int\<close>.\<close>

definition battery_sample :: "divider_config \<Rightarrow> divider_env \<Rightarrow> divider \<Rightarrow> (int \<times> divider) option" where
  "battery_sample cfg e d =
     (if battery_ok d
      then let d = d\<lparr>calibrate := False\<rparr>
           in if adc_read_result e \<noteq> 0 then Some (adc_read_result e, d)
              else if output_ohm cfg = 0 then None
              else let val = to_millivolts e (sint (adc_raw e));
                       q = (word_of_int val * ucast (full_ohm cfg) :: 64 word) div ucast (output_ohm cfg)
                   in Some (sint (ucast q :: 32 word), d)
      else Some (- ENOENT, d))"

section \<open>The discharge curve\<close>

record level_point =
  lvl_pptt :: u16
  lvl_mV :: u16

text \<open>The loop of \<open>battery_level_pptt\<close>: the point it stops at and the one before.\<close>

fun battery_scan :: "u32 \<Rightarrow> level_point \<Rightarrow> level_point list \<Rightarrow> (level_point \<times> level_point) option" where
  "battery_scan mv pa [] = None"
| "battery_scan mv pa (pb # rest) =
     (if lvl_pptt pb > 0 \<and> mv < ucast (lvl_mV pb) then battery_scan mv pb rest else Some (pa, pb))"

definition interpolated :: "u32 \<Rightarrow> level_point \<Rightarrow> level_point \<Rightarrow> u32 option" where
  "interpolated mv pa pb =
     (let width = word_of_int (uint (lvl_mV pa) - uint (lvl_mV pb)) :: u32
      in if width = 0 then None
         else Some (ucast (lvl_pptt pb) +
           word_of_int (uint (lvl_pptt pa) - uint (lvl_pptt pb)) * (mv - ucast (lvl_mV pb)) div width))"

definition battery_level_pptt :: "u32 \<Rightarrow> level_point list \<Rightarrow> u32 option" where
  "battery_level_pptt batt_mV curve =
     (case curve of
        [] \<Rightarrow> None
      | pb # rest \<Rightarrow>
          if batt_mV \<ge> ucast (lvl_mV pb) then Some (ucast (lvl_pptt pb))
          else do {
            (pa, pb) \<leftarrow> battery_scan batt_mV pb curve;
            if batt_mV < ucast (lvl_mV pb) then Some (ucast (lvl_pptt pb)) else interpolated batt_mV pa pb
          })"

definition lipo :: "level_point list" where
  "lipo = [\<lparr>lvl_pptt = 10000, lvl_mV = 3950\<rparr>, \<lparr>lvl_pptt = 625, lvl_mV = 3550\<rparr>, \<lparr>lvl_pptt = 0, lvl_mV = 3100\<rparr>]"

section \<open>A curve as battery.h describes it\<close>

fun decreasing :: "level_point \<Rightarrow> level_point list \<Rightarrow> bool" where
  "decreasing pa [] \<longleftrightarrow> lvl_pptt pa = 0"
| "decreasing pa (pb # rest) \<longleftrightarrow> lvl_mV pb < lvl_mV pa \<and> lvl_pptt pb \<le> lvl_pptt pa \<and> decreasing pb rest"

text \<open>The level in exact integers: on each segment the straight line, rounded down.\<close>

fun level_below :: "int \<Rightarrow> level_point \<Rightarrow> level_point list \<Rightarrow> int" where
  "level_below mv pa [] = uint (lvl_pptt pa)"
| "level_below mv pa (pb # rest) =
     (if uint (lvl_mV pb) \<le> mv
      then uint (lvl_pptt pb) + (uint (lvl_pptt pa) - uint (lvl_pptt pb)) * (mv - uint (lvl_mV pb)) div (uint (lvl_mV pa) - uint (lvl_mV pb))
      else level_below mv pb rest)"

lemma segment_bounds:
  fixes p q x w :: int
  assumes "q \<le> p" "0 \<le> x" "x \<le> w" "0 < w"
  shows "0 \<le> (p - q) * x div w" "(p - q) * x div w \<le> p - q"
proof -
  show "0 \<le> (p - q) * x div w" using assms by (simp add: pos_imp_zdiv_nonneg_iff)
  have "(p - q) * x \<le> (p - q) * w" using assms by (intro mult_left_mono) simp_all
  then have "(p - q) * x div w \<le> (p - q) * w div w" using assms(4) by (rule zdiv_mono1)
  then show "(p - q) * x div w \<le> p - q" using assms(4) by simp
qed

lemma level_below_bounds:
  "decreasing pa rest \<Longrightarrow> mv < uint (lvl_mV pa) \<Longrightarrow> 0 \<le> level_below mv pa rest \<and> level_below mv pa rest \<le> uint (lvl_pptt pa)"
proof (induction mv pa rest rule: level_below.induct)
  case (2 mv pa pb rest)
  have d: "uint (lvl_mV pb) < uint (lvl_mV pa)" "uint (lvl_pptt pb) \<le> uint (lvl_pptt pa)"
    using 2(2) by (simp_all add: word_less_def word_le_def)
  show ?case
  proof (cases "uint (lvl_mV pb) \<le> mv")
    case True
    then show ?thesis using segment_bounds [of "uint (lvl_pptt pb)" "uint (lvl_pptt pa)" "mv - uint (lvl_mV pb)"
        "uint (lvl_mV pa) - uint (lvl_mV pb)"] d 2(3) by simp
  next
    case False
    then show ?thesis using 2 d by auto
  qed
qed simp

lemma level_below_mono:
  "decreasing pa rest \<Longrightarrow> mv \<le> mv' \<Longrightarrow> mv' < uint (lvl_mV pa) \<Longrightarrow> level_below mv pa rest \<le> level_below mv' pa rest"
proof (induction mv pa rest rule: level_below.induct)
  case (2 mv pa pb rest)
  have d: "uint (lvl_mV pb) < uint (lvl_mV pa)" "uint (lvl_pptt pb) \<le> uint (lvl_pptt pa)" "decreasing pb rest"
    using 2(2) by (simp_all add: word_less_def word_le_def)
  show ?case
  proof (cases "uint (lvl_mV pb) \<le> mv")
    case True
    have "(uint (lvl_pptt pa) - uint (lvl_pptt pb)) * (mv - uint (lvl_mV pb)) \<le>
        (uint (lvl_pptt pa) - uint (lvl_pptt pb)) * (mv' - uint (lvl_mV pb))"
      using d 2(3) by (intro mult_left_mono) simp_all
    then show ?thesis using True 2(3) d(1) by (auto intro: zdiv_mono1)
  next
    case False
    show ?thesis
    proof (cases "uint (lvl_mV pb) \<le> mv'")
      case True
      have "level_below mv pb rest \<le> uint (lvl_pptt pb)" using level_below_bounds [OF d(3)] False by simp
      then show ?thesis using False True d 2(4) segment_bounds(1) [of "uint (lvl_pptt pb)" "uint (lvl_pptt pa)"
          "mv' - uint (lvl_mV pb)" "uint (lvl_mV pa) - uint (lvl_mV pb)"] by simp
    next
      case False': False
      then show ?thesis using False 2 d by simp
    qed
  qed
qed simp

lemma uint_of_int_u32: "0 \<le> i \<Longrightarrow> i < 4294967296 \<Longrightarrow> uint (word_of_int i :: u32) = i"
  by (simp add: uint_word_of_int)

lemma interpolated_exact:
  assumes "lvl_mV pb < lvl_mV pa" "lvl_pptt pb \<le> lvl_pptt pa" "uint (lvl_mV pb) \<le> uint mv" "uint mv < uint (lvl_mV pa)"
  shows "interpolated mv pa pb = Some (word_of_int (uint (lvl_pptt pb) +
    (uint (lvl_pptt pa) - uint (lvl_pptt pb)) * (uint mv - uint (lvl_mV pb)) div (uint (lvl_mV pa) - uint (lvl_mV pb))))"
proof -
  let ?p = "uint (lvl_pptt pa) - uint (lvl_pptt pb)" and ?x = "uint mv - uint (lvl_mV pb)"
    and ?w = "uint (lvl_mV pa) - uint (lvl_mV pb)"
  have b: "0 \<le> ?p" "?p \<le> 65535" "0 \<le> ?x" "?x \<le> 65535" "0 < ?w" "?w \<le> 65535"
    using assms uint_le_65535 [of "lvl_pptt pa"] uint_ge_0 [of "lvl_pptt pb"] uint_le_65535 [of "lvl_mV pa"] uint_ge_0 [of "lvl_mV pb"]
    unfolding word_less_def word_le_def by linarith+
  have "?p * ?x \<le> 65535 * 65535" using b by (intro mult_mono) simp_all
  then have prod: "0 \<le> ?p * ?x" "?p * ?x < 4294967296" using b by simp_all
  have x: "mv - ucast (lvl_mV pb) = word_of_int ?x" by simp
  have m: "word_of_int ?p * word_of_int ?x = (word_of_int (?p * ?x) :: u32)" by (simp only: of_int_mult)
  have q: "uint (word_of_int (?p * ?x) :: u32) = ?p * ?x" using prod by (rule uint_of_int_u32)
  have w: "uint (word_of_int ?w :: u32) = ?w" using b(5,6) by (intro uint_of_int_u32) linarith+
  then have w0: "(word_of_int ?w :: u32) \<noteq> 0" using b(5) by (metis less_irrefl unsigned_0)
  have d: "(word_of_int (?p * ?x) :: u32) div word_of_int ?w = word_of_int (?p * ?x div ?w)"
    unfolding word_div_def q w by (rule refl)
  have e: "ucast (lvl_pptt pb) = (word_of_int (uint (lvl_pptt pb)) :: u32)" by simp
  show ?thesis by (simp only: interpolated_def Let_def x m d e w0 if_False of_int_add)
qed

lemma uint_widened: "uint (ucast (l :: u16) :: u32) = uint l"
  by (rule uint_up_ucast) (simp add: is_up)

lemma less_level: "mv < (ucast (l :: u16) :: u32) \<longleftrightarrow> uint mv < uint l" "ucast l \<le> mv \<longleftrightarrow> uint l \<le> uint mv"
  by (simp_all only: word_less_def word_le_def uint_widened)

lemma scan_level:
  assumes "decreasing pa rest" "rest \<noteq> []" "uint mv < uint (lvl_mV pa)"
  shows "returns (battery_scan mv pa rest) (\<lambda>(a, b). (if mv < ucast (lvl_mV b) then Some (ucast (lvl_pptt b)) else interpolated mv a b) =
    Some (word_of_int (level_below (uint mv) pa rest)))"
  using assms
proof (induction mv pa rest rule: battery_scan.induct)
  case (2 mv pa pb rest)
  have d: "lvl_mV pb < lvl_mV pa" "lvl_pptt pb \<le> lvl_pptt pa" "decreasing pb rest" using 2(2) by simp_all
  show ?case
  proof (cases "uint (lvl_mV pb) \<le> uint mv")
    case True
    then show ?thesis using interpolated_exact [OF d(1,2) True 2(4)] by (simp add: less_level)
  next
    case below: False
    show ?thesis
    proof (cases "lvl_pptt pb > 0")
      case True
      then have "rest \<noteq> []" using d(3) by auto
      then show ?thesis using 2(1) d(3) below True by (simp add: less_level)
    next
      case False
      then have "lvl_pptt pb = 0" by (simp add: word_neq_0_conv [symmetric])
      moreover have "level_below (uint mv) pb rest = 0"
        using level_below_bounds [OF d(3), of "uint mv"] below calculation by simp
      ultimately show ?thesis using below by (simp add: less_level)
    qed
  qed
qed simp

lemma battery_level_eq:
  assumes "decreasing p rest"
  shows "battery_level_pptt mv (p # rest) = Some (if uint (lvl_mV p) \<le> uint mv then ucast (lvl_pptt p)
    else word_of_int (level_below (uint mv) p rest))"
proof (cases "uint (lvl_mV p) \<le> uint mv")
  case True
  then show ?thesis by (simp add: battery_level_pptt_def less_level)
next
  case False
  then have nle: "\<not> ucast (lvl_mV p) \<le> mv" by (simp add: less_level)
  show ?thesis
  proof (cases "lvl_pptt p > 0")
    case True
    then have r: "rest \<noteq> []" using assms by auto
    have "battery_scan mv p (p # rest) = battery_scan mv p rest" using True False by (simp add: less_level)
    moreover obtain a b where "battery_scan mv p rest = Some (a, b)" "(if mv < ucast (lvl_mV b) then Some (ucast (lvl_pptt b)) else interpolated mv a b) =
        Some (word_of_int (level_below (uint mv) p rest))"
      using scan_level [OF assms r] False by (force elim!: returnsE)
    ultimately show ?thesis using False nle by (simp add: battery_level_pptt_def del: battery_scan.simps)
  next
    case zero: False
    then have "lvl_pptt p = 0" by (simp add: word_neq_0_conv [symmetric])
    moreover have "level_below (uint mv) p rest = 0"
      using level_below_bounds [OF assms, of "uint mv"] False calculation by simp
    ultimately show ?thesis using False nle by (simp add: battery_level_pptt_def less_level)
  qed
qed

theorem battery_level_monotone:
  assumes "decreasing p rest" "mv \<le> mv'"
  shows "returns (battery_level_pptt mv (p # rest)) (\<lambda>a. returns (battery_level_pptt mv' (p # rest)) (\<lambda>b.
    a \<le> b \<and> b \<le> ucast (lvl_pptt p)))"
proof -
  let ?l = "\<lambda>mv. if uint (lvl_mV p) \<le> uint mv then uint (lvl_pptt p) else level_below (uint mv) p rest"
  have e: "battery_level_pptt mv (p # rest) = Some (word_of_int (?l mv))" for mv
    using battery_level_eq [OF assms(1), of mv] by simp
  have l: "0 \<le> ?l mv \<and> ?l mv \<le> uint (lvl_pptt p)" for mv
    using level_below_bounds [OF assms(1), of "uint mv"] by simp
  have "uint mv \<le> uint mv'" using assms(2) by (simp add: word_le_def)
  then have m: "?l mv \<le> ?l mv'" using level_below_mono [OF assms(1)] l [of mv] by simp
  have u: "uint (word_of_int (?l mv) :: u32) = ?l mv" for mv
    using l [of mv] uint_le_65535 [of "lvl_pptt p"] by (intro uint_of_int_u32) linarith+
  show ?thesis unfolding e using l [of mv'] m by (simp only: returns_Some word_le_def u uint_widened)
qed

lemma battery_level_monotone_witness:
  "returns (battery_level_pptt 3300 lipo) (\<lambda>a. returns (battery_level_pptt 3700 lipo) (\<lambda>b. a \<le> b \<and> b \<le> ucast (10000 :: u16)))"
  using battery_level_monotone [of "\<lparr>lvl_pptt = 10000, lvl_mV = 3950\<rparr>" "tl lipo" 3300 3700] by (simp add: lipo_def)

end
