(* ===== verification/Philosophers.thy ===== *)
theory Philosophers
  imports Prelude
begin

text \<open>
  samples/philosophers/src/main.c: dining philosophers, each a thread of the function \<open>philosopher\<close>.
  A fork is one of the kernel objects of phil_obj_abstract.h (semaphore, mutex, stack, FIFO or
  LIFO); of these the model uses that a free fork can be taken, a taken one blocks the thread that
  asks for it, and a dropped one is free. The threads run in any order.
\<close>

section \<open>A philosopher\<close>

text \<open>Where a philosopher is in its loop, named as the program prints it.\<close>

datatype phase = STARVING | HOLDING_ONE_FORK | EATING | DROPPED_ONE_FORK | THINKING

record table =
  phases :: "phase list"
  forks :: "nat option list"

definition is_last_philosopher :: "nat \<Rightarrow> nat \<Rightarrow> bool" where
  "is_last_philosopher num_phil my_id = (my_id = num_phil - 1)"

definition fork1 :: "nat \<Rightarrow> nat \<Rightarrow> nat" where
  "fork1 num_phil my_id = (if is_last_philosopher num_phil my_id then 0 else my_id)"

definition fork2 :: "nat \<Rightarrow> nat \<Rightarrow> nat" where
  "fork2 num_phil my_id = (if is_last_philosopher num_phil my_id then my_id else my_id + 1)"

text \<open>One step of the loop of \<open>philosopher\<close>; \<open>None\<close> while it is blocked.\<close>

definition take_fork :: "nat \<Rightarrow> nat \<Rightarrow> phase \<Rightarrow> table \<Rightarrow> table option" where
  "take_fork i f p t = (case forks t ! f of
     None \<Rightarrow> Some (t\<lparr>forks := (forks t)[f := Some i], phases := (phases t)[i := p]\<rparr>)
   | Some _ \<Rightarrow> None)"

definition drop_fork :: "nat \<Rightarrow> nat \<Rightarrow> phase \<Rightarrow> table \<Rightarrow> table option" where
  "drop_fork i f p t = Some (t\<lparr>forks := (forks t)[f := None], phases := (phases t)[i := p]\<rparr>)"

definition philosopher :: "(nat \<Rightarrow> nat) \<Rightarrow> (nat \<Rightarrow> nat) \<Rightarrow> nat \<Rightarrow> table \<Rightarrow> table option" where
  "philosopher first second my_id t = (case phases t ! my_id of
     STARVING \<Rightarrow> take_fork my_id (first my_id) HOLDING_ONE_FORK t
   | HOLDING_ONE_FORK \<Rightarrow> take_fork my_id (second my_id) EATING t
   | EATING \<Rightarrow> drop_fork my_id (second my_id) DROPPED_ONE_FORK t
   | DROPPED_ONE_FORK \<Rightarrow> drop_fork my_id (first my_id) THINKING t
   | THINKING \<Rightarrow> Some (t\<lparr>phases := (phases t)[my_id := STARVING]\<rparr>))"

text \<open>
  \<open>forks[]\<close> is initialised with the addresses of \<open>listed\<close> forks, the rest of its \<open>num_phil\<close> entries are
  null pointers: six are listed, and another NUM_PHIL needs a change there. \<open>None\<close> is the
  initialisation of a fork through a null pointer.
\<close>

abbreviation FORKS_LISTED :: nat where "FORKS_LISTED \<equiv> 6"

definition init_objects :: "nat \<Rightarrow> nat \<Rightarrow> table option" where
  "init_objects listed num_phil =
     (if num_phil \<le> listed then Some \<lparr>phases = replicate num_phil STARVING, forks = replicate num_phil None\<rparr> else None)"

text \<open>\<open>get_random_delay\<close> and \<open>new_prio\<close>, for the configuration with both kinds of priorities.\<close>

definition get_random_delay :: "u32 \<Rightarrow> int \<Rightarrow> int \<Rightarrow> int" where
  "get_random_delay uptime my_id period_in_ms =
     (let delay = uint (and (uptime div 100 * word_of_int (my_id + 1)) 0x1f)
      in (delay + 1) * period_in_ms)"

definition new_prio :: "bool \<Rightarrow> int \<Rightarrow> int \<Rightarrow> int" where
  "new_prio same_prio num_phil phil = (if same_prio then 0 else - (phil - c_div num_phil 2))"

inductive dining :: "nat \<Rightarrow> (nat \<Rightarrow> nat) \<Rightarrow> (nat \<Rightarrow> nat) \<Rightarrow> nat \<Rightarrow> table \<Rightarrow> bool" for listed first second n where
  seated: "init_objects listed n = Some t \<Longrightarrow> dining listed first second n t"
| moves: "dining listed first second n t \<Longrightarrow> i < n \<Longrightarrow> philosopher first second i t = Some t' \<Longrightarrow> dining listed first second n t'"

section \<open>Forks taken in a common order\<close>

text \<open>Which forks a philosopher in a phase has.\<close>

definition has :: "(nat \<Rightarrow> nat) \<Rightarrow> (nat \<Rightarrow> nat) \<Rightarrow> nat \<Rightarrow> phase \<Rightarrow> nat \<Rightarrow> bool" where
  "has first second i p f \<longleftrightarrow> p \<in> {HOLDING_ONE_FORK, EATING, DROPPED_ONE_FORK} \<and> f = first i \<or> p = EATING \<and> f = second i"

locale fork_order =
  fixes n :: nat and first second :: "nat \<Rightarrow> nat"
  assumes rising: "i < n \<Longrightarrow> first i < second i"
    and bounded: "i < n \<Longrightarrow> second i < n"
begin

definition table_inv :: "table \<Rightarrow> bool" where
  "table_inv t \<longleftrightarrow> length (phases t) = n \<and> length (forks t) = n \<and>
     (\<forall>f < n. \<forall>i < n. forks t ! f = Some i \<longleftrightarrow> has first second i (phases t ! i) f) \<and>
     set (forks t) \<subseteq> insert None (Some ` {..<n})"

lemma init_inv: "init_objects listed n = Some t \<Longrightarrow> table_inv t"
  by (auto simp: table_inv_def init_objects_def has_def split: if_splits)

lemma first_bounded: "i < n \<Longrightarrow> first i < n"
  using rising bounded by (meson less_trans)

lemma holds:
  assumes "table_inv t"
  shows "length (phases t) = n" "length (forks t) = n"
    "\<And>f i. f < n \<Longrightarrow> i < n \<Longrightarrow> forks t ! f = Some i \<longleftrightarrow> has first second i (phases t ! i) f"
    "\<And>f i. f < n \<Longrightarrow> forks t ! f = Some i \<Longrightarrow> i < n"
proof -
  show l: "length (phases t) = n" "length (forks t) = n" using assms unfolding table_inv_def by blast+
  show "\<And>f i. f < n \<Longrightarrow> i < n \<Longrightarrow> forks t ! f = Some i \<longleftrightarrow> has first second i (phases t ! i) f"
    using assms unfolding table_inv_def by blast
  fix f i assume "f < n" "forks t ! f = Some i"
  then have "Some i \<in> set (forks t)" using l(2) nth_mem by metis
  then show "i < n" using assms unfolding table_inv_def by auto
qed

text \<open>Philosopher \<open>i\<close> takes, drops or keeps the fork \<open>f\<close>, and enters the phase \<open>p\<close>.\<close>

lemma update_inv:
  assumes "table_inv t" "i < n" "f < n" "h \<in> {None, Some i}" "forks t ! f \<in> {None, Some i}"
    "has first second i p f \<longleftrightarrow> h = Some i"
    "\<And>g. g \<noteq> f \<Longrightarrow> has first second i p g = has first second i (phases t ! i) g"
  shows "table_inv (t\<lparr>forks := (forks t)[f := h], phases := (phases t)[i := p]\<rparr>)"
proof -
  note t = holds [OF assms(1)]
  have "((forks t)[f := h] ! g = Some j) = has first second j ((phases t)[i := p] ! j) g" if "g < n" "j < n" for g j
  proof (cases "g = f")
    case True
    show ?thesis
    proof (cases "j = i")
      case True
      then show ?thesis using \<open>g = f\<close> assms(2,3,6) t(1,2) by simp
    next
      case False
      then have "\<not> has first second j (phases t ! j) f" using t(3) [OF assms(3) that(2)] assms(5) by auto
      then show ?thesis using \<open>g = f\<close> False assms(3,4) t(1,2) by auto
    qed
  next
    case False
    then show ?thesis using assms(7) [OF False] t(3) [OF that] that t(1) by (cases "j = i") simp_all
  qed
  moreover have "set ((forks t)[f := h]) \<subseteq> insert None (Some ` {..<n})"
    using assms(1,2,4) set_update_subset_insert [of "forks t" f h] unfolding table_inv_def by auto
  ultimately show ?thesis using t(1,2) by (simp add: table_inv_def)
qed

lemma step_inv:
  assumes "table_inv t" "i < n" "philosopher first second i t = Some t'"
  shows "table_inv t'"
proof -
  have d: "first i \<noteq> second i" "first i < n" "second i < n"
    using rising [OF assms(2)] first_bounded bounded assms(2) by auto
  note h = holds(3) [OF assms(1) d(2) assms(2)] holds(3) [OF assms(1) d(3) assms(2)]
  note u = update_inv [OF assms(1,2)]
  show ?thesis
  proof (cases "phases t ! i")
    case STARVING
    then show ?thesis using assms(3) d u [of "first i" "Some i" HOLDING_ONE_FORK]
      by (auto simp: philosopher_def take_fork_def has_def split: option.splits)
  next
    case HOLDING_ONE_FORK
    then show ?thesis using assms(3) d u [of "second i" "Some i" EATING]
      by (auto simp: philosopher_def take_fork_def has_def split: option.splits)
  next
    case EATING
    then show ?thesis using assms(3) d h(2) u [of "second i" None DROPPED_ONE_FORK]
      by (auto simp: philosopher_def drop_fork_def has_def)
  next
    case DROPPED_ONE_FORK
    then show ?thesis using assms(3) d h(1) u [of "first i" None THINKING]
      by (auto simp: philosopher_def drop_fork_def has_def)
  next
    case THINKING
    have "forks t ! f \<noteq> Some i" if "f < n" for f
      using holds(3) [OF assms(1) that assms(2)] THINKING by (simp add: has_def)
    have "((phases t)[i := STARVING] ! j = phases t ! j) \<or> j = i" for j by (cases "j = i") simp_all
    then have "has first second j ((phases t)[i := STARVING] ! j) f = has first second j (phases t ! j) f" if "j < n" for j f
      using THINKING assms(2) holds(1) [OF assms(1)] that by (cases "j = i") (auto simp: has_def)
    then show ?thesis using THINKING assms(1,3) unfolding table_inv_def by (auto simp: philosopher_def)
  qed
qed

lemma dining_inv: "dining listed first second n t \<Longrightarrow> table_inv t"
  by (induction rule: dining.induct) (auto intro: init_inv step_inv)

text \<open>A fork has one holder: philosophers that share a fork do not eat at the same time.\<close>

lemma eats_alone:
  assumes "table_inv t" "i < n" "j < n" "{first i, second i} \<inter> {first j, second j} \<noteq> {}"
    "phases t ! i = EATING" "phases t ! j = EATING"
  shows "i = j"
proof -
  have e: "forks t ! f = Some k" if "k < n" "phases t ! k = EATING" "f \<in> {first k, second k}" for f k
    using that holds(3) [OF assms(1) _ that(1), of f] first_bounded bounded by (auto simp: has_def)
  from assms(4) obtain f where "f \<in> {first i, second i}" "f \<in> {first j, second j}" by blast
  then show ?thesis using e [OF assms(2,5)] e [OF assms(3,6)] by fastforce
qed

text \<open>
  As long as somebody is not thinking, somebody who is not thinking can go on: of those that hold
  one fork, the one whose second fork is the highest finds it free.
\<close>

lemma somebody_goes_on:
  assumes "table_inv t" "i < n" "phases t ! i \<noteq> THINKING"
  shows "\<exists>j < n. phases t ! j \<noteq> THINKING \<and> philosopher first second j t \<noteq> None"
proof (cases "\<exists>j < n. phases t ! j \<in> {EATING, DROPPED_ONE_FORK}")
  case True
  then show ?thesis by (auto simp: philosopher_def drop_fork_def)
next
  case no_eater: False
  let ?W = "{j. j < n \<and> phases t ! j = HOLDING_ONE_FORK}"
  have held: "j \<in> ?W \<and> f = first j" if "f < n" "forks t ! f = Some j" for f j
    using holds(3,4) [OF assms(1) that(1)] that(2) no_eater by (auto simp: has_def)
  show ?thesis
  proof (cases "?W = {}")
    case True
    then have "phases t ! i = STARVING" using assms(2,3) no_eater by (cases "phases t ! i") auto
    moreover have "forks t ! first i = None" using held [of "first i"] first_bounded [OF assms(2)] True by (cases "forks t ! first i") auto
    ultimately show ?thesis using assms(2) by (auto simp: philosopher_def take_fork_def)
  next
    case False
    let ?m = "Max (second ` ?W)"
    have "?m \<in> second ` ?W" using False by (intro Max_in) auto
    then obtain j where j: "j \<in> ?W" "second j = ?m" by auto
    have "forks t ! second j = None"
    proof (cases "forks t ! second j")
      case (Some k)
      then have k: "k \<in> ?W" "second j = first k" using held bounded j(1) by auto
      then have "second k \<le> ?m" by (intro Max_ge) auto
      then show ?thesis using k j(2) rising [of k] by auto
    qed simp
    then show ?thesis using j(1) by (auto simp: philosopher_def take_fork_def)
  qed
qed

end

section \<open>The forks of the program\<close>

lemma fork_order_program: "2 \<le> num_phil \<Longrightarrow> fork_order num_phil (fork1 num_phil) (fork2 num_phil)"
  by unfold_locales (auto simp: fork1_def fork2_def is_last_philosopher_def)

text \<open>The table of the default configuration, NUM_PHIL = 6.\<close>

interpretation six: fork_order 6 "fork1 6" "fork2 6"
  by (rule fork_order_program) simp

lemma neighbours_share: "i < n \<Longrightarrow> 2 \<le> n \<Longrightarrow> {fork1 n i, fork2 n i} \<inter> {fork1 n ((i + 1) mod n), fork2 n ((i + 1) mod n)} \<noteq> {}"
  by (cases "i = n - 1"; cases "i = n - 2") (auto simp: fork1_def fork2_def is_last_philosopher_def mod_less)

text \<open>
  C19: Whatever the number of philosophers from two on, provided that forks[] lists as many forks
  (six as shipped, the comment of the program asks for a change there; with more philosophers the
  initialisation uses a null pointer), and in whatever order they run: neighbours never eat at the
  same time, and while somebody is not thinking, somebody who is not thinking is not blocked, so the
  table never deadlocks. The order in which the last philosopher takes its forks is what the proof
  uses.
\<close>

theorem philosophers_dine:
  assumes "2 \<le> n" "dining listed (fork1 n) (fork2 n) n t" "i < n"
  shows "\<not> (phases t ! i = EATING \<and> phases t ! ((i + 1) mod n) = EATING) \<and>
    (phases t ! i \<noteq> THINKING \<longrightarrow> (\<exists>j < n. phases t ! j \<noteq> THINKING \<and> philosopher (fork1 n) (fork2 n) j t \<noteq> None))"
proof (intro conjI impI notI)
  note order = fork_order_program [OF assms(1)]
  have inv: "fork_order.table_inv n (fork1 n) (fork2 n) t" using order assms(2) by (rule fork_order.dining_inv)
  show "\<exists>j < n. phases t ! j \<noteq> THINKING \<and> philosopher (fork1 n) (fork2 n) j t \<noteq> None" if "phases t ! i \<noteq> THINKING"
    using order inv assms(3) that by (rule fork_order.somebody_goes_on)
  assume e: "phases t ! i = EATING \<and> phases t ! ((i + 1) mod n) = EATING"
  have "i = (i + 1) mod n"
    using fork_order.eats_alone [OF order inv assms(3) _ neighbours_share [OF assms(3,1)]] e assms(1) by simp
  then show False using assms(1,3) by (cases "i + 1 = n") simp_all
qed

text \<open>With a larger NUM_PHIL and the header as it is the program does not get as far as the first thread.\<close>

lemma too_many_philosophers: "FORKS_LISTED < n \<Longrightarrow> init_objects FORKS_LISTED n = None"
  by (simp add: init_objects_def)

lemma last_philosopher_eats:
  "dining FORKS_LISTED (fork1 6) (fork2 6) 6
     \<lparr>phases = [STARVING, STARVING, STARVING, STARVING, STARVING, EATING], forks = [Some 5, None, None, None, None, Some 5]\<rparr>"
proof -
  have seated: "dining FORKS_LISTED (fork1 6) (fork2 6) 6 \<lparr>phases = replicate 6 STARVING, forks = replicate 6 None\<rparr>"
    by (rule dining.seated) (simp add: init_objects_def)
  have "dining FORKS_LISTED (fork1 6) (fork2 6) 6
     \<lparr>phases = [STARVING, STARVING, STARVING, STARVING, STARVING, HOLDING_ONE_FORK], forks = [Some 5, None, None, None, None, None]\<rparr>"
    by (rule dining.moves [OF seated, of 5])
      (simp_all add: philosopher_def take_fork_def fork1_def is_last_philosopher_def eval_nat_numeral)
  then show ?thesis
    by (rule dining.moves [of _ _ _ _ _ 5])
      (simp_all add: philosopher_def take_fork_def fork2_def is_last_philosopher_def eval_nat_numeral)
qed

lemma philosophers_dine_witness:
  "let t = \<lparr>phases = [STARVING, STARVING, STARVING, STARVING, STARVING, EATING], forks = [Some 5, None, None, None, None, Some 5]\<rparr>
   in phases t ! ((5 + 1) mod 6) \<noteq> EATING \<and> (\<exists>j < 6. phases t ! j \<noteq> THINKING \<and> philosopher (fork1 6) (fork2 6) j t \<noteq> None)"
  using philosophers_dine [OF _ last_philosopher_eats, of 5] by (simp add: Let_def)

text \<open>The delays are between one and 32 periods.\<close>

lemma random_delay_bounds:
  assumes "0 < period"
  shows "period \<le> get_random_delay uptime i period \<and> get_random_delay uptime i period \<le> 32 * period"
proof -
  let ?d = "uint (and (uptime div 100 * word_of_int (i + 1)) 0x1f)"
  have "and (uptime div 100 * word_of_int (i + 1)) 0x1f \<le> 0x1f" by (rule word_and_le1)
  then have "?d \<le> 31" by (simp add: word_le_def)
  moreover have "0 \<le> ?d" by (rule uint_ge_0)
  ultimately show ?thesis using assms mult_right_mono [of "?d + 1" 32 period] mult_right_mono [of 1 "?d + 1" period]
    by (simp add: get_random_delay_def Let_def)
qed

end
