(* ===== verification/HciUart.thy ===== *)
theory HciUart
  imports Prelude "HOL-Library.Sublist"
begin

text \<open>
  samples/bluetooth/hci_uart/src/main.c: HCI packets in H:4 framing, from the serial line to the
  controller and back. The line gives its bytes in portions: a call of \<open>uart_fifo_read\<close> returns at
  most what is left of the present portion, and nothing where a portion is empty. Waiting for
  bytes that never come is \<open>None\<close>. The sizes of the buffers and the answers of the allocator are given.
\<close>

section \<open>Reading the line\<close>

abbreviation H4_CMD :: u8 where "H4_CMD \<equiv> 1"
abbreviation H4_ACL :: u8 where "H4_ACL \<equiv> 2"
abbreviation H4_EVT :: u8 where "H4_EVT \<equiv> 4"
abbreviation H4_DISCARD_LEN :: nat where "H4_DISCARD_LEN \<equiv> 33"

type_synonym uart = "u8 list list"

fun uart_fifo_read :: "nat \<Rightarrow> uart \<Rightarrow> u8 list \<times> uart" where
  "uart_fifo_read len [] = ([], [])"
| "uart_fifo_read len (c # cs) = (take len c, if length c \<le> len then cs else drop len c # cs)"

lemma uart_fifo_read_progress:
  assumes "(rx, u') = uart_fifo_read len u" "0 < len"
  shows "rx = [] \<Longrightarrow> u \<noteq> [] \<Longrightarrow> length u' < length u" "rx \<noteq> [] \<Longrightarrow> len - length rx + length u' < len + length u"
  using assms by (cases u; auto split: if_splits)+

function h4_read :: "nat \<Rightarrow> nat \<Rightarrow> u8 list \<Rightarrow> uart \<Rightarrow> (u8 list \<times> uart) option" where
  "h4_read len least got u =
     (if len = 0 then Some (got, u)
      else let (rx, u') = uart_fifo_read len u
           in if rx = [] then
                if length got < least then if u = [] then None else h4_read len least got u'
                else Some (got, u')
              else h4_read (len - length rx) least (got @ rx) u')"
  by auto
termination
  by (relation "measure (\<lambda>(len, _, _, u). len + length u)") (auto dest: uart_fifo_read_progress)

declare h4_read.simps [simp del]

section \<open>The receiver\<close>

text \<open>
  \<open>buf\<close> and \<open>remaining\<close> are the static variables of the interrupt handler: the type and the bytes so
  far of the packet under construction, and how many bytes are still to come.
\<close>

record hci =
  buf :: "(u8 \<times> u8 list) option"
  remaining :: nat
  line :: uart
  tx_queue :: "(u8 \<times> u8 list) list"

definition h4_discard :: "nat \<Rightarrow> uart \<Rightarrow> nat \<times> uart" where
  "h4_discard len u = (let (rx, u) = uart_fifo_read (min len H4_DISCARD_LEN) u in (length rx, u))"

definition h4_cmd_recv :: "bool \<Rightarrow> uart \<Rightarrow> ((u8 \<times> u8 list) option \<times> nat \<times> uart) option" where
  "h4_cmd_recv alloc u = do {
     (hdr, u) \<leftarrow> h4_read 3 3 [] u;
     Some (if alloc then Some (H4_CMD, hdr) else None, unat (hdr ! 2), u)
   }"

definition h4_acl_recv :: "bool \<Rightarrow> uart \<Rightarrow> ((u8 \<times> u8 list) option \<times> nat \<times> uart) option" where
  "h4_acl_recv alloc u = do {
     (hdr, u) \<leftarrow> h4_read 4 4 [] u;
     Some (if alloc then Some (H4_ACL, hdr) else None, unat (hdr ! 2) + 256 * unat (hdr ! 3), u)
   }"

text \<open>
  The loop body of \<open>bt_uart_isr\<close> after the check that data is ready: the beginning of a packet, then
  its rest. \<open>room t\<close> is the size of a buffer for the type \<open>t\<close>. The result says whether the handler goes
  on to the next poll (\<open>True\<close>) or returns.
\<close>

definition packet_rest :: "hci \<Rightarrow> (bool \<times> hci) option" where
  "packet_rest s = (case buf s of
     None \<Rightarrow> let (read, u) = h4_discard (remaining s) (line s)
             in Some (True, s\<lparr>remaining := remaining s - read, line := u\<rparr>)
   | Some (t, bs) \<Rightarrow> do {
       (rx, u) \<leftarrow> h4_read (remaining s) 0 [] (line s);
       let s = s\<lparr>buf := Some (t, bs @ rx), remaining := remaining s - length rx, line := u\<rparr>;
       Some (True, if remaining s = 0 then s\<lparr>tx_queue := tx_queue s @ [(t, bs @ rx)], buf := None\<rparr> else s)
     })"

definition packet_begins :: "(u8 \<Rightarrow> nat) \<Rightarrow> (u8 \<times> u8 list) option \<Rightarrow> nat \<Rightarrow> uart \<Rightarrow> hci \<Rightarrow> hci" where
  "packet_begins room b n u s =
     s\<lparr>buf := (case b of None \<Rightarrow> None | Some (t, bs) \<Rightarrow> if n > room t - length bs then None else b),
       remaining := n, line := u\<rparr>"

definition isr_round :: "(u8 \<Rightarrow> nat) \<Rightarrow> bool \<Rightarrow> hci \<Rightarrow> (bool \<times> hci) option" where
  "isr_round room alloc s =
     (if remaining s = 0 then do {
        (ty, u) \<leftarrow> h4_read 1 0 [] (line s);
        if length ty \<noteq> 1 then Some (True, s\<lparr>line := u\<rparr>)
        else if hd ty = H4_CMD then do {
          (b, n, u) \<leftarrow> h4_cmd_recv alloc u;
          packet_rest (packet_begins room b n u s)
        } else if hd ty = H4_ACL then do {
          (b, n, u) \<leftarrow> h4_acl_recv alloc u;
          packet_rest (packet_begins room b n u s)
        } else Some (False, s\<lparr>line := u\<rparr>)
      } else packet_rest s)"

text \<open>
  The handler for the polls of an interrupt: each tells whether the receiver has data, and what an
  allocation would answer.
\<close>

fun bt_uart_isr :: "(u8 \<Rightarrow> nat) \<Rightarrow> (bool \<times> bool) list \<Rightarrow> hci \<Rightarrow> hci option" where
  "bt_uart_isr room [] s = Some s"
| "bt_uart_isr room ((rx_ready, alloc) # polls) s =
     (if \<not> rx_ready then Some s
      else isr_round room alloc s \<bind> (\<lambda>(go_on, s). if go_on then bt_uart_isr room polls s else Some s))"

section \<open>Streams of packets\<close>

definition h4_packet :: "u8 \<times> u8 list \<Rightarrow> bool" where
  "h4_packet p \<longleftrightarrow> (case p of (t, bs) \<Rightarrow>
     t = H4_CMD \<and> 3 \<le> length bs \<and> length bs = 3 + unat (bs ! 2) \<or>
     t = H4_ACL \<and> 4 \<le> length bs \<and> length bs = 4 + (unat (bs ! 2) + 256 * unat (bs ! 3)))"

definition h4_bytes :: "u8 \<times> u8 list \<Rightarrow> u8 list" where
  "h4_bytes p = fst p # snd p"

definition h4_stream :: "(u8 \<times> u8 list) list \<Rightarrow> u8 list" where
  "h4_stream ps = concat (map h4_bytes ps)"

text \<open>
  The receiver is inside a stream: what is left of the present packet is the next \<open>remaining\<close> bytes
  of the line, and the packets \<open>ps\<close> follow.
\<close>

definition in_stream :: "(u8 \<times> u8 list) list \<Rightarrow> hci \<Rightarrow> bool" where
  "in_stream ps s \<longleftrightarrow> (\<exists>r. concat (line s) = r @ h4_stream ps \<and> length r = remaining s) \<and>
     (buf s \<noteq> None \<longrightarrow> 0 < remaining s)"

definition arriving :: "hci \<Rightarrow> (u8 \<times> u8 list) list" where
  "arriving s = (case buf s of None \<Rightarrow> [] | Some (t, bs) \<Rightarrow> [(t, bs @ take (remaining s) (concat (line s)))])"

text \<open>All packets that the receiver has handed on, has under construction, or will find on the line.\<close>

definition all_packets :: "(u8 \<times> u8 list) list \<Rightarrow> hci \<Rightarrow> (u8 \<times> u8 list) list" where
  "all_packets ps s = tx_queue s @ arriving s @ ps"

lemma uart_fifo_read_result:
  "uart_fifo_read len u = (rx, u') \<Longrightarrow> length rx \<le> len \<and> concat u = rx @ concat u'"
  by (cases u) (auto split: if_splits)

lemma h4_read_result:
  assumes "least \<le> length got + len" "least - length got \<le> length (concat u)"
  shows "returns (h4_read len least got u) (\<lambda>(bs, u'). \<exists>rx. bs = got @ rx \<and> length rx \<le> len \<and> concat u = rx @ concat u' \<and>
    least \<le> length bs)"
  using assms
proof (induction len least got u rule: h4_read.induct)
  case (1 len least got u)
  show ?case
  proof (cases "len = 0")
    case True
    then show ?thesis using 1(3) by (subst h4_read.simps) simp
  next
    case False
    obtain rx u' where r: "uart_fifo_read len u = (rx, u')" by fastforce
    note rr = uart_fifo_read_result [OF r]
    show ?thesis
    proof (cases "rx = []")
      case True
      then show ?thesis using 1 False r rr by (subst h4_read.simps) (auto elim!: returns_mono)
    next
      case rx: False
      have "returns (h4_read (len - length rx) least (got @ rx) u') (\<lambda>(bs, u''). \<exists>rx'. bs = (got @ rx) @ rx' \<and> length rx' \<le> len - length rx \<and>
          concat u' = rx' @ concat u'' \<and> least \<le> length bs)"
        using 1(3,4) rr by (intro 1(2) [OF False r [symmetric] refl rx]) auto
      then show ?thesis using False r rr rx by (subst h4_read.simps) (auto elim!: returns_mono)
    qed
  qed
qed

section \<open>No byte is lost, no packet is torn\<close>

definition at_stream :: "(u8 \<times> u8 list) list \<Rightarrow> hci \<Rightarrow> bool" where
  "at_stream ps s \<longleftrightarrow> (\<exists>r. concat (line s) = r @ h4_stream ps \<and> length r = remaining s)"

lemma in_stream_at: "in_stream ps s \<longleftrightarrow> at_stream ps s \<and> (buf s \<noteq> None \<longrightarrow> 0 < remaining s)"
  by (simp add: in_stream_def at_stream_def)

lemma packet_rest_ok:
  assumes "at_stream ps s"
  shows "returns (packet_rest s) (\<lambda>(go_on, s'). go_on \<and> in_stream ps s' \<and> all_packets ps s' = all_packets ps s)"
proof -
  obtain r where r: "concat (line s) = r @ h4_stream ps" "length r = remaining s" using assms by (auto simp: at_stream_def)
  show ?thesis
  proof (cases "buf s")
    case None
    obtain rx u where u: "uart_fifo_read (min (remaining s) H4_DISCARD_LEN) (line s) = (rx, u)" by fastforce
    note rx = uart_fifo_read_result [OF u]
    then obtain r' where "r = rx @ r'" "concat u = r' @ h4_stream ps"
      using r by (auto simp: append_eq_append_conv2)
    then show ?thesis using None u r rx
      by (auto simp: packet_rest_def h4_discard_def in_stream_def all_packets_def arriving_def)
  next
    case (Some b)
    obtain t bs where b: "buf s = Some (t, bs)" using Some by (cases b) simp
    obtain rx u where u: "h4_read (remaining s) 0 [] (line s) = Some (rx, u)" "length rx \<le> remaining s" "concat (line s) = rx @ concat u"
      using h4_read_result [of 0 "[]" "remaining s" "line s"] by (auto elim!: returnsE)
    then obtain r' where "r = rx @ r'" "concat u = r' @ h4_stream ps"
      using r by (auto simp: append_eq_append_conv2)
    moreover from this have "length rx + length r' = remaining s" using r(2) by simp
    then have "remaining s \<le> length rx \<Longrightarrow> r' = []" by (cases r') simp_all
    ultimately show ?thesis using b u r
      by (auto simp: packet_rest_def in_stream_def all_packets_def arriving_def Let_def)
  qed
qed

lemma subseq_insert: "subseq (xs @ ys) (xs @ y # ys)"
  by (rule list_emb_append_mono) (auto simp: subseq_Cons')

lemma begins_ok:
  assumes "concat u = drop k bs @ h4_stream ps" "n = length bs - k" "k \<le> length bs" "buf s = None"
    "b = (if alloc then Some (t, take k bs) else None)"
  shows "at_stream ps (packet_begins room b n u s) \<and>
    subseq (all_packets ps (packet_begins room b n u s)) (tx_queue s @ (t, bs) # ps) \<and>
    (alloc \<and> length bs \<le> room t \<longrightarrow> all_packets ps (packet_begins room b n u s) = tx_queue s @ (t, bs) # ps)"
  using assms by (auto simp: at_stream_def packet_begins_def all_packets_def arriving_def min_def subseq_insert)

lemma type_and_header:
  assumes "concat u = h4_stream ps" "\<forall>p \<in> set ps. h4_packet p" "concat u = [ty] @ concat u'"
  obtains bs ps' where "ps = (ty, bs) # ps'" "concat u' = bs @ h4_stream ps'" "h4_packet (ty, bs)"
  using assms by (cases ps) (auto simp: h4_stream_def h4_bytes_def)

lemma isr_round_ok:
  assumes "in_stream ps s" "\<forall>p \<in> set ps. h4_packet p"
  shows "returns (isr_round room alloc s) (\<lambda>(go_on, s'). go_on \<and> (\<exists>ps'. suffix ps' ps \<and> in_stream ps' s' \<and>
    subseq (all_packets ps' s') (all_packets ps s) \<and>
    (alloc \<and> (\<forall>p \<in> set ps. length (snd p) \<le> room (fst p)) \<longrightarrow> all_packets ps' s' = all_packets ps s)))"
    (is "returns _ ?Q")
proof (cases "remaining s = 0")
  case False
  then have "isr_round room alloc s = packet_rest s" by (simp add: isr_round_def)
  then show ?thesis using packet_rest_ok [of ps s] assms(1) by (auto simp: in_stream_at elim!: returns_mono)
next
  case True
  then have n: "buf s = None" "concat (line s) = h4_stream ps" using assms(1) by (cases "buf s"; auto simp: in_stream_def)+
  obtain ty u where u: "h4_read 1 0 [] (line s) = Some (ty, u)" "length ty \<le> 1" "concat (line s) = ty @ concat u"
    using h4_read_result [of 0 "[]" 1 "line s"] by (auto elim!: returnsE)
  show ?thesis
  proof (cases "length ty = 1")
    case False
    then have "ty = []" using u(2) by (cases ty) auto
    then have "isr_round room alloc s = Some (True, s\<lparr>line := u\<rparr>)" "concat u = concat (line s)"
      using True u by (simp_all add: isr_round_def)
    moreover have "in_stream ps (s\<lparr>line := u\<rparr>)" "all_packets ps (s\<lparr>line := u\<rparr>) = all_packets ps s"
      using assms(1) calculation(2) n(1) by (auto simp: in_stream_def all_packets_def arriving_def)
    ultimately show ?thesis by auto
  next
    case t: True
    then obtain y where y: "ty = [y]" by (auto simp: length_Suc_conv)
    obtain bs ps' where bs: "ps = (y, bs) # ps'" "concat u = bs @ h4_stream ps'" "h4_packet (y, bs)"
      using n(2) assms(2) u(3) unfolding y by (rule type_and_header)
    have finish: "returns (packet_rest (packet_begins room (if alloc then Some (y, take k bs) else None) (length bs - k) u' s)) ?Q"
      if k: "concat u' = drop k bs @ h4_stream ps'" "k \<le> length bs" for k u'
    proof -
      let ?s = "packet_begins room (if alloc then Some (y, take k bs) else None) (length bs - k) u' s"
      note b = begins_ok [OF k(1) refl k(2) n(1) refl, where room = room and alloc = alloc and t = y]
      have "all_packets ps s = tx_queue s @ (y, bs) # ps'" using n(1) bs(1) by (simp add: all_packets_def arriving_def)
      then show ?thesis using packet_rest_ok [of ps' ?s] b bs(1)
        by (auto elim!: returns_mono simp: suffix_Cons intro!: exI [of _ ps'])
    qed
    have header: "returns (h4_read k k [] u) (\<lambda>(hdr, u'). hdr = take k bs \<and> concat u' = drop k bs @ h4_stream ps')" if "k \<le> length bs" for k
    proof -
      have split: "hdr = take k bs \<and> concat u' = drop k bs @ h4_stream ps'"
        if "length hdr = k" "hdr @ concat u' = bs @ h4_stream ps'" for hdr u'
      proof -
        have "take k (hdr @ concat u') = take k (bs @ h4_stream ps')" "drop k (hdr @ concat u') = drop k (bs @ h4_stream ps')"
          by (simp_all only: that(2))
        then show ?thesis using that(1) \<open>k \<le> length bs\<close> by simp
      qed
      have "returns (h4_read k k [] u) (\<lambda>(hdr, u'). \<exists>rx. hdr = [] @ rx \<and> length rx \<le> k \<and> concat u = rx @ concat u' \<and> k \<le> length hdr)"
        using that bs(2) by (intro h4_read_result) simp_all
      then show ?thesis using split bs(2) by (auto elim!: returns_mono)
    qed
    from bs(3) consider "y = H4_CMD" "3 \<le> length bs" "length bs - 3 = unat (bs ! 2)"
      | "y = H4_ACL" "4 \<le> length bs" "length bs - 4 = unat (bs ! 2) + 256 * unat (bs ! 3)"
      by (auto simp: h4_packet_def)
    then show ?thesis
    proof cases
      case 1
      obtain hdr u' where h: "h4_read 3 3 [] u = Some (hdr, u')" "hdr = take 3 bs" "concat u' = drop 3 bs @ h4_stream ps'"
        using header [OF 1(2)] by (auto elim!: returnsE)
      have "unat (hdr ! 2) = length bs - 3" using 1 h(2) by simp
      then show ?thesis using finish [OF h(3) 1(2)] True u y h 1(1)
        by (cases alloc) (simp_all add: isr_round_def h4_cmd_recv_def)
    next
      case 2
      obtain hdr u' where h: "h4_read 4 4 [] u = Some (hdr, u')" "hdr = take 4 bs" "concat u' = drop 4 bs @ h4_stream ps'"
        using header [OF 2(2)] by (auto elim!: returnsE)
      have "unat (hdr ! 2) + 256 * unat (hdr ! 3) = length bs - 4" using 2 h(2) by simp
      then show ?thesis using finish [OF h(3) 2(2)] True u y h 2(1)
        by (cases alloc) (simp_all add: isr_round_def h4_acl_recv_def)
    qed
  qed
qed


definition h4_init :: "uart \<Rightarrow> hci" where
  "h4_init u = \<lparr>buf = None, remaining = 0, line = u, tx_queue = []\<rparr>"

lemma bt_uart_isr_ok:
  assumes "in_stream ps s" "\<forall>p \<in> set ps. h4_packet p"
  shows "returns (bt_uart_isr room polls s) (\<lambda>s'. \<exists>ps'. suffix ps' ps \<and> in_stream ps' s' \<and>
    subseq (all_packets ps' s') (all_packets ps s) \<and>
    ((\<forall>(_, alloc) \<in> set polls. alloc) \<and> (\<forall>p \<in> set ps. length (snd p) \<le> room (fst p)) \<longrightarrow> all_packets ps' s' = all_packets ps s))"
  using assms
proof (induction polls arbitrary: ps s)
  case Nil
  then show ?case by auto
next
  case (Cons poll polls)
  obtain rx_ready alloc where poll: "poll = (rx_ready, alloc)" by (cases poll)
  obtain go_on s1 where i: "isr_round room alloc s = Some (go_on, s1)"
    and "case (go_on, s1) of (go_on, s') \<Rightarrow> go_on \<and> (\<exists>ps'. suffix ps' ps \<and> in_stream ps' s' \<and>
      subseq (all_packets ps' s') (all_packets ps s) \<and>
      (alloc \<and> (\<forall>p \<in> set ps. length (snd p) \<le> room (fst p)) \<longrightarrow> all_packets ps' s' = all_packets ps s))"
    using isr_round_ok [OF Cons.prems, of room alloc] by (elim returnsE) auto
  then obtain ps1 where r: "isr_round room alloc s = Some (True, s1)" "suffix ps1 ps" "in_stream ps1 s1"
      "subseq (all_packets ps1 s1) (all_packets ps s)"
      "alloc \<and> (\<forall>p \<in> set ps. length (snd p) \<le> room (fst p)) \<longrightarrow> all_packets ps1 s1 = all_packets ps s"
    by auto
  have p1: "\<forall>p \<in> set ps1. h4_packet p" "set ps1 \<subseteq> set ps"
    using Cons.prems(2) r(2) by (auto dest: set_mono_suffix)
  show ?case
  proof (cases rx_ready)
    case True
    have "bt_uart_isr room (poll # polls) s = bt_uart_isr room polls s1" using True r(1) by (simp add: poll)
    then show ?thesis using Cons.IH [OF r(3) p1(1)] r(2,4,5) p1(2)
      by (auto simp: poll elim!: returns_mono intro: suffix_order.trans subseq_order.trans)
  next
    case False
    then show ?thesis using Cons.prems(1) by (auto simp: poll)
  qed
qed


text \<open>Every poll with something on the line takes a byte or an empty portion off it.\<close>

definition pending :: "uart \<Rightarrow> nat" where
  "pending u = length u + length (concat u)"

lemma uart_fifo_read_pending:
  "uart_fifo_read len u = (rx, u') \<Longrightarrow> pending u' \<le> pending u \<and> (0 < len \<and> u \<noteq> [] \<longrightarrow> pending u' < pending u)"
  by (cases u) (auto simp: pending_def split: if_splits)

lemma h4_read_pending:
  assumes "h4_read len least got u = Some (bs, u')"
  shows "pending u' \<le> pending u \<and> (0 < len \<and> u \<noteq> [] \<longrightarrow> pending u' < pending u)"
  using assms
proof (induction len least got u arbitrary: bs u' rule: h4_read.induct)
  case (1 len least got u)
  obtain rx v where r: "uart_fifo_read len u = (rx, v)" by fastforce
  note p = uart_fifo_read_pending [OF r]
  show ?case
  proof (cases "len = 0")
    case True
    then show ?thesis using 1(3) by (subst (asm) h4_read.simps) simp
  next
    case False
    show ?thesis
    proof (cases "rx = []")
      case True
      then show ?thesis using 1(1) [OF False r [symmetric] refl True] 1(3) False r p
        by (subst (asm) h4_read.simps) (auto split: if_splits)
    next
      case rx: False
      then show ?thesis using 1(2) [OF False r [symmetric] refl rx] 1(3) False r p
        by (subst (asm) h4_read.simps) auto
    qed
  qed
qed

lemma packet_rest_pending:
  assumes "packet_rest s = Some (go_on, s')"
  shows "pending (line s') \<le> pending (line s) \<and> (0 < remaining s \<and> line s \<noteq> [] \<longrightarrow> pending (line s') < pending (line s))"
proof (cases "buf s")
  case None
  then show ?thesis using assms uart_fifo_read_pending
    by (fastforce simp: packet_rest_def h4_discard_def split: prod.splits)
next
  case (Some b)
  then show ?thesis using assms h4_read_pending
    by (fastforce simp: packet_rest_def Let_def split: prod.splits if_splits Option.bind_splits)
qed

lemma isr_round_pending:
  assumes "isr_round room alloc s = Some (go_on, s')" "line s \<noteq> []"
  shows "pending (line s') < pending (line s)"
proof (cases "remaining s = 0")
  case False
  then show ?thesis using assms packet_rest_pending by (simp add: isr_round_def)
next
  case True
  then obtain ty u where u: "h4_read 1 0 [] (line s) = Some (ty, u)"
    using assms(1) by (auto simp: isr_round_def split: Option.bind_splits)
  have "pending u < pending (line s)" using h4_read_pending [OF u] assms(2) by simp
  moreover have "pending (line s') \<le> pending u"
    using assms(1) True u
    by (auto simp: isr_round_def h4_cmd_recv_def h4_acl_recv_def packet_begins_def split: if_splits Option.bind_splits
        dest!: packet_rest_pending h4_read_pending)
  ultimately show ?thesis by simp
qed


lemma isr_empty_line: "remaining s = 0 \<Longrightarrow> line s = [] \<Longrightarrow> isr_round room alloc s = Some (True, s)"
  by (simp add: isr_round_def h4_read.simps)

lemma in_stream_empty: "in_stream ps s \<Longrightarrow> concat (line s) = [] \<Longrightarrow> remaining s = 0 \<and> buf s = None \<and> ps = []"
  by (cases "buf s"; cases ps) (auto simp: in_stream_def h4_stream_def h4_bytes_def)

lemma enough_polls:
  assumes "in_stream ps s" "\<forall>p \<in> set ps. h4_packet p" "pending (line s) \<le> length polls" "\<forall>(rx_ready, _) \<in> set polls. rx_ready"
  shows "returns (bt_uart_isr room polls s) (\<lambda>s'. line s' = [])"
  using assms
proof (induction polls arbitrary: ps s)
  case Nil
  then show ?case by (auto simp: pending_def)
next
  case (Cons poll polls)
  obtain alloc where poll: "poll = (True, alloc)" using Cons.prems(4) by (cases poll) auto
  obtain go_on s1 where i: "isr_round room alloc s = Some (go_on, s1)"
    and "case (go_on, s1) of (go_on, s') \<Rightarrow> go_on \<and> (\<exists>ps'. suffix ps' ps \<and> in_stream ps' s')"
    using isr_round_ok [OF Cons.prems(1,2), of room alloc] by (elim returnsE) auto
  then obtain ps1 where r: "isr_round room alloc s = Some (True, s1)" "suffix ps1 ps" "in_stream ps1 s1" by auto
  have p1: "\<forall>p \<in> set ps1. h4_packet p" using Cons.prems(2) r(2) by (auto dest: set_mono_suffix)
  have "pending (line s1) \<le> length polls"
  proof (cases "line s = []")
    case True
    then have "s1 = s" using r(1) isr_empty_line in_stream_empty [OF Cons.prems(1)] by simp
    then show ?thesis using True by (simp add: pending_def)
  next
    case False
    then show ?thesis using isr_round_pending [OF r(1)] Cons.prems(3) by simp
  qed
  then show ?case using Cons.IH [OF r(3) p1] Cons.prems(4) r(1) by (simp add: poll)
qed

text \<open>
  C20: From a line that carries H:4 command and ACL packets, split in any portions, the interrupt
  handler queues packets of the stream only, whole and in order; when allocations succeed and the
  packets fit their buffers nothing is skipped, and after as many polls as there are bytes and
  portions every packet is queued.
\<close>

theorem packets_received:
  assumes "concat chunks = h4_stream ps" "\<forall>p \<in> set ps. h4_packet p"
  shows "returns (bt_uart_isr room polls (h4_init chunks)) (\<lambda>s. subseq (tx_queue s) ps \<and>
    ((\<forall>(_, alloc) \<in> set polls. alloc) \<and> (\<forall>p \<in> set ps. length (snd p) \<le> room (fst p)) \<longrightarrow> prefix (tx_queue s) ps \<and>
      ((\<forall>(rx_ready, _) \<in> set polls. rx_ready) \<and> length chunks + length (h4_stream ps) \<le> length polls \<longrightarrow> tx_queue s = ps)))"
proof -
  let ?good = "(\<forall>(_, alloc) \<in> set polls. alloc) \<and> (\<forall>p \<in> set ps. length (snd p) \<le> room (fst p))"
  have s: "in_stream ps (h4_init chunks)" "all_packets ps (h4_init chunks) = ps"
    using assms(1) by (simp_all add: in_stream_def all_packets_def arriving_def h4_init_def)
  obtain s' ps' where r: "bt_uart_isr room polls (h4_init chunks) = Some s'" "in_stream ps' s'"
      "subseq (all_packets ps' s') ps" "?good \<longrightarrow> all_packets ps' s' = ps"
    using bt_uart_isr_ok [OF s(1) assms(2), of room polls] unfolding returns_eq_Some s(2) by blast
  have "subseq (tx_queue s') (all_packets ps' s')" "prefix (tx_queue s') (all_packets ps' s')"
    by (simp_all add: all_packets_def prefix_imp_subseq)
  moreover have "line s' = []" if "\<forall>(rx_ready, _) \<in> set polls. rx_ready" "length chunks + length (h4_stream ps) \<le> length polls"
    using enough_polls [OF s(1) assms(2) _ that(1), of room] that(2) assms(1) r(1) by (simp add: pending_def h4_init_def)
  moreover have "tx_queue s' = all_packets ps' s'" if "line s' = []"
    using in_stream_empty [OF r(2)] that by (simp add: all_packets_def arriving_def)
  ultimately show ?thesis using r(1,3,4) by (auto intro: subseq_order.trans)
qed

lemma packets_received_witness:
  "\<exists>s. bt_uart_isr (\<lambda>_. 64) (replicate 15 (True, True)) (h4_init [[1, 3], [12], [0, 2, 5, 0], [2, 0, 7, 8]]) = Some s \<and>
    tx_queue s = [(H4_CMD, [3, 12, 0]), (H4_ACL, [5, 0, 2, 0, 7, 8])]"
  using packets_received [of "[[1, 3], [12], [0, 2, 5, 0], [2, 0, 7, 8]]" "[(H4_CMD, [3, 12, 0]), (H4_ACL, [5, 0, 2, 0, 7, 8])]"
    "\<lambda>_. 64" "replicate 15 (True, True)"]
  by (simp add: h4_stream_def h4_bytes_def h4_packet_def returns_eq_Some) blast

section \<open>To the host\<close>

text \<open>The thread that hands packets to the controller (\<open>None\<close> while it waits), and the answers.\<close>

definition tx_thread :: "(u8 \<times> u8 list \<Rightarrow> int) \<Rightarrow> hci \<Rightarrow> (int \<times> hci) option" where
  "tx_thread bt_send s = (case tx_queue s of [] \<Rightarrow> None | b # q \<Rightarrow> Some (bt_send b, s\<lparr>tx_queue := q\<rparr>))"

datatype buf_type = BT_BUF_CMD | BT_BUF_EVT | BT_BUF_ACL_OUT | BT_BUF_ACL_IN

definition h4_send :: "buf_type \<times> u8 list \<Rightarrow> int \<times> u8 list" where
  "h4_send b = (case b of
     (BT_BUF_ACL_IN, bs) \<Rightarrow> (0, H4_ACL # bs)
   | (BT_BUF_EVT, bs) \<Rightarrow> (0, H4_EVT # bs)
   | _ \<Rightarrow> (- 22, []))"

fun file_pos :: "nat \<Rightarrow> nat \<Rightarrow> u8 list \<Rightarrow> nat" where
  "file_pos len pos [] = pos"
| "file_pos len pos (c # cs) = file_pos (len + 1) (if c = 0x2F then len + 1 else pos) cs"

text \<open>The bytes before the endless loop; \<open>file\<close> is \<open>None\<close> for a null pointer, and has no null byte.\<close>

definition bt_ctlr_assert_handle :: "u8 list option \<Rightarrow> u32 \<Rightarrow> u8 list" where
  "bt_ctlr_assert_handle file nr =
     (let name = (case file of None \<Rightarrow> [] | Some f \<Rightarrow> drop (file_pos 0 0 f) f)
      in [H4_EVT, 0xff, word_of_nat (1 + length name + 1 + 4), 0xAA] @ (if name \<noteq> [] then name @ [0] else []) @
         [ucast nr, ucast (drop_bit 8 nr), ucast (drop_bit 16 nr), ucast (drop_bit 24 nr)])"

definition hci_uart_init :: "bool \<Rightarrow> int" where
  "hci_uart_init bound = (if \<not> bound then - 22 else 0)"

text \<open>The event that \<open>main\<close> sends first, if so configured: command complete for the opcode 0.\<close>

definition main_nop :: "bool \<Rightarrow> u8 list" where
  "main_nop wait_nop = (if wait_nop then [H4_EVT, 0x0e, 3, 1, 0, 0] else [])"

lemma file_pos_last:
  "pos \<le> len \<Longrightarrow> if 0x2F \<in> set cs then \<exists>a b. cs = a @ 0x2F # b \<and> 0x2F \<notin> set b \<and> file_pos len pos cs = len + length a + 1
    else file_pos len pos cs = pos"
proof (induction cs arbitrary: len pos)
  case (Cons c cs)
  note IH = Cons.IH [of "if c = 0x2F then len + 1 else pos" "len + 1"]
  have m: "(if c = 0x2F then len + 1 else pos) \<le> len + 1" using Cons.prems by simp
  show ?case
  proof (cases "0x2F \<in> set cs")
    case True
    then obtain a b where "cs = a @ 0x2F # b" "0x2F \<notin> set b"
        "file_pos (len + 1) (if c = 0x2F then len + 1 else pos) cs = len + 1 + length a + 1"
      using IH m by auto
    then show ?thesis by (intro iffD2 [OF if_P] exI [of _ "c # a"] exI [of _ b]) simp_all
  next
    case False
    then show ?thesis using IH m by (cases "c = 0x2F") (auto intro: exI [of _ "[]"] exI [of _ cs])
  qed
qed simp

theorem assert_event_length:
  assumes "0x2F \<notin> set name"
  shows "(unat (bt_ctlr_assert_handle (Some (dir @ 0x2F # name)) nr ! 2) = length (bt_ctlr_assert_handle (Some (dir @ 0x2F # name)) nr) - 3 \<longleftrightarrow>
      name \<noteq> [] \<and> length name < 250) \<and>
    unat (bt_ctlr_assert_handle None nr ! 2) = length (bt_ctlr_assert_handle None nr) - 3 + 1"
proof -
  obtain a b where ab: "dir @ 0x2F # name = a @ 0x2F # b" "0x2F \<notin> set b" "file_pos 0 0 (dir @ 0x2F # name) = length a + 1"
    using file_pos_last [of 0 0 "dir @ 0x2F # name"] by auto
  then have "b = name" using assms by (auto simp: append_eq_append_conv2 Cons_eq_append_conv append_eq_Cons_conv)
  then have "drop (file_pos 0 0 (dir @ 0x2F # name)) (dir @ 0x2F # name) = name" using ab by simp
  then have e: "bt_ctlr_assert_handle (Some (dir @ 0x2F # name)) nr =
      [H4_EVT, 0xff, word_of_nat (6 + length name), 0xAA] @ (if name \<noteq> [] then name @ [0] else []) @
         [ucast nr, ucast (drop_bit 8 nr), ucast (drop_bit 16 nr), ucast (drop_bit 24 nr)]"
    by (simp add: bt_ctlr_assert_handle_def)
  have "unat (word_of_nat (6 + length name) :: u8) = (6 + length name) mod 256" by (simp only: unat_of_nat) simp
  moreover have "(6 + length name) mod 256 = Suc (Suc (Suc (Suc (Suc (Suc (length name)))))) \<longleftrightarrow> length name < 250" using mod_less_divisor [of 256 "6 + length name"] by (cases "length name < 250") (simp, linarith)
  moreover have "unat (bt_ctlr_assert_handle None nr ! 2) = length (bt_ctlr_assert_handle None nr) - 3 + 1"
    by (simp add: bt_ctlr_assert_handle_def)
  ultimately show ?thesis unfolding e by (cases "name = []") (simp_all del: of_nat_add)
qed

lemma assert_event_length_witness:
  "unat (bt_ctlr_assert_handle (Some [0x61, 0x2F, 0x62, 0x2E, 0x63]) 258 ! 2) = length (bt_ctlr_assert_handle (Some [0x61, 0x2F, 0x62, 0x2E, 0x63]) 258) - 3"
  using assert_event_length [of "[0x62, 0x2E, 0x63]" "[0x61]" 258] by simp

end
