(* ===== verification/Eddystone.thy ===== *)
theory Eddystone
  imports Prelude
begin

text \<open>
  samples/bluetooth/eddystone/src/main.c: an Eddystone beacon with its configuration service. The
  handlers of the characteristics are functions of the bytes, the offset and the state; \<open>None\<close> is
  undefined behaviour. The stack's \<open>bt_gatt_attr_read\<close>, its random bytes and the answers of
  \<open>bt_le_adv_start\<close> are given.
\<close>

section \<open>The slots\<close>

abbreviation NUMBER_OF_SLOTS :: nat where "NUMBER_OF_SLOTS \<equiv> 1"
abbreviation EDS_URL_READ_OFFSET :: nat where "EDS_URL_READ_OFFSET \<equiv> 2"
abbreviation EDS_URL_WRITE_OFFSET :: nat where "EDS_URL_WRITE_OFFSET \<equiv> 4"

abbreviation EDS_TYPE_UID :: u8 where "EDS_TYPE_UID \<equiv> 0x00"
abbreviation EDS_TYPE_URL :: u8 where "EDS_TYPE_URL \<equiv> 0x10"
abbreviation EDS_TYPE_NONE :: u8 where "EDS_TYPE_NONE \<equiv> 0xff"

abbreviation EDS_LOCKED :: u8 where "EDS_LOCKED \<equiv> 0x00"
abbreviation EDS_UNLOCKED :: u8 where "EDS_UNLOCKED \<equiv> 0x01"
abbreviation EDS_UNLOCKED_NO_RELOCKING :: u8 where "EDS_UNLOCKED_NO_RELOCKING \<equiv> 0x02"

datatype att_error = INVALID_OFFSET | READ_NOT_PERMITTED | WRITE_NOT_PERMITTED | INVALID_ATTRIBUTE_LEN | UNLIKELY | NOT_SUPPORTED

text \<open>\<open>url\<close> is the data of the third field of \<open>ad\<close>, of which \<open>data_len\<close> bytes are advertised.\<close>

record eds_slot =
  slot_type :: u8
  slot_state :: u8
  connectable :: u8
  interval :: u16
  tx_power :: u8
  adv_tx_power :: u8
  lock :: "u8 list"
  challenge :: "u8 list"
  url :: "u8 list"
  data_len :: u8

datatype air = Silent | Configuration | Beacon eds_slot

record beacon =
  eds_active_slot :: nat
  eds_slots :: "eds_slot list"
  on_air :: air
  idle_work :: "int option"

definition eds_caps :: "u8 list" where
  "eds_caps = [0x00, 1, 0, 0, 0x00, 0x02, 0]"

definition initial_slot :: eds_slot where
  "initial_slot = \<lparr>slot_type = EDS_TYPE_NONE, slot_state = EDS_UNLOCKED, connectable = 0, interval = 0xa000, tx_power = 0, adv_tx_power = 0,
     lock = [0x5a, 0x65, 0x70, 0x68, 0x79, 0x72, 0x20, 0x45, 0x64, 0x64, 0x79, 0x73, 0x74, 0x6f, 0x6e, 0x65],
     challenge = replicate 16 0,
     url = [0xaa, 0xfe, 0x10, 0x00, 0x00, 0x7a, 0x65, 0x70, 0x68, 0x79, 0x72, 0x70, 0x72, 0x6f, 0x6a, 0x65, 0x63, 0x74, 0x08],
     data_len = 19\<rparr>"

definition eds_init :: beacon where
  "eds_init = \<lparr>eds_active_slot = 0, eds_slots = [initial_slot], on_air = Silent, idle_work = None\<rparr>"

abbreviation active :: "beacon \<Rightarrow> eds_slot" where
  "active s \<equiv> eds_slots s ! eds_active_slot s"

definition set_active :: "(eds_slot \<Rightarrow> eds_slot) \<Rightarrow> beacon \<Rightarrow> beacon" where
  "set_active f s = s\<lparr>eds_slots := (eds_slots s)[eds_active_slot s := f (active s)]\<rparr>"

section \<open>Reading\<close>

text \<open>\<open>attr_read value len offset\<close> is what \<open>bt_gatt_attr_read\<close> answers.\<close>

type_synonym attr_read = "u8 list \<Rightarrow> nat \<Rightarrow> nat \<Rightarrow> att_error + u8 list"
type_synonym 'a handler = "beacon \<Rightarrow> ((att_error + 'a) \<times> beacon) option"

definition read_caps :: "attr_read \<Rightarrow> nat \<Rightarrow> nat \<Rightarrow> u8 list handler" where
  "read_caps attr_read len offset s = Some (attr_read eds_caps len offset, s)"

definition read_slot :: "attr_read \<Rightarrow> nat \<Rightarrow> nat \<Rightarrow> u8 list handler" where
  "read_slot attr_read len offset s = Some (attr_read [word_of_nat (eds_active_slot s)] len offset, s)"

definition read_tx_power :: "attr_read \<Rightarrow> nat \<Rightarrow> nat \<Rightarrow> u8 list handler" where
  "read_tx_power attr_read len offset s =
     (if slot_state (active s) = EDS_LOCKED then Some (Inl READ_NOT_PERMITTED, s)
      else Some (attr_read [tx_power (active s)] len offset, s))"

definition read_adv_tx_power :: "attr_read \<Rightarrow> nat \<Rightarrow> nat \<Rightarrow> u8 list handler" where
  "read_adv_tx_power attr_read len offset s =
     (if slot_state (active s) = EDS_LOCKED then Some (Inl READ_NOT_PERMITTED, s)
      else Some (attr_read [tx_power (active s)] len offset, s))"

definition read_interval :: "attr_read \<Rightarrow> nat \<Rightarrow> nat \<Rightarrow> u8 list handler" where
  "read_interval attr_read len offset s =
     (if slot_state (active s) = EDS_LOCKED then Some (Inl WRITE_NOT_PERMITTED, s)
      else Some (attr_read [ucast (interval (active s)), ucast (drop_bit 8 (interval (active s)))] len offset, s))"

definition read_lock :: "attr_read \<Rightarrow> nat \<Rightarrow> nat \<Rightarrow> u8 list handler" where
  "read_lock attr_read len offset s = Some (attr_read [slot_state (active s)] len offset, s)"

text \<open>\<open>bt_rand\<close> gives the random bytes, or \<open>None\<close> when it fails.\<close>

definition read_unlock :: "attr_read \<Rightarrow> u8 list option \<Rightarrow> nat \<Rightarrow> nat \<Rightarrow> u8 list handler" where
  "read_unlock attr_read bt_rand len offset s =
     (if slot_state (active s) \<noteq> EDS_LOCKED then Some (Inl READ_NOT_PERMITTED, s)
      else case bt_rand of
        None \<Rightarrow> Some (Inl UNLIKELY, s)
      | Some bs \<Rightarrow> Some (attr_read bs len offset, set_active (challenge_update (\<lambda>_. bs)) s))"

definition read_ecdh :: "attr_read \<Rightarrow> nat \<Rightarrow> nat \<Rightarrow> u8 list handler" where
  "read_ecdh attr_read len offset s = Some (attr_read (replicate 32 0) len offset, s)"

definition read_eid :: "attr_read \<Rightarrow> nat \<Rightarrow> nat \<Rightarrow> u8 list handler" where
  "read_eid attr_read len offset s = Some (attr_read (replicate 16 0) len offset, s)"

definition read_adv_data :: "attr_read \<Rightarrow> nat \<Rightarrow> nat \<Rightarrow> u8 list handler" where
  "read_adv_data attr_read len offset s =
     (if slot_state (active s) = EDS_LOCKED then Some (Inl READ_NOT_PERMITTED, s)
      else if slot_type (active s) = EDS_TYPE_NONE then Some (Inr [], s)
      else Some (attr_read (drop EDS_URL_READ_OFFSET (take (unat (data_len (active s))) (url (active s)))) len offset, s))"

definition read_connectable :: "attr_read \<Rightarrow> nat \<Rightarrow> nat \<Rightarrow> u8 list handler" where
  "read_connectable attr_read len offset s = Some (attr_read [0x01] len offset, s)"

section \<open>Writing\<close>

text \<open>
  \<open>copy_byte old bs\<close> is \<open>memcpy(&v, buf, len)\<close> for a variable or field of one byte that holds \<open>old\<close>
  (\<open>None\<close> while it is not set): \<open>None\<close> when more than one byte is copied. Binding its content once more
  is the use of the variable.
\<close>

definition copy_byte :: "u8 option \<Rightarrow> u8 list \<Rightarrow> u8 option option" where
  "copy_byte old bs = (case bs of [] \<Rightarrow> Some old | [b] \<Rightarrow> Some (Some b) | _ \<Rightarrow> None)"

definition write_slot :: "u8 list \<Rightarrow> nat \<Rightarrow> nat handler" where
  "write_slot bs offset s =
     (if offset + length bs > 1 then Some (Inl INVALID_OFFSET, s)
      else do {
        v \<leftarrow> copy_byte None bs;
        b \<leftarrow> v;
        if unat b + 1 > NUMBER_OF_SLOTS then Some (Inl WRITE_NOT_PERMITTED, s)
        else Some (Inr (length bs), s\<lparr>eds_active_slot := unat b\<rparr>)
      })"

text \<open>The copy of a write into a field of the active slot, of which \<open>old\<close> is the content.\<close>

definition write_field :: "(eds_slot \<Rightarrow> u8) \<Rightarrow> ((u8 \<Rightarrow> u8) \<Rightarrow> eds_slot \<Rightarrow> eds_slot) \<Rightarrow> u8 list \<Rightarrow> nat handler" where
  "write_field old upd bs s = do {
     v \<leftarrow> copy_byte (Some (old (active s))) bs;
     b \<leftarrow> v;
     Some (Inr (length bs), set_active (upd (\<lambda>_. b)) s)
   }"

definition write_tx_power :: "u8 list \<Rightarrow> nat \<Rightarrow> nat handler" where
  "write_tx_power bs offset s =
     (if slot_state (active s) = EDS_LOCKED then Some (Inl WRITE_NOT_PERMITTED, s)
      else if offset + length bs > 1 then Some (Inl INVALID_OFFSET, s)
      else write_field tx_power tx_power_update bs s)"

definition write_adv_tx_power :: "u8 list \<Rightarrow> nat \<Rightarrow> nat handler" where
  "write_adv_tx_power bs offset s =
     (if slot_state (active s) = EDS_LOCKED then Some (Inl WRITE_NOT_PERMITTED, s)
      else if offset + length bs > 1 then Some (Inl INVALID_OFFSET, s)
      else write_field adv_tx_power adv_tx_power_update bs s)"

definition write_lock :: "u8 list \<Rightarrow> nat \<Rightarrow> nat handler" where
  "write_lock bs offset s =
     (if slot_state (active s) = EDS_LOCKED then Some (Inl WRITE_NOT_PERMITTED, s)
      else if offset \<noteq> 0 then Some (Inl INVALID_OFFSET, s)
      else if length bs \<noteq> 1 then Some (Inl INVALID_ATTRIBUTE_LEN, s)
      else do {
        v \<leftarrow> copy_byte None (take 1 bs);
        b \<leftarrow> v;
        if b > EDS_UNLOCKED_NO_RELOCKING then Some (Inl WRITE_NOT_PERMITTED, s)
        else Some (Inr (length bs), set_active (slot_state_update (\<lambda>_. b)) s)
      })"

definition write_unlock :: "u8 list \<Rightarrow> nat \<Rightarrow> nat handler" where
  "write_unlock bs offset s =
     (if slot_state (active s) \<noteq> EDS_LOCKED then Some (Inl READ_NOT_PERMITTED, s) else Some (Inl NOT_SUPPORTED, s))"

text \<open>\<open>adv_err\<close> is the answer of \<open>bt_le_adv_start\<close>.\<close>

definition eds_slot_restart :: "int \<Rightarrow> u8 \<Rightarrow> beacon \<Rightarrow> int \<times> beacon" where
  "eds_slot_restart adv_err ty s =
     (if adv_err \<noteq> 0 then (adv_err, s\<lparr>on_air := Silent\<rparr>)
      else (0, set_active (slot_type_update (\<lambda>_. ty))
        (s\<lparr>on_air := if ty = EDS_TYPE_NONE then Configuration else Beacon (active s)\<rparr>)))"

text \<open>
  The copy of a URL has the destination \<open>&slot->ad[2].data + EDS_URL_WRITE_OFFSET\<close>, so many pointers
  after a pointer that is the last member of the only slot. \<open>copy_fits\<close>: \<open>n\<close> bytes at \<open>dest\<close> lie in the
  \<open>room\<close> bytes that are there. The sizes are those of a 32-bit target.
\<close>

abbreviation POINTER_SIZE :: nat where "POINTER_SIZE \<equiv> 4"

definition copy_fits :: "nat \<Rightarrow> nat \<Rightarrow> nat \<Rightarrow> bool" where
  "copy_fits room dest n \<longleftrightarrow> n = 0 \<or> dest + n \<le> room"

definition write_adv_data :: "int \<Rightarrow> u8 list \<Rightarrow> nat \<Rightarrow> nat handler" where
  "write_adv_data adv_err bs offset s =
     (if slot_state (active s) = EDS_LOCKED then Some (Inl READ_NOT_PERMITTED, s)
      else if offset \<noteq> 0 then Some (Inl INVALID_OFFSET, s)
      else if bs = [] then Some (Inr 0, snd (eds_slot_restart adv_err EDS_TYPE_NONE s))
      else if length bs > 19 then Some (Inl INVALID_ATTRIBUTE_LEN, s)
      else do {
        v \<leftarrow> copy_byte None (take 1 bs);
        ty \<leftarrow> v;
        if ty = EDS_TYPE_URL then
          let n = min (unat (data_len (active s))) (length bs + EDS_URL_WRITE_OFFSET);
              s = set_active (data_len_update (\<lambda>_. word_of_nat n)) s
          in if n < EDS_URL_WRITE_OFFSET \<or> \<not> copy_fits POINTER_SIZE (EDS_URL_WRITE_OFFSET * POINTER_SIZE) (n - EDS_URL_WRITE_OFFSET)
             then None
             else let (err, s) = eds_slot_restart adv_err EDS_TYPE_URL s
                  in if err < 0 then Some (Inl UNLIKELY, s) else Some (Inr (length bs), s)
        else Some (Inl WRITE_NOT_PERMITTED, s)
      })"

definition write_reset :: "u8 list \<Rightarrow> nat \<Rightarrow> nat handler" where
  "write_reset bs offset s = Some (Inl WRITE_NOT_PERMITTED, s)"

definition write_connectable :: "u8 list \<Rightarrow> nat \<Rightarrow> nat handler" where
  "write_connectable bs offset s =
     (if slot_state (active s) = EDS_LOCKED then Some (Inl WRITE_NOT_PERMITTED, s)
      else if offset \<noteq> 0 then Some (Inl INVALID_OFFSET, s)
      else if length bs > 1 then Some (Inl INVALID_ATTRIBUTE_LEN, s)
      else write_field connectable connectable_update bs s)"

section \<open>The beacon\<close>

definition eds_bt_ready :: "int \<Rightarrow> int \<Rightarrow> beacon \<Rightarrow> beacon" where
  "eds_bt_ready err adv_err s =
     (if err \<noteq> 0 then s else if adv_err \<noteq> 0 then s
      else s\<lparr>on_air := Configuration, idle_work := Some 30000\<rparr>)"

definition idle_timeout :: "int \<Rightarrow> beacon \<Rightarrow> beacon" where
  "idle_timeout adv_err s =
     (if slot_type (active s) = EDS_TYPE_NONE then snd (eds_slot_restart adv_err EDS_TYPE_URL s) else s)"

definition eds_connected :: "u8 \<Rightarrow> beacon \<Rightarrow> beacon" where
  "eds_connected err s = (if err \<noteq> 0 then s else s\<lparr>idle_work := None\<rparr>)"

definition eds_disconnected :: "beacon \<Rightarrow> beacon" where
  "eds_disconnected s = (if connectable (active s) = 0 then s\<lparr>idle_work := Some 0\<rparr> else s)"

text \<open>The service: its characteristics, and what can happen to the beacon.\<close>

datatype characteristic = CAPS | SLOT | INTV | TX | ADV_TX | LOCK | UNLOCK | ECDH | EID | DATA | RESET | CONNECTABLE

fun eds_svc_read :: "attr_read \<Rightarrow> u8 list option \<Rightarrow> characteristic \<Rightarrow> (nat \<Rightarrow> nat \<Rightarrow> u8 list handler) option" where
  "eds_svc_read a r CAPS = Some (read_caps a)"
| "eds_svc_read a r SLOT = Some (read_slot a)"
| "eds_svc_read a r INTV = Some (read_interval a)"
| "eds_svc_read a r TX = Some (read_tx_power a)"
| "eds_svc_read a r ADV_TX = Some (read_adv_tx_power a)"
| "eds_svc_read a r LOCK = Some (read_lock a)"
| "eds_svc_read a r UNLOCK = Some (read_unlock a r)"
| "eds_svc_read a r ECDH = Some (read_ecdh a)"
| "eds_svc_read a r EID = Some (read_eid a)"
| "eds_svc_read a r DATA = Some (read_adv_data a)"
| "eds_svc_read a r RESET = None"
| "eds_svc_read a r CONNECTABLE = Some (read_connectable a)"

fun eds_svc_write :: "int \<Rightarrow> characteristic \<Rightarrow> (u8 list \<Rightarrow> nat \<Rightarrow> nat handler) option" where
  "eds_svc_write e SLOT = Some write_slot"
| "eds_svc_write e TX = Some write_tx_power"
| "eds_svc_write e ADV_TX = Some write_adv_tx_power"
| "eds_svc_write e LOCK = Some write_lock"
| "eds_svc_write e UNLOCK = Some write_unlock"
| "eds_svc_write e DATA = Some (write_adv_data e)"
| "eds_svc_write e RESET = Some write_reset"
| "eds_svc_write e CONNECTABLE = Some write_connectable"
| "eds_svc_write e _ = None"

inductive eds_step :: "beacon \<Rightarrow> beacon \<Rightarrow> bool" where
  reads: "eds_svc_read a r c = Some h \<Longrightarrow> h len offset s = Some (res, s') \<Longrightarrow> eds_step s s'"
| writes: "eds_svc_write e c = Some h \<Longrightarrow> h bs offset s = Some (res, s') \<Longrightarrow> eds_step s s'"
| idles: "idle_work s = Some t \<Longrightarrow> eds_step s (idle_timeout e (s\<lparr>idle_work := None\<rparr>))"
| connects: "eds_step s (eds_connected err s)"
| disconnects: "eds_step s (eds_disconnected s)"

inductive eds_reachable :: "beacon \<Rightarrow> bool" where
  ready: "eds_reachable (eds_bt_ready err e eds_init)"
| stepped: "eds_reachable s \<Longrightarrow> eds_step s s' \<Longrightarrow> eds_reachable s'"

section \<open>What a client can do to a locked beacon\<close>

lemmas eds_read_defs = read_caps_def read_slot_def read_tx_power_def read_adv_tx_power_def read_interval_def read_lock_def
  read_unlock_def read_ecdh_def read_eid_def read_adv_data_def read_connectable_def

lemma copy_byte_simps [simp]:
  "copy_byte old [] = Some old" "copy_byte old [b] = Some (Some b)" "copy_byte old (b # c # bs) = None"
  by (simp_all add: copy_byte_def)

text \<open>The outcome of each writer, its copies carried out.\<close>

lemma write_slot_cases:
  "write_slot bs offset s =
     (if offset + length bs > 1 then Some (Inl INVALID_OFFSET, s)
      else if bs = [] then None
      else if unat (hd bs) + 1 > NUMBER_OF_SLOTS then Some (Inl WRITE_NOT_PERMITTED, s)
      else Some (Inr (length bs), s\<lparr>eds_active_slot := unat (hd bs)\<rparr>))"
  by (cases bs; cases "tl bs") (simp_all add: write_slot_def)

lemma write_field_cases:
  "write_field old upd bs s = (if length bs > 1 then None
     else Some (Inr (length bs), set_active (upd (\<lambda>_. if bs = [] then old (active s) else hd bs)) s))"
  by (cases bs; cases "tl bs") (simp_all add: write_field_def)

lemma write_lock_cases:
  "write_lock bs offset s =
     (if slot_state (active s) = EDS_LOCKED then Some (Inl WRITE_NOT_PERMITTED, s)
      else if offset \<noteq> 0 then Some (Inl INVALID_OFFSET, s)
      else if length bs \<noteq> 1 then Some (Inl INVALID_ATTRIBUTE_LEN, s)
      else if hd bs > EDS_UNLOCKED_NO_RELOCKING then Some (Inl WRITE_NOT_PERMITTED, s)
      else Some (Inr (length bs), set_active (slot_state_update (\<lambda>_. hd bs)) s))"
  by (cases bs; cases "tl bs") (simp_all add: write_lock_def)

lemmas eds_write_cases = write_slot_cases write_field_cases write_lock_cases write_tx_power_def write_adv_tx_power_def
  write_unlock_def write_reset_def write_connectable_def

definition beacon_ok :: "beacon \<Rightarrow> bool" where
  "beacon_ok s \<longleftrightarrow> eds_active_slot s = 0 \<and> (\<exists>b. eds_slots s = [b] \<and> slot_type b \<in> {EDS_TYPE_NONE, EDS_TYPE_URL} \<and>
     slot_state b \<le> EDS_UNLOCKED_NO_RELOCKING \<and> length (url b) = 19 \<and> data_len b = 19)"

lemma beacon_ok_set_active:
  "beacon_ok s \<Longrightarrow> (\<And>b. slot_type b \<in> {EDS_TYPE_NONE, EDS_TYPE_URL} \<Longrightarrow> slot_state b \<le> EDS_UNLOCKED_NO_RELOCKING \<Longrightarrow> length (url b) = 19 \<Longrightarrow> data_len b = 19 \<Longrightarrow>
     slot_type (f b) \<in> {EDS_TYPE_NONE, EDS_TYPE_URL} \<and> slot_state (f b) \<le> EDS_UNLOCKED_NO_RELOCKING \<and> length (url (f b)) = 19 \<and> data_len (f b) = 19) \<Longrightarrow>
   beacon_ok (set_active f s)"
  by (auto simp: beacon_ok_def set_active_def)

lemma beacon_ok_air [simp]: "beacon_ok (s\<lparr>on_air := x\<rparr>) = beacon_ok s" "beacon_ok (s\<lparr>idle_work := y\<rparr>) = beacon_ok s"
  by (simp_all add: beacon_ok_def)

lemma beacon_ok_restart: "beacon_ok s \<Longrightarrow> ty \<in> {EDS_TYPE_NONE, EDS_TYPE_URL} \<Longrightarrow> beacon_ok (snd (eds_slot_restart e ty s))"
  by (auto simp: eds_slot_restart_def intro!: beacon_ok_set_active)

lemma write_adv_data_cases:
  assumes "beacon_ok s"
  shows "write_adv_data e bs offset s =
    (if slot_state (active s) = EDS_LOCKED then Some (Inl READ_NOT_PERMITTED, s)
     else if offset \<noteq> 0 then Some (Inl INVALID_OFFSET, s)
     else if bs = [] then Some (Inr 0, snd (eds_slot_restart e EDS_TYPE_NONE s))
     else if length bs > 19 then Some (Inl INVALID_ATTRIBUTE_LEN, s)
     else if hd bs = EDS_TYPE_URL then None
     else Some (Inl WRITE_NOT_PERMITTED, s))"
proof (cases bs)
  case (Cons b bs')
  have "data_len (active s) = 19" using assms by (auto simp: beacon_ok_def)
  moreover have "min 19 (5 + length bs') \<le> 4 \<longleftrightarrow> False" by (simp add: min_def)
  ultimately show ?thesis using Cons by (simp add: write_adv_data_def copy_fits_def Let_def)
qed (simp add: write_adv_data_def)

lemma beacon_ok_writes:
  assumes "beacon_ok s" "eds_svc_write e c = Some h" "h bs offset s = Some (res, s')"
  shows "beacon_ok s'"
proof (cases "c = DATA")
  case True
  then show ?thesis using assms by (auto simp: write_adv_data_cases beacon_ok_restart split: if_splits)
next
  case False
  then show ?thesis using assms
    by (cases c) (auto simp: eds_write_cases beacon_ok_def set_active_def not_less split: if_splits)
qed

lemma beacon_ok_reads:
  assumes "beacon_ok s" "eds_svc_read a r c = Some h" "h len offset s = Some (res, s')"
  shows "beacon_ok s'"
  using assms by (cases c) (auto simp: eds_read_defs intro!: beacon_ok_set_active split: if_splits option.splits)

lemma beacon_ok_step: "eds_step s s' \<Longrightarrow> beacon_ok s \<Longrightarrow> beacon_ok s'"
  by (induction rule: eds_step.induct)
    (auto simp: eds_connected_def eds_disconnected_def idle_timeout_def intro: beacon_ok_reads beacon_ok_writes beacon_ok_restart)

lemma beacon_ok_reachable: "eds_reachable s \<Longrightarrow> beacon_ok s"
proof (induction rule: eds_reachable.induct)
  case (ready err e)
  then show ?case by (simp add: eds_bt_ready_def beacon_ok_def eds_init_def initial_slot_def)
qed (auto intro: beacon_ok_step)

text \<open>What the owner of the beacon configures.\<close>

definition settings :: "beacon \<Rightarrow> u8 \<times> u16 \<times> u8 \<times> u8 \<times> u8 list \<times> u8 list \<times> u8" where
  "settings s = (let b = active s in (connectable b, interval b, tx_power b, adv_tx_power b, lock b, url b, data_len b))"

lemma settings_set_active:
  "beacon_ok s \<Longrightarrow> settings (set_active f s) = settings (s\<lparr>eds_slots := [f (active s)]\<rparr>)"
  "beacon_ok s \<Longrightarrow> active (set_active f s) = f (active s)"
  by (auto simp: beacon_ok_def set_active_def settings_def)

lemma locked_write:
  assumes "beacon_ok s" "slot_state (active s) = EDS_LOCKED" "eds_svc_write e c = Some h" "h bs offset s = Some (res, s')"
  shows "s' = s \<and> (c = SLOT \<or> (\<exists>err. res = Inl err))"
  using assms by (cases c) (auto simp: eds_write_cases write_adv_data_def beacon_ok_def split: if_splits)

lemma locked_step:
  assumes "eds_step s s'" "beacon_ok s" "slot_state (active s) = EDS_LOCKED"
  shows "slot_state (active s') = EDS_LOCKED \<and> settings s' = settings s"
  using assms
proof (induction rule: eds_step.induct)
  case (reads a r c h len offset s res s')
  then show ?case by (cases c) (auto simp: eds_read_defs settings_set_active settings_def Let_def split: option.splits)
next
  case (writes e c h bs offset s res s')
  then have "s' = s" by (blast dest: locked_write)
  then show ?case using writes by simp
next
  case (idles s t e)
  then show ?case
    by (auto simp: idle_timeout_def eds_slot_restart_def settings_set_active settings_def Let_def)
qed (auto simp: eds_connected_def eds_disconnected_def settings_def)

lemma locked_steps:
  assumes "eds_step\<^sup>*\<^sup>* s s'" "beacon_ok s" "slot_state (active s) = EDS_LOCKED"
  shows "beacon_ok s' \<and> slot_state (active s') = EDS_LOCKED \<and> settings s' = settings s"
  using assms(1)
proof (induction rule: rtranclp_induct)
  case base
  show ?case using assms(2,3) by simp
next
  case (step s1 s2)
  then show ?case using locked_step [OF step(2)] beacon_ok_step [OF step(2)] by simp
qed

text \<open>
  C21: Once a reachable beacon is locked, no sequence of reads, writes, connections and time-outs
  unlocks it or changes its settings, and every write to a characteristic other than the active slot
  is refused and changes nothing.
\<close>

theorem locked_beacon_stays_locked:
  assumes "eds_reachable s" "slot_state (active s) = EDS_LOCKED" "eds_step\<^sup>*\<^sup>* s s'"
  shows "slot_state (active s') = EDS_LOCKED \<and> settings s' = settings s \<and>
    (\<forall>e c h bs offset. eds_svc_write e c = Some h \<and> c \<noteq> SLOT \<longrightarrow> (\<exists>err. h bs offset s' = Some (Inl err, s')))"
proof -
  note l = locked_steps [OF assms(3) beacon_ok_reachable [OF assms(1)] assms(2)]
  have "\<exists>err. h bs offset s' = Some (Inl err, s')" if "eds_svc_write e c = Some h" "c \<noteq> SLOT" for e c h bs offset
    using l that by (cases c) (auto simp: eds_write_cases write_adv_data_def)
  then show ?thesis using l by blast
qed

lemma locked_beacon_stays_locked_witness:
  "\<exists>s s'. eds_reachable s \<and> on_air s' = Beacon (active s) \<and> slot_state (active s') = EDS_LOCKED \<and> settings s' = settings s"
proof -
  let ?s = "set_active (slot_state_update (\<lambda>_. EDS_LOCKED)) (eds_bt_ready 0 0 eds_init)"
  let ?s' = "idle_timeout 0 (?s\<lparr>idle_work := None\<rparr>)"
  have "eds_svc_write 0 LOCK = Some write_lock" "write_lock [EDS_LOCKED] 0 (eds_bt_ready 0 0 eds_init) = Some (Inr 1, ?s)"
    by (simp_all add: write_lock_def eds_bt_ready_def eds_init_def initial_slot_def)
  then have r: "eds_reachable ?s" by (blast intro: eds_reachable.intros eds_step.writes)
  have l: "slot_state (active ?s) = EDS_LOCKED" by (simp add: set_active_def eds_bt_ready_def eds_init_def)
  have "idle_work ?s = Some 30000" by (simp add: set_active_def eds_bt_ready_def)
  then have "eds_step\<^sup>*\<^sup>* ?s ?s'" by (blast intro: eds_step.idles)
  moreover have "on_air ?s' = Beacon (active ?s)"
    by (simp add: idle_timeout_def eds_slot_restart_def set_active_def eds_bt_ready_def eds_init_def initial_slot_def)
  ultimately show ?thesis using locked_beacon_stays_locked [OF r l] r by blast
qed

text \<open>
  C22: The writes to a reachable beacon that are undefined are exactly those of two kinds: an empty
  one to the active slot with an offset of at most one, which compares an unset variable, and every
  URL of one to nineteen bytes written without an offset to an unlocked beacon, which is copied to a
  place behind the slot. In particular no other copy leaves its field.
\<close>

theorem undefined_writes:
  assumes "eds_reachable s" "eds_svc_write e c = Some h"
  shows "h bs offset s = None \<longleftrightarrow> c = SLOT \<and> bs = [] \<and> offset \<le> 1 \<or>
    c = DATA \<and> slot_state (active s) \<noteq> EDS_LOCKED \<and> offset = 0 \<and> bs \<noteq> [] \<and> length bs \<le> 19 \<and> hd bs = EDS_TYPE_URL"
proof -
  have "beacon_ok s" using assms(1) by (rule beacon_ok_reachable)
  show ?thesis
  proof (cases "c = DATA")
    case True
    then show ?thesis using assms(2) write_adv_data_cases [OF \<open>beacon_ok s\<close>, of e bs offset]
      by (auto split: if_splits)
  next
    case False
    then show ?thesis using assms(2) by (cases c) (auto simp: eds_write_cases)
  qed
qed

lemma undefined_writes_witness: "write_adv_data 0 [EDS_TYPE_URL, 3, 0x61] 0 (eds_bt_ready 0 0 eds_init) = None"
  using undefined_writes [OF eds_reachable.ready, of 0 DATA "write_adv_data 0" "[EDS_TYPE_URL, 3, 0x61]" 0 0 0]
  by (simp add: eds_bt_ready_def eds_init_def initial_slot_def)

end
