(* ===== verification/Pong.thy ===== *)
theory Pong
  imports Prelude
begin

text \<open>
  samples/boards/bbc_microbit/pong/src/main.c: the game on one board. The state holds the static
  variables of the file; what the functions ask of the Bluetooth side is collected in \<open>calls\<close>. The
  time of an event and the random byte are arguments of its handler.
\<close>

section \<open>The board\<close>

abbreviation PIXEL_SIZE :: int where "PIXEL_SIZE \<equiv> 10"
abbreviation PADDLE_ROW :: nat where "PADDLE_ROW \<equiv> 4"
abbreviation PADDLE_MIN :: int where "PADDLE_MIN \<equiv> 0"
abbreviation PADDLE_MAX :: int where "PADDLE_MAX \<equiv> 3"
abbreviation BALL_VEL_Y_START :: int where "BALL_VEL_Y_START \<equiv> - 4"
abbreviation BALL_POS_X_MIN :: int where "BALL_POS_X_MIN \<equiv> 0"
abbreviation BALL_POS_X_MAX :: int where "BALL_POS_X_MAX \<equiv> 49"
abbreviation BALL_POS_Y_MIN :: int where "BALL_POS_Y_MIN \<equiv> 0"
abbreviation BALL_POS_Y_MAX :: int where "BALL_POS_Y_MAX \<equiv> 39"
abbreviation GAME_REFRESH :: int where "GAME_REFRESH \<equiv> 100"
abbreviation START_THRESHOLD :: int where "START_THRESHOLD \<equiv> 100"
abbreviation RESTART_THRESHOLD :: int where "RESTART_THRESHOLD \<equiv> 2000"
abbreviation REAL_TO_VIRT :: "int \<Rightarrow> int" where "REAL_TO_VIRT r \<equiv> r * 10"
abbreviation VIRT_TO_REAL :: "int \<Rightarrow> int" where "VIRT_TO_REAL v \<equiv> c_div v 10"

datatype pong_state = INIT | MULTI | SINGLE | CONNECTED
datatype sound_state = SOUND_IDLE | SOUND_PADDLE | SOUND_WALL
datatype ble_request = Connect | Cancel_connect | Send_ball u8 u8 u8 u8 | Send_lost

text \<open>
  \<open>refresh\<close> is the delay of the pending work item, \<open>selecting\<close> that \<open>select\<close> is not null.
\<close>

record pong =
  state :: pong_state
  selecting :: bool
  select_idx :: nat
  remote_lost :: bool
  started :: bool
  ended :: int
  refresh :: "int option"
  disp_update :: bool
  paddle_x :: int
  ball_x :: int
  ball_y :: int
  vel_x :: int
  vel_y :: int
  a_timestamp :: int
  b_timestamp :: int
  sound :: sound_state
  calls :: "ble_request list"

definition mode_choice :: "pong_state list" where
  "mode_choice = [SINGLE, MULTI]"

definition pong_select :: "pong \<Rightarrow> pong" where
  "pong_select s = (if selecting s then s else s\<lparr>selecting := True, select_idx := 0\<rparr>)"

definition pong_select_change :: "pong \<Rightarrow> pong" where
  "pong_select_change s = s\<lparr>select_idx := (select_idx s + 1) mod length mode_choice\<rparr>"

definition game_init :: "bool \<Rightarrow> pong \<Rightarrow> pong" where
  "game_init initiator s = s\<lparr>started := False, ended := 0, ball_x := 4, ball_y := (if \<not> initiator then - 1 else BALL_POS_Y_MAX),
     paddle_x := PADDLE_MIN, a_timestamp := 0, b_timestamp := 0\<rparr>"

definition mode_selected :: "pong_state \<Rightarrow> pong \<Rightarrow> pong" where
  "mode_selected val s =
     (let s = s\<lparr>state := val\<rparr> in
      case val of
        SINGLE \<Rightarrow> game_init True s\<lparr>disp_update := True\<rparr>
      | MULTI \<Rightarrow> s\<lparr>calls := calls s @ [Connect]\<rparr>
      | _ \<Rightarrow> s)"

definition pong_select_complete :: "pong \<Rightarrow> pong" where
  "pong_select_complete s = mode_selected (mode_choice ! select_idx s) (s\<lparr>selecting := False\<rparr>)"

definition ball_visible :: "pong \<Rightarrow> bool" where
  "ball_visible s = (ball_y s \<ge> BALL_POS_Y_MIN)"

definition sound_set :: "sound_state \<Rightarrow> pong \<Rightarrow> pong" where
  "sound_set st s = s\<lparr>sound := st\<rparr>"

definition check_start :: "u8 \<Rightarrow> pong \<Rightarrow> pong" where
  "check_start rnd s =
     (if a_timestamp s = 0 \<or> b_timestamp s = 0 then s
      else let delta = (if a_timestamp s > b_timestamp s then word_of_int (a_timestamp s - b_timestamp s)
                        else word_of_int (b_timestamp s - a_timestamp s)) :: u32;
               rnd = uint (rnd mod 8)
           in if uint delta > START_THRESHOLD then s
              else s\<lparr>vel_y := BALL_VEL_Y_START,
                     vel_x := (if a_timestamp s > b_timestamp s then 2 + rnd else - 2 - rnd),
                     started := True, remote_lost := False, refresh := Some 0\<rparr>)"

definition game_ended :: "int \<Rightarrow> bool \<Rightarrow> pong \<Rightarrow> pong" where
  "game_ended uptime won s =
     (let s = (if sound s \<noteq> SOUND_IDLE then sound_set SOUND_IDLE s else s)
      in s\<lparr>remote_lost := won, ended := uptime, started := False, refresh := Some RESTART_THRESHOLD\<rparr>)"

text \<open>
  \<open>game_refresh\<close> after its first two checks: the ball moves; it leaves at the top, is reflected there
  or at the walls, and meets the paddle or is lost.
\<close>

definition side_walls :: "pong \<Rightarrow> pong" where
  "side_walls s =
     (if ball_x s < BALL_POS_X_MIN then sound_set SOUND_WALL (s\<lparr>ball_x := - ball_x s, vel_x := - vel_x s\<rparr>)
      else if ball_x s > BALL_POS_X_MAX then sound_set SOUND_WALL (s\<lparr>ball_x := 2 * BALL_POS_X_MAX - ball_x s, vel_x := - vel_x s\<rparr>)
      else s)"

definition paddle_row :: "int \<Rightarrow> pong \<Rightarrow> pong" where
  "paddle_row uptime s =
     (if vel_y s > 0 \<and> ball_y s > BALL_POS_Y_MAX then
        if ball_x s < REAL_TO_VIRT (paddle_x s) \<or> ball_x s \<ge> REAL_TO_VIRT (paddle_x s + 2) then
          let s = game_ended uptime False s
          in if state s = CONNECTED then s\<lparr>calls := calls s @ [Send_lost]\<rparr> else s
        else let v = (if vel_y s < PIXEL_SIZE then vel_y s + 1 else vel_y s)
             in sound_set SOUND_PADDLE (s\<lparr>ball_y := 2 * BALL_POS_Y_MAX - ball_y s, vel_y := - v\<rparr>)
                  \<lparr>refresh := Some GAME_REFRESH, disp_update := True\<rparr>
      else s\<lparr>refresh := Some GAME_REFRESH, disp_update := True\<rparr>)"

definition ball_moves :: "int \<Rightarrow> pong \<Rightarrow> pong" where
  "ball_moves uptime s =
     (let s = s\<lparr>ball_x := ball_x s + vel_x s, ball_y := ball_y s + vel_y s\<rparr> in
      if vel_y s < 0 \<and> ball_y s < BALL_POS_Y_MIN then
        if state s = SINGLE then
          paddle_row uptime (side_walls (sound_set SOUND_WALL (s\<lparr>ball_y := - ball_y s, vel_y := - vel_y s\<rparr>)))
        else s\<lparr>calls := calls s @ [Send_ball (word_of_int (BALL_POS_X_MAX - ball_x s)) (word_of_int (ball_y s))
                 (word_of_int (- vel_x s)) (word_of_int (- vel_y s))], disp_update := True\<rparr>
      else paddle_row uptime (side_walls s))"

definition game_refresh :: "int \<Rightarrow> pong \<Rightarrow> pong" where
  "game_refresh uptime s =
     (let s = s\<lparr>refresh := None\<rparr>;
          s = (if sound s \<noteq> SOUND_IDLE then sound_set SOUND_IDLE s else s)
      in if state s = INIT then pong_select s
         else if ended s \<noteq> 0 then game_init (state s = SINGLE \<or> remote_lost s) s\<lparr>disp_update := True\<rparr>
         else ball_moves uptime s)"

definition pong_ball_received :: "u8 \<Rightarrow> u8 \<Rightarrow> u8 \<Rightarrow> u8 \<Rightarrow> pong \<Rightarrow> pong" where
  "pong_ball_received x_pos y_pos x_vel y_vel s =
     s\<lparr>ball_x := sint x_pos, ball_y := sint y_pos, vel_x := sint x_vel, vel_y := sint y_vel, refresh := Some 0\<rparr>"

text \<open>A press of A (\<open>pin_a\<close>) or B.\<close>

definition move_paddle :: "int \<Rightarrow> pong \<Rightarrow> pong" where
  "move_paddle d s =
     (let s = s\<lparr>paddle_x := paddle_x s + d\<rparr>
      in (if \<not> started s then s\<lparr>ball_x := ball_x s + d * PIXEL_SIZE\<rparr> else s)\<lparr>disp_update := True\<rparr>)"

definition press_counts :: "int \<Rightarrow> u8 \<Rightarrow> bool \<Rightarrow> pong \<Rightarrow> pong" where
  "press_counts uptime rnd pin_a s =
     (if ended s \<noteq> 0 \<and> uptime - ended s > RESTART_THRESHOLD then
        game_init (state s = SINGLE \<or> remote_lost s) (s\<lparr>refresh := None\<rparr>)\<lparr>disp_update := True\<rparr>
      else if state s = MULTI then pong_select (s\<lparr>calls := calls s @ [Cancel_connect], state := INIT\<rparr>)
      else if pin_a then
        if selecting s then pong_select_change s
        else let s = (if \<not> started s then check_start rnd s else s)
             in if paddle_x s > PADDLE_MIN then move_paddle (- 1) s else s
      else
        if selecting s then pong_select_complete s
        else let s = (if \<not> started s then check_start rnd s else s)
             in if paddle_x s < PADDLE_MAX then move_paddle 1 s else s)"

definition button_pressed :: "int \<Rightarrow> u8 \<Rightarrow> bool \<Rightarrow> pong \<Rightarrow> pong" where
  "button_pressed uptime rnd pin_a s =
     (let delta = uptime - (if pin_a then a_timestamp s else b_timestamp s);
          s = (if pin_a then s\<lparr>a_timestamp := uptime\<rparr> else s\<lparr>b_timestamp := uptime\<rparr>)
      in if delta < 100 then s else press_counts uptime rnd pin_a s)"

definition pong_conn_ready :: "bool \<Rightarrow> pong \<Rightarrow> pong" where
  "pong_conn_ready initiator s = game_init initiator (s\<lparr>state := CONNECTED\<rparr>)\<lparr>disp_update := True\<rparr>"

definition pong_remote_disconnected :: "pong \<Rightarrow> pong" where
  "pong_remote_disconnected s = s\<lparr>state := INIT, refresh := Some 1000\<rparr>"

definition pong_remote_lost :: "int \<Rightarrow> pong \<Rightarrow> pong" where
  "pong_remote_lost uptime s = game_ended uptime True s"

text \<open>
  The picture of the main loop: five rows of bits, nothing while a game has ended. \<open>None\<close> is a shift
  or a row out of range.
\<close>

definition shown :: "pong \<Rightarrow> u32 list option option" where
  "shown s =
     (if ended s \<noteq> 0 then Some None
      else if paddle_x s < 0 \<or> paddle_x s + 1 \<ge> 32 then None
      else let img = (replicate 5 0)[PADDLE_ROW := or (push_bit (nat (paddle_x s)) 1) (push_bit (nat (paddle_x s + 1)) 1)]
           in if ball_visible s then
                let row = VIRT_TO_REAL (ball_y s); col = VIRT_TO_REAL (ball_x s)
                in if row \<ge> 5 \<or> col < 0 \<or> col \<ge> 32 then None
                   else Some (Some (img[nat row := push_bit (nat col) 1]))
              else Some (Some img))"

text \<open>The start of \<open>main\<close>: the static initial values, and the selection of the mode.\<close>

definition pong_main :: pong where
  "pong_main = pong_select \<lparr>state = INIT, selecting = False, select_idx = 0, remote_lost = False, started = False, ended = 0,
     refresh = None, disp_update = False, paddle_x = PADDLE_MIN, ball_x = 4, ball_y = BALL_POS_Y_MAX, vel_x = 0, vel_y = 0,
     a_timestamp = 0, b_timestamp = 0, sound = SOUND_IDLE, calls = []\<rparr>"


section \<open>The ball in flight\<close>

definition speed_x :: "int \<Rightarrow> bool" where
  "speed_x v \<longleftrightarrow> 2 \<le> v \<and> v \<le> 9 \<or> - 9 \<le> v \<and> v \<le> - 2"

definition speed_y :: "int \<Rightarrow> bool" where
  "speed_y v \<longleftrightarrow> 4 \<le> v \<and> v \<le> 10 \<or> - 10 \<le> v \<and> v \<le> - 4"

lemma speed_minus [simp]: "speed_x (- v) = speed_x v" "speed_y (- v) = speed_y v"
  by (auto simp: speed_x_def speed_y_def)

definition flying :: "pong \<Rightarrow> bool" where
  "flying s \<longleftrightarrow> 0 \<le> ball_x s \<and> ball_x s \<le> 49 \<and> 0 \<le> ball_y s \<and> ball_y s \<le> 39 \<and> speed_x (vel_x s) \<and> speed_y (vel_y s)"

lemma side_walls_result:
  assumes "- 18 \<le> ball_x s" "ball_x s \<le> 67" "speed_x (vel_x s)"
  shows "0 \<le> ball_x (side_walls s)" "ball_x (side_walls s) \<le> 49" "speed_x (vel_x (side_walls s))"
  using assms by (simp_all add: side_walls_def sound_set_def)

lemma side_walls_keep [simp]:
  "ball_y (side_walls s) = ball_y s" "vel_y (side_walls s) = vel_y s" "state (side_walls s) = state s"
  "selecting (side_walls s) = selecting s" "paddle_x (side_walls s) = paddle_x s" "ended (side_walls s) = ended s"
  "started (side_walls s) = started s" "calls (side_walls s) = calls s"
  by (simp_all add: side_walls_def sound_set_def)

lemma paddle_row_keep [simp]:
  "state (paddle_row t s) = state s" "selecting (paddle_row t s) = selecting s" "paddle_x (paddle_row t s) = paddle_x s"
  "refresh (paddle_row t s) \<noteq> None"
  by (simp_all add: paddle_row_def game_ended_def sound_set_def Let_def)

text \<open>
  One refresh of a game in play: the ball flies on, or the game is lost because the ball has
  passed the paddle at its left or right.
\<close>

definition played :: "int \<Rightarrow> pong \<Rightarrow> pong \<Rightarrow> bool" where
  "played t s s' \<longleftrightarrow> state s' = state s \<and> selecting s' = selecting s \<and> paddle_x s' = paddle_x s \<and> refresh s' \<noteq> None \<and>
    (if ended s' = 0 \<or> flying s' then ended s' = 0 \<and> flying s' \<and> started s' = started s \<and> calls s' = calls s
     else ended s' = t \<and> \<not> started s' \<and> \<not> remote_lost s' \<and>
       (ball_x s' < REAL_TO_VIRT (paddle_x s) \<or> ball_x s' \<ge> REAL_TO_VIRT (paddle_x s + 2)) \<and>
       calls s' = (if state s = CONNECTED then calls s @ [Send_lost] else calls s))"

lemma paddle_row_played:
  assumes "0 \<le> ball_x s" "ball_x s \<le> 49" "speed_x (vel_x s)" "speed_y (vel_y s)"
    "0 \<le> ball_y s" "ball_y s \<le> 49" "ball_y s \<le> 39 \<or> vel_y s > 0" "ended s = 0" "0 < t"
  shows "played t s (paddle_row t s)"
proof (cases "vel_y s > 0 \<and> ball_y s > 39")
  case hits: True
  show ?thesis
  proof (cases "ball_x s < REAL_TO_VIRT (paddle_x s) \<or> ball_x s \<ge> REAL_TO_VIRT (paddle_x s + 2)")
    case True
    then have "paddle_row t s = (let s = game_ended t False s in if state s = CONNECTED then s\<lparr>calls := calls s @ [Send_lost]\<rparr> else s)"
      using hits by (simp add: paddle_row_def)
    then show ?thesis using True hits assms(9) by (simp add: game_ended_def sound_set_def Let_def played_def flying_def)
  next
    case False
    define v where "v = (if vel_y s < PIXEL_SIZE then vel_y s + 1 else vel_y s)"
    have v: "speed_y v" using hits assms(4) by (simp add: speed_y_def v_def)
    have "paddle_row t s = sound_set SOUND_PADDLE (s\<lparr>ball_y := 2 * BALL_POS_Y_MAX - ball_y s, vel_y := - v\<rparr>)
        \<lparr>refresh := Some GAME_REFRESH, disp_update := True\<rparr>"
      using hits False unfolding paddle_row_def v_def Let_def by simp
    then show ?thesis using hits assms v by (simp add: sound_set_def played_def flying_def)
  qed
next
  case False
  then have "paddle_row t s = s\<lparr>refresh := Some GAME_REFRESH, disp_update := True\<rparr>" unfolding paddle_row_def by (rule if_not_P)
  moreover have "ball_y s \<le> 39" using False assms(7) by auto
  ultimately show ?thesis using assms by (simp add: played_def flying_def)
qed

lemma flying_moves:
  assumes "flying s"
  shows "- 18 \<le> ball_x s + vel_x s" "ball_x s + vel_x s \<le> 67" "- 10 \<le> ball_y s + vel_y s" "ball_y s + vel_y s \<le> 49"
    "ball_y s + vel_y s \<le> 39 \<or> vel_y s > 0" "ball_y s + vel_y s < 0 \<Longrightarrow> vel_y s < 0"
  using assms by (auto simp: flying_def speed_x_def speed_y_def)

lemma refresh_in_play:
  assumes "flying s" "ended s = 0" "0 < t" "state s = SINGLE \<or> state s = CONNECTED \<and> \<not> (vel_y s < 0 \<and> ball_y s + vel_y s < 0)"
  shows "played t s (game_refresh t s)"
proof -
  let ?s = "s\<lparr>refresh := None, sound := SOUND_IDLE\<rparr>"
  let ?m = "?s\<lparr>ball_x := ball_x s + vel_x s, ball_y := ball_y s + vel_y s\<rparr>"
  define m where "m = (if vel_y s < 0 \<and> ball_y s + vel_y s < 0 then sound_set SOUND_WALL (?m\<lparr>ball_y := - ball_y ?m, vel_y := - vel_y s\<rparr>) else ?m)"
  have "game_refresh t s = ball_moves t ?s"
    using assms(2,4) by (cases s; cases "sound s") (auto simp: game_refresh_def sound_set_def Let_def)
  also have "\<dots> = paddle_row t (side_walls m)"
    using assms(4) by (auto simp: ball_moves_def Let_def m_def)
  finally have r: "game_refresh t s = paddle_row t (side_walls m)" .
  have sp: "speed_x (vel_x s)" "speed_y (vel_y s)" using assms(1) by (simp_all add: flying_def)
  have m: "- 18 \<le> ball_x m" "ball_x m \<le> 67" "speed_x (vel_x m)" "speed_y (vel_y m)"
      "0 \<le> ball_y m" "ball_y m \<le> 49" "ball_y m \<le> 39 \<or> vel_y m > 0"
    using flying_moves [OF assms(1)] sp by (cases "ball_y s + vel_y s < 0"; simp add: m_def sound_set_def)+
  have k: "state m = state s" "selecting m = selecting s" "paddle_x m = paddle_x s" "ended m = 0"
      "started m = started s" "calls m = calls s"
    using assms(2) unfolding m_def by (simp_all add: sound_set_def)
  have "played t (side_walls m) (paddle_row t (side_walls m))"
    using side_walls_result [OF m(1-3)] m(4-7) k(4) assms(3) by (intro paddle_row_played) simp_all
  then show ?thesis unfolding r played_def side_walls_keep k .
qed

section \<open>A game of one player\<close>

inductive playing_alone :: "pong \<Rightarrow> bool" where
  chosen: "selecting s \<Longrightarrow> select_idx s = 0 \<Longrightarrow> refresh s = None \<Longrightarrow> playing_alone (pong_select_complete s)"
| refreshed: "playing_alone s \<Longrightarrow> refresh s \<noteq> None \<Longrightarrow> 0 < uptime \<Longrightarrow> playing_alone (game_refresh uptime s)"
| pressed: "playing_alone s \<Longrightarrow> 0 < uptime \<Longrightarrow> playing_alone (button_pressed uptime rnd pin_a s)"

definition waiting :: "pong \<Rightarrow> bool" where
  "waiting s \<longleftrightarrow> \<not> started s \<and> refresh s = None \<and> ball_y s = 39 \<and> ball_x s = 4 + 10 * paddle_x s"

definition alone_ok :: "pong \<Rightarrow> bool" where
  "alone_ok s \<longleftrightarrow> state s = SINGLE \<and> \<not> selecting s \<and> paddle_x s \<in> {0..3} \<and>
     (ended s = 0 \<longrightarrow> waiting s \<or> started s \<and> flying s)"

lemma check_start_cases:
  obtains "check_start rnd s = s"
  | v where "speed_x v" "check_start rnd s = s\<lparr>vel_y := - 4, vel_x := v, started := True, remote_lost := False, refresh := Some 0\<rparr>"
proof -
  have "rnd mod 8 < 8" by (rule word_mod_less_divisor) simp
  then have "uint (rnd mod 8) < 8" by (simp add: word_less_def)
  moreover have "0 \<le> uint (rnd mod 8)" by (rule uint_ge_0)
  ultimately have "speed_x (2 + uint (rnd mod 8))" "speed_x (- 2 - uint (rnd mod 8))" by (simp_all add: speed_x_def)
  then show ?thesis using that unfolding check_start_def Let_def by (metis (full_types))
qed

lemma game_init_alone: "state s = SINGLE \<Longrightarrow> \<not> selecting s \<Longrightarrow> refresh s = None \<Longrightarrow> alone_ok (game_init True s\<lparr>disp_update := True\<rparr>)"
  by (simp add: game_init_def alone_ok_def waiting_def)

lemma press_alone:
  assumes "alone_ok s" "\<not> (ended s \<noteq> 0 \<and> uptime - ended s > RESTART_THRESHOLD)"
    "r = (if \<not> started s then check_start rnd s else s)"
  shows "alone_ok r" "paddle_x r > 0 \<Longrightarrow> alone_ok (move_paddle (- 1) r)" "paddle_x r < 3 \<Longrightarrow> alone_ok (move_paddle 1 r)"
proof -
  have "speed_y (- 4)" by (simp add: speed_y_def)
  then have "alone_ok r"
    using assms(1,3)
    by (cases rule: check_start_cases [of rnd s]) (auto simp: alone_ok_def waiting_def flying_def)
  then show "alone_ok r" "paddle_x r > 0 \<Longrightarrow> alone_ok (move_paddle (- 1) r)" "paddle_x r < 3 \<Longrightarrow> alone_ok (move_paddle 1 r)"
    by (auto simp: alone_ok_def waiting_def flying_def move_paddle_def Let_def)
qed


lemma button_alone:
  assumes "alone_ok s"
  shows "alone_ok (button_pressed uptime rnd pin_a s)"
proof -
  have "alone_ok (press_counts uptime rnd pin_a s)" if ok: "alone_ok s" for s
  proof (cases "ended s \<noteq> 0 \<and> uptime - ended s > RESTART_THRESHOLD")
    case True
    then show ?thesis using ok
      using game_init_alone [of "s\<lparr>refresh := None\<rparr>"] by (simp add: press_counts_def alone_ok_def)
  next
    case False
    have m: "state s = SINGLE" "\<not> selecting s" using ok by (simp_all add: alone_ok_def)
    note r = press_alone [OF ok False refl]
    show ?thesis unfolding press_counts_def Let_def using m r by (simp only: if_not_P [OF False]) simp
  qed
  moreover have "alone_ok (s\<lparr>a_timestamp := uptime\<rparr>)" "alone_ok (s\<lparr>b_timestamp := uptime\<rparr>)"
    using assms by (simp_all add: alone_ok_def waiting_def flying_def)
  ultimately show ?thesis by (simp add: button_pressed_def Let_def)
qed

lemma refresh_alone:
  assumes "alone_ok s" "refresh s \<noteq> None" "0 < uptime"
  shows "alone_ok (game_refresh uptime s)"
proof (cases "ended s = 0")
  case True
  then have "flying s" "started s" "state s = SINGLE" using assms(1,2) by (auto simp: alone_ok_def waiting_def)
  then show ?thesis using refresh_in_play [of s uptime] True assms(1,3) by (auto simp: alone_ok_def played_def split: if_splits)
next
  case False
  then show ?thesis using assms(1)
    by (auto simp: game_refresh_def alone_ok_def waiting_def game_init_def sound_set_def Let_def)
qed

lemma playing_alone_ok: "playing_alone s \<Longrightarrow> alone_ok s"
proof (induction rule: playing_alone.induct)
  case (chosen s)
  then show ?case
    by (simp add: pong_select_complete_def mode_selected_def mode_choice_def game_init_def alone_ok_def waiting_def)
qed (simp_all add: refresh_alone button_alone)

lemma VIRT_TO_REAL_range: "0 \<le> v \<Longrightarrow> v \<le> 49 \<Longrightarrow> VIRT_TO_REAL v = v div 10 \<and> 0 \<le> v div 10 \<and> v div 10 \<le> 4"
  using zdiv_mono1 [of v 49 10] by (simp add: c_div_nonneg)

text \<open>
  C23: In a game of one player, whatever the buttons and the time-outs do, the paddle lies in its
  four columns, the ball on the screen while the game runs, and the picture shows both, the ball in
  a row above the paddle: no shift and no row is out of range.
\<close>

theorem single_player_picture:
  assumes "playing_alone s"
  shows "paddle_x s \<in> {0..3} \<and>
    (if ended s \<noteq> 0 then shown s = Some None
     else ball_x s \<in> {0..49} \<and> ball_y s \<in> {0..39} \<and>
       shown s = Some (Some ((replicate 5 0)[PADDLE_ROW := or (push_bit (nat (paddle_x s)) 1) (push_bit (nat (paddle_x s + 1)) 1),
         nat (ball_y s div 10) := push_bit (nat (ball_x s div 10)) 1])))"
proof -
  have ok: "alone_ok s" using assms by (rule playing_alone_ok)
  then have p: "paddle_x s \<in> {0..3}" by (simp add: alone_ok_def)
  have "ball_x s \<in> {0..49} \<and> ball_y s \<in> {0..39}" if "ended s = 0"
    using ok that by (auto simp: alone_ok_def waiting_def flying_def)
  then show ?thesis using p VIRT_TO_REAL_range [of "ball_x s"] VIRT_TO_REAL_range [of "ball_y s"]
    by (auto simp: shown_def ball_visible_def Let_def)
qed

lemma single_player_picture_witness:
  "let s = button_pressed 5000 0 False (pong_select_complete pong_main)
   in shown s = Some (Some [0, 0, 0, 0x2, 0x6])"
proof -
  have "playing_alone (button_pressed 5000 0 False (pong_select_complete pong_main))"
    by (intro playing_alone.intros) (simp_all add: pong_main_def pong_select_def)
  moreover have s: "pong_select_complete pong_main = \<lparr>state = SINGLE, selecting = False, select_idx = 0, remote_lost = False, started = False, ended = 0,
     refresh = None, disp_update = True, paddle_x = 0, ball_x = 4, ball_y = 39, vel_x = 0, vel_y = 0,
     a_timestamp = 0, b_timestamp = 0, sound = SOUND_IDLE, calls = []\<rparr>"
    by (simp add: pong_select_complete_def pong_main_def pong_select_def mode_choice_def mode_selected_def game_init_def)
  moreover have "ended (button_pressed 5000 0 False (pong_select_complete pong_main)) = 0"
      "paddle_x (button_pressed 5000 0 False (pong_select_complete pong_main)) = 1"
      "ball_x (button_pressed 5000 0 False (pong_select_complete pong_main)) = 14"
      "ball_y (button_pressed 5000 0 False (pong_select_complete pong_main)) = 39"
    unfolding s by (simp_all add: button_pressed_def press_counts_def check_start_def move_paddle_def)
  ultimately show ?thesis
    using single_player_picture [of "button_pressed 5000 0 False (pong_select_complete pong_main)"]
    by (simp add: eval_nat_numeral)
qed

section \<open>The ball between two boards\<close>

lemma sint_small: "\<bar>v\<bar> \<le> 127 \<Longrightarrow> sint (word_of_int v :: u8) = v"
  by (simp add: sint_sbintrunc' signed_take_bit_int_eq_self)

theorem ball_crosses_over:
  assumes "flying s" "state s = CONNECTED" "ended s = 0" "vel_y s < 0" "ball_y s + vel_y s < 0"
    "state r = CONNECTED" "ended r = 0" "0 < t'"
  shows "\<exists>x y vx vy. calls (game_refresh t s) = calls s @ [Send_ball x y vx vy] \<and> refresh (game_refresh t s) = None \<and>
    (let r' = game_refresh t' (pong_ball_received x y vx vy r) in
      flying r' \<and> ball_y r' = ball_y s \<and> vel_y r' = - vel_y s \<and> refresh r' \<noteq> None \<and> calls r' = calls r)"
proof -
  let ?x = "49 - (ball_x s + vel_x s)" and ?y = "ball_y s + vel_y s"
  define bx :: u8 where "bx = word_of_int ?x"
  define b_y :: u8 where "b_y = word_of_int ?y"
  define vx :: u8 where "vx = word_of_int (- vel_x s)"
  define vy :: u8 where "vy = word_of_int (- vel_y s)"
  have sent: "calls (game_refresh t s) = calls s @ [Send_ball bx b_y vx vy]" "refresh (game_refresh t s) = None"
    using assms(2-5) by (simp_all add: game_refresh_def sound_set_def ball_moves_def Let_def bx_def b_y_def vx_def vy_def)
  have f: "0 \<le> ball_x s" "ball_x s \<le> 49" "0 \<le> ball_y s" "ball_y s \<le> 39" "speed_x (vel_x s)" "speed_y (vel_y s)"
    using assms(1) by (simp_all add: flying_def)
  have v: "\<bar>vel_x s\<bar> \<le> 9" "\<bar>vel_y s\<bar> \<le> 10" using f(5,6) by (auto simp: speed_x_def speed_y_def)
  have i: "sint bx = ?x" "sint b_y = ?y" "sint vx = - vel_x s" "sint vy = - vel_y s"
    unfolding bx_def b_y_def vx_def vy_def using f(1-4) v by (intro sint_small; linarith)+
  let ?r = "pong_ball_received bx b_y vx vy r"
  have r: "?r = r\<lparr>ball_x := ?x, ball_y := ?y, vel_x := - vel_x s, vel_y := - vel_y s, refresh := Some 0\<rparr>"
    unfolding pong_ball_received_def i ..
  define m where "m = ?r\<lparr>refresh := None, sound := SOUND_IDLE, ball_x := ?x - vel_x s, ball_y := ball_y s\<rparr>"
  have "game_refresh t' ?r = paddle_row t' (side_walls m)"
    using assms(4,6,7) unfolding m_def r
    by (cases r; cases "sound r") (simp_all add: game_refresh_def sound_set_def ball_moves_def Let_def)
  moreover have "paddle_row t' (side_walls m) = (side_walls m)\<lparr>refresh := Some GAME_REFRESH, disp_update := True\<rparr>"
    using f(4) by (simp add: paddle_row_def m_def)
  moreover have "- 18 \<le> ball_x m" "ball_x m \<le> 67" "speed_x (vel_x m)" using f(1,2,5) v(1) by (simp_all add: m_def r)
  ultimately have "flying (game_refresh t' ?r)" "ball_y (game_refresh t' ?r) = ball_y s" "vel_y (game_refresh t' ?r) = - vel_y s"
      "refresh (game_refresh t' ?r) \<noteq> None" "calls (game_refresh t' ?r) = calls r"
    using side_walls_result [of m] f by (simp_all add: flying_def) (simp_all add: m_def r)
  then show ?thesis using sent unfolding Let_def by blast
qed

definition sample_board :: "bool \<Rightarrow> pong" where
  "sample_board initiator = pong_conn_ready initiator (pong_main\<lparr>selecting := False\<rparr>)"

theorem launched_without_the_ball:
  assumes "\<not> selecting s" "100 \<le> t" "100 \<le> t'" "t < t'" "t' \<le> t + 100"
  shows "let r = button_pressed t' rnd True (button_pressed t rnd' False (pong_conn_ready False s)) in
    ball_y r = - 1 \<and> (\<exists>x y vx vy. calls (game_refresh t'' r) = calls s @ [Send_ball x y vx vy])"
proof -
  have d: "uint (word_of_int (t' - t) :: u32) = t' - t"
    using assms(4,5) by (simp add: uint_word_of_int take_bit_int_eq_self del: of_int_diff)
  let ?s = "pong_conn_ready False s"
  have "button_pressed t rnd' False ?s = ?s\<lparr>b_timestamp := t, paddle_x := 1, ball_x := 14\<rparr>"
    using assms(1,2) by (simp add: pong_conn_ready_def game_init_def button_pressed_def press_counts_def check_start_def move_paddle_def)
  moreover have "check_start rnd (?s\<lparr>b_timestamp := t, paddle_x := 1, ball_x := 14, a_timestamp := t'\<rparr>) =
      ?s\<lparr>b_timestamp := t, paddle_x := 1, ball_x := 14, a_timestamp := t', vel_y := - 4, vel_x := 2 + uint (rnd mod 8), started := True,
        remote_lost := False, refresh := Some 0\<rparr>"
    using assms(2-5) d by (simp add: check_start_def pong_conn_ready_def game_init_def Let_def del: of_int_diff)
  ultimately have r: "button_pressed t' rnd True (button_pressed t rnd' False ?s) =
      ?s\<lparr>b_timestamp := t, paddle_x := 0, ball_x := 14, a_timestamp := t', vel_y := - 4, vel_x := 2 + uint (rnd mod 8), started := True,
        remote_lost := False, refresh := Some 0\<rparr>"
    using assms(1,3) by (simp add: button_pressed_def press_counts_def move_paddle_def pong_conn_ready_def game_init_def Let_def)
  show ?thesis unfolding r Let_def
    by (simp add: game_refresh_def sound_set_def ball_moves_def pong_conn_ready_def game_init_def Let_def)
qed

lemma launched_without_the_ball_witness:
  "\<exists>x y vx vy. calls (game_refresh 5200 (button_pressed 5100 3 True (button_pressed 5000 0 False (sample_board False)))) = [Send_ball x y vx vy]"
  using launched_without_the_ball [of "pong_main\<lparr>selecting := False\<rparr>" 5000 5100 3 0 5200]
  by (auto simp: sample_board_def pong_main_def pong_select_def Let_def)

text \<open>On the board that did not launch the ball, a press moves the flying ball along with the paddle.\<close>

lemma receiver_drags_ball:
  assumes "\<not> started s" "\<not> selecting s" "state s = CONNECTED" "ended s = 0" "paddle_x s > 0" "b_timestamp s = 0"
    "100 \<le> t - a_timestamp s"
  shows "ball_x (button_pressed t rnd True s) = ball_x s - 10"
  using assms by (simp add: button_pressed_def press_counts_def check_start_def move_paddle_def Let_def)

end
