(* ===== verification/PongLink.thy ===== *)
theory PongLink
  imports Pong
begin

text \<open>
  samples/boards/bbc_microbit/pong/src/ble.c: how two boards find each other and exchange the ball.
  The state machine of \<open>ble_work\<close>, the callbacks of the stack, and the parser of advertising data.
  What the file asks of the stack is collected in \<open>asked\<close>; the callbacks into the game go through
  the game's own functions. The answers of the stack are arguments.
\<close>

section \<open>The state of the link\<close>

datatype ble_state = BLE_DISCONNECTED | BLE_SCAN_START | BLE_SCAN | BLE_CONNECT_CREATE | BLE_CONNECT_CANCEL
  | BLE_ADV_START | BLE_ADVERTISING | BLE_CONNECTED

datatype stack_call = Scan_start | Scan_stop | Adv_start | Adv_stop | Create_conn | Disconnect | Discover nat | Subscribe
  | Notify "u8 list"

text \<open>
  \<open>default_conn\<close> says whether the pointer is set, \<open>ble_work\<close> is the delay of the work item,
  \<open>discovering\<close> what is being looked for: service, characteristic or descriptor.
\<close>

datatype discovery = Service | Characteristic | Ccc

record link =
  default_conn :: bool
  remote_handle :: u16
  remote_ready :: bool
  link_initiator :: bool
  ble_work :: "int option"
  connect_canceled :: bool
  ble_state :: ble_state
  discov_uuid :: "discovery option"
  asked :: "stack_call list"
  game :: pong

abbreviation SCAN_TIMEOUT :: int where "SCAN_TIMEOUT \<equiv> 2000"

definition ask :: "stack_call \<Rightarrow> link \<Rightarrow> link" where
  "ask c l = l\<lparr>asked := asked l @ [c]\<rparr>"

definition submit :: "int \<Rightarrow> link \<Rightarrow> link" where
  "submit d l = l\<lparr>ble_work := Some d\<rparr>"

section \<open>Messages\<close>

definition ble_send_ball :: "u8 \<Rightarrow> u8 \<Rightarrow> u8 \<Rightarrow> u8 \<Rightarrow> link \<Rightarrow> link" where
  "ble_send_ball x_pos y_pos x_vel y_vel l =
     (if \<not> default_conn l \<or> \<not> remote_ready l then l
      else ask (Notify [0x00, x_pos, y_pos, x_vel, y_vel]) l)"

definition ble_send_lost :: "link \<Rightarrow> link" where
  "ble_send_lost l = (if \<not> default_conn l \<or> \<not> remote_ready l then l else ask (Notify [0x01]) l)"

text \<open>A notification, or the end of the subscription (\<open>None\<close> or no data).\<close>

definition notify_func :: "int \<Rightarrow> u8 list option \<Rightarrow> link \<Rightarrow> link" where
  "notify_func uptime data l = (case data of
     None \<Rightarrow> let l = l\<lparr>remote_handle := 0\<rparr> in if default_conn l then ask Disconnect l else l
   | Some [] \<Rightarrow> let l = l\<lparr>remote_handle := 0\<rparr> in if default_conn l then ask Disconnect l else l
   | Some (op # bs) \<Rightarrow>
       if op = 0x00 then
         case bs of x_pos # y_pos # x_vel # y_vel # _ \<Rightarrow> l\<lparr>game := pong_ball_received x_pos y_pos x_vel y_vel (game l)\<rparr>
         | _ \<Rightarrow> l
       else if op = 0x01 then l\<lparr>game := pong_remote_lost uptime (game l)\<rparr>
       else l)"

section \<open>Finding the other board\<close>

text \<open>\<open>pong_uuid_match\<close> looks at the first \<open>len\<close> bytes, sixteen at a time.\<close>

definition pong_svc_uuid :: "u8 list" where
  "pong_svc_uuid = [0x90, 0x6c, 0x55, 0x0f, 0xee, 0x6f, 0x4d, 0x0d, 0xa1, 0x7e, 0x24, 0x4e, 0x38, 0xea, 0x4f, 0xf9]"

function pong_uuid_match :: "u8 list \<Rightarrow> nat \<Rightarrow> bool option" where
  "pong_uuid_match data len =
     (if len \<ge> 16 then
        if length data < 16 then None
        else if take 16 data = pong_svc_uuid then Some True
        else pong_uuid_match (drop 16 data) (len - 16)
      else Some False)"
  by auto
termination by (relation "measure snd") auto

declare pong_uuid_match.simps [simp del]

text \<open>
  The loop of \<open>device_found\<close>: whether it finds the service, \<open>None\<close> if it reads or pulls beyond the
  data.
\<close>

function device_found_loop :: "u8 list \<Rightarrow> bool option" where
  "device_found_loop ad =
     (if length ad > 1 then
        let len = unat (hd ad); ad = tl ad in
        if len = 0 then Some False
        else if len > length ad then Some False
        else let ty = hd ad; ad = tl ad in
          (if ty = 0x07 then pong_uuid_match ad (len - 1) else Some False) \<bind>
          (\<lambda>found. if found then Some True
             else if len - 1 > length ad then None
             else device_found_loop (drop (len - 1) ad))
      else Some False)"
  by auto
termination by (relation "measure length") (auto simp: Let_def)

declare device_found_loop.simps [simp del]

definition create_conn :: "int \<Rightarrow> link \<Rightarrow> link" where
  "create_conn err l =
     (if default_conn l then l
      else let l = ask Create_conn l
           in if err \<noteq> 0 then l
              else submit SCAN_TIMEOUT (l\<lparr>default_conn := True, ble_state := BLE_CONNECT_CREATE\<rparr>))"

definition device_found :: "int \<Rightarrow> bool \<Rightarrow> u8 list \<Rightarrow> link \<Rightarrow> link option" where
  "device_found err adv_ind ad l =
     (if \<not> adv_ind then Some l
      else device_found_loop ad \<bind> (\<lambda>found. Some (if found then create_conn err (ask Scan_stop l) else l)))"

definition adv_timeout :: "u32 option \<Rightarrow> u32" where
  "adv_timeout bt_rand = (case bt_rand of None \<Rightarrow> 10000 | Some t \<Rightarrow> t mod 10000 + 1000)"

section \<open>The state machine\<close>

definition ble_connect :: "link \<Rightarrow> link" where
  "ble_connect l = (if ble_state l \<noteq> BLE_DISCONNECTED then l else submit 0 (l\<lparr>ble_state := BLE_SCAN_START\<rparr>))"

definition ble_cancel_connect :: "link \<Rightarrow> link" where
  "ble_cancel_connect l =
     (let l = l\<lparr>ble_work := None\<rparr> in
      case ble_state l of
        BLE_DISCONNECTED \<Rightarrow> l
      | BLE_SCAN_START \<Rightarrow> l\<lparr>ble_state := BLE_DISCONNECTED\<rparr>
      | BLE_SCAN \<Rightarrow> submit 0 (l\<lparr>connect_canceled := True\<rparr>)
      | BLE_ADV_START \<Rightarrow> l\<lparr>ble_state := BLE_DISCONNECTED\<rparr>
      | BLE_ADVERTISING \<Rightarrow> submit 0 (l\<lparr>connect_canceled := True\<rparr>)
      | BLE_CONNECT_CREATE \<Rightarrow> submit 0 (l\<lparr>ble_state := BLE_CONNECT_CANCEL, connect_canceled := True\<rparr>)
      | BLE_CONNECTED \<Rightarrow> submit 0 (l\<lparr>connect_canceled := True\<rparr>)
      | BLE_CONNECT_CANCEL \<Rightarrow> l)"

definition cancel_connect :: "link \<Rightarrow> link" where
  "cancel_connect l =
     (let l = l\<lparr>connect_canceled := False\<rparr>;
          l = (case ble_state l of
                 BLE_SCAN \<Rightarrow> ask Scan_stop l
               | BLE_ADVERTISING \<Rightarrow> ask Adv_stop l
               | BLE_CONNECT_CREATE \<Rightarrow> ask Disconnect l
               | BLE_CONNECTED \<Rightarrow> ask Disconnect l
               | _ \<Rightarrow> l)
      in if ble_state l \<noteq> BLE_CONNECTED then l\<lparr>ble_state := BLE_DISCONNECTED\<rparr> else l)"

text \<open>\<open>err\<close> is the answer of the call that the state makes, \<open>rnd\<close> the random bytes.\<close>

definition ble_timeout :: "int \<Rightarrow> u32 option \<Rightarrow> link \<Rightarrow> link" where
  "ble_timeout err rnd l =
     (let l = l\<lparr>ble_work := None\<rparr> in
      if connect_canceled l then cancel_connect l
      else case ble_state l of
        BLE_DISCONNECTED \<Rightarrow> l
      | BLE_SCAN_START \<Rightarrow> submit SCAN_TIMEOUT (ask Scan_start l\<lparr>ble_state := BLE_SCAN\<rparr>)
      | BLE_CONNECT_CREATE \<Rightarrow> submit 0 (ask Disconnect l\<lparr>ble_state := BLE_ADV_START\<rparr>)
      | BLE_SCAN \<Rightarrow> submit 0 (ask Scan_stop l\<lparr>ble_state := BLE_ADV_START\<rparr>)
      | BLE_ADV_START \<Rightarrow>
          let l = ask Adv_start l
          in if err \<noteq> 0 then l else submit (uint (adv_timeout rnd)) (l\<lparr>ble_state := BLE_ADVERTISING\<rparr>)
      | BLE_ADVERTISING \<Rightarrow> submit 0 (ask Adv_stop l\<lparr>ble_state := BLE_SCAN_START\<rparr>)
      | BLE_CONNECTED \<Rightarrow> ask (Discover 0x0001) (l\<lparr>discov_uuid := Some Service\<rparr>)
      | BLE_CONNECT_CANCEL \<Rightarrow> l)"

section \<open>Callbacks of the stack\<close>

definition connected :: "u8 \<Rightarrow> bool \<Rightarrow> link \<Rightarrow> link" where
  "connected err master l =
     (if err \<noteq> 0 then l
      else let l = (if ble_state l = BLE_ADVERTISING then ask Adv_stop l else l)
           in submit 0 (l\<lparr>default_conn := True, link_initiator := master, remote_ready := False, remote_handle := 0,
                ble_state := BLE_CONNECTED\<rparr>))"

definition disconnected :: "link \<Rightarrow> link" where
  "disconnected l =
     (let l = l\<lparr>default_conn := False, remote_handle := 0\<rparr>
      in if ble_state l = BLE_CONNECTED then
           l\<lparr>ble_state := BLE_DISCONNECTED, game := pong_remote_disconnected (game l)\<rparr>
         else l)"

text \<open>\<open>attr\<close> is the handle of the attribute found, \<open>None\<close> at the end of the discovery.\<close>

definition discover_func :: "u16 option \<Rightarrow> link \<Rightarrow> link" where
  "discover_func attr l = (case attr of
     None \<Rightarrow> l\<lparr>discov_uuid := None\<rparr>
   | Some h \<Rightarrow>
       let l = (case discov_uuid l of
                  Some Service \<Rightarrow> ask (Discover (unat h + 1)) (l\<lparr>discov_uuid := Some Characteristic\<rparr>)
                | Some Characteristic \<Rightarrow> ask (Discover (unat h + 2)) (l\<lparr>discov_uuid := Some Ccc\<rparr>)
                | _ \<Rightarrow> ask Subscribe l\<lparr>remote_handle := h\<rparr>)
       in if remote_handle l \<noteq> 0 \<and> remote_ready l then l\<lparr>game := pong_conn_ready (link_initiator l) (game l)\<rparr> else l)"

definition pong_ccc_cfg_changed :: "u16 \<Rightarrow> link \<Rightarrow> link" where
  "pong_ccc_cfg_changed val l =
     (let l = l\<lparr>remote_ready := (val = 1)\<rparr>
      in if remote_ready l \<and> remote_handle l \<noteq> 0 then l\<lparr>game := pong_conn_ready (link_initiator l) (game l)\<rparr> else l)"

text \<open>What the game asks for is done at once, in order.\<close>

fun ble_request :: "ble_request \<Rightarrow> link \<Rightarrow> link" where
  "ble_request Connect l = ble_connect l"
| "ble_request Cancel_connect l = ble_cancel_connect l"
| "ble_request (Send_ball x_pos y_pos x_vel y_vel) l = ble_send_ball x_pos y_pos x_vel y_vel l"
| "ble_request Send_lost l = ble_send_lost l"

definition play :: "(pong \<Rightarrow> pong) \<Rightarrow> link \<Rightarrow> link" where
  "play f l =
     (let g = f (game l\<lparr>calls := []\<rparr>)
      in fold ble_request (calls g) (l\<lparr>game := g\<lparr>calls := []\<rparr>\<rparr>))"

definition link_init :: "pong \<Rightarrow> link" where
  "link_init g = \<lparr>default_conn = False, remote_handle = 0, remote_ready = False, link_initiator = False, ble_work = None,
     connect_canceled = False, ble_state = BLE_DISCONNECTED, discov_uuid = None, asked = [], game = g\<rparr>"

section \<open>Advertising data\<close>

definition ad_bytes :: "(u8 \<times> u8 list) list \<Rightarrow> u8 list" where
  "ad_bytes fs = concat (map (\<lambda>(ty, bs). word_of_nat (length bs + 1) # ty # bs) fs)"

definition offers_pong :: "u8 list \<Rightarrow> bool" where
  "offers_pong bs \<longleftrightarrow> (\<exists>k. 16 * k + 16 \<le> length bs \<and> take 16 (drop (16 * k) bs) = pong_svc_uuid)"

lemma offers_pong_step:
  "offers_pong bs \<longleftrightarrow> 16 \<le> length bs \<and> (take 16 bs = pong_svc_uuid \<or> offers_pong (drop 16 bs))"
proof
  assume "offers_pong bs"
  then obtain k where k: "16 * k + 16 \<le> length bs" "take 16 (drop (16 * k) bs) = pong_svc_uuid" by (auto simp: offers_pong_def)
  then show "16 \<le> length bs \<and> (take 16 bs = pong_svc_uuid \<or> offers_pong (drop 16 bs))"
    by (cases k) (auto simp: offers_pong_def add.commute intro!: exI [of _ "k - 1"])
next
  assume a: "16 \<le> length bs \<and> (take 16 bs = pong_svc_uuid \<or> offers_pong (drop 16 bs))"
  then consider "take 16 bs = pong_svc_uuid" | "offers_pong (drop 16 bs)" by blast
  then show "offers_pong bs"
  proof cases
    case 1
    then show ?thesis using a by (auto simp: offers_pong_def intro!: exI [of _ 0])
  next
    case 2
    then obtain k where "16 * k + 16 \<le> length bs - 16" "take 16 (drop (16 * k) (drop 16 bs)) = pong_svc_uuid"
      by (auto simp: offers_pong_def)
    then show ?thesis using a by (auto simp: offers_pong_def add.commute intro!: exI [of _ "k + 1"])
  qed
qed

lemma uuid_match: "len \<le> length data \<Longrightarrow> pong_uuid_match data len = Some (offers_pong (take len data))"
proof (induction data len rule: pong_uuid_match.induct)
  case (1 data len)
  have "\<not> offers_pong (take len data)" if "len < 16"
    using that by (subst offers_pong_step) simp
  moreover have "pong_uuid_match (drop 16 data) (len - 16) = Some (offers_pong (drop 16 (take len data)))"
    if "16 \<le> len" "take 16 data \<noteq> pong_svc_uuid"
    using 1 that by (simp add: drop_take)
  ultimately show ?case using 1(2)
    by (subst pong_uuid_match.simps, subst offers_pong_step) (simp add: min_def)
qed

lemma device_found_loop_defined: "device_found_loop ad \<noteq> None"
proof (induction ad rule: measure_induct_rule [of length])
  case (less ad)
  show ?case
  proof (cases "length ad > 1 \<and> unat (hd ad) \<noteq> 0 \<and> \<not> unat (hd ad) > length (tl ad)")
    case True
    then have l: "unat (hd ad) - 1 \<le> length (tl (tl ad))" by (cases "tl ad") auto
    have "device_found_loop (drop (unat (hd ad) - 1) (tl (tl ad))) \<noteq> None"
      using True by (intro less) (cases ad; simp)
    then show ?thesis using True uuid_match [OF l] l
      by (subst device_found_loop.simps) (auto simp: Let_def)
  next
    case False
    then show ?thesis by (subst device_found_loop.simps) (auto simp: Let_def)
  qed
qed

lemma device_found_loop_fields:
  assumes "\<forall>(ty, bs) \<in> set fs. length bs < 255" "rest = [] \<or> hd rest = 0"
  shows "device_found_loop (ad_bytes fs @ rest) = Some (\<exists>bs. (0x07, bs) \<in> set fs \<and> offers_pong bs)"
  using assms(1)
proof (induction fs)
  case Nil
  show ?case using assms(2) by (subst device_found_loop.simps) (auto simp: ad_bytes_def Let_def)
next
  case (Cons f fs)
  obtain ty bs where f: "f = (ty, bs)" by (cases f)
  have n: "unat (word_of_nat (length bs + 1) :: u8) = length bs + 1"
    using Cons.prems by (simp only: unat_of_nat) (simp add: f)
  have e: "ad_bytes (f # fs) @ rest = word_of_nat (length bs + 1) # ty # bs @ ad_bytes fs @ rest"
    by (simp add: ad_bytes_def f)
  have m: "pong_uuid_match (bs @ ad_bytes fs @ rest) (length bs) = Some (offers_pong bs)"
    by (subst uuid_match) simp_all
  show ?case unfolding e using Cons m n
    by (subst device_found_loop.simps) (auto simp: Let_def f simp del: of_nat_add of_nat_Suc)
qed

text \<open>
  C25: The parser of advertising data never reads beyond the data it is given, whatever they are,
  and for data made of fields it stops scanning and connects exactly when a field of 128-bit UUIDs
  has the service at one of its places.
\<close>

theorem service_found_in_advertising:
  assumes "\<forall>(ty, bs) \<in> set fs. length bs < 255" "rest = [] \<or> hd rest = 0"
  shows "device_found err True ad l \<noteq> None \<and>
    device_found err True (ad_bytes fs @ rest) l =
      Some (if \<exists>bs. (0x07, bs) \<in> set fs \<and> offers_pong bs then create_conn err (ask Scan_stop l) else l)"
  using device_found_loop_defined [of ad] by (auto simp: device_found_def device_found_loop_fields [OF assms])

lemma service_found_in_advertising_witness:
  "device_found 0 True ([2, 1, 6] @ 17 # 7 # pong_svc_uuid) (link_init pong_main) =
    Some (create_conn 0 (ask Scan_stop (link_init pong_main)))"
proof -
  have "offers_pong pong_svc_uuid" by (auto simp: offers_pong_def pong_svc_uuid_def intro!: exI [of _ 0])
  then show ?thesis
    using service_found_in_advertising [of "[(1, [6]), (7, pong_svc_uuid)]" "[]" 0 "[]" "link_init pong_main"]
    by (auto simp: ad_bytes_def pong_svc_uuid_def)
qed

section \<open>Looking for each other\<close>

theorem cancel_keeps_connecting:
  assumes "ble_state l = BLE_CONNECT_CREATE" "default_conn l"
  shows "let l' = ble_timeout err rnd (ble_cancel_connect l) in
    ble_state l' = BLE_DISCONNECTED \<and> asked l' = asked l \<and> default_conn l' \<and> create_conn err' l' = l' \<and>
    ble_state (connected 0 master l') = BLE_CONNECTED"
  using assms by (simp add: ble_cancel_connect_def ble_timeout_def cancel_connect_def submit_def create_conn_def connected_def Let_def)

lemma cancel_keeps_connecting_witness:
  "let l = create_conn 0 (ble_timeout 0 None (ble_connect (link_init pong_main)))
   in asked (ble_timeout 0 None (ble_cancel_connect l)) = asked l"
  using cancel_keeps_connecting [of "create_conn 0 (ble_timeout 0 None (ble_connect (link_init pong_main)))" 0 None 0 False]
  by (simp add: create_conn_def ble_timeout_def ble_connect_def link_init_def submit_def ask_def Let_def)

text \<open>
  What can happen to the link while nobody cancels, and all advertising succeeds: its time-out fires,
  another board is found or connects, the stack gives up a connection.
\<close>

inductive searching :: "link \<Rightarrow> link \<Rightarrow> bool" where
  fires: "ble_work l \<noteq> None \<Longrightarrow> searching l (ble_timeout 0 rnd l)"
| finds: "ble_state l = BLE_SCAN \<Longrightarrow> device_found err adv_ind ad l = Some l' \<Longrightarrow> searching l l'"
| connects: "searching l (connected err master l)"
| gives_up: "ble_state l \<noteq> BLE_CONNECTED \<Longrightarrow> searching l (disconnected l)"

lemma searching_goes_on:
  assumes "searching\<^sup>*\<^sup>* (ble_connect l) l'" "ble_state l = BLE_DISCONNECTED" "\<not> connect_canceled l"
  shows "\<not> connect_canceled l' \<and> (ble_state l' = BLE_CONNECTED \<or>
    ble_state l' \<in> {BLE_SCAN_START, BLE_SCAN, BLE_CONNECT_CREATE, BLE_ADV_START, BLE_ADVERTISING} \<and> ble_work l' \<noteq> None)"
  using assms(1)
proof (induction rule: rtranclp_induct)
  case base
  show ?case using assms(2,3) by (simp add: ble_connect_def submit_def)
next
  case (step l1 l2)
  from step(2) step(3) show ?case
  proof (induction rule: searching.induct)
    case (fires l rnd)
    then show ?case by (auto simp: ble_timeout_def submit_def ask_def Let_def)
  next
    case (finds l err adv_ind ad l')
    then show ?case
      by (auto simp: device_found_def create_conn_def submit_def ask_def Let_def split: if_splits Option.bind_splits)
  qed (auto simp: connected_def disconnected_def submit_def ask_def Let_def)
qed

section \<open>Two boards\<close>

lemma flying_calls [simp]: "flying (g\<lparr>calls := c\<rparr>) = flying g"
  by (simp add: flying_def)

lemma play_quiet:
  "calls (f (game l\<lparr>calls := []\<rparr>)) = [] \<Longrightarrow> asked (play f l) = asked l \<and> game (play f l) = f (game l\<lparr>calls := []\<rparr>)\<lparr>calls := []\<rparr>"
  by (simp add: play_def Let_def)

lemma play_notifies:
  assumes "calls (f (game l\<lparr>calls := []\<rparr>)) = [q]" "default_conn l" "remote_ready l"
  shows "asked (play f l) = asked l @ (case q of Send_ball x y vx vy \<Rightarrow> [Notify [0, x, y, vx, vy]] | Send_lost \<Rightarrow> [Notify [1]] | _ \<Rightarrow> []) \<and>
    game (play f l) = f (game l\<lparr>calls := []\<rparr>)\<lparr>calls := []\<rparr>"
  using assms
  by (cases q) (auto simp: play_def ble_send_ball_def ble_send_lost_def ble_connect_def ble_cancel_connect_def ask_def submit_def Let_def
      split: ble_state.split)

text \<open>
  C24: A ball that leaves the top of one of two connected boards is notified to the other board,
  where, when no refresh was pending there, after the next refresh it flies on from the same height
  with the vertical speed reversed; the sender no longer moves it.
\<close>

theorem ball_sent_and_received:
  assumes "flying (game a)" "state (game a) = CONNECTED" "ended (game a) = 0"
    "vel_y (game a) < 0" "ball_y (game a) + vel_y (game a) < 0" "default_conn a" "remote_ready a"
    "state (game b) = CONNECTED" "ended (game b) = 0" "0 < t'"
  shows "\<exists>message. asked (play (game_refresh t) a) = asked a @ [Notify message] \<and> refresh (game (play (game_refresh t) a)) = None \<and>
    (let b' = play (game_refresh t') (notify_func t'' (Some message) b) in
      flying (game b') \<and> ball_y (game b') = ball_y (game a) \<and> vel_y (game b') = - vel_y (game a) \<and> asked b' = asked b)"
proof -
  let ?g = "game a\<lparr>calls := []\<rparr>" and ?r = "game b\<lparr>calls := []\<rparr>"
  have g: "flying ?g" "state ?g = CONNECTED" "ended ?g = 0" "vel_y ?g < 0" "ball_y ?g + vel_y ?g < 0"
      "state ?r = CONNECTED" "ended ?r = 0"
    using assms by simp_all
  obtain x y vx vy where c: "calls (game_refresh t ?g) = [Send_ball x y vx vy]" "refresh (game_refresh t ?g) = None"
    and r: "let r' = game_refresh t' (pong_ball_received x y vx vy ?r) in
      flying r' \<and> ball_y r' = ball_y ?g \<and> vel_y r' = - vel_y ?g \<and> refresh r' \<noteq> None \<and> calls r' = calls ?r"
    using ball_crosses_over [OF g assms(10), of t] by auto
  have n: "notify_func t'' (Some [0, x, y, vx, vy]) b = b\<lparr>game := pong_ball_received x y vx vy (game b)\<rparr>"
    by (simp add: notify_func_def)
  have p: "pong_ball_received x y vx vy (game b)\<lparr>calls := []\<rparr> = pong_ball_received x y vx vy ?r"
    by (simp add: pong_ball_received_def)
  let ?b = "notify_func t'' (Some [0, x, y, vx, vy]) b"
  have b: "calls (game_refresh t' (game ?b\<lparr>calls := []\<rparr>)) = []" using r unfolding n by (simp add: p Let_def)
  note pa = play_notifies [of "game_refresh t" a, OF c(1) assms(6,7)] and pb = play_quiet [of "game_refresh t'" ?b, OF b]
  have "asked ?b = asked b" by (simp add: n)
  moreover have "game (play (game_refresh t') ?b) = game_refresh t' (pong_ball_received x y vx vy ?r)\<lparr>calls := []\<rparr>"
    using pb by (simp add: n p)
  ultimately show ?thesis using pa pb c(2) r by (intro exI [of _ "[0, x, y, vx, vy]"]) (simp add: Let_def)
qed

lemma ball_sent_and_received_witness:
  "let a = link_init (sample_board True\<lparr>ball_x := 44, ball_y := 2, vel_x := 7, vel_y := - 4\<rparr>)\<lparr>default_conn := True, remote_ready := True\<rparr>
   in \<exists>message. asked (play (game_refresh 9000) a) = [Notify message]"
  using ball_sent_and_received [of "link_init (sample_board True\<lparr>ball_x := 44, ball_y := 2, vel_x := 7, vel_y := - 4\<rparr>)\<lparr>default_conn := True, remote_ready := True\<rparr>"
    "link_init (sample_board False)" 9000 9000 0]
  by (auto simp: sample_board_def pong_conn_ready_def game_init_def pong_main_def pong_select_def flying_def speed_x_def speed_y_def link_init_def Let_def)

lemma refresh_after_end:
  assumes "ended g \<noteq> 0" "state g = CONNECTED"
  shows "ball_visible (game_refresh u g) = remote_lost g" "ended (game_refresh u g) = 0" "calls (game_refresh u g) = calls g"
  using assms by (simp_all add: game_refresh_def sound_set_def game_init_def ball_visible_def Let_def)

theorem winner_serves:
  assumes "flying (game a)" "state (game a) = CONNECTED" "ended (game a) = 0" "0 \<le> vel_y (game a)"
    "ended (game (play (game_refresh t) a)) \<noteq> 0" "default_conn a" "remote_ready a" "0 < t" "0 < t'"
    "state (game b) = CONNECTED"
  shows "let a' = play (game_refresh t) a; b' = notify_func t' (Some [1]) b in
    asked a' = asked a @ [Notify [1]] \<and> refresh (game a') \<noteq> None \<and> refresh (game b') \<noteq> None \<and>
    \<not> ball_visible (game (play (game_refresh u) a')) \<and> ball_visible (game (play (game_refresh u') b')) \<and>
    ended (game (play (game_refresh u) a')) = 0 \<and> ended (game (play (game_refresh u') b')) = 0"
proof -
  let ?g = "game a\<lparr>calls := []\<rparr>" and ?h = "game_refresh t (game a\<lparr>calls := []\<rparr>)"
  have "played t ?g ?h" using assms(1-4,8) by (intro refresh_in_play) simp_all
  moreover have "game (play (game_refresh t) a) = ?h\<lparr>calls := []\<rparr>" if "calls ?h = [] \<or> calls ?h = [Send_lost]"
    using that play_quiet [of "game_refresh t" a] play_notifies [of "game_refresh t" a Send_lost] assms(6,7) by blast
  ultimately have h: "calls ?h = [Send_lost]" "ended ?h \<noteq> 0" "state ?h = CONNECTED" "\<not> remote_lost ?h" "refresh ?h \<noteq> None"
    using assms(2,5) by (auto simp: played_def split: if_splits)
  note pa = play_notifies [of "game_refresh t" a, OF h(1) assms(6,7)]
  have b: "game (notify_func t' (Some [1]) b) = game_ended t' True (game b)" by (simp add: notify_func_def pong_remote_lost_def)
  have e: "ended (game_ended t' True (game b)) \<noteq> 0" "state (game_ended t' True (game b)) = CONNECTED"
      "remote_lost (game_ended t' True (game b))" "refresh (game_ended t' True (game b)) \<noteq> None"
    using assms(9,10) by (simp_all add: game_ended_def sound_set_def Let_def)
  have again: "ball_visible (game (play (game_refresh v) l)) = remote_lost (game l) \<and> ended (game (play (game_refresh v) l)) = 0"
    if "ended (game l) \<noteq> 0" "state (game l) = CONNECTED" for v l
    using play_quiet [of "game_refresh v" l] refresh_after_end [of "game l\<lparr>calls := []\<rparr>" v] that
    by (simp add: ball_visible_def)
  have "asked (play (game_refresh t) a) = asked a @ [Notify [1]]" "game (play (game_refresh t) a) = ?h\<lparr>calls := []\<rparr>"
    using pa by simp_all
  then show ?thesis
    using again [of "play (game_refresh t) a" u] again [of "notify_func t' (Some [1]) b" u'] h e by (simp add: Let_def b)
qed

lemma winner_serves_witness:
  "let a = link_init (sample_board True\<lparr>ball_x := 44, ball_y := 38, vel_x := 2, vel_y := 4\<rparr>)\<lparr>default_conn := True, remote_ready := True\<rparr>
   in asked (play (game_refresh 9000) a) = [Notify [1]]"
proof -
  let ?a = "link_init (sample_board True\<lparr>ball_x := 44, ball_y := 38, vel_x := 2, vel_y := 4\<rparr>)\<lparr>default_conn := True, remote_ready := True\<rparr>"
  have a: "game ?a = \<lparr>state = CONNECTED, selecting = False, select_idx = 0, remote_lost = False, started = False, ended = 0,
     refresh = None, disp_update = True, paddle_x = 0, ball_x = 44, ball_y = 38, vel_x = 2, vel_y = 4,
     a_timestamp = 0, b_timestamp = 0, sound = SOUND_IDLE, calls = []\<rparr>"
    by (simp add: link_init_def sample_board_def pong_conn_ready_def pong_main_def pong_select_def game_init_def)
  have "ended (game (play (game_refresh 9000) ?a)) \<noteq> 0"
    unfolding play_def a Let_def
    by (simp add: game_refresh_def ball_moves_def side_walls_def paddle_row_def game_ended_def sound_set_def Let_def
        ble_send_lost_def ask_def link_init_def)
  then show ?thesis
    using winner_serves [of ?a 9000 9000 "link_init (sample_board False)" 9100 9100]
    by (simp add: a link_init_def flying_def speed_x_def speed_y_def sample_board_def pong_conn_ready_def game_init_def Let_def)
qed

end
