(* ===== verification/Qsort.thy ===== *)
theory Qsort
  imports Prelude "HOL-Library.Multiset"
begin

text \<open>
  samples/subsys/shell/shell_module/src/qsort.c: the quicksort with a three-way partition. A segment
  of the array is a list of its elements, a pointer into it the index of its element; the recursive
  calls and the next round of the loop work on the first and on the last elements of the segment. The
  comparison is an argument, as in the code, and may be any function.
\<close>

section \<open>Exchanges\<close>

definition swapfunc :: "nat \<Rightarrow> nat \<Rightarrow> 'a list \<Rightarrow> 'a list" where
  "swapfunc i j xs = xs[i := xs ! j, j := xs ! i]"

fun vecswap :: "nat \<Rightarrow> nat \<Rightarrow> nat \<Rightarrow> 'a list \<Rightarrow> 'a list" where
  "vecswap a b 0 xs = xs"
| "vecswap a b (Suc n) xs = vecswap (a + 1) (b + 1) n (swapfunc a b xs)"

lemma length_swapfunc [simp]: "length (swapfunc i j xs) = length xs"
  by (simp add: swapfunc_def)

lemma mset_swapfunc [simp]: "i < length xs \<Longrightarrow> j < length xs \<Longrightarrow> mset (swapfunc i j xs) = mset xs"
  by (simp add: swapfunc_def mset_swap)

lemma nth_swapfunc:
  "i < length xs \<Longrightarrow> j < length xs \<Longrightarrow> swapfunc i j xs ! k = (if k = i then xs ! j else if k = j then xs ! i else xs ! k)"
  by (simp add: swapfunc_def nth_list_update)

lemma length_vecswap [simp]: "length (vecswap a b n xs) = length xs"
  by (induction n arbitrary: a b xs) simp_all

lemma mset_vecswap: "a + n \<le> length xs \<Longrightarrow> b + n \<le> length xs \<Longrightarrow> mset (vecswap a b n xs) = mset xs"
  by (induction n arbitrary: a b xs) simp_all

lemma nth_vecswap_distance:
  "n \<le> d \<Longrightarrow> a + d + n \<le> length xs \<Longrightarrow> vecswap a (a + d) n xs ! k =
    (if a \<le> k \<and> k < a + n then xs ! (k + d) else if a + d \<le> k \<and> k < a + d + n then xs ! (k - d) else xs ! k)"
proof (induction n arbitrary: a xs)
  case (Suc n)
  let ?xs = "swapfunc a (a + d) xs"
  have r: "vecswap a (a + d) (Suc n) xs ! k =
      (if a + 1 \<le> k \<and> k < a + 1 + n then ?xs ! (k + d) else if a + 1 + d \<le> k \<and> k < a + 1 + d + n then ?xs ! (k - d) else ?xs ! k)"
    using Suc.IH [of "a + 1" ?xs] Suc.prems by simp
  have s: "?xs ! i = (if i = a then xs ! (a + d) else if i = a + d then xs ! a else xs ! i)" for i
    using Suc.prems by (simp add: nth_swapfunc)
  consider "k = a" | "k = a + d" | "a < k" "k < a + 1 + n" | "a + d < k" "k < a + 1 + d + n"
    | "k < a \<or> a + n < k \<and> k < a + d \<or> a + d + n < k" by linarith
  then show ?case
  proof cases
    case 1
    then show ?thesis using Suc.prems unfolding r s by simp
  next
    case 2
    then show ?thesis using Suc.prems unfolding r s by simp
  next
    case 3
    then have "k \<noteq> a + d" using Suc.prems by linarith
    then show ?thesis using 3 unfolding r s by simp
  next
    case 4
    then have "k - d \<noteq> a" "k - d \<noteq> a + d" "\<not> k < a + Suc n" using Suc.prems by linarith+
    then show ?thesis using 4 unfolding r s by simp
  next
    case 5
    then have "k \<noteq> a" "k \<noteq> a + d" "\<not> (a \<le> k \<and> k < a + Suc n)" "\<not> (a + d \<le> k \<and> k < a + d + Suc n)" using Suc.prems by linarith+
    then show ?thesis unfolding r s by auto
  qed
qed auto

lemma nth_vecswap:
  assumes "a + n \<le> b" "b + n \<le> length xs"
  shows "vecswap a b n xs ! k =
    (if a \<le> k \<and> k < a + n then xs ! (k + (b - a)) else if b \<le> k \<and> k < b + n then xs ! (k - (b - a)) else xs ! k)"
proof -
  have "a + (b - a) = b" using assms(1) by simp
  then show ?thesis using nth_vecswap_distance [of n "b - a" a xs k] assms by simp
qed

section \<open>Insertion sort\<close>

fun insert_back :: "('a \<Rightarrow> 'a \<Rightarrow> int) \<Rightarrow> nat \<Rightarrow> 'a list \<Rightarrow> 'a list" where
  "insert_back cmp 0 xs = xs"
| "insert_back cmp (Suc l) xs = (if cmp (xs ! l) (xs ! Suc l) > 0 then insert_back cmp l (swapfunc (Suc l) l xs) else xs)"

definition insertion_sort :: "('a \<Rightarrow> 'a \<Rightarrow> int) \<Rightarrow> 'a list \<Rightarrow> 'a list" where
  "insertion_sort cmp xs = fold (insert_back cmp) [1..<length xs] xs"

section \<open>Partition\<close>

definition med3 :: "('a \<Rightarrow> 'a \<Rightarrow> int) \<Rightarrow> 'a list \<Rightarrow> nat \<Rightarrow> nat \<Rightarrow> nat \<Rightarrow> nat" where
  "med3 cmp xs a b c =
     (if cmp (xs ! a) (xs ! b) < 0
      then (if cmp (xs ! b) (xs ! c) < 0 then b else if cmp (xs ! a) (xs ! c) < 0 then c else a)
      else (if cmp (xs ! b) (xs ! c) > 0 then b else if cmp (xs ! a) (xs ! c) < 0 then a else c))"

definition pivot :: "('a \<Rightarrow> 'a \<Rightarrow> int) \<Rightarrow> 'a list \<Rightarrow> nat" where
  "pivot cmp xs =
     (let n = length xs; pm = n div 2 in
      if n > 7 then
        let pl = 0; pn = n - 1; d = n div 8;
            (pl, pm, pn) = (if n > 40 then (med3 cmp xs pl (pl + d) (pl + 2 * d), med3 cmp xs (pm - d) pm (pm + d),
                              med3 cmp xs (pn - 2 * d) (pn - d) pn) else (pl, pm, pn))
        in med3 cmp xs pl pm pn
      else pm)"

text \<open>The two inner loops, and the loop around them. The flag is \<open>swap_cnt\<close>.\<close>

function scan_up :: "('a \<Rightarrow> 'a \<Rightarrow> int) \<Rightarrow> nat \<Rightarrow> nat \<Rightarrow> nat \<Rightarrow> bool \<Rightarrow> 'a list \<Rightarrow> nat \<times> nat \<times> bool \<times> 'a list" where
  "scan_up cmp pa pb pc sw xs =
     (if pb \<le> pc \<and> cmp (xs ! pb) (xs ! 0) \<le> 0 then
        if cmp (xs ! pb) (xs ! 0) = 0 then scan_up cmp (pa + 1) (pb + 1) pc True (swapfunc pa pb xs)
        else scan_up cmp pa (pb + 1) pc sw xs
      else (pa, pb, sw, xs))"
  by auto
termination by (relation "measure (\<lambda>(_, _, pb, pc, _). pc + 1 - pb)") auto

function scan_down :: "('a \<Rightarrow> 'a \<Rightarrow> int) \<Rightarrow> nat \<Rightarrow> nat \<Rightarrow> nat \<Rightarrow> bool \<Rightarrow> 'a list \<Rightarrow> nat \<times> nat \<times> bool \<times> 'a list" where
  "scan_down cmp pb pc pd sw xs =
     (if 0 < pb \<and> pb \<le> pc \<and> cmp (xs ! pc) (xs ! 0) \<ge> 0 then
        if cmp (xs ! pc) (xs ! 0) = 0 then scan_down cmp pb (pc - 1) (pd - 1) True (swapfunc pc pd xs)
        else scan_down cmp pb (pc - 1) pd sw xs
      else (pc, pd, sw, xs))"
  by auto
termination by (relation "measure (\<lambda>(_, pb, pc, _). pc)") auto

declare scan_up.simps [simp del] scan_down.simps [simp del]

lemma scan_up_range:
  "scan_up cmp pa pb pc sw xs = (pa', pb', sw', xs') \<Longrightarrow> pb \<le> pb' \<and> (pb \<le> pc + 1 \<longrightarrow> pb' \<le> pc + 1)"
proof (induction cmp pa pb pc sw xs rule: scan_up.induct)
  case (1 cmp pa pb pc sw xs)
  then show ?case by (subst (asm) (3) scan_up.simps) (auto split: if_splits)
qed

lemma scan_down_range: "scan_down cmp pb pc pd sw xs = (pc', pd', sw', xs') \<Longrightarrow> pc' \<le> pc"
proof (induction cmp pb pc pd sw xs rule: scan_down.induct)
  case (1 cmp pb pc pd sw xs)
  then show ?case by (subst (asm) (3) scan_down.simps) (auto split: if_splits)
qed

function partition_loop :: "('a \<Rightarrow> 'a \<Rightarrow> int) \<Rightarrow> nat \<Rightarrow> nat \<Rightarrow> nat \<Rightarrow> nat \<Rightarrow> bool \<Rightarrow> 'a list \<Rightarrow> nat \<times> nat \<times> nat \<times> nat \<times> bool \<times> 'a list" where
  "partition_loop cmp pa pb pc pd sw xs =
     (let (pa, pb, sw, xs) = scan_up cmp pa pb pc sw xs;
          (pc, pd, sw, xs) = scan_down cmp pb pc pd sw xs
      in if pb > pc then (pa, pb, pc, pd, sw, xs)
         else partition_loop cmp pa (pb + 1) (pc - 1) pd True (swapfunc pb pc xs))"
  by auto
termination
  by (relation "measure (\<lambda>(_, _, pb, pc, _). pc + 1 - pb)") (auto dest!: scan_up_range [OF sym] scan_down_range [OF sym])

declare partition_loop.simps [simp del]

section \<open>What the partition leaves\<close>

definition parted :: "('a \<Rightarrow> 'a \<Rightarrow> int) \<Rightarrow> nat \<Rightarrow> nat \<Rightarrow> nat \<Rightarrow> nat \<Rightarrow> 'a list \<Rightarrow> bool" where
  "parted cmp pa pb pc pd xs \<longleftrightarrow> 1 \<le> pa \<and> pa \<le> pb \<and> pb \<le> pc + 1 \<and> pc \<le> pd \<and> pd < length xs \<and>
     (\<forall>i. 1 \<le> i \<and> i < pa \<longrightarrow> cmp (xs ! i) (xs ! 0) = 0) \<and> (\<forall>i. pa \<le> i \<and> i < pb \<longrightarrow> cmp (xs ! i) (xs ! 0) < 0) \<and>
     (\<forall>i. pc < i \<and> i \<le> pd \<longrightarrow> cmp (xs ! i) (xs ! 0) > 0) \<and> (\<forall>i. pd < i \<and> i < length xs \<longrightarrow> cmp (xs ! i) (xs ! 0) = 0)"

lemma scan_up_parted:
  assumes "scan_up cmp pa pb pc sw xs = (pa', pb', sw', xs')" "parted cmp pa pb pc pd xs"
  shows "parted cmp pa' pb' pc pd xs' \<and> mset xs' = mset xs \<and> (pb' \<le> pc \<longrightarrow> cmp (xs' ! pb') (xs' ! 0) > 0)"
  using assms
proof (induction cmp pa pb pc sw xs rule: scan_up.induct)
  case (1 cmp pa pb pc sw xs)
  show ?case
  proof (cases "pb \<le> pc \<and> cmp (xs ! pb) (xs ! 0) \<le> 0")
    case False
    then show ?thesis using 1(3,4) by (subst (asm) scan_up.simps) auto
  next
    case True
    have l: "1 \<le> pa" "pa \<le> pb" "pb < length xs" using 1(4) True by (auto simp: parted_def)
    show ?thesis
    proof (cases "cmp (xs ! pb) (xs ! 0) = 0")
      case eq: True
      let ?xs = "swapfunc pa pb xs"
      have "?xs ! k = (if k = pa then xs ! pb else if k = pb then xs ! pa else xs ! k)" for k
        using l by (simp add: nth_swapfunc)
      then have "parted cmp (pa + 1) (pb + 1) pc pd ?xs"
        using 1(4) True eq l unfolding parted_def by (auto simp: less_Suc_eq)
      then show ?thesis using 1(1) [OF True eq] 1(3) True eq l by (subst (asm) (2) scan_up.simps) simp
    next
      case False
      then have "parted cmp pa (pb + 1) pc pd xs" using 1(4) True unfolding parted_def by (auto simp: less_Suc_eq)
      then show ?thesis using 1(2) [OF True False] 1(3) True False by (subst (asm) (2) scan_up.simps) simp
    qed
  qed
qed

lemma scan_down_parted:
  assumes "scan_down cmp pb pc pd sw xs = (pc', pd', sw', xs')" "parted cmp pa pb pc pd xs"
  shows "parted cmp pa pb pc' pd' xs' \<and> mset xs' = mset xs \<and> xs' ! 0 = xs ! 0 \<and>
    (pb \<le> pc' \<longrightarrow> cmp (xs' ! pc') (xs' ! 0) < 0 \<and> xs' ! pb = xs ! pb)"
  using assms
proof (induction cmp pb pc pd sw xs rule: scan_down.induct)
  case (1 cmp pb pc pd sw xs)
  have b: "0 < pb" using 1(4) by (auto simp: parted_def)
  show ?case
  proof (cases "0 < pb \<and> pb \<le> pc \<and> cmp (xs ! pc) (xs ! 0) \<ge> 0")
    case False
    then show ?thesis using 1(3,4) b by (subst (asm) scan_down.simps) auto
  next
    case True
    have l: "1 \<le> pb" "pb \<le> pc" "pc \<le> pd" "pd < length xs" using 1(4) True by (auto simp: parted_def)
    show ?thesis
    proof (cases "cmp (xs ! pc) (xs ! 0) = 0")
      case eq: True
      let ?xs = "swapfunc pc pd xs"
      have n: "?xs ! k = (if k = pc then xs ! pd else if k = pd then xs ! pc else xs ! k)" for k
        using l by (simp add: nth_swapfunc)
      moreover have "pc - 1 < i \<longleftrightarrow> pc \<le> i" "i \<le> pd - 1 \<longleftrightarrow> i < pd" "pd - 1 < i \<longleftrightarrow> pd \<le> i" for i using l by auto
      ultimately have p: "parted cmp pa pb (pc - 1) (pd - 1) ?xs"
        using 1(4) eq l unfolding parted_def by (auto simp: le_less)
      have r: "scan_down cmp pb (pc - 1) (pd - 1) True ?xs = (pc', pd', sw', xs')"
        using 1(3) True eq by (subst (asm) scan_down.simps) simp
      then have "pb \<noteq> pc \<or> pc' < pb" using l scan_down_range [OF r] by auto
      then show ?thesis using 1(1) [OF True eq r p] l n by auto
    next
      case False
      have "parted cmp pa pb (pc - 1) pd xs"
      proof -
        have "cmp (xs ! pc) (xs ! 0) > 0" using True False by simp
        then have "cmp (xs ! i) (xs ! 0) > 0" if "pc - 1 < i" "i \<le> pd" for i
          using that 1(4) unfolding parted_def by (cases "i = pc") auto
        then show ?thesis using 1(4) l unfolding parted_def by auto
      qed
      then show ?thesis using 1(2) [OF True False] 1(3) True False by (subst (asm) (2) scan_down.simps) auto
    qed
  qed
qed

lemma partition_loop_parted:
  assumes "partition_loop cmp pa pb pc pd sw xs = (pa', pb', pc', pd', sw', xs')" "parted cmp pa pb pc pd xs"
  shows "parted cmp pa' pb' pc' pd' xs' \<and> mset xs' = mset xs \<and> pb' = pc' + 1"
  using assms
proof (induction cmp pa pb pc pd sw xs rule: partition_loop.induct)
  case (1 cmp pa pb pc pd sw xs)
  obtain pa1 pb1 sw1 xs1 where u: "scan_up cmp pa pb pc sw xs = (pa1, pb1, sw1, xs1)" by (cases "scan_up cmp pa pb pc sw xs")
  obtain pc1 pd1 sw2 xs2 where d: "scan_down cmp pb1 pc pd sw1 xs1 = (pc1, pd1, sw2, xs2)" by (cases "scan_down cmp pb1 pc pd sw1 xs1")
  note pu = scan_up_parted [OF u 1(3)]
  then have pd: "parted cmp pa1 pb1 pc1 pd1 xs2" "mset xs2 = mset xs1" "xs2 ! 0 = xs1 ! 0"
      "pb1 \<le> pc1 \<Longrightarrow> cmp (xs2 ! pc1) (xs2 ! 0) < 0 \<and> xs2 ! pb1 = xs1 ! pb1"
    using scan_down_parted [OF d] by blast+
  show ?case
  proof (cases "pb1 > pc1")
    case True
    then have "(pa', pb', pc', pd', sw', xs') = (pa1, pb1, pc1, pd1, sw2, xs2)"
      using 1(2) u d by (subst (asm) partition_loop.simps) simp
    then show ?thesis using True pu pd by (auto simp: parted_def)
  next
    case False
    have up: "cmp (xs2 ! pb1) (xs2 ! 0) > 0"
      using False pu pd scan_down_range [OF d] by simp
    then have ne: "pb1 < pc1" using False pd(4) by (cases "pb1 = pc1") auto
    let ?xs = "swapfunc pb1 pc1 xs2"
    have l: "1 \<le> pa1" "pa1 \<le> pb1" "pc1 \<le> pd1" "pd1 < length xs2" using pd(1) by (auto simp: parted_def)
    then have n: "?xs ! k = (if k = pb1 then xs2 ! pc1 else if k = pc1 then xs2 ! pb1 else xs2 ! k)" for k
      using ne by (simp add: nth_swapfunc)
    have p: "parted cmp pa1 (pb1 + 1) (pc1 - 1) pd1 ?xs"
      using pd(1) up ne n l False pd(4) unfolding parted_def by (auto simp: less_Suc_eq)
    have r: "partition_loop cmp pa1 (pb1 + 1) (pc1 - 1) pd1 True ?xs = (pa', pb', pc', pd', sw', xs')"
      using 1(2) u d False by (subst (asm) partition_loop.simps) simp
    have "mset ?xs = mset xs" using l ne pu pd(2) by simp
    then show ?thesis using 1(1) [OF u [symmetric] refl refl refl d [symmetric] refl refl refl False r p] by auto
  qed
qed

section \<open>The sort\<close>

text \<open>
  From the choice of the pivot to the last \<open>vecswap\<close>: the sizes of the two parts, whether anything was
  exchanged, and the segment.
\<close>

definition split_segment :: "('a \<Rightarrow> 'a \<Rightarrow> int) \<Rightarrow> 'a list \<Rightarrow> nat \<times> nat \<times> bool \<times> 'a list" where
  "split_segment cmp xs =
     (let n = length xs;
          (pa, pb, pc, pd, sw, ys) = partition_loop cmp 1 1 (n - 1) (n - 1) False (swapfunc 0 (pivot cmp xs) xs)
      in if \<not> sw then (pb - pa, pd - pc, sw, ys)
         else let d = min pa (pb - pa); ys = vecswap 0 (pb - d) d ys;
                  d = min (pd - pc) (n - pd - 1); ys = vecswap pb (n - d) d ys
              in (pb - pa, pd - pc, sw, ys))"

lemma med3_cases: "med3 cmp xs a b c \<in> {a, b, c}"
  by (simp add: med3_def)

lemma pivot_range: "7 \<le> length xs \<Longrightarrow> pivot cmp xs < length xs"
proof -
  assume l: "7 \<le> length xs"
  have m: "med3 cmp xs a b c < n" if "a < n" "b < n" "c < n" for a b c n using med3_cases [of cmp xs a b c] that by auto
  show ?thesis using l by (auto simp: pivot_def Let_def intro!: m)
qed

text \<open>After the two \<open>vecswap\<close>s the smaller elements come first and the larger ones last.\<close>

lemma split_arranged:
  assumes p: "parted cmp pa pb pc pd zs" "pb = pc + 1" and d: "d = min pa (pb - pa)" and e: "e = min (pd - pc) (length zs - pd - 1)"
    and ys: "ys = vecswap pb (length zs - e) e (vecswap 0 (pb - d) d zs)"
  shows "k < pb - pa \<Longrightarrow> cmp (ys ! k) (zs ! 0) < 0"
    "length zs - (pd - pc) \<le> k \<Longrightarrow> k < length zs \<Longrightarrow> cmp (ys ! k) (zs ! 0) > 0"
    "pb - pa \<le> k \<Longrightarrow> k < length zs - (pd - pc) \<Longrightarrow> ys ! k = zs ! 0 \<or> cmp (ys ! k) (zs ! 0) = 0"
proof -
  let ?n = "length zs"
  have b: "1 \<le> pa" "pa \<le> pb" "pc \<le> pd" "pd < ?n" using p(1) by (auto simp: parted_def)
  have c1: "zs ! i = zs ! 0 \<or> cmp (zs ! i) (zs ! 0) = 0" if "i < pa" for i
    using p(1) that by (cases "i = 0") (auto simp: parted_def)
  have c: "\<And>i. pa \<le> i \<Longrightarrow> i < pb \<Longrightarrow> cmp (zs ! i) (zs ! 0) < 0"
      "\<And>i. pc < i \<Longrightarrow> i \<le> pd \<Longrightarrow> cmp (zs ! i) (zs ! 0) > 0" "\<And>i. pd < i \<Longrightarrow> i < ?n \<Longrightarrow> cmp (zs ! i) (zs ! 0) = 0"
    using p(1) by (auto simp: parted_def)
  have r: "d = pa \<or> d = pb - pa" "d \<le> pa" "d + pa \<le> pb" "e = pd - pc \<or> e = ?n - pd - 1" "e + pc \<le> pd" "e + pd < ?n"
    using b p(2) unfolding d e by auto
  obtain f where f: "pb = d + f" "d \<le> f" "pa \<le> f" using r(2,3) that [of "pb - d"] by simp
  obtain q where q: "?n = pb + q + e" "e \<le> q" "pd < pb + q" using r(5,6) b p(2) that [of "?n - pb - e"] by simp
  define us where "us = vecswap 0 (pb - d) d zs"
  have u: "us ! k = (if k < d then zs ! (k + f) else if f \<le> k \<and> k < f + d then zs ! (k - f) else zs ! k)" for k
    using nth_vecswap_distance [of d f 0 zs k] f(2) q(1) by (simp add: us_def f(1))
  have us: "length us = ?n" by (simp add: us_def)
  have "?n - e = pb + q" using q(1) by simp
  then have v: "ys ! k = (if pb \<le> k \<and> k < pb + e then us ! (k + q) else if pb + q \<le> k \<and> k < pb + q + e then us ! (k - q) else us ! k)" for k
    using nth_vecswap_distance [of e q pb us k] q(1,2) us by (simp add: ys us_def)
  have high: "us ! k = zs ! k" if "pb \<le> k" for k using u [of k] f(1) that by simp
  have low: "ys ! k = us ! k" if "k < pb" for k using v [of k] that by simp
  have src: "ys ! k = zs ! (k + f)" if "k < d" for k using low [of k] u [of k] that f(1) by simp
  have src2: "ys ! k = zs ! k" if "d \<le> k" "k < f" for k using low [of k] u [of k] that f(1) by simp
  have src3: "ys ! k = zs ! (k - f)" if "f \<le> k" "k < pb" for k using low [of k] u [of k] that f by simp
  have src4: "ys ! k = zs ! (k + q)" if "pb \<le> k" "k < pb + e" for k using v [of k] high [of "k + q"] that by simp
  have src5: "ys ! k = zs ! k" if "pb + e \<le> k" "k < pb + q" for k using v [of k] high [of k] that by simp
  have src6: "ys ! k = zs ! (k - q)" if "pb + q \<le> k" "k < ?n" for k
  proof -
    have "pb \<le> k - q" "\<not> k < pb + e" "k < pb + q + e" using that q by linarith+
    then show ?thesis using v [of k] high [of "k - q"] that(1) by simp
  qed
  show "cmp (ys ! k) (zs ! 0) < 0" if k: "k < pb - pa"
  proof (cases "k < d")
    case True
    then have "pa \<le> k + f" "k + f < pb" using f by linarith+
    then show ?thesis using src [OF True] c(1) by simp
  next
    case False
    then have "d = pa" using r(1) k by linarith
    then have "d \<le> k" "k < f" "k < pb" using False k f(1) by linarith+
    then show ?thesis using src2 c(1) \<open>d = pa\<close> by simp
  qed
  show "cmp (ys ! k) (zs ! 0) > 0" if k: "?n - (pd - pc) \<le> k" "k < ?n"
  proof (cases "pb + q \<le> k")
    case True
    have "pc < k - q" "k - q \<le> pd" using True k q(1) r(5) p(2) b by linarith+
    then show ?thesis using src6 [OF True k(2)] c(2) by simp
  next
    case False
    then have "e = ?n - pd - 1" using r(4) k(1) q(1) by linarith
    then have "pb + e \<le> k" "k < pb + q" "pc < k" "k \<le> pd" using k False b p(2) q(1) by linarith+
    then show ?thesis using src5 c(2) by simp
  qed
  show "ys ! k = zs ! 0 \<or> cmp (ys ! k) (zs ! 0) = 0" if k: "pb - pa \<le> k" "k < ?n - (pd - pc)"
  proof -
    have "d \<le> k" "k < pb + q" using k r(3,5) q(1) b by linarith+
    then consider "d \<le> k" "k < f" | "f \<le> k" "k < pb" | "pb \<le> k" "k < pb + e" | "pb + e \<le> k" "k < pb + q" by linarith
    then show ?thesis
    proof cases
      case 1
      then have "k < pa" using k(1) r(1) f(1) by linarith
      then show ?thesis using src2 [OF 1] c1 by simp
    next
      case 2
      then have "k - f < pa" using r(2) f(1) b(1) by linarith
      then show ?thesis using src3 [OF 2] c1 by simp
    next
      case 3
      then have "pd < k + q" "k + q < ?n" using q by linarith+
      then show ?thesis using src4 [OF 3] c(3) by simp
    next
      case 4
      then have "pd < k" "k < ?n" using k(2) r(4) b p(2) q(1) by linarith+
      then show ?thesis using src5 [OF 4] c(3) by simp
    qed
  qed
qed

lemma split_segment_result:
  assumes "\<not> length xs < 7" "split_segment cmp xs = (d1, d2, sw, ys)"
  shows "mset ys = mset xs" "d1 + d2 < length xs"
    "\<exists>p. sw \<longrightarrow> (\<forall>i < d1. cmp (ys ! i) p < 0) \<and> (\<forall>i. length xs - d2 \<le> i \<and> i < length xs \<longrightarrow> cmp (ys ! i) p > 0) \<and>
       (\<forall>i. d1 \<le> i \<and> i < length xs - d2 \<longrightarrow> ys ! i = p \<or> cmp (ys ! i) p = 0)"
proof -
  let ?n = "length xs" and ?xs = "swapfunc 0 (pivot cmp xs) xs"
  obtain pa pb pc pd sw' zs where r: "partition_loop cmp 1 1 (?n - 1) (?n - 1) False ?xs = (pa, pb, pc, pd, sw', zs)"
    by (cases "partition_loop cmp 1 1 (?n - 1) (?n - 1) False ?xs")
  have m: "mset ?xs = mset xs" using pivot_range [of xs cmp] assms(1) by (intro mset_swapfunc) (auto simp: not_less)
  have "parted cmp 1 1 (?n - 1) (?n - 1) ?xs" using assms(1) by (auto simp: parted_def)
  then have p: "parted cmp pa pb pc pd zs" "mset zs = mset xs" "pb = pc + 1"
    using partition_loop_parted [OF r] m by auto
  have l: "length zs = ?n" using mset_eq_length [OF p(2)] .
  have b: "1 \<le> pa" "pa \<le> pb" "pc \<le> pd" "pd < ?n" using p(1) l by (auto simp: parted_def)
  define d where "d = min pa (pb - pa)"
  define e where "e = min (pd - pc) (length zs - pd - 1)"
  define zs' where "zs' = vecswap pb (length zs - e) e (vecswap 0 (pb - d) d zs)"
  have s: "d1 = pb - pa" "d2 = pd - pc" "sw = sw'" "ys = (if sw' then zs' else zs)"
    using assms(2) r l by (auto simp: split_segment_def Let_def d_def e_def zs'_def split: if_splits)
  show "d1 + d2 < ?n" using s(1,2) b p(3) by simp
  have "0 + d \<le> length zs" "pb - d + d \<le> length zs" "pb + e \<le> length zs" "length zs - e + e \<le> length zs"
    using b p(3) l by (auto simp: d_def e_def)
  then show "mset ys = mset xs" unfolding s(4) zs'_def using p(2) by (simp add: mset_vecswap)
  show "\<exists>p. sw \<longrightarrow> (\<forall>i < d1. cmp (ys ! i) p < 0) \<and> (\<forall>i. ?n - d2 \<le> i \<and> i < ?n \<longrightarrow> cmp (ys ! i) p > 0) \<and>
       (\<forall>i. d1 \<le> i \<and> i < ?n - d2 \<longrightarrow> ys ! i = p \<or> cmp (ys ! i) p = 0)"
    using split_arranged [OF p(1,3) d_def e_def zs'_def] unfolding s l by (intro exI [of _ "zs ! 0"]) simp
qed

lemma split_segment_sizes:
  "\<not> length xs < 7 \<Longrightarrow> split_segment cmp xs = (d1, d2, sw, ys) \<Longrightarrow> length ys = length xs \<and> d1 + d2 < length xs"
  using split_segment_result(1,2) mset_eq_length by metis

text \<open>
  The result and the number of activations of \<open>qsort\<close> that are on the stack at once: one for the
  call, and those of the recursive call; the other part is sorted by the next round of the loop.
\<close>

function qsort :: "('a \<Rightarrow> 'a \<Rightarrow> int) \<Rightarrow> 'a list \<Rightarrow> 'a list \<times> nat" where
  "qsort cmp xs =
     (let n = length xs in
      if n < 7 then (insertion_sort cmp xs, 1)
      else case split_segment cmp xs of (d1, d2, sw, ys) \<Rightarrow>
        if \<not> sw then (insertion_sort cmp ys, 1)
        else let left = (if d1 > 1 then qsort cmp (take d1 ys) else (take d1 ys, 0));
                 right = (if d2 > 1 then qsort cmp (drop (n - d2) ys) else (drop (n - d2) ys, 0))
             in (fst left @ drop d1 (take (n - d2) ys) @ fst right,
                 if d1 \<le> d2 then max (1 + snd left) (snd right) else max (1 + snd right) (snd left)))"
  by auto
termination
  by (relation "measure (\<lambda>(_, xs). length xs)") (auto dest!: split_segment_sizes [OF _ sym])

declare qsort.simps [simp del]

section \<open>The sort is a permutation, for any comparison\<close>

lemma length_insert_back [simp]: "length (insert_back cmp l xs) = length xs"
  by (induction l arbitrary: xs) simp_all

lemma mset_insert_back: "l < length xs \<Longrightarrow> mset (insert_back cmp l xs) = mset xs"
  by (induction l arbitrary: xs) simp_all

lemma mset_insertion_sort: "mset (insertion_sort cmp xs) = mset xs"
proof -
  have "\<forall>i \<in> set is. i < length xs \<Longrightarrow> mset (fold (insert_back cmp) is xs) = mset xs" for "is" and xs :: "'a list"
    by (induction "is" arbitrary: xs) (simp_all add: mset_insert_back)
  then show ?thesis by (simp add: insertion_sort_def)
qed

lemma mset_three: "d1 + d2 \<le> length ys \<Longrightarrow>
  mset (take d1 ys) + (mset (drop d1 (take (length ys - d2) ys)) + mset (drop (length ys - d2) ys)) = mset ys"
proof -
  assume l: "d1 + d2 \<le> length ys"
  have "take d1 (take (length ys - d2) ys) @ drop d1 (take (length ys - d2) ys) @ drop (length ys - d2) ys = ys"
    by (metis append_take_drop_id append.assoc)
  moreover have "min d1 (length ys - d2) = d1" using l by (intro min_absorb1) simp
  then have "take d1 (take (length ys - d2) ys) = take d1 ys" by simp
  ultimately show ?thesis by (metis mset_append)
qed

lemma qsort_induct [case_names small unmoved parts]:
  assumes "\<And>xs. length xs < 7 \<Longrightarrow> P xs (insertion_sort cmp xs, 1)"
    and "\<And>xs ys. mset ys = mset xs \<Longrightarrow> 7 \<le> length xs \<Longrightarrow> P xs (insertion_sort cmp ys, 1)"
    and "\<And>xs d1 d2 ys left right p. mset ys = mset xs \<Longrightarrow> 7 \<le> length xs \<Longrightarrow> d1 + d2 < length xs \<Longrightarrow>
      \<forall>i < d1. cmp (ys ! i) p < 0 \<Longrightarrow> \<forall>i. length xs - d2 \<le> i \<and> i < length xs \<longrightarrow> cmp (ys ! i) p > 0 \<Longrightarrow>
      \<forall>i. d1 \<le> i \<and> i < length xs - d2 \<longrightarrow> ys ! i = p \<or> cmp (ys ! i) p = 0 \<Longrightarrow>
      (if d1 > 1 then P (take d1 ys) left else left = (take d1 ys, 0)) \<Longrightarrow>
      (if d2 > 1 then P (drop (length xs - d2) ys) right else right = (drop (length xs - d2) ys, 0)) \<Longrightarrow>
      P xs (fst left @ drop d1 (take (length xs - d2) ys) @ fst right,
        if d1 \<le> d2 then max (1 + snd left) (snd right) else max (1 + snd right) (snd left))"
  shows "P xs (qsort cmp xs)"
proof (induction xs rule: measure_induct_rule [of length])
  case (less xs)
  show ?case
  proof (cases "length xs < 7")
    case True
    then show ?thesis using assms(1) by (subst qsort.simps) simp
  next
    case False
    obtain d1 d2 sw ys where s: "split_segment cmp xs = (d1, d2, sw, ys)" by (cases "split_segment cmp xs")
    note r = split_segment_result [OF False s] and l = split_segment_sizes [OF False s]
    show ?thesis
    proof (cases sw)
      case True
      then obtain p where p: "\<forall>i < d1. cmp (ys ! i) p < 0" "\<forall>i. length xs - d2 \<le> i \<and> i < length xs \<longrightarrow> cmp (ys ! i) p > 0"
          "\<forall>i. d1 \<le> i \<and> i < length xs - d2 \<longrightarrow> ys ! i = p \<or> cmp (ys ! i) p = 0" using r(3) by blast
      let ?l = "if d1 > 1 then qsort cmp (take d1 ys) else (take d1 ys, 0)"
      let ?r = "if d2 > 1 then qsort cmp (drop (length xs - d2) ys) else (drop (length xs - d2) ys, 0)"
      have q: "qsort cmp xs = (fst ?l @ drop d1 (take (length xs - d2) ys) @ fst ?r,
          if d1 \<le> d2 then max (1 + snd ?l) (snd ?r) else max (1 + snd ?r) (snd ?l))"
        using False s True by (subst qsort.simps) (simp only: Let_def if_False if_True prod.case not_True_eq_False)
      show ?thesis unfolding q using False l less [of "take d1 ys"] less [of "drop (length xs - d2) ys"]
        by (intro assms(3) [OF r(1) _ r(2) p]) auto
    next
      case unmoved: False
      then show ?thesis using False s assms(2) [OF r(1)] by (subst qsort.simps) (simp add: Let_def)
    qed
  qed
qed

lemma mset_qsort: "mset (fst (qsort cmp xs)) = mset xs"
proof (induction rule: qsort_induct)
  case (parts xs d1 d2 ys left right p)
  have "length ys = length xs" using mset_eq_length [OF parts(1)] .
  moreover have "mset (fst left) = mset (take d1 ys)" "mset (fst right) = mset (drop (length xs - d2) ys)"
    using parts(7,8) by (auto split: if_splits)
  ultimately show ?case using mset_three [of d1 d2 ys] parts(1,3) by simp
qed (simp_all add: mset_insertion_sort)

text \<open>
  C39: For every comparison function, even an inconsistent one, qsort ends with a permutation of its
  input, and never more than log2 n of its activations are on the stack, since it recurses into the
  smaller part only.
\<close>

theorem qsort_stack_depth:
  assumes "2 \<le> length xs"
  shows "mset (fst (qsort cmp xs)) = mset xs \<and> 2 ^ snd (qsort cmp xs) \<le> length xs"
proof -
  have "2 \<le> length xs \<longrightarrow> 2 ^ snd (qsort cmp xs) \<le> length xs"
  proof (induction rule: qsort_induct)
    case (parts xs d1 d2 ys left right p)
    have l: "length ys = length xs" using mset_eq_length [OF parts(1)] .
    have b: "2 ^ snd left \<le> max 1 d1" "2 ^ snd right \<le> max 1 d2"
      using parts(3,7,8) l by (auto split: if_splits)
    show ?case
    proof (cases "d1 \<le> d2")
      case True
      then have "2 ^ (1 + snd left) \<le> length xs" "2 ^ snd right \<le> length xs" using b parts(2,3) by (auto simp: max_def split: if_splits)
      then show ?thesis using True by (simp add: max_def)
    next
      case False
      then have "2 ^ (1 + snd right) \<le> length xs" "2 ^ snd left \<le> length xs" using b parts(2,3) by (auto simp: max_def split: if_splits)
      then show ?thesis using False by (simp add: max_def)
    qed
  qed auto
  then show ?thesis using assms mset_qsort by blast
qed

lemma qsort_stack_depth_witness: "2 ^ snd (qsort (\<lambda>x y. x - y) [3, 1, 2, 5, 4, 9, 7, 8 :: int]) \<le> (8 :: nat)"
  using qsort_stack_depth [of "[3, 1, 2, 5, 4, 9, 7, 8 :: int]" "\<lambda>x y. x - y"] by simp

section \<open>The sort sorts, for a comparison that orders\<close>

text \<open>What \<open>qsort\<close> asks of its comparison.\<close>

locale cmp_order =
  fixes cmp :: "'a \<Rightarrow> 'a \<Rightarrow> int"
  assumes opposite: "cmp x y < 0 \<longleftrightarrow> cmp y x > 0"
    and transitive: "cmp x y \<le> 0 \<Longrightarrow> cmp y z \<le> 0 \<Longrightarrow> cmp x z \<le> 0"
begin

abbreviation leq :: "'a \<Rightarrow> 'a \<Rightarrow> bool" where
  "leq x y \<equiv> cmp x y \<le> 0"

lemma swapped: "cmp x y > 0 \<Longrightarrow> leq y x"
  using opposite [of y x] by simp

lemma same: "leq x x"
  using opposite [of x x] by linarith

text \<open>While an element moves down, all others up to its first place are in order, and those after it are not smaller.\<close>

definition moving_down :: "nat \<Rightarrow> nat \<Rightarrow> 'a list \<Rightarrow> bool" where
  "moving_down l m xs \<longleftrightarrow> l \<le> m \<and> m < length xs \<and> (\<forall>i j. i < j \<and> j \<le> m \<and> i \<noteq> l \<and> j \<noteq> l \<longrightarrow> leq (xs ! i) (xs ! j)) \<and>
     (\<forall>j. l < j \<and> j \<le> m \<longrightarrow> leq (xs ! l) (xs ! j))"

lemma insert_back_ordered:
  "moving_down l m xs \<Longrightarrow> i < j \<Longrightarrow> j \<le> m \<Longrightarrow> leq (insert_back cmp l xs ! i) (insert_back cmp l xs ! j)"
proof (induction l arbitrary: xs)
  case 0
  then show ?case by (cases "i = 0") (auto simp: moving_down_def)
next
  case (Suc l)
  have b: "Suc l \<le> m" "m < length xs" using Suc.prems(1) by (auto simp: moving_down_def)
  show ?case
  proof (cases "cmp (xs ! l) (xs ! Suc l) > 0")
    case True
    let ?xs = "swapfunc (Suc l) l xs"
    have n: "?xs ! k = (if k = Suc l then xs ! l else if k = l then xs ! Suc l else xs ! k)" for k
      using b by (simp add: nth_swapfunc)
    have "moving_down l m ?xs"
      unfolding moving_down_def
    proof (intro conjI allI impI)
      fix i j assume ij: "i < j \<and> j \<le> m \<and> i \<noteq> l \<and> j \<noteq> l"
      then show "leq (?xs ! i) (?xs ! j)"
        using Suc.prems(1) unfolding n by (auto simp: moving_down_def)
    next
      fix j assume j: "l < j \<and> j \<le> m"
      then show "leq (?xs ! l) (?xs ! j)"
        using Suc.prems(1) swapped [OF True] unfolding n by (auto simp: moving_down_def)
    qed (use b in auto)
    then show ?thesis using Suc.IH Suc.prems(2,3) True by simp
  next
    case False
    have "leq (xs ! i) (xs ! j)"
    proof (cases "i = Suc l \<or> j \<noteq> Suc l")
      case True
      then show ?thesis using Suc.prems by (auto simp: moving_down_def)
    next
      case j: False
      then have "leq (xs ! i) (xs ! l)" using Suc.prems same by (cases "i = l") (auto simp: moving_down_def)
      then show ?thesis using j False transitive by force
    qed
    then show ?thesis using False by simp
  qed
qed

lemma insertion_sort_sorted: "sorted_wrt leq (insertion_sort cmp xs)"
proof -
  have step: "\<forall>i j. i < j \<and> j < k \<longrightarrow> leq (fold (insert_back cmp) [1..<k] xs ! i) (fold (insert_back cmp) [1..<k] xs ! j)"
    if "k \<le> length xs" for k
    using that
  proof (induction k)
    case (Suc k)
    let ?ys = "fold (insert_back cmp) [1..<k] xs"
    have len: "length ?ys = length xs"
      by (rule fold_invariant [where P = "\<lambda>ys. length ys = length xs" and Q = "\<lambda>_. True"]) auto
    show ?case
    proof (cases "k = 0")
      case False
      have "moving_down k k ?ys" using Suc len by (auto simp: moving_down_def)
      then show ?thesis using insert_back_ordered [of k k ?ys] False by (simp add: less_Suc_eq_le)
    qed simp
  qed simp
  have "length (insertion_sort cmp xs) = length xs" using mset_eq_length [OF mset_insertion_sort] .
  then show ?thesis using step [of "length xs"] by (auto simp: sorted_wrt_iff_nth_less insertion_sort_def)
qed

lemma sorted_wrt_short: "length xs \<le> 1 \<Longrightarrow> sorted_wrt R xs"
  by (cases xs) auto

lemma sorted_parts:
  assumes "sorted_wrt leq as" "sorted_wrt leq cs" "\<forall>x \<in> set as. leq x p" "\<forall>x \<in> set bs. leq x p \<and> leq p x" "\<forall>x \<in> set cs. leq p x"
  shows "sorted_wrt leq (as @ bs @ cs)"
proof -
  have "\<forall>x \<in> set bs. \<forall>y \<in> set bs. leq x y" using assms(4) transitive by blast
  then have "sorted_wrt leq bs" by (induction bs) auto
  moreover have "\<forall>x \<in> set as. \<forall>y \<in> set bs \<union> set cs. leq x y" "\<forall>x \<in> set bs. \<forall>y \<in> set cs. leq x y"
    using assms(3-5) transitive by blast+
  ultimately show ?thesis using assms(1,2) by (simp add: sorted_wrt_append)
qed

lemma qsort_sorted: "sorted_wrt leq (fst (qsort cmp xs))"
proof -
  have "sorted_wrt leq (fst (qsort cmp xs)) \<and> mset (fst (qsort cmp xs)) = mset xs"
  proof (induction rule: qsort_induct [where cmp = cmp and P = "\<lambda>xs q. sorted_wrt leq (fst q) \<and> mset (fst q) = mset xs"])
    case (parts xs d1 d2 ys left right p)
    have len: "length ys = length xs" using mset_eq_length [OF parts(1)] .
    have l: "sorted_wrt leq (fst left)" "mset (fst left) = mset (take d1 ys)"
      using parts(7) by (auto split: if_splits intro!: sorted_wrt_short)
    have r: "sorted_wrt leq (fst right)" "mset (fst right) = mset (drop (length xs - d2) ys)"
      using parts(8) len by (auto split: if_splits intro!: sorted_wrt_short)
    have "leq x p" if "x \<in> set (fst left)" for x
    proof -
      have "x \<in> set (take d1 ys)" using that mset_eq_setD [OF l(2)] by simp
      then obtain i where "i < d1" "x = ys ! i" by (auto simp: in_set_conv_nth)
      then show ?thesis using parts(4) by auto
    qed
    moreover have "leq p x" if "x \<in> set (fst right)" for x
    proof -
      have "x \<in> set (drop (length xs - d2) ys)" using that mset_eq_setD [OF r(2)] by simp
      then obtain i where "i < d2" "x = ys ! (length xs - d2 + i)" using parts(3) len by (auto simp: in_set_conv_nth)
      moreover from this have "length xs - d2 \<le> length xs - d2 + i \<and> length xs - d2 + i < length xs" using parts(3) by linarith
      ultimately have "cmp x p > 0" using parts(5) by blast
      then show ?thesis by (rule swapped)
    qed
    moreover have "leq x p \<and> leq p x" if "x \<in> set (drop d1 (take (length xs - d2) ys))" for x
    proof -
      let ?m = "drop d1 (take (length xs - d2) ys)"
      from that obtain j where "j < length ?m" "?m ! j = x" unfolding in_set_conv_nth by blast
      then have "d1 \<le> d1 + j \<and> d1 + j < length xs - d2" "x = ys ! (d1 + j)" using len by auto
      then have "x = p \<or> cmp x p = 0" using parts(6) by blast
      then show ?thesis using same opposite [of p x] opposite [of x p] by force
    qed
    ultimately have "sorted_wrt leq (fst left @ drop d1 (take (length xs - d2) ys) @ fst right)"
      using l(1) r(1) by (intro sorted_parts [of _ _ p]) auto
    moreover have "mset (fst left @ drop d1 (take (length xs - d2) ys) @ fst right) = mset xs"
      using mset_three [of d1 d2 ys] parts(1,3) len l(2) r(2) by simp
    ultimately show ?case by simp
  qed (simp_all add: insertion_sort_sorted mset_insertion_sort)
  then show ?thesis by blast
qed

end

text \<open>
  C38: For any comparison that is antisymmetric in sign and transitive, qsort returns a permutation
  of its input in ascending order, whatever the length, the duplicates and the order it starts from.
\<close>

theorem qsort_sorts:
  assumes "\<And>x y. cmp x y < 0 \<longleftrightarrow> cmp y x > 0" "\<And>x y z. cmp x y \<le> 0 \<Longrightarrow> cmp y z \<le> 0 \<Longrightarrow> cmp x z \<le> 0"
  shows "sorted_wrt (\<lambda>x y. cmp x y \<le> 0) (fst (qsort cmp xs)) \<and> mset (fst (qsort cmp xs)) = mset xs"
  using cmp_order.qsort_sorted [OF cmp_order.intro [of cmp]] assms mset_qsort by blast

lemma qsort_sorts_witness: "mset (fst (qsort (\<lambda>x y. x - y) [3, 1, 2, 5, 4, 9, 7, 8 :: int])) = {#1, 2, 3, 4, 5, 7, 8, 9#} \<and>
  sorted_wrt (\<lambda>x y. x - y \<le> 0) (fst (qsort (\<lambda>x y. x - y) [3, 1, 2, 5, 4, 9, 7, 8 :: int]))"
  using qsort_sorts [of "\<lambda>x y. x - y" "[3, 1, 2, 5, 4, 9, 7, 8 :: int]"] by simp

end
