(* ===== verification/DynamicCmd.thy ===== *)
theory DynamicCmd
  imports Qsort
begin

text \<open>
  samples/subsys/shell/shell_module/src/dynamic_cmd.c: shell commands that the user adds and removes
  while the shell runs. A row of the buffer is the string it holds. \<open>None\<close> is undefined behaviour.
\<close>

section \<open>Strings\<close>

fun strcmp :: "u8 list \<Rightarrow> u8 list \<Rightarrow> int" where
  "strcmp [] [] = 0"
| "strcmp [] (y # ys) = - 1"
| "strcmp (x # xs) [] = 1"
| "strcmp (x # xs) (y # ys) = (if x = y then strcmp xs ys else if x < y then - 1 else 1)"

definition string_cmp :: "u8 list \<Rightarrow> u8 list \<Rightarrow> int" where
  "string_cmp p_a p_b = strcmp p_a p_b"

definition isalnum :: "u8 \<Rightarrow> bool" where
  "isalnum c = (0x30 \<le> c \<and> c \<le> 0x39 \<or> 0x41 \<le> c \<and> c \<le> 0x5A \<or> 0x61 \<le> c \<and> c \<le> 0x7A)"

lemma strcmp_0 [simp]: "strcmp xs ys = 0 \<longleftrightarrow> xs = ys"
  by (induction xs ys rule: strcmp.induct) auto

lemma strcmp_opposite: "strcmp xs ys = - strcmp ys xs"
  by (induction xs ys rule: strcmp.induct) auto

lemma strcmp_trans: "strcmp xs ys \<le> 0 \<Longrightarrow> strcmp ys zs \<le> 0 \<Longrightarrow> strcmp xs zs \<le> 0"
proof (induction xs ys arbitrary: zs rule: strcmp.induct)
  case (2 y ys)
  then show ?case by (cases zs) auto
next
  case (4 x xs y ys)
  then show ?case by (cases zs) (auto split: if_splits)
qed auto

interpretation strings: cmp_order string_cmp
proof
  show "string_cmp x y < 0 \<longleftrightarrow> string_cmp y x > 0" for x y
    using strcmp_opposite [of x y] by (simp add: string_cmp_def)
  show "string_cmp x y \<le> 0 \<Longrightarrow> string_cmp y z \<le> 0 \<Longrightarrow> string_cmp x z \<le> 0" for x y z
    unfolding string_cmp_def by (rule strcmp_trans)
qed

section \<open>The commands\<close>

abbreviation MAX_CMD_CNT :: nat where "MAX_CMD_CNT \<equiv> 20"
abbreviation MAX_CMD_LEN :: nat where "MAX_CMD_LEN \<equiv> 33"
abbreviation ENOEXEC :: int where "ENOEXEC \<equiv> 8"

record commands =
  dynamic_cmd_buffer :: "u8 list list"
  dynamic_cmd_cnt :: nat

definition commands_init :: commands where
  "commands_init = \<lparr>dynamic_cmd_buffer = replicate MAX_CMD_CNT [], dynamic_cmd_cnt = 0\<rparr>"

definition cmd_dynamic_add :: "u8 list \<Rightarrow> commands \<Rightarrow> (int \<times> commands) option" where
  "cmd_dynamic_add argv1 s =
     (let cnt = dynamic_cmd_cnt s; rows = dynamic_cmd_buffer s; cmd_len = unat (word_of_nat (length argv1) :: u16) in
      if cnt \<ge> MAX_CMD_CNT then Some (- ENOEXEC, s)
      else if cmd_len \<ge> MAX_CMD_LEN then Some (- ENOEXEC, s)
      else if list_ex (\<lambda>c. \<not> isalnum c) (take cmd_len argv1) then Some (- ENOEXEC, s)
      else if list_ex (\<lambda>row. strcmp row argv1 = 0) rows then Some (- ENOEXEC, s)
      else if length argv1 \<ge> MAX_CMD_LEN then None
      else let rows = rows[cnt := argv1]; cnt = cnt + 1
           in Some (0, s\<lparr>dynamic_cmd_buffer := fst (qsort string_cmp (take cnt rows)) @ drop cnt rows, dynamic_cmd_cnt := cnt\<rparr>))"

definition find_cmd :: "u8 list \<Rightarrow> commands \<Rightarrow> nat option" where
  "find_cmd argv1 s = find (\<lambda>idx. strcmp (dynamic_cmd_buffer s ! idx) argv1 = 0) [0..<dynamic_cmd_cnt s]"

definition cmd_dynamic_execute :: "u8 list \<Rightarrow> commands \<Rightarrow> int" where
  "cmd_dynamic_execute argv1 s = (case find_cmd argv1 s of Some _ \<Rightarrow> 0 | None \<Rightarrow> - ENOEXEC)"

text \<open>The move takes \<open>dynamic_cmd_cnt - idx\<close> rows from the one after \<open>idx\<close> on.\<close>

definition cmd_dynamic_remove :: "u8 list \<Rightarrow> commands \<Rightarrow> (int \<times> commands) option" where
  "cmd_dynamic_remove argv1 s = (case find_cmd argv1 s of
     None \<Rightarrow> Some (- ENOEXEC, s)
   | Some idx \<Rightarrow>
       let cnt = dynamic_cmd_cnt s; rows = dynamic_cmd_buffer s;
           moved = (if idx = MAX_CMD_CNT - 1 then Some (rows[idx := []])
                    else if idx + 1 + (cnt - idx) > MAX_CMD_CNT then None
                    else Some (take idx rows @ take (cnt - idx) (drop (idx + 1) rows) @ drop cnt rows))
       in moved \<bind> (\<lambda>rows. Some (0, s\<lparr>dynamic_cmd_buffer := rows, dynamic_cmd_cnt := cnt - 1\<rparr>)))"

definition cmd_dynamic_show :: "commands \<Rightarrow> int \<times> u8 list list" where
  "cmd_dynamic_show s = (if dynamic_cmd_cnt s = 0 then (- ENOEXEC, [])
     else (0, map ((!) (dynamic_cmd_buffer s)) [0..<dynamic_cmd_cnt s]))"

definition dynamic_cmd_get :: "nat \<Rightarrow> commands \<Rightarrow> u8 list option" where
  "dynamic_cmd_get idx s = (if idx < dynamic_cmd_cnt s then Some (dynamic_cmd_buffer s ! idx) else None)"

section \<open>A set of names\<close>

abbreviation ascending :: "u8 list list \<Rightarrow> bool" where
  "ascending \<equiv> sorted_wrt (\<lambda>x y. strcmp x y < 0)"

definition names :: "commands \<Rightarrow> u8 list list" where
  "names s = take (dynamic_cmd_cnt s) (dynamic_cmd_buffer s)"

definition valid_name :: "u8 list \<Rightarrow> bool" where
  "valid_name n \<longleftrightarrow> n \<noteq> [] \<and> length n < MAX_CMD_LEN \<and> list_all isalnum n"

definition commands_ok :: "commands \<Rightarrow> bool" where
  "commands_ok s \<longleftrightarrow> dynamic_cmd_cnt s \<le> MAX_CMD_CNT \<and> length (dynamic_cmd_buffer s) = MAX_CMD_CNT \<and> ascending (names s) \<and>
     list_all valid_name (names s) \<and> drop (dynamic_cmd_cnt s) (dynamic_cmd_buffer s) = replicate (MAX_CMD_CNT - dynamic_cmd_cnt s) []"

lemma ascending_iff: "ascending ns \<longleftrightarrow> sorted_wrt (\<lambda>x y. string_cmp x y \<le> 0) ns \<and> distinct ns"
proof (induction ns)
  case (Cons n ns)
  have "strcmp n m < 0 \<longleftrightarrow> string_cmp n m \<le> 0 \<and> n \<noteq> m" for m by (auto simp: string_cmp_def order.strict_iff_order)
  then show ?case using Cons by auto
qed simp

lemma ok_rows: "commands_ok s \<Longrightarrow> dynamic_cmd_buffer s = names s @ replicate (MAX_CMD_CNT - dynamic_cmd_cnt s) [] \<and> length (names s) = dynamic_cmd_cnt s"
  by (metis append_take_drop_id commands_ok_def length_take min.absorb2 names_def)

text \<open>What adding does, by the names that are there.\<close>

lemma add_result:
  assumes ok: "commands_ok s" and short: "length n < 65536"
  shows "if length (names s) < MAX_CMD_CNT \<and> valid_name n \<and> n \<notin> set (names s)
    then \<exists>s'. cmd_dynamic_add n s = Some (0, s') \<and> commands_ok s' \<and> mset (names s') = mset (names s) + {#n#}
    else cmd_dynamic_add n s = Some (- ENOEXEC, s)"
proof -
  note r = ok_rows [OF ok]
  let ?cnt = "dynamic_cmd_cnt s"
  have len: "unat (word_of_nat (length n) :: u16) = length n" using short by (simp add: unat_of_nat)
  have dup: "list_ex (\<lambda>row. strcmp row n = 0) (dynamic_cmd_buffer s) \<longleftrightarrow> n \<in> set (names s) \<or> ?cnt < MAX_CMD_CNT \<and> n = []"
    using r by (auto simp: list_ex_iff)
  have valid: "valid_name n \<longleftrightarrow> n \<noteq> [] \<and> length n < MAX_CMD_LEN \<and> \<not> list_ex (\<lambda>c. \<not> isalnum c) (take (length n) n)"
    by (auto simp: valid_name_def list_ex_iff list_all_iff)
  show ?thesis
  proof (cases "length (names s) < MAX_CMD_CNT \<and> valid_name n \<and> n \<notin> set (names s)")
    case False
    then show ?thesis using r dup valid len by (auto simp: cmd_dynamic_add_def Let_def)
  next
    case True
    let ?rows = "(dynamic_cmd_buffer s)[?cnt := n]"
    have c: "?cnt < MAX_CMD_CNT" using True r by simp
    then obtain k where k: "MAX_CMD_CNT - ?cnt = Suc k" by (cases "MAX_CMD_CNT - ?cnt") auto
    have rows: "?rows = names s @ n # replicate k []" using r k by (simp add: list_update_append)
    then have t: "take (?cnt + 1) ?rows = names s @ [n]" "drop (?cnt + 1) ?rows = replicate k []" using r by simp_all
    define q where "q = fst (qsort string_cmp (names s @ [n]))"
    define s' where "s' = s\<lparr>dynamic_cmd_buffer := q @ replicate k [], dynamic_cmd_cnt := ?cnt + 1\<rparr>"
    have m: "mset q = mset (names s) + {#n#}" by (simp add: q_def mset_qsort)
    then have l: "length q = ?cnt + 1" using mset_eq_length [of q "n # names s"] r by simp
    then have names: "names s' = q" by (simp add: names_def s'_def)
    have "distinct (n # names s)" using ok True by (auto simp: commands_ok_def ascending_iff)
    then have "distinct q" using m mset_eq_imp_distinct_iff [of q "n # names s"] by simp
    then have "ascending q" using strings.qsort_sorted unfolding ascending_iff q_def by blast
    moreover have "set q = insert n (set (names s))" using m mset_eq_setD [of q "n # names s"] by simp
    then have "list_all valid_name q" using ok True by (auto simp: list_all_iff commands_ok_def)
    moreover have "length (q @ replicate k []) = MAX_CMD_CNT" "drop (?cnt + 1) (q @ replicate k []) = replicate (MAX_CMD_CNT - (?cnt + 1)) []"
      using l c k by auto
    ultimately have "commands_ok s'" using c unfolding commands_ok_def names by (simp add: s'_def)
    moreover have "cmd_dynamic_add n s = Some (0, s')"
      using True c r dup valid len t unfolding s'_def q_def by (auto simp: cmd_dynamic_add_def Let_def)
    ultimately show ?thesis using True m names by auto
  qed
qed

lemma find_cmd_result:
  assumes "commands_ok s"
  shows "case find_cmd n s of None \<Rightarrow> n \<notin> set (names s) | Some idx \<Rightarrow> idx < dynamic_cmd_cnt s \<and> names s ! idx = n"
proof -
  note r = ok_rows [OF assms]
  have n: "dynamic_cmd_buffer s ! i = names s ! i" if "i < dynamic_cmd_cnt s" for i using that by (simp add: names_def)
  show ?thesis
  proof (cases "find_cmd n s")
    case None
    then have "\<forall>i < dynamic_cmd_cnt s. names s ! i \<noteq> n" using n by (auto simp: find_cmd_def find_None_iff)
    then show ?thesis using None r by (auto simp: in_set_conv_nth)
  next
    case (Some idx)
    then have "idx < dynamic_cmd_cnt s" "dynamic_cmd_buffer s ! idx = n" by (auto simp: find_cmd_def find_Some_iff)
    then show ?thesis using Some n by simp
  qed
qed

lemma ascending_append: "ascending (xs @ ys) \<longleftrightarrow> ascending xs \<and> ascending ys \<and> (\<forall>x \<in> set xs. \<forall>y \<in> set ys. strcmp x y < 0)"
  by (rule sorted_wrt_append)

text \<open>What removing does; the case of a full table is the one in which the move reads a row too far.\<close>

lemma remove_result:
  assumes ok: "commands_ok s"
  shows "if n \<notin> set (names s) then cmd_dynamic_remove n s = Some (- ENOEXEC, s)
    else if length (names s) = MAX_CMD_CNT \<and> n \<noteq> last (names s) then cmd_dynamic_remove n s = None
    else \<exists>s'. cmd_dynamic_remove n s = Some (0, s') \<and> commands_ok s' \<and> names s' = remove1 n (names s)"
proof (cases "find_cmd n s")
  case None
  then show ?thesis using find_cmd_result [OF ok, of n] by (simp add: cmd_dynamic_remove_def)
next
  case (Some idx)
  let ?cnt = "dynamic_cmd_cnt s"
  note r = ok_rows [OF ok]
  have i: "idx < ?cnt" "names s ! idx = n" using find_cmd_result [OF ok, of n] Some by simp_all
  then have mem: "n \<in> set (names s)" using r by (metis nth_mem)
  define as bs where "as = take idx (names s)" and "bs = drop (Suc idx) (names s)"
  have split: "names s = as @ n # bs" using id_take_nth_drop [of idx "names s"] i r by (simp add: as_def bs_def)
  have la: "length as = idx" "length bs = ?cnt - Suc idx" using i r by (simp_all add: as_def bs_def)
  have d: "distinct (as @ n # bs)" using ok unfolding split [symmetric] by (auto simp: commands_ok_def ascending_iff)
  then have rem: "remove1 n (names s) = as @ bs" unfolding split by (simp add: remove1_append)
  have asc: "ascending (as @ bs)" "list_all valid_name (as @ bs)"
    using ok unfolding commands_ok_def split by (auto simp: ascending_append)
  have last: "n = last (names s) \<longleftrightarrow> bs = []" using d unfolding split by (cases bs rule: rev_cases) auto
  have cnt: "?cnt \<le> MAX_CMD_CNT" using ok by (simp add: commands_ok_def)
  show ?thesis
  proof (cases "?cnt = MAX_CMD_CNT \<and> bs \<noteq> []")
    case True
    then have "idx \<noteq> MAX_CMD_CNT - 1" using la by auto
    then have "cmd_dynamic_remove n s = None" using Some True i by (simp add: cmd_dynamic_remove_def Let_def)
    then show ?thesis using True mem last r by simp
  next
    case False
    define s' where "s' = s\<lparr>dynamic_cmd_buffer := as @ bs @ replicate (Suc (MAX_CMD_CNT - ?cnt)) [], dynamic_cmd_cnt := ?cnt - 1\<rparr>"
    have removed: "cmd_dynamic_remove n s = Some (0, s')"
    proof (cases "?cnt = MAX_CMD_CNT")
      case True
      then have "bs = []" "idx = 19" using False la i by auto
      then show ?thesis using Some True r split la by (simp add: cmd_dynamic_remove_def Let_def s'_def list_update_append)
    next
      case False
      then obtain k where k: "MAX_CMD_CNT - ?cnt = Suc k" using cnt by (cases "MAX_CMD_CNT - ?cnt") auto
      have cnt': "?cnt = Suc (length as + length bs)" using la i by simp
      have "take idx (dynamic_cmd_buffer s) = as" "take (?cnt - idx) (drop (idx + 1) (dynamic_cmd_buffer s)) = bs @ [[]]"
          "drop ?cnt (dynamic_cmd_buffer s) = replicate (Suc k) []"
        using r split la(1) k cnt' by (simp_all add: cnt')
      moreover have "idx \<noteq> MAX_CMD_CNT - 1" "\<not> idx + 1 + (?cnt - idx) > MAX_CMD_CNT" using False cnt i by auto
      ultimately show ?thesis using Some k by (simp add: cmd_dynamic_remove_def Let_def s'_def)
    qed
    moreover have nm: "names s' = as @ bs" using la i by (simp add: names_def s'_def)
    moreover have "MAX_CMD_CNT - (?cnt - 1) = Suc (MAX_CMD_CNT - ?cnt)" "length as + length bs = ?cnt - 1" using la i cnt by auto
    then have "length (as @ bs @ replicate (Suc (MAX_CMD_CNT - ?cnt)) []) = MAX_CMD_CNT"
        "drop (?cnt - 1) (as @ bs @ replicate (Suc (MAX_CMD_CNT - ?cnt)) []) = replicate (MAX_CMD_CNT - (?cnt - 1)) []"
      using cnt i by simp_all
    moreover have "dynamic_cmd_buffer s' = as @ bs @ replicate (Suc (MAX_CMD_CNT - ?cnt)) []" "dynamic_cmd_cnt s' = ?cnt - 1"
      by (simp_all add: s'_def)
    moreover have "?cnt - 1 \<le> MAX_CMD_CNT" using cnt by simp
    ultimately have "commands_ok s'" unfolding commands_ok_def using asc by (simp only: simp_thms)
    then show ?thesis using removed nm False mem last r rem by auto
  qed
qed

inductive commands_reachable :: "commands \<Rightarrow> bool" where
  started: "commands_reachable commands_init"
| added: "commands_reachable s \<Longrightarrow> length n < 65536 \<Longrightarrow> cmd_dynamic_add n s = Some (res, s') \<Longrightarrow> commands_reachable s'"
| removed: "commands_reachable s \<Longrightarrow> cmd_dynamic_remove n s = Some (res, s') \<Longrightarrow> commands_reachable s'"

lemma commands_reachable_ok: "commands_reachable s \<Longrightarrow> commands_ok s"
proof (induction rule: commands_reachable.induct)
  case started
  show ?case by (simp add: commands_ok_def commands_init_def names_def)
next
  case (added s n res s')
  then show ?case using add_result [of s n] by (auto split: if_splits)
next
  case (removed s n res s')
  then show ?case using remove_result [of s n] by (auto split: if_splits)
qed

text \<open>
  C40: After any adding and removing, the names in the table are strictly ascending and behave as a
  set of at most twenty names: adding a new valid name inserts it, removing a name deletes it,
  executing finds exactly the names of the set, and every other request is refused without a change.
  The one exception is removing a name that is not the last one from a full table, which is
  undefined.
\<close>

theorem commands_form_a_set:
  assumes "commands_reachable s" "length n < 65536"
  shows "ascending (names s) \<and> length (names s) \<le> MAX_CMD_CNT \<and> (cmd_dynamic_execute n s = 0 \<longleftrightarrow> n \<in> set (names s)) \<and>
    (if length (names s) < MAX_CMD_CNT \<and> valid_name n \<and> n \<notin> set (names s)
     then \<exists>s'. cmd_dynamic_add n s = Some (0, s') \<and> ascending (names s') \<and> set (names s') = insert n (set (names s))
     else cmd_dynamic_add n s = Some (- ENOEXEC, s)) \<and>
    (if n \<notin> set (names s) then cmd_dynamic_remove n s = Some (- ENOEXEC, s)
     else if length (names s) = MAX_CMD_CNT \<and> n \<noteq> last (names s) then cmd_dynamic_remove n s = None
     else \<exists>s'. cmd_dynamic_remove n s = Some (0, s') \<and> ascending (names s') \<and> set (names s') = set (names s) - {n})"
proof (intro conjI)
  have ok: "commands_ok s" using assms(1) by (rule commands_reachable_ok)
  then show a: "ascending (names s)" "length (names s) \<le> MAX_CMD_CNT" using ok_rows [OF ok] by (simp_all add: commands_ok_def)
  show "cmd_dynamic_execute n s = 0 \<longleftrightarrow> n \<in> set (names s)"
    using find_cmd_result [OF ok, of n] ok_rows [OF ok] nth_mem by (fastforce simp: cmd_dynamic_execute_def split: option.splits)
  show "if length (names s) < MAX_CMD_CNT \<and> valid_name n \<and> n \<notin> set (names s)
     then \<exists>s'. cmd_dynamic_add n s = Some (0, s') \<and> ascending (names s') \<and> set (names s') = insert n (set (names s))
     else cmd_dynamic_add n s = Some (- ENOEXEC, s)"
    using add_result [OF ok assms(2)] mset_eq_setD [of _ "n # names s"] by (fastforce simp: commands_ok_def split: if_splits)
  show "if n \<notin> set (names s) then cmd_dynamic_remove n s = Some (- ENOEXEC, s)
     else if length (names s) = MAX_CMD_CNT \<and> n \<noteq> last (names s) then cmd_dynamic_remove n s = None
     else \<exists>s'. cmd_dynamic_remove n s = Some (0, s') \<and> ascending (names s') \<and> set (names s') = set (names s) - {n}"
    using remove_result [OF ok, of n] a by (auto simp: commands_ok_def ascending_iff split: if_splits)
qed

lemma commands_form_a_set_witness:
  "\<exists>s. cmd_dynamic_add [0x61, 0x62] commands_init = Some (0, s) \<and> set (names s) = {[0x61, 0x62]}"
  using commands_form_a_set [OF commands_reachable.started, of "[0x61, 0x62]"]
  by (auto simp: commands_init_def names_def valid_name_def isalnum_def)

lemma tables_of_every_size:
  "k \<le> MAX_CMD_CNT \<Longrightarrow> \<exists>s. commands_reachable s \<and> mset (names s) = mset (map (\<lambda>i. replicate (Suc i) 0x61) [0..<k])"
proof (induction k)
  case 0
  show ?case by (rule exI [of _ commands_init]) (simp add: commands_reachable.started [unfolded commands_init_def] commands_init_def names_def)
next
  case (Suc k)
  then obtain s where s: "commands_reachable s" "mset (names s) = mset (map (\<lambda>i. replicate (Suc i) (0x61 :: u8)) [0..<k])" by auto
  let ?n = "replicate (Suc k) (0x61 :: u8)"
  have "length (names s) = k" "set (names s) = (\<lambda>i. replicate (Suc i) 0x61) ` {0..<k}"
    using mset_eq_length [OF s(2)] mset_eq_setD [OF s(2)] by simp_all
  moreover have "valid_name ?n" using Suc.prems by (simp add: valid_name_def isalnum_def list_all_iff)
  moreover have "?n \<notin> (\<lambda>i. replicate (Suc i) 0x61) ` {0..<k}" by (auto dest: arg_cong [of _ _ length])
  moreover have "length ?n < 65536" using Suc.prems by simp
  ultimately obtain s' where "cmd_dynamic_add ?n s = Some (0, s')" "mset (names s') = mset (names s) + {#?n#}"
    using add_result [OF commands_reachable_ok [OF s(1)], of ?n] Suc.prems by auto
  then show ?case using s commands_reachable.added [OF s(1) \<open>length ?n < 65536\<close>] by (intro exI [of _ s']) auto
qed

theorem removing_from_full_table:
  "\<exists>s. commands_reachable s \<and> length (names s) = MAX_CMD_CNT \<and> list_all (\<lambda>n. cmd_dynamic_remove n s = None) (butlast (names s))"
proof -
  obtain s where s: "commands_reachable s" "mset (names s) = mset (map (\<lambda>i. replicate (Suc i) (0x61 :: u8)) [0..<MAX_CMD_CNT])"
    using tables_of_every_size [of MAX_CMD_CNT] by blast
  have ok: "commands_ok s" using s(1) by (rule commands_reachable_ok)
  have l: "length (names s) = MAX_CMD_CNT" using mset_eq_length [OF s(2)] by simp
  have "cmd_dynamic_remove n s = None" if "n \<in> set (butlast (names s))" for n
  proof -
    have "distinct (butlast (names s) @ [last (names s)])" using ok l by (subst append_butlast_last_id) (auto simp: commands_ok_def ascending_iff)
    then have "n \<noteq> last (names s)" using that by auto
    then show ?thesis using remove_result [OF ok, of n] l in_set_butlastD [OF that] by simp
  qed
  then show ?thesis using s(1) l by (auto simp: list_all_iff)
qed

end
