(* ===== verification/ZperfUnits.thy ===== *)
theory ZperfUnits
  imports Prelude "HOL-Library.Char_ord"
begin

text \<open>
  samples/net/zperf/src: shell_utils.c (numbers with units) and the arithmetic of
  zperf_internal.h. \<open>long\<close> has 32 bits, as on the boards the sample is built for. A table of
  divisors ends with 0; running past its end is \<open>None\<close>.
\<close>

section \<open>Time\<close>

type_synonym u64 = "64 word"

abbreviation USEC_PER_SEC :: "'a :: numeral" where "USEC_PER_SEC \<equiv> 1000000"

text \<open>\<open>hz\<close> is \<open>sys_clock_hw_cycles_per_sec\<close>, a positive number.\<close>

definition HW_CYCLES_TO_USEC :: "u32 \<Rightarrow> u32 \<Rightarrow> u64" where
  "HW_CYCLES_TO_USEC hz cycles = ucast cycles * USEC_PER_SEC div ucast hz"

definition HW_CYCLES_TO_SEC :: "u32 \<Rightarrow> u32 \<Rightarrow> u64" where
  "HW_CYCLES_TO_SEC hz cycles = HW_CYCLES_TO_USEC hz cycles div USEC_PER_SEC"

definition MSEC_TO_HW_CYCLES :: "u32 \<Rightarrow> u32 \<Rightarrow> u64" where
  "MSEC_TO_HW_CYCLES hz ms = (ucast ms * 1000) * ucast hz div USEC_PER_SEC"

definition time_delta :: "u32 \<Rightarrow> u32 \<Rightarrow> u32" where
  "time_delta ts t = (if ts \<le> t then t - ts else 0xFFFFFFFF - ts + t)"

lemma time_delta_forward: "ts \<le> t \<Longrightarrow> unat (time_delta ts t) = unat t - unat ts"
  by (simp add: time_delta_def unat_sub)

text \<open>Across a wrap of the counter the difference comes out one too small.\<close>

lemma time_delta_wrap: "t < ts \<Longrightarrow> time_delta ts t = t - ts - 1"
  by (simp add: time_delta_def)

section \<open>Tables of units\<close>

definition TIME_US :: "u32 list" where "TIME_US = [60 * 1000 * 1000, 1000 * 1000, 1000, 0]"
definition TIME_US_UNIT :: "string list" where "TIME_US_UNIT = [''m'', ''s'', ''ms'', ''us'']"
definition KBPS :: "u32 list" where "KBPS = [1024, 0]"
definition KBPS_UNIT :: "string list" where "KBPS_UNIT = [''Mbps'', ''Kbps'']"
definition K :: "u32 list" where "K = [1024 * 1024, 1024, 0]"
definition K_UNIT :: "string list" where "K_UNIT = [''M'', ''K'', '''']"

section \<open>Printing\<close>

fun decimal :: "nat \<Rightarrow> string" where
  "decimal n = (if n < 10 then [char_of (48 + n)] else decimal (n div 10) @ [char_of (48 + n mod 10)])"

declare decimal.simps [simp del]

fun find_unit :: "u32 \<Rightarrow> u32 list \<Rightarrow> string list \<Rightarrow> (u32 \<times> string) option" where
  "find_unit value (d # ds) (u # us) = (if value < d then find_unit value ds us else Some (d, u))"
| "find_unit value _ _ = None"

definition hundredths :: "u32 \<Rightarrow> u32 \<Rightarrow> u32" where
  "hundredths value d = (value mod d) * 100 div d"

definition print_number :: "u32 \<Rightarrow> u32 list \<Rightarrow> string list \<Rightarrow> string option" where
  "print_number value divisor units = do {
     (d, unit) \<leftarrow> find_unit value divisor units;
     Some (if d \<noteq> 0
       then let radix = value div d; dec = hundredths value d
            in decimal (unat radix) @ ''.'' @ (if dec < 10 then ''0'' else '''') @ decimal (unat dec) @ '' '' @ unit
       else decimal (unat value) @ '' '' @ unit)
   }"

section \<open>Parsing\<close>

definition isdigit :: "char \<Rightarrow> bool" where "isdigit c = (CHR ''0'' \<le> c \<and> c \<le> CHR ''9'')"

definition isspace :: "char \<Rightarrow> bool" where
  "isspace c = (c = CHR '' '' \<or> (9 \<le> (of_char c :: nat) \<and> (of_char c :: nat) \<le> 13))"

fun digits :: "nat \<Rightarrow> string \<Rightarrow> nat \<times> string" where
  "digits acc [] = (acc, [])"
| "digits acc (c # cs) = (if isdigit c then digits (10 * acc + (of_char c - 48)) cs else (acc, c # cs))"

text \<open>\<open>strtoul\<close> in base 10: white space, a sign, digits; it saturates at ULONG_MAX.\<close>

definition strtoul :: "string \<Rightarrow> u32 \<times> string" where
  "strtoul str =
     (let s = dropWhile isspace str;
          (neg, s) = (case s of c # cs \<Rightarrow> if c = CHR ''-'' then (True, cs) else if c = CHR ''+'' then (False, cs) else (False, s) | [] \<Rightarrow> (False, s))
      in case s of
           c # cs \<Rightarrow> if isdigit c
             then let (n, rest) = digits 0 s
                  in (if n > 0xFFFFFFFF then 0xFFFFFFFF else if neg then - of_nat n else of_nat n, rest)
             else (0, str)
         | [] \<Rightarrow> (0, str))"

definition tolower :: "char \<Rightarrow> char" where
  "tolower c = (if CHR ''A'' \<le> c \<and> c \<le> CHR ''Z'' then char_of (of_char c + (32 :: nat)) else c)"

text \<open>\<open>strncasecmp (suffix, unit, 1) = 0\<close>: the first characters agree, or both strings are empty.\<close>

definition same_initial :: "string \<Rightarrow> string \<Rightarrow> bool" where
  "same_initial s t = (case (s, t) of ([], []) \<Rightarrow> True | (c # _, d # _) \<Rightarrow> tolower c = tolower d | _ \<Rightarrow> False)"

fun suffix_divisor :: "string \<Rightarrow> u32 list \<Rightarrow> string list \<Rightarrow> u32 option" where
  "suffix_divisor s (d # ds) (u # us) =
     (if same_initial s u then Some d
      else case ds of [] \<Rightarrow> None | d' # _ \<Rightarrow> if d' \<noteq> 0 then suffix_divisor s ds us else Some d')"
| "suffix_divisor s _ _ = None"

definition parse_number :: "string \<Rightarrow> u32 list \<Rightarrow> string list \<Rightarrow> u32 option" where
  "parse_number str divisor units =
     (let (dec, suffix) = strtoul str
      in suffix_divisor suffix divisor units \<bind> (\<lambda>d. Some (if d = 0 then dec else dec * d)))"

section \<open>What a number is printed as\<close>

lemma find_unit_ends: "0 \<in> set ds \<Longrightarrow> length us = length ds \<Longrightarrow> find_unit v ds us \<noteq> None"
proof (induction v ds us rule: find_unit.induct)
  case (1 v d ds u us)
  then show ?case by auto
qed auto

lemma find_unit_first:
  "find_unit v ds us = Some (d, u) \<Longrightarrow> \<exists>i < length ds. d = ds ! i \<and> u = us ! i \<and> d \<le> v \<and> list_all (\<lambda>d'. v < d') (take i ds)"
proof (induction v ds us rule: find_unit.induct)
  case (1 v d' ds u' us)
  show ?case
  proof (cases "v < d'")
    case True
    then obtain i where "i < length ds" "d = ds ! i \<and> u = us ! i \<and> d \<le> v \<and> list_all (\<lambda>d'. v < d') (take i ds)"
      using 1 by auto
    then show ?thesis using True by (intro exI [of _ "Suc i"]) auto
  next
    case False
    then show ?thesis using 1 by (intro exI [of _ 0]) auto
  qed
qed auto

text \<open>The number of hundredths of the unit, as a decimal fraction with two places.\<close>

definition two_digits :: "nat \<Rightarrow> string" where
  "two_digits n = [char_of (48 + n div 10), char_of (48 + n mod 10)]"

definition fixed_point :: "nat \<Rightarrow> nat \<Rightarrow> string \<Rightarrow> string" where
  "fixed_point v d u = (if d = 0 then decimal v @ '' '' @ u
     else let h = v * 100 div d in decimal (h div 100) @ ''.'' @ two_digits (h mod 100) @ '' '' @ u)"

lemma padded_decimal: "n < 100 \<Longrightarrow> (if n < 10 then ''0'' else '''') @ decimal n = two_digits n"
  using div_less_iff_less_mult [of 10 n 10]
  by (auto simp: two_digits_def decimal.simps [of n] decimal.simps [of "n div 10"] char_of_def bit_iff_odd)

lemma two_digits_inj: "m < 100 \<Longrightarrow> n < 100 \<Longrightarrow> two_digits m = two_digits n \<longleftrightarrow> m = n"
proof -
  assume b: "m < 100" "n < 100"
  have c: "(char_of (48 + i) = (char_of (48 + j) :: char)) = (i = j)" if "i < 10" "j < 10" for i j :: nat
  proof
    assume "char_of (48 + i) = (char_of (48 + j) :: char)"
    then have "of_char (char_of (48 + i)) = (of_char (char_of (48 + j)) :: nat)" by simp
    then show "i = j" using that by simp
  qed simp
  show ?thesis using b c [of "m div 10" "n div 10"] c [of "m mod 10" "n mod 10"]
    by (auto simp: two_digits_def) (metis div_mult_mod_eq)
qed

lemma hundredths_split:
  fixes v d :: nat
  assumes "0 < d"
  shows "v * 100 div d = 100 * (v div d) + (v mod d) * 100 div d" "(v mod d) * 100 div d < 100"
proof -
  have "v * 100 = (v mod d) * 100 + (100 * (v div d)) * d"
    by (metis add.commute add_mult_distrib div_mult_mod_eq mult.assoc mult.commute)
  then show "v * 100 div d = 100 * (v div d) + (v mod d) * 100 div d" using assms by simp
  have "v mod d < d" using assms by simp
  then show "(v mod d) * 100 div d < 100" using assms by (simp add: less_mult_imp_div_less)
qed

lemma unat_hundredths: "unat (hundredths v d) = (unat v mod unat d) * 100 mod 2 ^ 32 div unat d"
  by (simp add: hundredths_def unat_div unat_mod unat_word_ariths)

lemma hundredths_exact:
  "(unat v mod unat d) * 100 < 2 ^ 32 \<Longrightarrow> unat (hundredths v d) = (unat v mod unat d) * 100 div unat d"
  by (simp only: unat_hundredths mod_less)

lemma unat_less_10: "(dec :: u32) < 10 \<longleftrightarrow> unat dec < 10"
  by (simp add: word_less_nat_alt)

lemma print_number_text:
  assumes unit: "find_unit v ds us = Some (d, u)" and d: "d \<noteq> 0" and dec: "unat (hundredths v d) < 100"
  shows "print_number v ds us = Some (decimal (unat v div unat d) @ ''.'' @ two_digits (unat (hundredths v d)) @ '' '' @ u)"
proof -
  have "print_number v ds us = Some (decimal (unat v div unat d) @ ''.'' @
      ((if unat (hundredths v d) < 10 then ''0'' else '''') @ decimal (unat (hundredths v d))) @ '' '' @ u)"
    using unit d by (simp add: print_number_def Let_def unat_div unat_less_10)
  then show ?thesis unfolding padded_decimal [OF dec] .
qed

lemma print_number_fixed_point:
  assumes unit: "find_unit v ds us = Some (d, u)" and small: "d \<noteq> 0 \<Longrightarrow> (unat v mod unat d) * 100 < 2 ^ 32"
  shows "print_number v ds us = Some (fixed_point (unat v) (unat d) u)"
proof (cases "d = 0")
  case True
  then show ?thesis using unit by (simp add: print_number_def fixed_point_def)
next
  case False
  then have pos: "0 < unat d" by (simp add: unat_gt_0)
  note split = hundredths_split [OF pos, of "unat v"]
  note h = hundredths_exact [OF small [OF False]]
  show ?thesis unfolding print_number_text [OF unit False, unfolded h, OF split(2)]
    using pos split by (simp add: fixed_point_def Let_def)
qed

lemma units_found:
  "find_unit v KBPS KBPS_UNIT = Some (if v < 1024 then (0, ''Kbps'') else (1024, ''Mbps''))"
  "find_unit v K K_UNIT = Some (if v < 1024 then (0, '''') else if v < 1048576 then (1024, ''K'') else (1048576, ''M''))"
  "find_unit v TIME_US TIME_US_UNIT = Some (if v < 1000 then (0, ''us'') else if v < 1000000 then (1000, ''ms'')
     else if v < 60000000 then (1000000, ''s'') else (60000000, ''m''))"
  unfolding KBPS_def KBPS_UNIT_def K_def K_UNIT_def TIME_US_def TIME_US_UNIT_def
  by (auto simp: word_less_nat_alt)

lemma remainder_small: "0 < d \<Longrightarrow> d \<le> 42949673 \<Longrightarrow> (v mod d) * 100 < (2 :: nat) ^ 32"
  using mod_less_divisor [of d v] unfolding power_numeral by fastforce

lemma minute_hundredths:
  fixes r :: nat
  assumes "42949672 < r" "r < 60000000"
  shows "r * 100 mod 2 ^ 32 div 60000000 + 71 \<le> r * 100 div 60000000"
proof -
  obtain a where a: "r * 100 = a + 2 ^ 32" using assms using le_Suc_ex [of "2 ^ 32" "r * 100"] by (auto simp: add.commute)
  have "r * 100 mod 2 ^ 32 = a" using assms a by simp
  moreover have "a div 60000000 + 71 = (a + 71 * 60000000) div 60000000" by simp
  moreover have "(a + 71 * 60000000) div 60000000 \<le> r * 100 div 60000000" unfolding a by (rule div_le_mono) simp
  ultimately show ?thesis by simp
qed

definition spoils_minutes :: "u32 \<Rightarrow> bool" where
  "spoils_minutes v \<longleftrightarrow> 60000000 \<le> v \<and> 42949672 < unat v mod 60000000"

definition time_text :: "u32 \<Rightarrow> string" where
  "time_text v = (if v < 1000 then fixed_point (unat v) 0 ''us'' else if v < 1000000 then fixed_point (unat v) 1000 ''ms''
     else if v < 60000000 then fixed_point (unat v) 1000000 ''s'' else fixed_point (unat v) 60000000 ''m'')"

lemma printed_minutes:
  assumes "spoils_minutes v"
  shows "print_number v TIME_US TIME_US_UNIT \<noteq> Some (time_text v)"
proof -
  have big: "\<not> v < 60000000" and r: "42949672 < unat v mod 60000000" using assms by (auto simp: spoils_minutes_def)
  have nb: "\<not> v < 1000" "\<not> v < 1000000" using big by (auto simp: word_less_nat_alt)
  have unit: "find_unit v TIME_US TIME_US_UNIT = Some (60000000, ''m'')" using big nb by (simp add: units_found)
  note split = hundredths_split [of 60000000 "unat v"]
  have low: "unat (hundredths v 60000000) + 71 \<le> unat v mod 60000000 * 100 div 60000000"
    unfolding unat_hundredths using minute_hundredths [OF r] by simp
  have dec: "unat (hundredths v 60000000) < 100" using low split(2) by simp
  have "two_digits (unat (hundredths v 60000000)) \<noteq> two_digits (unat v mod 60000000 * 100 div 60000000)"
    using two_digits_inj [OF dec] split(2) low by simp
  then show ?thesis using print_number_text [OF unit _ dec] big nb split
    by (simp add: time_text_def fixed_point_def Let_def)
qed

lemma printed_time: "\<not> spoils_minutes v \<Longrightarrow> print_number v TIME_US TIME_US_UNIT = Some (time_text v)"
proof -
  assume ok: "\<not> spoils_minutes v"
  obtain d u where unit: "find_unit v TIME_US TIME_US_UNIT = Some (d, u)" by (metis units_found(3) surj_pair)
  have small: "(unat v mod unat d) * 100 < 2 ^ 32" if "d \<noteq> 0"
  proof (cases "v < 60000000")
    case True
    then have "unat d \<le> 42949673" using unit by (auto simp: units_found split: if_splits)
    then show ?thesis using that by (intro remainder_small) (simp_all add: unat_gt_0)
  next
    case False
    then have "d = 60000000" using unit by (auto simp: units_found word_less_nat_alt split: if_splits)
    then show ?thesis using ok False by (simp add: spoils_minutes_def not_less)
  qed
  show ?thesis using print_number_fixed_point [OF unit small] unit
    by (auto simp: units_found time_text_def split: if_splits)
qed

theorem printed_numbers:
  "print_number v KBPS KBPS_UNIT = Some (if v < 1024 then fixed_point (unat v) 0 ''Kbps'' else fixed_point (unat v) 1024 ''Mbps'')
   \<and> (print_number v TIME_US TIME_US_UNIT = Some (time_text v) \<longleftrightarrow> \<not> spoils_minutes v)"
proof
  show "print_number v KBPS KBPS_UNIT = Some (if v < 1024 then fixed_point (unat v) 0 ''Kbps'' else fixed_point (unat v) 1024 ''Mbps'')"
    using print_number_fixed_point [of v KBPS KBPS_UNIT] remainder_small [of 1024 "unat v"]
    by (cases "v < 1024") (simp_all add: units_found)
  show "print_number v TIME_US TIME_US_UNIT = Some (time_text v) \<longleftrightarrow> \<not> spoils_minutes v"
    using printed_minutes printed_time by blast
qed

section \<open>What a text is read as\<close>

lemma isdigit_char: "k < 10 \<Longrightarrow> isdigit (char_of (48 + k))" "k < 10 \<Longrightarrow> of_char (char_of (48 + k) :: char) = 48 + (k :: nat)"
  by (simp_all add: isdigit_def less_eq_char_def)

lemma digits_decimal: "digits acc (decimal n @ rest) = digits (acc * 10 ^ length (decimal n) + n) rest"
proof (induction n arbitrary: acc rest rule: decimal.induct)
  case (1 n)
  show ?case
  proof (cases "n < 10")
    case True
    then show ?thesis by (simp add: decimal.simps [of n] isdigit_char mult.commute)
  next
    case False
    have "10 * (n div 10) + n mod 10 = n" by simp
    then show ?thesis using 1 False
      by (simp add: decimal.simps [of n] isdigit_char algebra_simps)
  qed
qed

lemma char_eq_of_char: "(c :: char) = d \<longleftrightarrow> of_char c = (of_char d :: nat)"
  by simp

lemma tolower_letters:
  "tolower c = CHR ''m'' \<longleftrightarrow> c = CHR ''m'' \<or> c = CHR ''M''"
  "tolower c = CHR ''k'' \<longleftrightarrow> c = CHR ''k'' \<or> c = CHR ''K''"
  unfolding tolower_def less_eq_char_def char_eq_of_char
  by (auto simp del: of_char_eq_iff)

lemma decimal_starts: "\<exists>c cs. decimal n = c # cs \<and> isdigit c"
proof (induction n rule: decimal.induct)
  case (1 n)
  then show ?case using isdigit_char [of n] by (cases "n < 10") (auto simp: decimal.simps [of n])
qed

lemma strtoul_decimal:
  assumes "n < 2 ^ 32" "\<And>c cs. rest = c # cs \<Longrightarrow> \<not> isdigit c"
  shows "strtoul (decimal n @ rest) = (of_nat n, rest)"
proof -
  obtain c cs where c: "decimal n = c # cs" "isdigit c" using decimal_starts by blast
  then have "\<not> isspace c" "c \<noteq> CHR ''-''" "c \<noteq> CHR ''+''" by (auto simp: isdigit_def isspace_def less_eq_char_def)
  moreover have "digits 0 (decimal n @ rest) = (n, rest)" using digits_decimal [of 0 n rest] assms(2) by (cases rest) auto
  ultimately show ?thesis using assms(1) c by (simp add: strtoul_def)
qed

text \<open>A decimal number and the first letter after it; the product is that of 32-bit words.\<close>

theorem sizes_read:
  assumes "n < 2 ^ 32" "suffix = [] \<or> \<not> isdigit (hd suffix)"
  shows "parse_number (decimal n @ suffix) K K_UNIT = Some (of_nat n *
    (if suffix \<noteq> [] \<and> hd suffix \<in> {CHR ''m'', CHR ''M''} then 1048576
     else if suffix \<noteq> [] \<and> hd suffix \<in> {CHR ''k'', CHR ''K''} then 1024 else 1))"
proof -
  have st: "strtoul (decimal n @ suffix) = (of_nat n, suffix)"
    using assms by (intro strtoul_decimal) auto
  have t: "tolower (CHR ''M'') = CHR ''m''" "tolower (CHR ''K'') = CHR ''k''" by code_simp+
  show ?thesis unfolding parse_number_def st K_def K_UNIT_def
    by (cases suffix) (auto simp: same_initial_def t tolower_letters)
qed

end
