(* ===== verification/ZperfSession.thy ===== *)
theory ZperfSession
  imports ZperfUnits
begin

text \<open>
  samples/net/zperf/src/zperf_session.c: the four sessions of each protocol, and how a packet finds
  its session. Both IPv4 and IPv6 are configured, as in prj.conf. The address of a session is the
  union of both kinds: sixteen bytes, of which an IPv4 address takes the first four.
\<close>

section \<open>Sessions\<close>

datatype session_state = STATE_NULL | STATE_ONGOING | STATE_LAST_PACKET_RECEIVED | STATE_COMPLETED

datatype session_proto = SESSION_UDP | SESSION_TCP | SESSION_PROTO_END

text \<open>\<open>struct zperf_server_hdr\<close>; the fields are the 32 bits of an \<open>s32_t\<close>.\<close>

record server_hdr =
  st_flags :: u32
  st_total_len1 :: u32
  st_total_len2 :: u32
  st_stop_sec :: u32
  st_stop_usec :: u32
  st_error_cnt :: u32
  st_outorder_cnt :: u32
  st_datagrams :: u32
  st_jitter1 :: u32
  st_jitter2 :: u32

text \<open>\<open>struct session\<close>; \<open>ses_ctx\<close> is the address of the context, 0 for NULL, the jitter fields are signed.\<close>

record session =
  ses_port :: u16
  ses_ip :: "u8 list"
  ses_ctx :: nat
  ses_state :: session_state
  ses_counter :: u32
  ses_next_id :: u32
  ses_outorder :: u32
  ses_error :: u32
  ses_length :: u64
  ses_start_time :: u32
  ses_jitter :: int
  ses_last_transit_time :: int
  ses_stat :: server_hdr

definition SESSION_MAX :: nat where "SESSION_MAX = 4"

text \<open>The bytes of a session before the first packet: the array is static.\<close>

definition session_zero :: session where
  "session_zero = \<lparr>ses_port = 0, ses_ip = replicate 16 0, ses_ctx = 0, ses_state = STATE_NULL, ses_counter = 0,
     ses_next_id = 0, ses_outorder = 0, ses_error = 0, ses_length = 0, ses_start_time = 0, ses_jitter = 0,
     ses_last_transit_time = 0, ses_stat = \<lparr>st_flags = 0, st_total_len1 = 0, st_total_len2 = 0, st_stop_sec = 0,
       st_stop_usec = 0, st_error_cnt = 0, st_outorder_cnt = 0, st_datagrams = 0, st_jitter1 = 0, st_jitter2 = 0\<rparr>\<rparr>"

definition zperf_reset_session_stats :: "session \<Rightarrow> session" where
  "zperf_reset_session_stats s = s\<lparr>ses_counter := 0, ses_start_time := 0, ses_next_id := 0, ses_length := 0,
     ses_outorder := 0, ses_error := 0, ses_jitter := 0, ses_last_transit_time := 0\<rparr>"

type_synonym sessions = "session_proto \<Rightarrow> session list"

definition zperf_session_init :: "sessions \<Rightarrow> sessions" where
  "zperf_session_init ss = (\<lambda>proto. map (\<lambda>s. zperf_reset_session_stats (s\<lparr>ses_state := STATE_NULL\<rparr>)) (ss proto))"

section \<open>Finding a session\<close>

datatype family = AF_INET | AF_INET6 | AF_OTHER

record net_pkt =
  pkt_family :: family
  pkt_src :: "u8 list"
  pkt_src_port :: u16
  pkt_payload :: "u8 list"

definition idle :: "session \<Rightarrow> bool" where
  "idle s = (ses_state s = STATE_NULL \<or> ses_state s = STATE_COMPLETED)"

definition of_client :: "net_pkt \<Rightarrow> session \<Rightarrow> bool" where
  "of_client p s =
     (ses_port s = pkt_src_port p \<and>
      (case pkt_family p of
         AF_INET \<Rightarrow> take 4 (ses_ip s) = pkt_src p
       | AF_INET6 \<Rightarrow> ses_ip s = pkt_src p
       | AF_OTHER \<Rightarrow> False))"

text \<open>The loop over the sessions from index \<open>i\<close> on: the session of the client, or the first idle one.\<close>

fun look_up :: "net_pkt \<Rightarrow> nat \<Rightarrow> nat option \<Rightarrow> session list \<Rightarrow> nat option \<times> nat option" where
  "look_up p i free [] = (None, free)"
| "look_up p i free (s # ss) =
     (if of_client p s then (Some i, free)
      else look_up p (i + 1) (if free = None \<and> idle s then Some i else free) ss)"

definition copy_address :: "u8 list \<Rightarrow> u8 list \<Rightarrow> u8 list" where
  "copy_address addr ip = addr @ drop (length addr) ip"

text \<open>An idle session becomes that of the client.\<close>

definition claim :: "net_pkt \<Rightarrow> session \<Rightarrow> session" where
  "claim p s = s\<lparr>ses_port := pkt_src_port p, ses_ip := copy_address (pkt_src p) (ses_ip s)\<rparr>"

definition get_session :: "net_pkt option \<Rightarrow> session_proto \<Rightarrow> sessions \<Rightarrow> nat option \<times> sessions" where
  "get_session pkt proto ss = (case pkt of
     None \<Rightarrow> (None, ss)
   | Some p \<Rightarrow>
       if proto \<noteq> SESSION_TCP \<and> proto \<noteq> SESSION_UDP then (None, ss)
       else if pkt_family p = AF_OTHER then (None, ss)
       else case look_up p 0 None (ss proto) of
         (Some i, _) \<Rightarrow> (Some i, ss)
       | (None, Some i) \<Rightarrow>
           (Some i, ss(proto := (ss proto)[i := claim p (ss proto ! i)]))
       | (None, None) \<Rightarrow> (None, ss))"

fun look_up_tcp :: "nat \<Rightarrow> nat \<Rightarrow> session list \<Rightarrow> nat option" where
  "look_up_tcp ctx i [] = None"
| "look_up_tcp ctx i (s # ss) = (if ses_ctx s = ctx then Some i else if idle s then Some i else look_up_tcp ctx (i + 1) ss)"

definition get_tcp_session :: "nat \<Rightarrow> sessions \<Rightarrow> nat option \<times> sessions" where
  "get_tcp_session ctx ss =
     (if ctx = 0 then (None, ss)
      else case look_up_tcp ctx 0 (ss SESSION_TCP) of
        None \<Rightarrow> (None, ss)
      | Some i \<Rightarrow> (Some i, ss(SESSION_TCP := (ss SESSION_TCP)[i := (ss SESSION_TCP ! i)\<lparr>ses_ctx := ctx\<rparr>])))"

section \<open>What a search finds\<close>

lemma look_up_found:
  "look_up p i free ss = (Some j, f) \<Longrightarrow>
     \<exists>k < length ss. j = i + k \<and> of_client p (ss ! k) \<and> list_all (\<lambda>s. \<not> of_client p s) (take k ss)"
proof (induction p i free ss arbitrary: j f rule: look_up.induct)
  case (2 p i free s ss)
  show ?case
  proof (cases "of_client p s")
    case True
    then show ?thesis using 2(2) by (intro exI [of _ 0]) auto
  next
    case False
    then obtain k where "k < length ss \<and> j = (i + 1) + k \<and> of_client p (ss ! k) \<and> list_all (\<lambda>s. \<not> of_client p s) (take k ss)"
      using 2(1) [OF False, of j f] 2(2) by auto
    then show ?thesis using False by (intro exI [of _ "Suc k"]) auto
  qed
qed auto

lemma look_up_keeps_free: "look_up p i (Some j) ss = (None, f) \<Longrightarrow> f = Some j"
  by (induction ss arbitrary: i) (auto split: if_splits)

lemma look_up_not_found: "look_up p i free ss = (None, f) \<Longrightarrow> list_all (\<lambda>s. \<not> of_client p s) ss"
  by (induction p i free ss arbitrary: f rule: look_up.induct) (auto split: if_splits)

lemma look_up_free:
  "look_up p i None ss = (None, Some j) \<Longrightarrow> \<exists>k < length ss. j = i + k \<and> idle (ss ! k)"
proof (induction ss arbitrary: i)
  case (Cons s ss)
  show ?case
  proof (cases "idle s")
    case True
    then have "j = i" using Cons(2) look_up_keeps_free [of p "i + 1" i ss "Some j"] by (auto split: if_splits)
    then show ?thesis using True by (intro exI [of _ 0]) auto
  next
    case False
    then obtain k where "k < length ss \<and> j = (i + 1) + k \<and> idle (ss ! k)"
      using Cons(1) [of "i + 1"] Cons(2) by (auto split: if_splits)
    then show ?thesis by (intro exI [of _ "Suc k"]) auto
  qed
qed auto

lemma look_up_full: "look_up p i None ss = (None, None) \<Longrightarrow> list_all (\<lambda>s. \<not> idle s) ss"
proof (induction ss arbitrary: i)
  case (Cons s ss)
  then show ?case using look_up_keeps_free [of p "i + 1" i ss None] by (auto split: if_splits)
qed auto

text \<open>
  What \<open>get_session\<close> does to the sessions: nothing, or it writes the key of an idle session of its
  protocol when no session has the client.
\<close>

lemma get_session_cases:
  assumes "get_session (Some p) proto ss = (Some i, ss')"
  obtains (known) "i < length (ss proto)" "ss' = ss" "of_client p (ss proto ! i)" "list_all (\<lambda>s. \<not> of_client p s) (take i (ss proto))"
  | (fresh) "i < length (ss proto)" "ss' = ss(proto := (ss proto)[i := claim p (ss proto ! i)])" "idle (ss proto ! i)"
      "list_all (\<lambda>s. \<not> of_client p s) (ss proto)"
proof -
  obtain r f where l: "look_up p 0 None (ss proto) = (r, f)" by fastforce
  show ?thesis
  proof (cases r)
    case (Some j)
    then show ?thesis using assms l look_up_found [of p 0 None "ss proto" j f]
      by (auto simp: get_session_def split: if_splits intro: known)
  next
    case None
    then obtain j where j: "f = Some j" using assms l by (auto simp: get_session_def split: if_splits option.splits)
    then have "i = j" "ss' = ss(proto := (ss proto)[i := claim p (ss proto ! i)])"
      using assms l None by (auto simp: get_session_def split: if_splits)
    then show ?thesis using j l None look_up_free [of p 0 "ss proto" j] look_up_not_found [of p 0 None "ss proto" f]
      by (intro fresh) auto
  qed
qed

lemma get_session_none:
  assumes "get_session (Some p) proto ss = (None, ss')"
  shows "ss' = ss"
    and "pkt_family p = AF_OTHER \<or> proto = SESSION_PROTO_END \<or>
      list_all (\<lambda>s. \<not> idle s \<and> \<not> of_client p s) (ss proto)"
proof -
  obtain r f where l: "look_up p 0 None (ss proto) = (r, f)" by fastforce
  show "ss' = ss" using assms l by (auto simp: get_session_def split: if_splits option.splits)
  have "r = None \<and> f = None" if "pkt_family p \<noteq> AF_OTHER" "proto \<noteq> SESSION_PROTO_END"
    using assms l that by (cases proto) (auto simp: get_session_def split: if_splits option.splits)
  then show "pkt_family p = AF_OTHER \<or> proto = SESSION_PROTO_END \<or>
      list_all (\<lambda>s. \<not> idle s \<and> \<not> of_client p s) (ss proto)"
    using l look_up_full [of p 0 "ss proto"] look_up_not_found [of p 0 None "ss proto" f] by (auto simp: list_all_iff)
qed

end
