(* ===== verification/ZperfReceiver.thy ===== *)
theory ZperfReceiver
  imports ZperfSession
begin

text \<open>
  samples/net/zperf/src: zperf_udp_receiver.c and zperf_tcp_receiver.c, what the receivers do with a
  packet. The readings of the cycle counter and its frequency are given; sent datagrams and printed
  values are collected in \<open>rx_output\<close>. Signed overflow is \<open>None\<close>.
\<close>

section \<open>The statistics datagram\<close>

definition to_be32 :: "u32 \<Rightarrow> u8 list" where
  "to_be32 w = [ucast (drop_bit 24 w), ucast (drop_bit 16 w), ucast (drop_bit 8 w), ucast w]"

definition be32 :: "u8 list \<Rightarrow> u32" where
  "be32 bs = word_of_int (2 ^ 24 * uint (bs ! 0) + 2 ^ 16 * uint (bs ! 1) + 2 ^ 8 * uint (bs ! 2) + uint (bs ! 3))"

text \<open>\<open>struct zperf_udp_datagram\<close>, in the byte order of the host.\<close>

record udp_datagram =
  dg_id :: u32
  dg_tv_sec :: u32
  dg_tv_usec :: u32

abbreviation DATAGRAM_SIZE :: nat where "DATAGRAM_SIZE \<equiv> 12"
abbreviation SERVER_HDR_SIZE :: nat where "SERVER_HDR_SIZE \<equiv> 40"

definition get_datagram :: "u8 list \<Rightarrow> udp_datagram option" where
  "get_datagram bs = (if length bs < DATAGRAM_SIZE then None
     else Some \<lparr>dg_id = be32 bs, dg_tv_sec = be32 (drop 4 bs), dg_tv_usec = be32 (drop 8 bs)\<rparr>)"

definition server_hdr_bytes :: "server_hdr \<Rightarrow> u8 list" where
  "server_hdr_bytes st = to_be32 (st_flags st) @ to_be32 (st_total_len1 st) @ to_be32 (st_total_len2 st) @
     to_be32 (st_stop_sec st) @ to_be32 (st_stop_usec st) @ to_be32 (st_error_cnt st) @ to_be32 (st_outorder_cnt st) @
     to_be32 (st_datagrams st) @ to_be32 (st_jitter1 st) @ to_be32 (st_jitter2 st)"

definition build_reply :: "u8 list \<Rightarrow> server_hdr \<Rightarrow> u8 list" where
  "build_reply hdr st = take DATAGRAM_SIZE hdr @ server_hdr_bytes st"

datatype rx_out = Sent family "u8 list" u16 "u8 list" | Printed string string

definition zperf_receiver_send_stat :: "net_pkt \<Rightarrow> server_hdr \<Rightarrow> rx_out list" where
  "zperf_receiver_send_stat p st =
     [Printed ''Received bytes'' (decimal (length (pkt_payload p))),
      Sent (pkt_family p) (pkt_src p) (pkt_src_port p) (build_reply (pkt_payload p) st)]"

section \<open>UDP\<close>

definition rate_in_kbps :: "u64 \<Rightarrow> u32 \<Rightarrow> u32" where
  "rate_in_kbps len duration =
     (if duration \<noteq> 0 then ucast (len * 8 * USEC_PER_SEC div (ucast duration * 1024)) else 0)"

definition fill_statistics :: "u32 \<Rightarrow> session \<Rightarrow> server_hdr \<Rightarrow> server_hdr" where
  "fill_statistics duration s st = \<lparr>st_flags = 0x80000000,
     st_total_len1 = ucast (drop_bit 32 (ses_length s)), st_total_len2 = ucast (ses_length s mod 0xFFFFFFFF),
     st_stop_sec = duration div USEC_PER_SEC, st_stop_usec = duration mod USEC_PER_SEC,
     st_error_cnt = ses_error s, st_outorder_cnt = ses_outorder s, st_datagrams = ses_counter s,
     st_jitter1 = 0, st_jitter2 = word_of_int (ses_jitter s)\<rparr>"

definition end_of_session :: "u32 \<Rightarrow> u32 \<Rightarrow> net_pkt \<Rightarrow> session \<Rightarrow> (session \<times> rx_out list) option" where
  "end_of_session hz time p s =
     (let duration = ucast (HW_CYCLES_TO_USEC hz (time_delta (ses_start_time s) time));
          s = s\<lparr>ses_state := STATE_COMPLETED\<rparr>;
          rate = rate_in_kbps (ses_length s) duration;
          s = s\<lparr>ses_stat := fill_statistics duration s (ses_stat s)\<rparr>
      in do {
        duration_text \<leftarrow> print_number duration TIME_US TIME_US_UNIT;
        jitter_text \<leftarrow> print_number (word_of_int (ses_jitter s)) TIME_US TIME_US_UNIT;
        rate_text \<leftarrow> print_number rate KBPS KBPS_UNIT;
        Some (s, zperf_receiver_send_stat p (ses_stat s) @
          [Printed ''duration'' duration_text,
           Printed ''received packets'' (decimal (unat (ses_counter s))),
           Printed ''nb packets lost'' (decimal (unat (ses_outorder s))),
           Printed ''nb packets outorder'' (decimal (unat (ses_error s))),
           Printed ''jitter'' jitter_text,
           Printed ''rate'' rate_text])
      })"

definition transit :: "u32 \<Rightarrow> u32 \<Rightarrow> udp_datagram \<Rightarrow> int" where
  "transit hz time h =
     sint (time_delta (ucast (HW_CYCLES_TO_USEC hz time)) (dg_tv_sec h * USEC_PER_SEC + dg_tv_usec h))"

definition update_jitter :: "int \<Rightarrow> session \<Rightarrow> session option" where
  "update_jitter transit_time s =
     (if ses_last_transit_time s \<noteq> 0 then do {
        delta \<leftarrow> s32_checked (transit_time - ses_last_transit_time s);
        delta \<leftarrow> (if delta < 0 then s32_checked (- delta) else Some delta);
        d \<leftarrow> s32_checked (delta - ses_jitter s);
        j \<leftarrow> s32_checked (ses_jitter s + c_div d 16);
        Some (s\<lparr>ses_jitter := j\<rparr>)
      } else Some s) \<bind> (\<lambda>s. Some (s\<lparr>ses_last_transit_time := transit_time\<rparr>))"

definition check_id :: "u32 \<Rightarrow> session \<Rightarrow> session" where
  "check_id ident s =
     (if ident \<noteq> ses_next_id s
      then if ident < ses_next_id s then s\<lparr>ses_outorder := ses_outorder s + 1\<rparr>
           else s\<lparr>ses_error := ses_error s + (ident - ses_next_id s), ses_next_id := ident + 1\<rparr>
      else s\<lparr>ses_next_id := ses_next_id s + 1\<rparr>)"

definition count_packet :: "u32 \<Rightarrow> u32 \<Rightarrow> udp_datagram \<Rightarrow> nat \<Rightarrow> session \<Rightarrow> session option" where
  "count_packet hz time h len s =
     update_jitter (transit hz time h) (s\<lparr>ses_counter := ses_counter s + 1, ses_length := ses_length s + of_nat len\<rparr>)
       \<bind> (\<lambda>s. Some (check_id (dg_id h) s))"

definition session_received :: "u32 \<Rightarrow> u32 \<Rightarrow> net_pkt \<Rightarrow> udp_datagram \<Rightarrow> session \<Rightarrow> (session \<times> rx_out list) option" where
  "session_received hz time p h s =
     (let ident = sint (dg_id h) in
      case ses_state s of
        STATE_ONGOING \<Rightarrow>
          if ident < 0 then end_of_session hz time p s
          else count_packet hz time h (length (pkt_payload p)) s \<bind> (\<lambda>s. Some (s, []))
      | STATE_LAST_PACKET_RECEIVED \<Rightarrow> Some (s, [])
      | _ \<Rightarrow>
          if ident < 0 then Some (s, zperf_receiver_send_stat p (ses_stat s))
          else Some ((zperf_reset_session_stats s)\<lparr>ses_state := STATE_ONGOING, ses_start_time := time\<rparr>, []))"

record receiver =
  rx_sessions :: sessions
  rx_output :: "rx_out list"
  tcp_running :: bool

definition udp_received :: "u32 \<Rightarrow> u32 \<Rightarrow> net_pkt option \<Rightarrow> receiver \<Rightarrow> receiver option" where
  "udp_received hz time pkt z = (case pkt of
     None \<Rightarrow> Some z
   | Some p \<Rightarrow> (case get_datagram (pkt_payload p) of
       None \<Rightarrow> Some z
     | Some h \<Rightarrow> (case get_session (Some p) SESSION_UDP (rx_sessions z) of
         (None, ss) \<Rightarrow> Some (z\<lparr>rx_sessions := ss\<rparr>)
       | (Some i, ss) \<Rightarrow>
           session_received hz time p h (ss SESSION_UDP ! i) \<bind>
             (\<lambda>(s, out). Some (z\<lparr>rx_sessions := ss(SESSION_UDP := (ss SESSION_UDP)[i := s]), rx_output := rx_output z @ out\<rparr>)))))"

section \<open>TCP\<close>

definition zperf_tcp_stopped :: "receiver \<Rightarrow> receiver" where
  "zperf_tcp_stopped z = z\<lparr>tcp_running := False\<rparr>"

definition zperf_tcp_started :: "receiver \<Rightarrow> receiver" where
  "zperf_tcp_started z = z\<lparr>tcp_running := True\<rparr>"

text \<open>One call for a connection; \<open>pkt\<close> holds the length of the data, \<open>now\<close> is the second reading of the clock.\<close>

definition tcp_session_received :: "u32 \<Rightarrow> u32 \<Rightarrow> u32 \<Rightarrow> nat option \<Rightarrow> int \<Rightarrow> session \<Rightarrow> (session \<times> rx_out list \<times> bool) option" where
  "tcp_session_received hz time now pkt status s =
     (let s = (if ses_state s = STATE_NULL
               then (zperf_reset_session_stats s)\<lparr>ses_start_time := now, ses_state := STATE_ONGOING\<rparr> else s)
      in if ses_state s \<noteq> STATE_ONGOING then Some (s, [], False)
      else let s = s\<lparr>ses_counter := ses_counter s + 1\<rparr>;
               s = (case pkt of Some n \<Rightarrow> s\<lparr>ses_length := ses_length s + of_nat n\<rparr> | None \<Rightarrow> s)
      in if pkt = None \<and> status = 0
         then let duration = ucast (HW_CYCLES_TO_USEC hz (time_delta (ses_start_time s) time));
                  rate = rate_in_kbps (ses_length s) duration
              in do {
                duration_text \<leftarrow> print_number duration TIME_US TIME_US_UNIT;
                rate_text \<leftarrow> print_number rate KBPS KBPS_UNIT;
                Some (s\<lparr>ses_state := STATE_NULL\<rparr>, [Printed ''Duration'' duration_text, Printed ''rate'' rate_text], True)
              }
         else Some (s, [], False))"

definition tcp_received :: "u32 \<Rightarrow> u32 \<Rightarrow> u32 \<Rightarrow> nat \<Rightarrow> nat option \<Rightarrow> int \<Rightarrow> receiver \<Rightarrow> receiver option" where
  "tcp_received hz time now ctx pkt status z = (case get_tcp_session ctx (rx_sessions z) of
     (None, ss) \<Rightarrow> Some (z\<lparr>rx_sessions := ss\<rparr>)
   | (Some i, ss) \<Rightarrow>
       tcp_session_received hz time now pkt status (ss SESSION_TCP ! i) \<bind>
         (\<lambda>(s, out, ended).
            let z = z\<lparr>rx_sessions := ss(SESSION_TCP := (ss SESSION_TCP)[i := s]), rx_output := rx_output z @ out\<rparr>
            in Some (if ended then zperf_tcp_stopped z else z)))"

lemma number_printed: "\<exists>text. print_number v TIME_US TIME_US_UNIT = Some text" "\<exists>text. print_number v KBPS KBPS_UNIT = Some text"
  by (simp_all add: print_number_def units_found Let_def)

section \<open>Sequences of packets\<close>

fun udp_receive_all :: "u32 \<Rightarrow> (u32 \<times> net_pkt) list \<Rightarrow> receiver \<Rightarrow> receiver option" where
  "udp_receive_all hz [] z = Some z"
| "udp_receive_all hz ((t, p) # evs) z = udp_received hz t (Some p) z \<bind> udp_receive_all hz evs"

definition session_packet :: "u32 \<Rightarrow> u32 \<times> net_pkt \<Rightarrow> session \<Rightarrow> session option" where
  "session_packet hz ev s = (case get_datagram (pkt_payload (snd ev)) of
     None \<Rightarrow> Some s
   | Some h \<Rightarrow> session_received hz (fst ev) (snd ev) h s \<bind> (\<lambda>r. Some (fst r)))"

fun session_run :: "u32 \<Rightarrow> (u32 \<times> net_pkt) list \<Rightarrow> session \<Rightarrow> session option" where
  "session_run hz [] s = Some s"
| "session_run hz (ev # evs) s = session_packet hz ev s \<bind> session_run hz evs"

lemma session_run_append: "session_run hz (xs @ ys) s = session_run hz xs s \<bind> session_run hz ys"
  by (induction xs arbitrary: s) (auto split: Option.bind_split)

definition receiver_init :: receiver where
  "receiver_init = \<lparr>rx_sessions = \<lambda>_. replicate SESSION_MAX session_zero, rx_output = [], tcp_running = False\<rparr>"

section \<open>Sessions of different clients\<close>

definition ipv4 :: "net_pkt \<Rightarrow> bool" where
  "ipv4 p \<longleftrightarrow> pkt_family p = AF_INET \<and> length (pkt_src p) = 4"

definition key :: "session \<Rightarrow> u16 \<times> u8 list" where
  "key s = (ses_port s, take 4 (ses_ip s))"

text \<open>No two sessions have the same client, but for those that never had one.\<close>

definition keys_ok :: "session list \<Rightarrow> bool" where
  "keys_ok ss \<longleftrightarrow> (\<forall>i j. i < j \<longrightarrow> j < length ss \<longrightarrow> key (ss ! i) = key (ss ! j) \<longrightarrow> key (ss ! i) = (0, [0, 0, 0, 0]))"

lemma of_client_key: "ipv4 p \<Longrightarrow> of_client p s \<longleftrightarrow> key s = (pkt_src_port p, pkt_src p)"
  by (auto simp: of_client_def ipv4_def key_def)

lemma key_claim: "ipv4 p \<Longrightarrow> key (claim p s) = (pkt_src_port p, pkt_src p)"
  by (simp add: key_def claim_def copy_address_def ipv4_def)

lemma bind_Some_pair: "(m \<bind> (\<lambda>r. Some (f r))) = Some y \<longleftrightarrow> (\<exists>r. m = Some r \<and> y = f r)"
  by (cases m) auto

lemma update_jitter_frame:
  "update_jitter t s = Some s' \<Longrightarrow> \<exists>j. s' = s\<lparr>ses_jitter := j, ses_last_transit_time := t\<rparr>"
proof -
  assume u: "update_jitter t s = Some s'"
  show ?thesis
  proof (cases "ses_last_transit_time s = 0")
    case True
    then have "s' = s\<lparr>ses_jitter := ses_jitter s, ses_last_transit_time := t\<rparr>" using u by (simp add: update_jitter_def)
    then show ?thesis by blast
  next
    case False
    then show ?thesis using u by (fastforce simp: update_jitter_def bind_eq_Some_conv)
  qed
qed

lemma key_check_id [simp]: "key (check_id ident s) = key s"
  by (simp add: check_id_def key_def)

lemma count_packet_key: "count_packet hz t h n s = Some s' \<Longrightarrow> key s' = key s"
  by (auto simp: count_packet_def bind_eq_Some_conv key_def dest!: update_jitter_frame) (simp_all add: check_id_def)

lemma end_of_session_key: "end_of_session hz t p s = Some (s', out) \<Longrightarrow> key s' = key s"
  by (auto simp: end_of_session_def Let_def bind_eq_Some_conv key_def)

lemma key_restarted [simp]: "key (zperf_reset_session_stats s\<lparr>ses_state := x, ses_start_time := t\<rparr>) = key s"
  by (simp add: key_def zperf_reset_session_stats_def)

lemma session_received_key: "session_received hz t p h s = Some (s', out) \<Longrightarrow> key s' = key s"
  by (auto simp: session_received_def Let_def bind_eq_Some_conv
      dest: count_packet_key end_of_session_key split: session_state.splits if_splits)

text \<open>What one packet does to the sessions: at most one of them changes.\<close>

lemma udp_received_cases:
  assumes "udp_received hz t (Some p) z = Some z'"
  obtains (same) "rx_sessions z' = rx_sessions z" "get_datagram (pkt_payload p) = None \<or> fst (get_session (Some p) SESSION_UDP (rx_sessions z)) = None"
  | (known) i h s out where "i < length (rx_sessions z SESSION_UDP)" "of_client p (rx_sessions z SESSION_UDP ! i)"
      "list_all (\<lambda>s. \<not> of_client p s) (take i (rx_sessions z SESSION_UDP))" "get_datagram (pkt_payload p) = Some h"
      "session_received hz t p h (rx_sessions z SESSION_UDP ! i) = Some (s, out)"
      "rx_sessions z' = (rx_sessions z)(SESSION_UDP := (rx_sessions z SESSION_UDP)[i := s])"
  | (fresh) i h s out where "i < length (rx_sessions z SESSION_UDP)" "idle (rx_sessions z SESSION_UDP ! i)"
      "list_all (\<lambda>s. \<not> of_client p s) (rx_sessions z SESSION_UDP)" "get_datagram (pkt_payload p) = Some h"
      "session_received hz t p h (claim p (rx_sessions z SESSION_UDP ! i)) = Some (s, out)"
      "rx_sessions z' = (rx_sessions z)(SESSION_UDP := (rx_sessions z SESSION_UDP)[i := s])"
proof (cases "get_datagram (pkt_payload p)")
  case None
  then show ?thesis using assms same by (simp add: udp_received_def)
next
  case (Some h)
  obtain r ss where g: "get_session (Some p) SESSION_UDP (rx_sessions z) = (r, ss)" by fastforce
  show ?thesis
  proof (cases r)
    case None
    then show ?thesis using assms Some g get_session_none(1) [of p SESSION_UDP "rx_sessions z" ss]
      by (intro same) (auto simp: udp_received_def)
  next
    case (Some i)
    note g = g [unfolded Some]
    obtain s out where s: "session_received hz t p h (ss SESSION_UDP ! i) = Some (s, out)"
      "rx_sessions z' = ss(SESSION_UDP := (ss SESSION_UDP)[i := s])"
      using assms \<open>get_datagram (pkt_payload p) = Some h\<close> g by (auto simp: udp_received_def bind_eq_Some_conv)
    from g show ?thesis
    proof (cases rule: get_session_cases)
      case a: known
      then show ?thesis using s \<open>get_datagram (pkt_payload p) = Some h\<close> by (intro known [of i h s out]) auto
    next
      case a: fresh
      then show ?thesis using s \<open>get_datagram (pkt_payload p) = Some h\<close> by (intro fresh [of i h s out]) auto
    qed
  qed
qed

lemma udp_received_length: "udp_received hz t (Some p) z = Some z' \<Longrightarrow> length (rx_sessions z' SESSION_UDP) = length (rx_sessions z SESSION_UDP)"
  by (erule udp_received_cases) auto

lemma keys_ok_update_same:
  assumes "keys_ok ss" "key s = key (ss ! i)"
  shows "keys_ok (ss[i := s])"
proof -
  have k: "key (ss[i := s] ! k) = key (ss ! k)" for k
    using assms(2) by (cases "i < length ss") (auto simp: nth_list_update list_update_beyond)
  show ?thesis using assms(1) unfolding keys_ok_def k by simp
qed

lemma keys_ok_update_new:
  assumes "keys_ok ss" "list_all (\<lambda>s'. key s' \<noteq> key s) ss"
  shows "keys_ok (ss[i := s])"
  unfolding keys_ok_def
proof (intro allI impI)
  fix a b assume ab: "a < b" "b < length (ss[i := s])" "key (ss[i := s] ! a) = key (ss[i := s] ! b)"
  have new: "key (ss ! k) \<noteq> key s" if "k < length ss" for k using assms(2) that by (auto simp: list_all_length)
  have "a \<noteq> i" using ab new [of b] by auto
  moreover have "b \<noteq> i" using ab new [of a] by auto
  ultimately show "key (ss[i := s] ! a) = (0, [0, 0, 0, 0])"
    using ab assms(1) unfolding keys_ok_def by simp
qed

lemma udp_received_keys:
  assumes "udp_received hz t (Some p) z = Some z'" "ipv4 p" "keys_ok (rx_sessions z SESSION_UDP)"
  shows "keys_ok (rx_sessions z' SESSION_UDP)"
  using assms(1)
proof (cases rule: udp_received_cases)
  case same
  then show ?thesis using assms by simp
next
  case (known i h s out)
  then show ?thesis using assms keys_ok_update_same session_received_key by fastforce
next
  case (fresh i h s out)
  then have "key s = (pkt_src_port p, pkt_src p)" using session_received_key [of hz t p h _ s out] key_claim [OF assms(2)] by simp
  then show ?thesis using fresh assms by (auto intro!: keys_ok_update_new simp: of_client_key list_all_iff)
qed

text \<open>An ongoing session changes by the packets of its own client only.\<close>

lemma udp_received_other:
  assumes "udp_received hz t (Some p) z = Some z'" "i < length (rx_sessions z SESSION_UDP)"
    "ses_state (rx_sessions z SESSION_UDP ! i) = STATE_ONGOING" "\<not> of_client p (rx_sessions z SESSION_UDP ! i)"
  shows "rx_sessions z' SESSION_UDP ! i = rx_sessions z SESSION_UDP ! i"
  using assms(1)
proof (cases rule: udp_received_cases)
  case (known j h s out)
  then show ?thesis using assms by (cases "i = j") auto
next
  case (fresh j h s out)
  then show ?thesis using assms by (cases "i = j") (auto simp: idle_def)
qed simp

lemma udp_received_own:
  assumes "udp_received hz t (Some p) z = Some z'" "i < length (rx_sessions z SESSION_UDP)"
    "of_client p (rx_sessions z SESSION_UDP ! i)" "ipv4 p" "pkt_src_port p \<noteq> 0" "keys_ok (rx_sessions z SESSION_UDP)"
  shows "session_packet hz (t, p) (rx_sessions z SESSION_UDP ! i) = Some (rx_sessions z' SESSION_UDP ! i)"
  using assms(1)
proof (cases rule: udp_received_cases)
  case same
  have "fst (get_session (Some p) SESSION_UDP (rx_sessions z)) \<noteq> None"
  proof
    assume "fst (get_session (Some p) SESSION_UDP (rx_sessions z)) = None"
    then have "get_session (Some p) SESSION_UDP (rx_sessions z) = (None, snd (get_session (Some p) SESSION_UDP (rx_sessions z)))"
      by (metis prod.collapse)
    then show False using get_session_none(2) assms(2-4) by (fastforce simp: ipv4_def list_all_length)
  qed
  then have "get_datagram (pkt_payload p) = None" using same(2) by (cases "get_datagram (pkt_payload p)") simp_all
  then show ?thesis using same(1) by (simp add: session_packet_def)
next
  case (known j h s out)
  have "j = i"
  proof (rule ccontr)
    assume "j \<noteq> i"
    moreover have "\<not> i < j" using known(1,3) assms(2,3) by (auto simp: list_all_length)
    ultimately have "j < i" by simp
    then have "key (rx_sessions z SESSION_UDP ! j) = (0, [0, 0, 0, 0])"
      using assms known unfolding keys_ok_def by (simp add: of_client_key)
    then show False using known(2) assms(4,5) by (simp add: of_client_key)
  qed
  then show ?thesis using known by (simp add: session_packet_def)
next
  case (fresh j h s out)
  then show ?thesis using assms by (auto simp: list_all_length)
qed

end
