(* ===== verification/ZperfCounts.thy ===== *)
theory ZperfCounts
  imports ZperfReceiver
begin

text \<open>
  What the statistics of the zperf receivers say: a client's session depends on the packets of that
  client only, and what is counted as received, late and lost; and how TCP connections lose their session.
\<close>

section \<open>One session among others\<close>

abbreviation slot :: "receiver \<Rightarrow> nat \<Rightarrow> session" where
  "slot z i \<equiv> rx_sessions z SESSION_UDP ! i"

text \<open>A packet with a negative number ends the session.\<close>

definition ends_session :: "net_pkt \<Rightarrow> bool" where
  "ends_session p \<longleftrightarrow> 12 \<le> length (pkt_payload p) \<and> sint (be32 (pkt_payload p)) < 0"

lemma check_id_state [simp]: "ses_state (check_id ident s) = ses_state s"
  by (simp add: check_id_def)

lemma count_packet_state: "count_packet hz t h n s = Some s' \<Longrightarrow> ses_state s' = ses_state s"
  by (auto simp: count_packet_def bind_eq_Some_conv dest!: update_jitter_frame)

lemma session_packet_ongoing:
  assumes "session_packet hz (t, p) s = Some s'" "ses_state s = STATE_ONGOING" "\<not> ends_session p"
  shows "ses_state s' = STATE_ONGOING"
  using assms count_packet_state
  by (fastforce simp: session_packet_def session_received_def get_datagram_def ends_session_def Let_def bind_eq_Some_conv
      split: option.splits if_splits)

lemma session_packet_key: "session_packet hz ev s = Some s' \<Longrightarrow> key s' = key s"
  using session_received_key by (fastforce simp: session_packet_def bind_eq_Some_conv split: option.splits)

lemma receive_all_keys:
  "udp_receive_all hz evs z = Some z' \<Longrightarrow> list_all (\<lambda>ev. ipv4 (snd ev)) evs \<Longrightarrow> keys_ok (rx_sessions z SESSION_UDP) \<Longrightarrow>
     keys_ok (rx_sessions z' SESSION_UDP) \<and> length (rx_sessions z' SESSION_UDP) = length (rx_sessions z SESSION_UDP)"
proof (induction hz evs z rule: udp_receive_all.induct)
  case (2 hz t p evs z)
  obtain y where y: "udp_received hz t (Some p) z = Some y" "udp_receive_all hz evs y = Some z'"
    using 2(2) by (auto simp: bind_eq_Some_conv)
  then show ?case using 2(1) [OF y] 2(3,4) udp_received_keys [OF y(1)] udp_received_length [OF y(1)] by simp
qed simp

lemma own_packets_only:
  "udp_receive_all hz evs z = Some z' \<Longrightarrow> list_all (\<lambda>ev. ipv4 (snd ev)) evs \<Longrightarrow> keys_ok (rx_sessions z SESSION_UDP) \<Longrightarrow>
     i < length (rx_sessions z SESSION_UDP) \<Longrightarrow> ses_state (slot z i) = STATE_ONGOING \<Longrightarrow> key (slot z i) = (port, addr) \<Longrightarrow> port \<noteq> 0 \<Longrightarrow>
     list_all (\<lambda>ev. pkt_src_port (snd ev) = port \<and> pkt_src (snd ev) = addr \<longrightarrow> \<not> ends_session (snd ev)) evs \<Longrightarrow>
     session_run hz (filter (\<lambda>ev. pkt_src_port (snd ev) = port \<and> pkt_src (snd ev) = addr) evs) (slot z i) = Some (slot z' i)"
proof (induction hz evs z rule: udp_receive_all.induct)
  case (2 hz t p evs z)
  obtain y where y: "udp_received hz t (Some p) z = Some y" "udp_receive_all hz evs y = Some z'"
    using 2(2) by (auto simp: bind_eq_Some_conv)
  have p: "ipv4 p" and rest: "list_all (\<lambda>ev. ipv4 (snd ev)) evs"
    "list_all (\<lambda>ev. pkt_src_port (snd ev) = port \<and> pkt_src (snd ev) = addr \<longrightarrow> \<not> ends_session (snd ev)) evs"
    using 2(3,9) by auto
  have keys: "keys_ok (rx_sessions y SESSION_UDP)" by (rule udp_received_keys [OF y(1) p 2(4)])
  have len: "i < length (rx_sessions y SESSION_UDP)" using udp_received_length [OF y(1)] 2(5) by simp
  have own: "of_client p (slot z i) \<longleftrightarrow> pkt_src_port p = port \<and> pkt_src p = addr"
    using 2(7) by (auto simp: of_client_key [OF p])
  show ?case
  proof (cases "of_client p (slot z i)")
    case True
    have s: "session_packet hz (t, p) (slot z i) = Some (slot y i)"
      using udp_received_own [OF y(1) 2(5) True p _ 2(4)] 2(8) own True by simp
    have "ses_state (slot y i) = STATE_ONGOING" using session_packet_ongoing [OF s 2(6)] 2(9) own True by simp
    moreover have "key (slot y i) = (port, addr)" using session_packet_key [OF s] 2(7) by simp
    ultimately show ?thesis using 2(1) [OF y rest(1) keys len] rest(2) s own True 2(8) by simp
  next
    case False
    then have "slot y i = slot z i" by (rule udp_received_other [OF y(1) 2(5,6)])
    then show ?thesis using 2(1) [OF y rest(1) keys len] rest(2) own False 2(6,7,8) by auto
  qed
qed simp

lemma keys_ok_init: "keys_ok (rx_sessions receiver_init SESSION_UDP)"
  by (simp add: keys_ok_def receiver_init_def key_def session_zero_def numeral_eq_Suc)

text \<open>
  C26: When all clients use IPv4, a UDP session that is going on for an address and a port other
  than 0 is, after any packets whose handling is defined, the result of the packets of its own
  client alone, in their order, as long as none of them ends it: the packets of the other clients do
  not change it.
\<close>

theorem sessions_are_separate:
  assumes "udp_receive_all hz before receiver_init = Some z" "udp_receive_all hz evs z = Some z'"
    and "list_all (\<lambda>ev. ipv4 (snd ev)) (before @ evs)"
    and "i < SESSION_MAX" "ses_state (slot z i) = STATE_ONGOING" "key (slot z i) = (port, addr)" "port \<noteq> 0"
    and "list_all (\<lambda>ev. pkt_src_port (snd ev) = port \<and> pkt_src (snd ev) = addr \<longrightarrow> \<not> ends_session (snd ev)) evs"
  shows "session_run hz (filter (\<lambda>ev. pkt_src_port (snd ev) = port \<and> pkt_src (snd ev) = addr) evs) (slot z i) = Some (slot z' i)"
proof -
  have "keys_ok (rx_sessions z SESSION_UDP)" "i < length (rx_sessions z SESSION_UDP)"
    using receive_all_keys [OF assms(1) _ keys_ok_init] assms(3,4) by (auto simp: receiver_init_def)
  then show ?thesis using own_packets_only [OF assms(2)] assms(3-8) by simp
qed

section \<open>Received, late and lost\<close>

text \<open>A packet is late when an earlier one of the list has at least its number.\<close>

fun lates :: "nat list \<Rightarrow> nat list \<Rightarrow> nat" where
  "lates earlier [] = 0"
| "lates earlier (n # ns) = (if list_ex (\<lambda>m. n \<le> m) earlier then 1 else 0) + lates (earlier @ [n]) ns"

lemma lates_snoc: "lates earlier (ns @ [n]) = lates earlier ns + (if list_ex (\<lambda>m. n \<le> m) (earlier @ ns) then 1 else 0)"
  by (induction ns arbitrary: earlier) auto

lemma lates_le: "lates earlier ns \<le> length ns"
  by (induction ns arbitrary: earlier) (auto simp: le_SucI)

definition number :: "net_pkt \<Rightarrow> nat" where
  "number p = unat (be32 (pkt_payload p))"

definition data_packet :: "net_pkt \<Rightarrow> bool" where
  "data_packet p \<longleftrightarrow> 12 \<le> length (pkt_payload p) \<and> number p < 2 ^ 31"

text \<open>The clocks of both sides agree so far that differences of transit times are 32-bit integers.\<close>

definition transit_small :: "u32 \<Rightarrow> u32 \<times> net_pkt \<Rightarrow> bool" where
  "transit_small hz ev \<longleftrightarrow> (case get_datagram (pkt_payload (snd ev)) of None \<Rightarrow> True
     | Some h \<Rightarrow> \<bar>transit hz (fst ev) h\<bar> < 2 ^ 30)"

lemma c_div16_bounds: "0 \<le> j \<Longrightarrow> 0 \<le> d \<Longrightarrow> 0 \<le> j + c_div (d - j) 16 \<and> j + c_div (d - j) 16 \<le> max j d"
proof (cases "j \<le> d")
  case True
  then show ?thesis if "0 \<le> j" using c_div_nonneg [of "d - j" 16] that by auto
next
  case False
  then show "0 \<le> j + c_div (d - j) 16 \<and> j + c_div (d - j) 16 \<le> max j d" if "0 \<le> d"
    using c_div_neg [of 16 "j - d"] c_div_nonneg [of "j - d" 16] that by auto
qed

lemma update_jitter_returns:
  assumes "\<bar>t\<bar> < 2 ^ 30" "\<bar>ses_last_transit_time s\<bar> < 2 ^ 30" "0 \<le> ses_jitter s" "ses_jitter s < 2 ^ 31"
  shows "\<exists>j. update_jitter t s = Some (s\<lparr>ses_jitter := j, ses_last_transit_time := t\<rparr>) \<and> 0 \<le> j \<and> j < 2 ^ 31"
proof (cases "ses_last_transit_time s = 0")
  case True
  then have "update_jitter t s = Some (s\<lparr>ses_jitter := ses_jitter s, ses_last_transit_time := t\<rparr>)" by (simp add: update_jitter_def)
  then show ?thesis using assms by blast
next
  case False
  define d where "d = \<bar>t - ses_last_transit_time s\<bar>"
  have d: "0 \<le> d" "d < 2 ^ 31" using assms by (auto simp: d_def)
  note j = c_div16_bounds [OF assms(3) d(1)]
  have "update_jitter t s = Some (s\<lparr>ses_jitter := ses_jitter s + c_div (d - ses_jitter s) 16, ses_last_transit_time := t\<rparr>)"
  proof -
    have num: "(2 :: int) ^ 31 = 2147483648" "(2 :: int) ^ 30 = 1073741824" by simp_all
    note bounds = assms [unfolded num] d [unfolded num] j
    have c1: "s32_checked (t - ses_last_transit_time s) = Some (t - ses_last_transit_time s)"
      by (rule s32_checked_in_range; unfold num; use bounds in linarith)
    have c2: "(if t - ses_last_transit_time s < 0 then s32_checked (- (t - ses_last_transit_time s)) else Some (t - ses_last_transit_time s)) = Some d"
      using d unfolding d_def by (auto simp: abs_if intro!: s32_checked_in_range)
    have c3: "s32_checked (d - ses_jitter s) = Some (d - ses_jitter s)"
      by (rule s32_checked_in_range; unfold num; use bounds in linarith)
    have c4: "s32_checked (ses_jitter s + c_div (d - ses_jitter s) 16) = Some (ses_jitter s + c_div (d - ses_jitter s) 16)"
      by (rule s32_checked_in_range; unfold num; use bounds in linarith)
    show ?thesis using False by (simp only: update_jitter_def if_True not_False_eq_True c1 c2 c3 c4 bind.bind_lunit simp_thms if_False
        Option.bind.bind_lunit session.simps)
  qed
  then show ?thesis using j d assms(4) by fastforce
qed

definition high :: "nat list \<Rightarrow> nat" where
  "high ns = foldl (\<lambda>h n. max h (Suc n)) 0 ns"

lemma high_Nil [simp]: "high [] = 0" by (simp add: high_def)

lemma high_snoc [simp]: "high (ns @ [n]) = max (high ns) (Suc n)"
  by (simp add: high_def)

lemma below_high: "n < high ns \<longleftrightarrow> list_ex (\<lambda>m. n \<le> m) ns"
  by (induction ns rule: rev_induct) auto

lemma high_le: "list_all (\<lambda>n. n < k) ns \<Longrightarrow> high ns \<le> k"
  by (induction ns rule: rev_induct) auto

lemma high_Max: "ns \<noteq> [] \<Longrightarrow> high ns = Suc (Max (set ns))"
proof (induction ns rule: rev_induct)
  case (snoc n ns)
  then show ?case using Max_insert [of "set ns" n] by (cases "ns = []") (simp_all add: high_def max.commute)
qed simp

text \<open>What the fields of an ongoing session hold after data packets with the numbers \<open>ns\<close>.\<close>

definition counted :: "nat list \<Rightarrow> session \<Rightarrow> bool" where
  "counted ns s \<longleftrightarrow> ses_state s = STATE_ONGOING \<and> ses_counter s = of_nat (length ns) \<and> ses_next_id s = of_nat (high ns) \<and>
     ses_outorder s = of_nat (lates [] ns) \<and> ses_error s + of_nat (length ns) = of_nat (high ns + lates [] ns) \<and>
     \<bar>ses_last_transit_time s\<bar> < 2 ^ 30 \<and> 0 \<le> ses_jitter s \<and> ses_jitter s < 2 ^ 31"

lemma unat_of_nat_u32: "n < 2 ^ 32 \<Longrightarrow> unat (of_nat n :: u32) = n"
  by (simp add: unat_of_nat)

lemma check_id_counted:
  assumes c: "counted ns s" and n: "n < 2 ^ 31" "high ns \<le> 2 ^ 31"
    and s': "ses_state s' = ses_state s" "ses_counter s' = ses_counter s + 1" "ses_next_id s' = ses_next_id s"
      "ses_outorder s' = ses_outorder s" "ses_error s' = ses_error s"
      "\<bar>ses_last_transit_time s'\<bar> < 2 ^ 30" "0 \<le> ses_jitter s'" "ses_jitter s' < 2 ^ 31"
  shows "counted (ns @ [n]) (check_id (of_nat n) s')"
proof -
  have u: "unat (of_nat n :: u32) = n" "unat (of_nat (high ns) :: u32) = high ns"
    using n by (simp_all add: unat_of_nat_u32)
  have late: "list_ex (\<lambda>m. n \<le> m) ns \<longleftrightarrow> n < high ns" by (simp add: below_high)
  have e: "ses_error s + of_nat (length ns) = of_nat (high ns) + of_nat (lates [] ns)" using c by (simp add: counted_def)
  note facts = s' counted_def check_id_def lates_snoc late add.assoc [symmetric]
  consider "n = high ns" | "n < high ns" | "high ns < n" by linarith
  then show ?thesis
  proof cases
    case 1
    have "\<not> list_ex (\<lambda>m. high ns \<le> m) ns" using below_high [of "high ns" ns] by simp
    then show ?thesis using 1 c e s' by (simp add: facts del: late)
  next
    case 2
    then have "(of_nat n :: u32) < of_nat (high ns)" "max (high ns) (Suc n) = high ns" using u by (auto simp: word_less_nat_alt)
    then show ?thesis using 2 c e s' by (simp add: facts)
  next
    case 3
    then have w: "\<not> (of_nat n :: u32) < of_nat (high ns)" "(of_nat n :: u32) \<noteq> of_nat (high ns)" "max (high ns) (Suc n) = Suc n"
      using u by (auto simp: word_less_nat_alt)
    have "ses_error s + (of_nat n - of_nat (high ns)) + of_nat (length ns) = (of_nat n :: u32) + of_nat (lates [] ns)"
      using e by (simp add: algebra_simps)
    then show ?thesis using 3 c w s' by (simp add: facts)
  qed
qed

lemma sint_nonneg_u32: "uint (w :: u32) < 2 ^ 31 \<Longrightarrow> sint w = uint w"
proof -
  assume "uint w < 2 ^ 31"
  then have "signed_take_bit 31 (uint w) = uint w" by (intro signed_take_bit_int_eq_self) (auto intro: order_trans [of _ 0])
  then show ?thesis using sint_sbintrunc' [of "uint w", where 'a = 32] by simp
qed

lemma number_id:
  assumes "data_packet p"
  shows "\<exists>h. get_datagram (pkt_payload p) = Some h \<and> dg_id h = of_nat (number p) \<and> 0 \<le> sint (dg_id h)"
proof -
  have "uint (be32 (pkt_payload p)) < 2 ^ 31"
  proof -
    have "int (unat (be32 (pkt_payload p))) < int (2 ^ 31)"
      using assms unfolding data_packet_def number_def of_nat_less_iff by blast
    then show ?thesis by (simp only: uint_nat of_nat_power of_nat_numeral)
  qed
  then have "0 \<le> sint (be32 (pkt_payload p))" by (simp add: sint_nonneg_u32)
  then show ?thesis using assms by (simp add: data_packet_def get_datagram_def number_def)
qed

lemma session_packet_counted:
  assumes c: "counted ns s" and p: "data_packet p" "transit_small hz (t, p)" "high ns \<le> 2 ^ 31"
  shows "returns (session_packet hz (t, p) s) (counted (ns @ [number p]))"
proof -
  obtain h where h: "get_datagram (pkt_payload p) = Some h" "dg_id h = of_nat (number p)" "0 \<le> sint (dg_id h)"
    using number_id [OF p(1)] by blast
  let ?s = "s\<lparr>ses_counter := ses_counter s + 1, ses_length := ses_length s + of_nat (length (pkt_payload p))\<rparr>"
  have "\<bar>transit hz t h\<bar> < 2 ^ 30" using p(2) h by (simp add: transit_small_def)
  then obtain j where j: "update_jitter (transit hz t h) ?s = Some (?s\<lparr>ses_jitter := j, ses_last_transit_time := transit hz t h\<rparr>)" "0 \<le> j" "j < 2 ^ 31"
    using update_jitter_returns [of "transit hz t h" ?s] c by (auto simp: counted_def)
  have "counted (ns @ [number p]) (check_id (of_nat (number p)) (?s\<lparr>ses_jitter := j, ses_last_transit_time := transit hz t h\<rparr>))"
    using p(1,3) j \<open>\<bar>transit hz t h\<bar> < 2 ^ 30\<close> by (intro check_id_counted [OF c]) (simp_all add: data_packet_def)
  moreover have "session_packet hz (t, p) s = Some (check_id (of_nat (number p)) (?s\<lparr>ses_jitter := j, ses_last_transit_time := transit hz t h\<rparr>))"
    using c h j by (simp add: session_packet_def session_received_def counted_def count_packet_def Let_def not_less)
  ultimately show ?thesis by simp
qed

lemma session_run_counted:
  assumes "counted ns s" "list_all (\<lambda>ev. data_packet (snd ev) \<and> transit_small hz ev) evs" "list_all (\<lambda>n. n < 2 ^ 31) ns"
  shows "returns (session_run hz evs s) (counted (ns @ map (\<lambda>ev. number (snd ev)) evs))"
  using assms
proof (induction evs arbitrary: ns s)
  case (Cons ev evs)
  obtain t p where ev: "ev = (t, p)" by fastforce
  have "returns (session_packet hz ev s) (counted (ns @ [number p]))"
    unfolding ev by (rule session_packet_counted) (use Cons.prems ev high_le in auto)
  moreover have "list_all (\<lambda>n. n < 2 ^ 31) (ns @ [number p])" using Cons.prems ev by (simp add: data_packet_def)
  ultimately show ?case using Cons.IH [of "ns @ [number p]"] Cons.prems ev
    by (auto simp: returns_eq_Some dest!: returns_mono)
qed simp

text \<open>
  C27: In a session of at least two data packets with distinct numbers below 2^31 that begins with
  number 0, whatever their order, when the transit times computed from the two clocks stay below
  2^30 microseconds: the first packet is not counted as received, a packet counts as out of order
  when an earlier one had a higher number, and the error count is the number of missing packets plus
  the number of late ones plus one, so a session without any loss reports a lost packet.
\<close>

theorem reported_losses:
  assumes idle: "idle s" and first: "data_packet p0" "number p0 = 0"
    and evs: "list_all (\<lambda>ev. data_packet (snd ev) \<and> transit_small hz ev) evs" "evs \<noteq> []"
    and dist: "distinct (0 # map (\<lambda>ev. number (snd ev)) evs)"
  shows "returns (session_run hz ((t0, p0) # evs) s) (\<lambda>s'. let ns = map (\<lambda>ev. number (snd ev)) evs in
     unat (ses_counter s') = length ns \<and> unat (ses_outorder s') = lates [] ns \<and>
     unat (ses_error s') = card ({.. Max (set ns)} - insert 0 (set ns)) + lates [] ns + 1)"
proof -
  define ns where "ns = map (\<lambda>ev. number (snd ev)) evs"
  obtain h where h: "get_datagram (pkt_payload p0) = Some h" "0 \<le> sint (dg_id h)" using number_id [OF first(1)] by blast
  let ?s = "(zperf_reset_session_stats s)\<lparr>ses_state := STATE_ONGOING, ses_start_time := t0\<rparr>"
  have start: "session_packet hz (t0, p0) s = Some ?s"
    using idle h by (auto simp: session_packet_def session_received_def idle_def Let_def)
  have "counted [] ?s" by (simp add: counted_def zperf_reset_session_stats_def)
  then have run: "returns (session_run hz ((t0, p0) # evs) s) (counted ns)"
    using session_run_counted [of "[]" ?s hz evs] evs start by (simp add: ns_def)
  have small: "list_all (\<lambda>n. n < 2 ^ 31) ns" using evs(1) by (auto simp: ns_def list_all_iff data_packet_def)
  have high: "high ns = Suc (Max (set ns))" "high ns \<le> 2 ^ 31" using evs(2) high_le [OF small] by (simp_all add: ns_def high_Max)
  have sub: "insert 0 (set ns) \<subseteq> {.. Max (set ns)}" using Max_ge [of "set ns"] by auto
  have card: "card (insert 0 (set ns)) = Suc (length ns)" using dist by (simp add: ns_def [symmetric] distinct_card)
  define missing where "missing = card ({.. Max (set ns)} - insert 0 (set ns))"
  have "missing + Suc (length ns) = high ns"
    unfolding missing_def using card_Diff_subset [OF _ sub] card_mono [OF _ sub] card high(1) by simp
  then have m: "high ns = missing + 1 + length ns" by simp
  have len: "length ns < 2 ^ 31" using m high(2) by simp
  have late: "lates [] ns \<le> length ns" by (rule lates_le)
  show ?thesis
  proof (rule returns_mono [OF run], unfold Let_def ns_def [symmetric] missing_def [symmetric], intro conjI)
    fix s' assume c: "counted ns s'"
    show "unat (ses_counter s') = length ns" using c len by (simp add: counted_def unat_of_nat_u32)
    show "unat (ses_outorder s') = lates [] ns" using c len late by (simp add: counted_def unat_of_nat_u32)
    have "ses_error s' + of_nat (length ns) = of_nat (missing + lates [] ns + 1) + of_nat (length ns)"
      using c by (simp add: counted_def m algebra_simps)
    then have "ses_error s' = of_nat (missing + lates [] ns + 1)" by (simp only: add_right_cancel)
    moreover have "missing + lates [] ns + 1 < 2 ^ 32" using m high(2) late by simp
    ultimately show "unat (ses_error s') = missing + lates [] ns + 1" by (simp only: unat_of_nat_u32)
  qed
qed

section \<open>A client that sends three packets\<close>

definition example_packet :: "u8 \<Rightarrow> u32 \<Rightarrow> net_pkt" where
  "example_packet host n = \<lparr>pkt_family = AF_INET, pkt_src = [192, 0, 2, host], pkt_src_port = 50000,
     pkt_payload = to_be32 n @ replicate 8 0\<rparr>"

lemma example_packet_simps:
  "number (example_packet host 0) = 0" "number (example_packet host 1) = 1" "number (example_packet host 2) = 2"
  "number (example_packet host 3) = 3" "length (pkt_payload (example_packet host n)) = 12"
  by (simp_all add: number_def example_packet_def to_be32_def be32_def)

lemma example_transit: "transit_small 1000000 (0, example_packet host n)"
  by (simp add: transit_small_def example_packet_def get_datagram_def to_be32_def be32_def transit_def time_delta_def
      HW_CYCLES_TO_USEC_def)

lemma reported_losses_witness:
  "returns (session_run 1000000 ((0, example_packet 1 0) # map (\<lambda>n. (0, example_packet 1 n)) [1, 3, 2]) session_zero)
     (\<lambda>s'. unat (ses_counter s') = 3 \<and> unat (ses_outorder s') = 1 \<and> unat (ses_error s') = 2)"
proof -
  have m: "{.. 3} - {0, 1, 3, 2 :: nat} = {}" by auto
  have "returns (session_run 1000000 ((0, example_packet 1 0) # map (\<lambda>n. (0, example_packet 1 n)) [1, 3, 2]) session_zero)
     (\<lambda>s'. unat (ses_counter s') = Suc (Suc (Suc 0)) \<and> unat (ses_outorder s') = Suc 0 \<and> unat (ses_error s') = Suc (Suc 0))"
    using reported_losses [of session_zero "example_packet 1 0" 1000000 "map (\<lambda>n. (0, example_packet 1 n)) [1, 3, 2]" 0]
    by (simp add: idle_def session_zero_def data_packet_def example_packet_simps example_transit m insert_commute)
  then show ?thesis by (simp only: numeral_2_eq_2 numeral_3_eq_3 One_nat_def)
qed

text \<open>Two other clients send packets in between; they take the second and the third session.\<close>

definition example_before :: "(u32 \<times> net_pkt) list" where
  "example_before = [(5, example_packet 1 0)]"

definition example_traffic :: "(u32 \<times> net_pkt) list" where
  "example_traffic = [(6, example_packet 2 0), (7, example_packet 3 0), (9, example_packet 1 1), (9, example_packet 2 1)]"

definition received :: "(u32 \<times> net_pkt) list \<Rightarrow> receiver \<Rightarrow> receiver" where
  "received evs z = the (udp_receive_all 1000000 evs z)"

lemma example_received:
  "udp_receive_all 1000000 example_before receiver_init = Some (received example_before receiver_init)"
  "udp_receive_all 1000000 example_traffic (received example_before receiver_init) = Some (received example_traffic (received example_before receiver_init))"
proof -
  have "returns (udp_receive_all 1000000 example_before receiver_init) (\<lambda>_. True)"
    "returns (udp_receive_all 1000000 example_traffic (received example_before receiver_init)) (\<lambda>_. True)"
    by code_simp+
  then show "udp_receive_all 1000000 example_before receiver_init = Some (received example_before receiver_init)"
    "udp_receive_all 1000000 example_traffic (received example_before receiver_init) = Some (received example_traffic (received example_before receiver_init))"
    by (auto simp: returns_eq_Some received_def)
qed

lemma sessions_are_separate_witness:
  "session_run 1000000 [(9, example_packet 1 1)] (slot (received example_before receiver_init) 0) =
     Some (slot (received example_traffic (received example_before receiver_init)) 0)"
proof -
  have f: "filter (\<lambda>ev. pkt_src_port (snd ev) = 50000 \<and> pkt_src (snd ev) = [192, 0, 2, 1]) example_traffic = [(9, example_packet 1 1)]"
    by code_simp
  have "list_all (\<lambda>ev. ipv4 (snd ev)) (example_before @ example_traffic)" by code_simp
  moreover have "ses_state (slot (received example_before receiver_init) 0) = STATE_ONGOING" by code_simp
  moreover have "key (slot (received example_before receiver_init) 0) = (50000, [192, 0, 2, 1])" by code_simp
  moreover have "list_all (\<lambda>ev. pkt_src_port (snd ev) = 50000 \<and> pkt_src (snd ev) = [192, 0, 2, 1] \<longrightarrow> \<not> ends_session (snd ev)) example_traffic"
    by code_simp
  ultimately show ?thesis
    using sessions_are_separate [OF example_received, of 0 50000 "[192, 0, 2, 1]"] unfolding f by (simp add: SESSION_MAX_def)
qed

section \<open>TCP connections that lose their session\<close>

datatype tcp_event = Data nat nat | Eof nat

fun tcp_receive_all :: "u32 \<Rightarrow> (u32 \<times> tcp_event) list \<Rightarrow> receiver \<Rightarrow> receiver option" where
  "tcp_receive_all hz [] z = Some z"
| "tcp_receive_all hz ((t, Data ctx n) # evs) z = tcp_received hz t t ctx (Some n) 0 z \<bind> tcp_receive_all hz evs"
| "tcp_receive_all hz ((t, Eof ctx) # evs) z = tcp_received hz t t ctx None 0 z \<bind> tcp_receive_all hz evs"


lemma tcp_data:
  assumes "ses_state s = STATE_ONGOING"
  shows "tcp_session_received hz t t (Some n) 0 s = Some (s\<lparr>ses_counter := ses_counter s + 1, ses_length := ses_length s + of_nat n\<rparr>, [], False)"
  using assms by (simp add: tcp_session_received_def)

lemma tcp_data_first:
  assumes "ses_state s = STATE_NULL"
  shows "tcp_session_received hz t t (Some n) 0 s = Some (s\<lparr>ses_counter := 1, ses_start_time := t, ses_next_id := 0, ses_length := of_nat n,
     ses_outorder := 0, ses_error := 0, ses_jitter := 0, ses_last_transit_time := 0, ses_state := STATE_ONGOING\<rparr>, [], False)"
  using assms by (simp add: tcp_session_received_def zperf_reset_session_stats_def)

lemma tcp_eof:
  assumes "ses_state s = STATE_ONGOING"
  shows "\<exists>out. tcp_session_received hz t t None 0 s = Some (s\<lparr>ses_counter := ses_counter s + 1, ses_state := STATE_NULL\<rparr>, out, True)"
proof -
  let ?duration = "ucast (HW_CYCLES_TO_USEC hz (time_delta (ses_start_time s) t)) :: u32"
  obtain x y where "print_number ?duration TIME_US TIME_US_UNIT = Some x"
    "print_number (rate_in_kbps (ses_length s) ?duration) KBPS KBPS_UNIT = Some y"
    using number_printed by metis
  then show ?thesis using assms by (simp add: tcp_session_received_def Let_def)
qed

lemma tcp_received_at:
  assumes "ctx \<noteq> 0" "look_up_tcp ctx 0 (rx_sessions z SESSION_TCP) = Some i"
    "tcp_session_received hz t t pkt 0 ((rx_sessions z SESSION_TCP ! i)\<lparr>ses_ctx := ctx\<rparr>) = Some (s, out, ended)"
    "i < length (rx_sessions z SESSION_TCP)"
  shows "\<exists>z'. tcp_received hz t t ctx pkt 0 z = Some z' \<and> rx_sessions z' SESSION_TCP = (rx_sessions z SESSION_TCP)[i := s]"
  using assms by (auto simp: tcp_received_def get_tcp_session_def zperf_tcp_stopped_def Let_def)

lemma tcp_more_data:
  assumes "rx_sessions z SESSION_TCP = s # ss" "ses_ctx s = b" "b \<noteq> 0" "ses_state s = STATE_ONGOING"
  shows "returns (tcp_receive_all hz (map (\<lambda>(t, m). (t, Data b m)) ms) z) (\<lambda>z'. rx_sessions z' SESSION_TCP =
     s\<lparr>ses_counter := ses_counter s + of_nat (length ms), ses_length := ses_length s + of_nat (sum_list (map snd ms))\<rparr> # ss)"
  using assms
proof (induction ms arbitrary: s z)
  case (Cons ev ms)
  obtain t m where ev: "ev = (t, m)" by fastforce
  let ?s = "s\<lparr>ses_counter := ses_counter s + 1, ses_length := ses_length s + of_nat m\<rparr>"
  have "s\<lparr>ses_ctx := b\<rparr> = s" using Cons.prems by simp
  then obtain z' where z': "tcp_received hz t t b (Some m) 0 z = Some z'" "rx_sessions z' SESSION_TCP = ?s # ss"
    using tcp_received_at [of b z 0 hz t "Some m" ?s "[]" False] tcp_data [of s hz t m] Cons.prems by auto
  show ?case using Cons.IH [OF z'(2)] Cons.prems z' ev by (simp add: add.assoc)
qed simp

text \<open>
  C28: When on an idle receiver a TCP connection a sends first, then b, a ends and b sends on, the
  further data of b start a new session in the place that a left: b then has two sessions that are
  both ongoing, the new one with the further data only and the old one with its first data only, so
  neither holds what b has sent.
\<close>

theorem tcp_session_left_behind:
  assumes "a \<noteq> 0" "b \<noteq> 0" "a \<noteq> b" "ms \<noteq> []"
  shows "returns (tcp_receive_all hz ([(t1, Data a n1), (t2, Data b n2), (t3, Eof a)] @ map (\<lambda>(t, m). (t, Data b m)) ms) receiver_init)
     (\<lambda>z. let now = rx_sessions z SESSION_TCP ! 0; old = rx_sessions z SESSION_TCP ! 1 in
       ses_ctx now = b \<and> ses_state now = STATE_ONGOING \<and> ses_counter now = of_nat (length ms) \<and> ses_length now = of_nat (sum_list (map snd ms)) \<and>
       ses_ctx old = b \<and> ses_state old = STATE_ONGOING \<and> ses_counter old = 1 \<and> ses_length old = of_nat n2)"
proof -
  let ?zero = "session_zero"
  let ?start = "\<lambda>ctx t n. ?zero\<lparr>ses_ctx := ctx, ses_counter := 1, ses_start_time := t, ses_length := of_nat n, ses_state := STATE_ONGOING\<rparr>"
  have init: "rx_sessions receiver_init SESSION_TCP = [?zero, ?zero, ?zero, ?zero]"
    by (simp add: receiver_init_def SESSION_MAX_def numeral_eq_Suc)
  have i0: "idle ?zero" "ses_ctx ?zero = 0" by (simp_all add: idle_def session_zero_def)
  obtain z1 where z1: "tcp_received hz t1 t1 a (Some n1) 0 receiver_init = Some z1" "rx_sessions z1 SESSION_TCP = [?start a t1 n1, ?zero, ?zero, ?zero]"
    using tcp_received_at [of a receiver_init 0 hz t1 "Some n1" "?start a t1 n1" "[]" False] tcp_data_first [of "?zero\<lparr>ses_ctx := a\<rparr>" hz t1 n1] init i0 assms
    by (auto simp: session_zero_def)
  have nb: "\<not> idle (?start a t1 n1)" "ses_ctx (?start a t1 n1) = a" by (simp_all add: idle_def)
  obtain z2 where z2: "tcp_received hz t2 t2 b (Some n2) 0 z1 = Some z2" "rx_sessions z2 SESSION_TCP = [?start a t1 n1, ?start b t2 n2, ?zero, ?zero]"
    using tcp_received_at [of b z1 1 hz t2 "Some n2" "?start b t2 n2" "[]" False] tcp_data_first [of "?zero\<lparr>ses_ctx := b\<rparr>" hz t2 n2] z1 i0 nb assms
    by (auto simp: session_zero_def)
  obtain out where eof: "tcp_session_received hz t3 t3 None 0 (?start a t1 n1) =
      Some ((?start a t1 n1)\<lparr>ses_counter := 2, ses_state := STATE_NULL\<rparr>, out, True)"
    using tcp_eof [of "?start a t1 n1" hz t3] by auto
  let ?ended = "(?start a t1 n1)\<lparr>ses_counter := 2, ses_state := STATE_NULL\<rparr>"
  obtain z3 where z3: "tcp_received hz t3 t3 a None 0 z2 = Some z3" "rx_sessions z3 SESSION_TCP = [?ended, ?start b t2 n2, ?zero, ?zero]"
    using tcp_received_at [of a z2 0 hz t3 None ?ended out True] eof z2 assms by (auto simp: session_zero_def)
  obtain t m ms' where ms: "ms = (t, m) # ms'" using assms(4) by (cases ms) auto
  obtain z4 where z4: "tcp_received hz t t b (Some m) 0 z3 = Some z4" "rx_sessions z4 SESSION_TCP = [?start b t m, ?start b t2 n2, ?zero, ?zero]"
    using tcp_received_at [of b z3 0 hz t "Some m" "?start b t m" "[]" False] tcp_data_first [of "?ended\<lparr>ses_ctx := b\<rparr>" hz t m] z3 assms
    by (auto simp: session_zero_def idle_def)
  show ?thesis
    using tcp_more_data [OF z4(2), of b hz ms'] assms z1(1) z2(1) z3(1) z4(1) ms
    by (auto simp: Let_def elim!: returns_mono)
qed

lemma tcp_session_left_behind_witness:
  "returns (tcp_receive_all 1000000 ([(1, Data 1 10), (2, Data 2 20), (3, Eof 1)] @ map (\<lambda>(t, m). (t, Data 2 m)) [(4, 30)]) receiver_init)
     (\<lambda>z. ses_ctx (rx_sessions z SESSION_TCP ! 1) = 2 \<and> ses_state (rx_sessions z SESSION_TCP ! 1) = STATE_ONGOING \<and>
       ses_length (rx_sessions z SESSION_TCP ! 0) = 30 \<and> ses_length (rx_sessions z SESSION_TCP ! 1) = 20)"
  by (rule returns_mono [OF tcp_session_left_behind [of 1 2 "[(4, 30)]" 1000000 1 10 2 20 3]]) (simp_all add: Let_def)

end
