(* ===== verification/ZperfUploader.thy ===== *)
theory ZperfUploader
  imports ZperfReceiver
begin

text \<open>
  samples/net/zperf/src: zperf_udp_uploader.c and zperf_tcp_uploader.c, how packets are sent at a rate,
  and what the client learns from the statistics. The successive readings of the cycle counter
  are a list, as are the results of sending; when a list ends the model has no answer (\<open>None\<close>). The
  wait between packets is the busy wait of the builds without CONFIG_ARCH_POSIX.
\<close>

section \<open>Results\<close>

record zperf_results =
  nb_packets_sent :: u32
  nb_packets_rcvd :: u32
  nb_packets_lost :: u32
  nb_packets_outorder :: u32
  nb_bytes_sent :: u32
  time_in_us :: u32
  jitter_in_us :: u32
  client_time_in_us :: u32
  res_packet_size :: u32
  nb_packets_errors :: u32

definition zperf_upload_decode_stat :: "u8 list \<Rightarrow> zperf_results \<Rightarrow> zperf_results" where
  "zperf_upload_decode_stat pkt results =
     (if length pkt < DATAGRAM_SIZE then results
      else let pkt = drop DATAGRAM_SIZE pkt in
        if length pkt < SERVER_HDR_SIZE then results
        else let field = (\<lambda>i. be32 (drop (4 * i) pkt)) in
          results\<lparr>nb_packets_rcvd := field 7, nb_packets_lost := field 5, nb_packets_outorder := field 6,
            nb_bytes_sent := field 2, time_in_us := field 4 + field 3 * USEC_PER_SEC,
            jitter_in_us := field 9 + field 8 * USEC_PER_SEC\<rparr>)"

section \<open>Packets\<close>

abbreviation PACKET_SIZE_MAX :: u32 where "PACKET_SIZE_MAX \<equiv> 1024"
abbreviation CLIENT_HDR_SIZE :: nat where "CLIENT_HDR_SIZE \<equiv> 24"

text \<open>\<open>le32\<close>: \<open>buffer_len\<close> is stored without \<open>htonl\<close>, on a little-endian processor.\<close>

definition le32 :: "u32 \<Rightarrow> u8 list" where
  "le32 w = rev (to_be32 w)"

definition client_hdr :: "u32 \<Rightarrow> u32 \<Rightarrow> u32 \<Rightarrow> u8 list" where
  "client_hdr port bandwidth packet_size =
     to_be32 0 @ to_be32 1 @ to_be32 port @ le32 PACKET_SIZE_MAX @ to_be32 bandwidth @ to_be32 packet_size"

definition sample_packet :: "u32 \<Rightarrow> u32 \<Rightarrow> u32 \<Rightarrow> u32 \<Rightarrow> u32 \<Rightarrow> u32 \<Rightarrow> u8 list" where
  "sample_packet hz ident time port bandwidth packet_size =
     to_be32 ident @ to_be32 (ucast (HW_CYCLES_TO_SEC hz time)) @ to_be32 (ucast (HW_CYCLES_TO_USEC hz time mod USEC_PER_SEC)) @
     client_hdr port bandwidth packet_size @ replicate (unat PACKET_SIZE_MAX) 122"

section \<open>Sending at a rate\<close>

definition clamp_packet_size :: "u32 \<Rightarrow> u32" where
  "clamp_packet_size n = (if n > PACKET_SIZE_MAX then PACKET_SIZE_MAX else if n < of_nat DATAGRAM_SIZE then of_nat DATAGRAM_SIZE else n)"

text \<open>The divisor is a product of 32 bits; when it is 0 the division is undefined.\<close>

definition packet_duration :: "u32 \<Rightarrow> u32 \<Rightarrow> u32 \<Rightarrow> u32 option" where
  "packet_duration hz packet_size rate =
     (if rate * 1024 = 0 then None else Some (ucast ((ucast packet_size * ucast hz * 8 :: u64) div ucast (rate * 1024))))"

text \<open>
  The adjustment is a 32-bit difference read as a signed number, whose least value has no negation;
  \<open>- adjust < delay\<close> compares unsigned numbers.
\<close>

definition adjust_delay :: "u32 \<Rightarrow> u32 \<Rightarrow> u32 \<Rightarrow> u32 \<Rightarrow> u32 option" where
  "adjust_delay duration last_loop_time loop_time delay =
     (let adjust = (if last_loop_time \<noteq> loop_time then duration - time_delta last_loop_time loop_time else 0)
      in if 0 \<le> sint adjust then Some (delay + adjust)
         else if sint adjust = int32_min then None
         else Some (if - adjust < delay then delay + adjust else 0))"

text \<open>Waiting reads the clock until the delay has passed; the remaining readings are returned.\<close>

fun wait :: "u32 \<Rightarrow> u32 \<Rightarrow> u32 list \<Rightarrow> u32 list option" where
  "wait loop_time delay [] = None"
| "wait loop_time delay (now # clock) = (if time_delta loop_time now < delay then wait loop_time delay clock else Some clock)"

record upload =
  up_delay :: u32
  up_nb_packets :: u32
  up_last_loop_time :: u32
  up_sent :: "(u32 \<times> u8 list) list"

text \<open>
  The loop: a reading of the clock, the new delay, a packet, the wait. \<open>send_ok\<close> says of each packet whether
  it could be sent; the loop ends when one could not, or when the duration has passed.
\<close>

fun upload_loop :: "u32 \<Rightarrow> u32 \<Rightarrow> u32 \<Rightarrow> u32 \<Rightarrow> u32 \<Rightarrow> u32 \<Rightarrow> u32 \<Rightarrow> u32 list \<Rightarrow> bool list \<Rightarrow> upload \<Rightarrow> (upload \<times> u32 list) option" where
  "upload_loop hz port rate psize pd start duration clock [] s = None"
| "upload_loop hz port rate psize pd start duration [] (ok # oks) s = None"
| "upload_loop hz port rate psize pd start duration (loop_time # clock) (ok # oks) s =
     adjust_delay pd (up_last_loop_time s) loop_time (up_delay s) \<bind> (\<lambda>delay.
       let packet = take (unat psize) (sample_packet hz (up_nb_packets s) loop_time port rate psize);
           s = s\<lparr>up_delay := delay, up_last_loop_time := loop_time\<rparr>
       in if \<not> ok then Some (s, clock)
          else let s = s\<lparr>up_nb_packets := up_nb_packets s + 1, up_sent := up_sent s @ [(loop_time, packet)]\<rparr>
          in wait loop_time delay clock \<bind>
               (\<lambda>clock. if time_delta start loop_time < duration then upload_loop hz port rate psize pd start duration clock oks s
                       else Some (s, clock)))"

text \<open>The packet that ends the session, and its retry; \<open>answers\<close> says for each attempt what came back.\<close>

datatype answer = Send_failed | Timed_out | No_answer | Answer "u8 list"

fun fin_loop :: "nat \<Rightarrow> answer list \<Rightarrow> (nat \<times> u8 list option) option" where
  "fin_loop 0 answers = Some (0, None)"
| "fin_loop (Suc loop) [] = None"
| "fin_loop (Suc loop) (a # answers) = (case a of
     Send_failed \<Rightarrow> fin_loop loop answers
   | Timed_out \<Rightarrow> Some (1, None)
   | No_answer \<Rightarrow> fin_loop loop answers \<bind> (\<lambda>(n, st). Some (n + 1, st))
   | Answer pkt \<Rightarrow> Some (1, Some pkt))"

definition zperf_upload_fin :: "u32 \<Rightarrow> u32 \<Rightarrow> u32 \<Rightarrow> u32 \<Rightarrow> answer list \<Rightarrow> zperf_results \<Rightarrow> (u8 list list \<times> zperf_results) option" where
  "zperf_upload_fin hz nb_packets end_time packet_size answers results = do {
     (n, stat) \<leftarrow> fin_loop 2 answers;
     let packet = take (unat packet_size) (sample_packet hz (- nb_packets) end_time 0 0 packet_size);
     Some (replicate n packet, case stat of Some pkt \<Rightarrow> zperf_upload_decode_stat pkt results | None \<Rightarrow> results)
   }"

definition zperf_udp_upload :: "u32 \<Rightarrow> u32 \<Rightarrow> u32 \<Rightarrow> u32 \<Rightarrow> u32 \<Rightarrow> u32 list \<Rightarrow> bool list \<Rightarrow> answer list \<Rightarrow> zperf_results \<Rightarrow>
    ((u32 \<times> u8 list) list \<times> u8 list list \<times> zperf_results) option" where
  "zperf_udp_upload hz port duration_in_ms packet_size rate clock oks answers results = do {
     pd \<leftarrow> packet_duration hz packet_size rate;
     let duration = ucast (MSEC_TO_HW_CYCLES hz duration_in_ms);
     let size = clamp_packet_size packet_size;
     (start, clock) \<leftarrow> (case clock of [] \<Rightarrow> None | t # clock \<Rightarrow> Some (t, clock));
     (s, clock) \<leftarrow> upload_loop hz port rate size pd start duration clock oks
        \<lparr>up_delay = pd, up_nb_packets = 0, up_last_loop_time = start, up_sent = []\<rparr>;
     (end_time, clock) \<leftarrow> (case clock of [] \<Rightarrow> None | t # clock \<Rightarrow> Some (t, clock));
     (fins, results) \<leftarrow> zperf_upload_fin hz (up_nb_packets s) end_time size answers results;
     Some (up_sent s, fins, results\<lparr>nb_packets_sent := up_nb_packets s,
       client_time_in_us := ucast (HW_CYCLES_TO_USEC hz (time_delta start end_time)), res_packet_size := size\<rparr>)
   }"

section \<open>TCP\<close>

datatype send_result = Send_ok | Send_ENOMEM | Send_error

text \<open>One packet after another until the time is over; a packet that is sent after that is the last.\<close>

fun tcp_upload_loop :: "u32 \<Rightarrow> u32 \<Rightarrow> u32 list \<Rightarrow> send_result list \<Rightarrow> bool \<Rightarrow> u32 \<Rightarrow> u32 \<Rightarrow> (u32 \<times> u32 \<times> u32 list) option" where
  "tcp_upload_loop start duration [] rs elapsed sent errors = None"
| "tcp_upload_loop start duration (t # clock) [] elapsed sent errors = None"
| "tcp_upload_loop start duration (t # clock) (r # rs) elapsed sent errors =
     (if r = Send_error then Some (sent, errors + 1, clock)
      else let finished = (r = Send_ok \<and> elapsed);
               sent = (if r = Send_ok then sent + 1 else sent);
               errors = (if r = Send_ok then errors else errors + 1);
               elapsed = (elapsed \<or> time_delta start t > duration)
      in if finished then Some (sent, errors, clock) else tcp_upload_loop start duration clock rs elapsed sent errors)"

definition zperf_tcp_upload :: "u32 \<Rightarrow> u32 \<Rightarrow> u32 \<Rightarrow> u32 list \<Rightarrow> send_result list \<Rightarrow> zperf_results \<Rightarrow> zperf_results option" where
  "zperf_tcp_upload hz duration_in_ms packet_size clock rs results = do {
     let duration = ucast (MSEC_TO_HW_CYCLES hz duration_in_ms);
     let size = (if packet_size > PACKET_SIZE_MAX then PACKET_SIZE_MAX else packet_size);
     (start, clock) \<leftarrow> (case clock of [] \<Rightarrow> None | t # clock \<Rightarrow> Some (t, clock));
     (sent, errors, clock) \<leftarrow> tcp_upload_loop start duration clock rs False 0 0;
     (end_time, clock) \<leftarrow> (case clock of [] \<Rightarrow> None | t # clock \<Rightarrow> Some (t, clock));
     Some (results\<lparr>nb_packets_sent := sent, client_time_in_us := ucast (HW_CYCLES_TO_USEC hz (time_delta start end_time)),
       res_packet_size := size, nb_packets_errors := errors\<rparr>)
   }"

section \<open>The client learns what the server counted\<close>

lemma four_bytes:
  fixes x :: int
  assumes "0 \<le> x" "x < 2 ^ 32"
  shows "2 ^ 24 * ((x div 2 ^ 24) mod 256) + 2 ^ 16 * ((x div 2 ^ 16) mod 256) + 2 ^ 8 * ((x div 2 ^ 8) mod 256) + x mod 256 = x"
proof -
  define a b c where "a = x div 256" and "b = a div 256" and "c = b div 256"
  have d: "x div 2 ^ 8 = a" "x div 2 ^ 16 = b" "x div 2 ^ 24 = c"
    using zdiv_zmult2_eq [of 256 x 256] zdiv_zmult2_eq [of 256 x 65536] zdiv_zmult2_eq [of 256 a 256] by (simp_all add: a_def b_def c_def)
  have "0 \<le> c" "c < 256" using assms d(3) by (simp_all add: pos_imp_zdiv_nonneg_iff div_less_iff_less_mult flip: d(3))
  then have "c mod 256 = c" by (rule mod_pos_pos_trivial)
  moreover have "x = 256 * a + x mod 256" "a = 256 * b + a mod 256" "b = 256 * c + b mod 256" by (simp_all add: a_def b_def c_def)
  ultimately show ?thesis unfolding d by (simp only: power_numeral) simp
qed

lemma be32_to_be32: "be32 (to_be32 w @ rest) = w"
proof -
  have b: "uint (ucast (drop_bit k w) :: u8) = (uint w div 2 ^ k) mod 256" for k
    using mod_pos_pos_trivial [of "uint w" "2 ^ 32"] uint_lt2p [of w]
    by (simp add: unsigned_ucast_eq unsigned_drop_bit_eq take_bit_eq_mod) (simp add: drop_bit_eq_div mod_pos_pos_trivial)
  have b0: "uint (ucast w :: u8) = uint w mod 256" using b [of 0] by simp
  have w: "0 \<le> uint w" "uint w < 2 ^ 32" using uint_lt2p [of w] by simp_all
  have nths: "(to_be32 w @ rest) ! 0 = ucast (drop_bit 24 w)" "(to_be32 w @ rest) ! 1 = ucast (drop_bit 16 w)"
    "(to_be32 w @ rest) ! 2 = ucast (drop_bit 8 w)" "(to_be32 w @ rest) ! 3 = ucast w"
    by (simp_all add: to_be32_def)
  show ?thesis unfolding be32_def nths b b0 four_bytes [OF w] by simp
qed

lemma length_to_be32 [simp]: "length (to_be32 w) = 4"
  by (simp add: to_be32_def)

lemma drop_to_be32: "4 \<le> n \<Longrightarrow> drop n (to_be32 w @ rest) = drop (n - 4) rest"
  by simp

lemma decode_reply:
  assumes "12 \<le> length payload"
  shows "zperf_upload_decode_stat (build_reply payload st) r = r\<lparr>nb_packets_rcvd := st_datagrams st, nb_packets_lost := st_error_cnt st,
     nb_packets_outorder := st_outorder_cnt st, nb_bytes_sent := st_total_len2 st,
     time_in_us := st_stop_usec st + st_stop_sec st * USEC_PER_SEC, jitter_in_us := st_jitter2 st + st_jitter1 st * USEC_PER_SEC\<rparr>"
proof -
  have "drop DATAGRAM_SIZE (build_reply payload st) = server_hdr_bytes st" using assms by (simp add: build_reply_def)
  then show ?thesis using assms
    by (simp add: zperf_upload_decode_stat_def build_reply_def server_hdr_bytes_def be32_to_be32 Let_def be32_to_be32 [where rest = "[]", simplified])
qed

lemma low_half:
  fixes x :: u64
  assumes "uint x < (2 ^ 32 - 1) * 2 ^ 32"
  shows "uint (ucast (x mod 0xFFFFFFFF) :: u32) = uint x mod 2 ^ 32 \<longleftrightarrow> uint x < 2 ^ 32 - 1"
proof -
  define q r where "q = uint x div 2 ^ 32" and "r = uint x mod 2 ^ 32"
  have x: "uint x = q * 2 ^ 32 + r" "0 \<le> r" "r < 2 ^ 32" "0 \<le> q" by (simp_all add: q_def r_def pos_imp_zdiv_nonneg_iff)
  then have q: "q < 2 ^ 32 - 1" using assms by simp
  have "uint (ucast (x mod 0xFFFFFFFF) :: u32) = uint x mod (2 ^ 32 - 1) mod 2 ^ 32"
    by (simp add: unsigned_ucast_eq uint_mod take_bit_eq_mod)
  also have "\<dots> = uint x mod (2 ^ 32 - 1)" by (rule mod_pos_pos_trivial) (simp_all add: order.strict_trans [OF pos_mod_bound])
  also have "uint x = q * (2 ^ 32 - 1) + (q + r)" using x by simp
  then have "uint x mod (2 ^ 32 - 1) = (q + r) mod (2 ^ 32 - 1)" by (simp only: mod_mult_self3)
  finally have m: "uint (ucast (x mod 0xFFFFFFFF) :: u32) = (q + r) mod (2 ^ 32 - 1)" .
  show ?thesis
  proof (cases "q = 0")
    case True
    then have "uint x = r" using x by simp
    then show ?thesis using m True x by (auto simp: r_def [symmetric])
  next
    case False
    then have q1: "1 \<le> q" using x by simp
    have "(q + r) mod (2 ^ 32 - 1) \<noteq> r"
    proof (cases "q + r < 2 ^ 32 - 1")
      case True
      then show ?thesis using q1 x by simp
    next
      case big: False
      then have "(q + r) mod (2 ^ 32 - 1) = (q + r - (2 ^ 32 - 1)) mod (2 ^ 32 - 1)" by (metis minus_mod_self2)
      then have "(q + r) mod (2 ^ 32 - 1) \<le> q + r - (2 ^ 32 - 1)" using zmod_le_nonneg_dividend [of "q + r - (2 ^ 32 - 1)" "2 ^ 32 - 1"] big by simp
      then show ?thesis using q by simp
    qed
    moreover have "\<not> uint x < 2 ^ 32 - 1" using x q1 by simp
    ultimately show ?thesis using m by (simp add: r_def)
  qed
qed

text \<open>
  C29: The datagram the receiver sends at the end of a session tells the uploader the packets
  received, lost and out of order, the duration and the jitter, exactly; the number of bytes is that
  of the session, modulo 2^32, only when it is below 2^32 - 1.
\<close>

theorem statistics_reach_the_client:
  assumes payload: "12 \<le> length (pkt_payload p)" and long: "uint (ses_length s) < (2 ^ 32 - 1) * 2 ^ 32"
  shows "returns (end_of_session hz time p s) (\<lambda>(s', out). \<exists>bytes. Sent (pkt_family p) (pkt_src p) (pkt_src_port p) bytes \<in> set out \<and>
     (let r' = zperf_upload_decode_stat bytes r in
        nb_packets_rcvd r' = ses_counter s \<and> nb_packets_lost r' = ses_error s \<and> nb_packets_outorder r' = ses_outorder s \<and>
        time_in_us r' = ucast (HW_CYCLES_TO_USEC hz (time_delta (ses_start_time s) time)) \<and>
        jitter_in_us r' = word_of_int (ses_jitter s) \<and>
        (uint (nb_bytes_sent r') = uint (ses_length s) mod 2 ^ 32 \<longleftrightarrow> uint (ses_length s) < 2 ^ 32 - 1)))"
proof -
  define duration where "duration = (ucast (HW_CYCLES_TO_USEC hz (time_delta (ses_start_time s) time)) :: u32)"
  obtain a b c where "print_number duration TIME_US TIME_US_UNIT = Some a" "print_number (word_of_int (ses_jitter s)) TIME_US TIME_US_UNIT = Some b"
    "print_number (rate_in_kbps (ses_length s) duration) KBPS KBPS_UNIT = Some c" using number_printed by metis
  moreover have "duration mod 1000000 + duration div 1000000 * 1000000 = duration" by (simp add: mod_div_mult_eq)
  ultimately show ?thesis using low_half [OF long]
    by (auto simp: end_of_session_def duration_def [symmetric] Let_def zperf_receiver_send_stat_def decode_reply [OF payload]
        fill_statistics_def intro!: exI)
qed

definition results_zero :: zperf_results where
  "results_zero = \<lparr>nb_packets_sent = 0, nb_packets_rcvd = 0, nb_packets_lost = 0, nb_packets_outorder = 0, nb_bytes_sent = 0,
     time_in_us = 0, jitter_in_us = 0, client_time_in_us = 0, res_packet_size = 0, nb_packets_errors = 0\<rparr>"

lemma statistics_reach_the_client_witness:
  "returns (end_of_session 1000000 2500000 \<lparr>pkt_family = AF_INET, pkt_src = [192, 0, 2, 1], pkt_src_port = 50000, pkt_payload = replicate 12 255\<rparr>
       (session_zero\<lparr>ses_counter := 2, ses_length := 512, ses_start_time := 500000\<rparr>))
     (\<lambda>(s', out). \<exists>bytes. Sent AF_INET [192, 0, 2, 1] 50000 bytes \<in> set out \<and>
        nb_packets_rcvd (zperf_upload_decode_stat bytes results_zero) = 2 \<and>
        time_in_us (zperf_upload_decode_stat bytes results_zero) = 2000000 \<and>
        uint (nb_bytes_sent (zperf_upload_decode_stat bytes results_zero)) = 512)"
  by (rule returns_mono [OF statistics_reach_the_client [of "\<lparr>pkt_family = AF_INET, pkt_src = [192, 0, 2, 1], pkt_src_port = 50000,
        pkt_payload = replicate 12 255\<rparr>" "session_zero\<lparr>ses_counter := 2, ses_length := 512, ses_start_time := 500000\<rparr>" 1000000 2500000 results_zero]])
    (auto simp: Let_def HW_CYCLES_TO_USEC_def time_delta_def)

section \<open>The rate is never exceeded\<close>

lemma sint_of_small: "- (2 ^ 31) \<le> i \<Longrightarrow> i < 2 ^ 31 \<Longrightarrow> sint (word_of_int i :: u32) = i"
  by (subst sint_sbintrunc', rule signed_take_bit_int_eq_self) simp_all

lemma adjust_delay_schedule:
  assumes "prev < t" "unat t < 2 ^ 31" "unat pd < 2 ^ 30" "unat delay \<le> 2 ^ 31"
  shows "\<exists>delay'. adjust_delay pd prev t delay = Some delay' \<and> unat delay' \<le> unat delay + unat pd \<and>
     unat prev + unat delay + unat pd \<le> unat t + unat delay' \<and> (unat prev + unat delay \<le> unat t \<longrightarrow> unat delay' \<le> unat pd)"
proof -
  define e where "e = unat t - unat prev"
  have e: "unat prev + e = unat t" "0 < e" using assms(1) by (simp_all add: e_def word_less_nat_alt)
  have td: "time_delta prev t = of_nat e"
  proof -
    have "unat (time_delta prev t) = e" using assms(1) by (simp add: time_delta_forward e_def)
    then show ?thesis by (metis of_nat_unat ucast_id)
  qed
  have adj: "adjust_delay pd prev t delay = (if 0 \<le> sint (pd - of_nat e) then Some (delay + (pd - of_nat e))
      else if sint (pd - of_nat e) = int32_min then None
      else Some (if - (pd - of_nat e) < delay then delay + (pd - of_nat e) else 0))"
    using assms(1) by (simp add: adjust_delay_def td Let_def less_imp_neq)
  have pd: "pd = of_nat (unat pd)" by simp
  show ?thesis
  proof (cases "e \<le> unat pd")
    case True
    then obtain k where k: "unat pd = e + k" using le_Suc_ex by blast
    then have w: "pd - of_nat e = of_nat k" by (metis pd add_diff_cancel_left' of_nat_add)
    have "sint (of_nat k :: u32) = int k" using sint_of_small [of "int k"] assms(3) k by simp
    moreover have "unat (delay + of_nat k) = unat delay + k"
      using assms(3,4) k by (simp add: unat_word_ariths unat_of_nat)
    ultimately show ?thesis using adj w k e by auto
  next
    case False
    then obtain k where k: "e = unat pd + k" "0 < k" by (metis le_add1 le_neq_implies_less less_imp_add_positive nat_le_linear)
    then have w: "pd - of_nat e = word_of_int (- int k)" by simp
    have s: "sint (word_of_int (- int k) :: u32) = - int k" using sint_of_small [of "- int k"] assms(2) e k by simp
    have m: "- (word_of_int (- int k) :: u32) = of_nat k" by simp
    have u: "unat (of_nat k :: u32) = k" using assms(2) e k by (simp add: unat_of_nat)
    have ne: "- int k \<noteq> int32_min" using assms(2) e k by simp
    show ?thesis
    proof (cases "k < unat delay")
      case True
      then have "(of_nat k :: u32) \<le> delay" by (simp add: word_le_nat_alt u)
      then have d: "unat (delay + word_of_int (- int k)) = unat delay - k" by (simp add: unat_sub u)
      obtain j where "unat delay = k + j" using True by (meson le_Suc_ex less_imp_le)
      then show ?thesis using adj w s m ne True k e u d by (simp add: word_less_nat_alt)
    next
      case F: False
      then show ?thesis using adj w s m ne k e u by (simp add: word_less_nat_alt)
    qed
  qed
qed

text \<open>The wait ends with a reading not before the delay has passed.\<close>

lemma wait_ends:
  "wait t delay clock = Some clock' \<Longrightarrow> sorted_wrt (<) (t # clock) \<Longrightarrow>
     \<exists>now passed. clock = passed @ now # clock' \<and> unat t + unat delay \<le> unat now"
proof (induction t delay clock rule: wait.induct)
  case (2 t delay now clock)
  show ?case
  proof (cases "time_delta t now < delay")
    case True
    then obtain m passed where "clock = passed @ m # clock'" "unat t + unat delay \<le> unat m"
      using 2 by auto
    then show ?thesis by (metis append_Cons)
  next
    case False
    have "t \<le> now" using 2(3) by (simp add: less_imp_le)
    then have "unat t + unat delay \<le> unat now"
      using False time_delta_forward [of t now] by (simp add: word_less_nat_alt word_le_nat_alt)
    then show ?thesis using 2(2) False by (intro exI [of _ now] exI [of _ "[]"]) simp
  qed
qed simp

text \<open>
  \<open>n\<close> packets have been sent, none before its turn; the present delay ends at the turn of the next one
  or later, and no reading is left from before that.
\<close>

definition paced :: "(nat \<Rightarrow> u32 \<Rightarrow> u8 list) \<Rightarrow> u32 \<Rightarrow> u32 \<Rightarrow> (u32 \<times> u8 list) list \<Rightarrow> bool" where
  "paced packet start pd sent \<longleftrightarrow> (\<forall>k < length sent. unat start + k * unat pd \<le> unat (fst (sent ! k)) \<and> snd (sent ! k) = packet k (fst (sent ! k)))"

definition on_schedule :: "(nat \<Rightarrow> u32 \<Rightarrow> u8 list) \<Rightarrow> u32 \<Rightarrow> u32 \<Rightarrow> u32 list \<Rightarrow> upload \<Rightarrow> bool" where
  "on_schedule packet start pd clock s \<longleftrightarrow>
     paced packet start pd (up_sent s) \<and> up_nb_packets s = of_nat (length (up_sent s)) \<and>
     unat start + length (up_sent s) * unat pd \<le> unat (up_last_loop_time s) + unat (up_delay s) \<and>
     (if up_sent s = [] then up_delay s = pd \<and> up_last_loop_time s = start
      else unat (up_delay s) \<le> 2 * unat pd \<and> list_all (\<lambda>t. unat (up_last_loop_time s) + unat (up_delay s) \<le> unat t) clock)"

lemma paced_snoc:
  "paced packet start pd sent \<Longrightarrow> unat start + length sent * unat pd \<le> unat t \<Longrightarrow> paced packet start pd (sent @ [(t, packet (length sent) t)])"
  by (auto simp: paced_def nth_append less_Suc_eq)

lemma upload_loop_paced:
  assumes "upload_loop hz port rate psize pd start duration clock oks s = Some (s', clock')"
    and "sorted_wrt (<) (up_last_loop_time s # clock)" "list_all (\<lambda>t. unat t < 2 ^ 31) clock" "unat pd < 2 ^ 30"
    and "on_schedule (\<lambda>k t. take (unat psize) (sample_packet hz (of_nat k) t port rate psize)) start pd clock s"
  shows "paced (\<lambda>k t. take (unat psize) (sample_packet hz (of_nat k) t port rate psize)) start pd (up_sent s')"
  using assms
proof (induction hz port rate psize pd start duration clock oks s rule: upload_loop.induct)
  case (3 hz port rate psize pd start duration t clock ok oks s)
  let ?packet = "\<lambda>k t. take (unat psize) (sample_packet hz (of_nat k) t port rate psize)"
  have sched: "on_schedule ?packet start pd (t # clock) s" by (rule 3(6))
  have prev: "up_last_loop_time s < t" "unat t < 2 ^ 31" using 3(3,4) by simp_all
  have delay: "unat (up_delay s) \<le> 2 ^ 31" using sched 3(5) by (auto simp: on_schedule_def split: if_splits)
  obtain delay' where d: "adjust_delay pd (up_last_loop_time s) t (up_delay s) = Some delay'"
    "unat delay' \<le> unat (up_delay s) + unat pd" "unat (up_last_loop_time s) + unat (up_delay s) + unat pd \<le> unat t + unat delay'"
    "unat (up_last_loop_time s) + unat (up_delay s) \<le> unat t \<longrightarrow> unat delay' \<le> unat pd"
    using adjust_delay_schedule [OF prev 3(5) delay] by blast
  have turn: "unat start + length (up_sent s) * unat pd \<le> unat t"
    using sched prev(1) by (auto simp: on_schedule_def word_less_nat_alt split: if_splits)
  let ?s = "s\<lparr>up_delay := delay', up_last_loop_time := t, up_nb_packets := up_nb_packets s + 1,
      up_sent := up_sent s @ [(t, ?packet (length (up_sent s)) t)]\<rparr>"
  have nb: "up_nb_packets s = of_nat (length (up_sent s))" using sched by (simp add: on_schedule_def)
  have paced: "paced ?packet start pd (up_sent ?s)"
    using paced_snoc [OF _ turn, of ?packet] sched by (simp add: on_schedule_def)
  show ?case
  proof (cases ok)
    case False
    then show ?thesis using 3(2) d sched by (auto simp: on_schedule_def)
  next
    case True
    obtain rest where w: "wait t delay' clock = Some rest"
      and res: "(if time_delta start t < duration then upload_loop hz port rate psize pd start duration rest oks ?s else Some (?s, rest)) = Some (s', clock')"
      using 3(2) d(1) True nb by (auto simp: Let_def bind_eq_Some_conv cong: if_cong)
    obtain now passed where now: "clock = passed @ now # rest" "unat t + unat delay' \<le> unat now"
      using wait_ends [OF w] 3(3) by auto
    have "list_all (\<lambda>x. unat t + unat delay' \<le> unat x) rest"
      using 3(3) now by (fastforce simp: list_all_iff sorted_wrt_append word_less_nat_alt)
    moreover have "unat delay' \<le> 2 * unat pd" using d sched by (auto simp: on_schedule_def split: if_splits)
    moreover have "unat start + length (up_sent ?s) * unat pd \<le> unat t + unat delay'"
      using sched d(3) by (simp add: on_schedule_def)
    ultimately have sched': "on_schedule ?packet start pd rest ?s" using paced nb by (simp add: on_schedule_def)
    have sorted: "sorted_wrt (<) (up_last_loop_time ?s # rest)" "list_all (\<lambda>t. unat t < 2 ^ 31) rest"
      using 3(3,4) now by (auto simp: sorted_wrt_append)
    show ?thesis
    proof (cases "time_delta start t < duration")
      case more: True
      have run: "upload_loop hz port rate psize pd start duration rest oks ?s = Some (s', clock')" using res more by simp
      show ?thesis by (rule 3(1) [OF d(1) refl refl _ refl w more, unfolded nb]) (use True run sorted sched' 3(5) nb in simp_all)
    next
      case False
      then show ?thesis using res paced by auto
    qed
  qed
qed simp_all

text \<open>
  C30: When the readings of the cycle counter increase and stay below 2^31 and the duration of a
  packet is below 2^30 cycles, the UDP uploader never sends ahead of the rate: packet k, which
  carries the number k, is sent at least k packet durations after the start, however long sending,
  waiting and yielding take.
\<close>

theorem uploads_keep_the_rate:
  assumes "zperf_udp_upload hz port duration_in_ms packet_size rate (start # clock) oks answers results = Some (sent, fins, results')"
    and "sorted_wrt (<) (start # clock)" "list_all (\<lambda>t. unat t < 2 ^ 31) clock"
    and "packet_duration hz packet_size rate = Some pd" "unat pd < 2 ^ 30" "k < length sent"
  shows "unat start + k * unat pd \<le> unat (fst (sent ! k))
    \<and> snd (sent ! k) = take (unat (clamp_packet_size packet_size))
        (sample_packet hz (of_nat k) (fst (sent ! k)) port rate (clamp_packet_size packet_size))"
proof -
  obtain s clock' duration where "upload_loop hz port rate (clamp_packet_size packet_size) pd start duration clock oks
      \<lparr>up_delay = pd, up_nb_packets = 0, up_last_loop_time = start, up_sent = []\<rparr> = Some (s, clock')" "sent = up_sent s"
    using assms(1,4) by (auto simp: zperf_udp_upload_def Let_def bind_eq_Some_conv split: prod.splits)
  then show ?thesis using upload_loop_paced [of hz port rate "clamp_packet_size packet_size" pd start duration clock oks _ s clock'] assms(2-6)
    by (auto simp: on_schedule_def paced_def)
qed

text \<open>A clock of 1000 Hz, 8 kbps, packets of 128 bytes: one every 125 ticks.\<close>

lemma example_loop:
  "\<exists>s'. upload_loop 1000 5001 8 128 125 10 200 [11, 100, 260, 270, 300, 385, 390] [True, True]
     \<lparr>up_delay = 125, up_nb_packets = 0, up_last_loop_time = 10, up_sent = []\<rparr> = Some (s', [390]) \<and> length (up_sent s') = 2"
proof -
  have a: "adjust_delay 125 10 11 125 = Some 249" "adjust_delay 125 11 270 249 = Some 115"
    "wait 11 249 [100, 260, 270, 300, 385, 390] = Some [270, 300, 385, 390]" "wait 270 115 [300, 385, 390] = Some [390]"
    "time_delta 10 11 < 200" "\<not> time_delta 10 270 < 200"
    by code_simp+
  show ?thesis by (simp add: a Let_def del: wait.simps)
qed

lemma example_upload:
  "\<exists>sent fins results'. zperf_udp_upload 1000 5001 200 128 8 (10 # [11, 100, 260, 270, 300, 385, 390]) [True, True] [Timed_out] results_zero
     = Some (sent, fins, results') \<and> length sent = 2"
proof -
  have b: "packet_duration 1000 128 8 = Some 125" "(ucast (MSEC_TO_HW_CYCLES 1000 200) :: u32) = 200" "clamp_packet_size 128 = 128"
    "fin_loop 2 [Timed_out] = Some (1, None)"
    by code_simp+
  obtain s' where "upload_loop 1000 5001 8 128 125 10 200 [11, 100, 260, 270, 300, 385, 390] [True, True]
     \<lparr>up_delay = 125, up_nb_packets = 0, up_last_loop_time = 10, up_sent = []\<rparr> = Some (s', [390])" "length (up_sent s') = 2"
    using example_loop by blast
  then show ?thesis by (simp add: zperf_udp_upload_def b Let_def zperf_upload_fin_def del: upload_loop.simps)
qed

lemma uploads_keep_the_rate_witness:
  "\<exists>sent fins results'. zperf_udp_upload 1000 5001 200 128 8 (10 # [11, 100, 260, 270, 300, 385, 390]) [True, True] [Timed_out] results_zero
     = Some (sent, fins, results') \<and> unat (10 :: u32) + 1 * unat (125 :: u32) \<le> unat (fst (sent ! 1))"
proof -
  obtain sent fins results' where run: "zperf_udp_upload 1000 5001 200 128 8 (10 # [11, 100, 260, 270, 300, 385, 390]) [True, True] [Timed_out] results_zero
     = Some (sent, fins, results')" "length sent = 2" using example_upload by blast
  have "unat (10 :: u32) + 1 * unat (125 :: u32) \<le> unat (fst (sent ! 1))"
    using uploads_keep_the_rate [OF run(1), of 125 1] run(2) by (simp add: packet_duration_def)
  then show ?thesis using run(1) by blast
qed

end
