(* ===== verification/OnOffApp.thy ===== *)
theory OnOffApp
  imports Prelude
begin

text \<open>
  samples/boards/nrf/mesh/onoff-app/src/main.c: four buttons and four LEDs as mesh clients and
  servers. Element \<open>i\<close> has the server of LED \<open>i\<close> and the client of button \<open>i\<close>. The publication
  addresses and the pins of the buttons are given; what the program asks of the mesh stack, the
  GPIO driver and the kernel is collected in \<open>app_log\<close>. \<open>None\<close> is reading past the end of a message,
  writing past the end of a buffer, or an index beyond an array.
\<close>

section \<open>State\<close>

record onoff_state =
  on_current :: u8
  on_previous :: u8

datatype app_call = Set_led nat u8 | Send_reply nat "u8 list" | Publish_server nat "u8 list" | Publish_client nat "u8 list"
  | Start_button_timer | Submit_button_work | Enable_provisioning

record app =
  onoff_states :: "onoff_state list"
  sw_num :: nat
  sw_onoff_state :: u8
  button_press_cnt :: u8
  trans_id :: u8
  last_time :: u32
  primary_addr :: u16
  primary_net_idx :: u16
  timer_running :: bool
  work_pending :: bool
  app_log :: "app_call list"

abbreviation BT_MESH_ADDR_UNASSIGNED :: u16 where "BT_MESH_ADDR_UNASSIGNED \<equiv> 0"

text \<open>Publication addresses of servers and clients, and the GPIO pins of the buttons.\<close>

record app_env =
  srv_addr :: "nat \<Rightarrow> u16"
  cli_addr :: "nat \<Rightarrow> u16"
  sw_pins :: "nat list"

definition app_do :: "app_call \<Rightarrow> app \<Rightarrow> app" where
  "app_do c s = s\<lparr>app_log := app_log s @ [c]\<rparr>"

section \<open>Messages\<close>

datatype onoff_op = GEN_ONOFF_GET | GEN_ONOFF_SET | GEN_ONOFF_SET_UNACK | GEN_ONOFF_STATUS

fun onoff_opcode :: "onoff_op \<Rightarrow> u8 list" where
  "onoff_opcode GEN_ONOFF_GET = [0x82, 0x01]"
| "onoff_opcode GEN_ONOFF_SET = [0x82, 0x02]"
| "onoff_opcode GEN_ONOFF_SET_UNACK = [0x82, 0x03]"
| "onoff_opcode GEN_ONOFF_STATUS = [0x82, 0x04]"

abbreviation PUB_SIZE :: nat where "PUB_SIZE \<equiv> 2 + 2"
abbreviation REPLY_SIZE :: nat where "REPLY_SIZE \<equiv> 2 + 1 + 4"

definition buf_add :: "nat \<Rightarrow> u8 \<Rightarrow> u8 list \<Rightarrow> u8 list option" where
  "buf_add capacity b msg = (if length msg < capacity then Some (msg @ [b]) else None)"

definition msg_init :: "nat \<Rightarrow> onoff_op \<Rightarrow> u8 list option" where
  "msg_init capacity op = (if length (onoff_opcode op) \<le> capacity then Some (onoff_opcode op) else None)"

definition buf_pull :: "u8 list \<Rightarrow> (u8 \<times> u8 list) option" where
  "buf_pull buf = (case buf of [] \<Rightarrow> None | b # bs \<Rightarrow> Some (b, bs))"

section \<open>Handlers\<close>

definition state_of :: "nat \<Rightarrow> app \<Rightarrow> onoff_state option" where
  "state_of i s = (if i < length (onoff_states s) then Some (onoff_states s ! i) else None)"

definition app_gen_onoff_get :: "nat \<Rightarrow> u8 list \<Rightarrow> app \<Rightarrow> app option" where
  "app_gen_onoff_get i buf s = do {
     st \<leftarrow> state_of i s;
     msg \<leftarrow> msg_init REPLY_SIZE GEN_ONOFF_STATUS;
     msg \<leftarrow> buf_add REPLY_SIZE (on_current st) msg;
     Some (app_do (Send_reply i msg) s)
   }"

definition app_gen_onoff_set_unack :: "app_env \<Rightarrow> nat \<Rightarrow> u8 list \<Rightarrow> app \<Rightarrow> app option" where
  "app_gen_onoff_set_unack e i buf s = do {
     st \<leftarrow> state_of i s;
     (b, buf) \<leftarrow> buf_pull buf;
     let st = st\<lparr>on_current := b\<rparr>;
     let s = app_do (Set_led i b) (s\<lparr>onoff_states := (onoff_states s)[i := st]\<rparr>);
     if on_previous st \<noteq> on_current st \<and> srv_addr e i \<noteq> BT_MESH_ADDR_UNASSIGNED then do {
       let s = s\<lparr>onoff_states := (onoff_states s)[i := st\<lparr>on_previous := on_current st\<rparr>]\<rparr>;
       msg \<leftarrow> msg_init PUB_SIZE GEN_ONOFF_STATUS;
       msg \<leftarrow> buf_add PUB_SIZE (on_current st) msg;
       Some (app_do (Publish_server i msg) s)
     } else Some s
   }"

definition app_gen_onoff_set :: "app_env \<Rightarrow> nat \<Rightarrow> u8 list \<Rightarrow> app \<Rightarrow> app option" where
  "app_gen_onoff_set e i buf s = app_gen_onoff_set_unack e i buf s \<bind> app_gen_onoff_get i (drop 1 buf)"

definition app_gen_onoff_status :: "nat \<Rightarrow> u8 list \<Rightarrow> app \<Rightarrow> app option" where
  "app_gen_onoff_status i buf s = buf_pull buf \<bind> (\<lambda>_. Some s)"

text \<open>The tables of the models: the handler of an opcode, called when the message has the least length given there.\<close>

fun onoff_min_len :: "onoff_op \<Rightarrow> nat" where
  "onoff_min_len GEN_ONOFF_GET = 0"
| "onoff_min_len GEN_ONOFF_SET = 2"
| "onoff_min_len GEN_ONOFF_SET_UNACK = 2"
| "onoff_min_len GEN_ONOFF_STATUS = 1"

definition app_deliver :: "app_env \<Rightarrow> nat \<Rightarrow> onoff_op \<Rightarrow> u8 list \<Rightarrow> app \<Rightarrow> app option" where
  "app_deliver e i op buf s =
     (if length buf < onoff_min_len op then Some s
      else case op of
        GEN_ONOFF_GET \<Rightarrow> app_gen_onoff_get i buf s
      | GEN_ONOFF_SET \<Rightarrow> app_gen_onoff_set e i buf s
      | GEN_ONOFF_SET_UNACK \<Rightarrow> app_gen_onoff_set_unack e i buf s
      | GEN_ONOFF_STATUS \<Rightarrow> app_gen_onoff_status i buf s)"

section \<open>Provisioning\<close>

definition app_prov_complete :: "u16 \<Rightarrow> u16 \<Rightarrow> app \<Rightarrow> app" where
  "app_prov_complete net_idx addr s = s\<lparr>primary_addr := addr, primary_net_idx := net_idx\<rparr>"

definition app_prov_reset :: "app \<Rightarrow> app" where
  "app_prov_reset s = app_do Enable_provisioning s"

section \<open>Buttons\<close>

abbreviation BUTTON_DEBOUNCE_DELAY_MS :: u32 where "BUTTON_DEBOUNCE_DELAY_MS \<equiv> 250"

definition pin_to_sw :: "nat list \<Rightarrow> u32 \<Rightarrow> nat" where
  "pin_to_sw pins pin_pos =
     (if pin_pos = push_bit (pins ! 0) 1 then 0
      else if pin_pos = push_bit (pins ! 1) 1 then 1
      else if pin_pos = push_bit (pins ! 2) 1 then 2
      else if pin_pos = push_bit (pins ! 3) 1 then 3
      else 0)"

definition app_button_pressed :: "app_env \<Rightarrow> u32 \<Rightarrow> u32 \<Rightarrow> app \<Rightarrow> app" where
  "app_button_pressed e time pin_pos s =
     (if time < last_time s + BUTTON_DEBOUNCE_DELAY_MS then s\<lparr>last_time := time\<rparr>
      else let s = (if button_press_cnt s = 0 then app_do Start_button_timer (s\<lparr>timer_running := True\<rparr>) else s)
           in s\<lparr>button_press_cnt := button_press_cnt s + 1, sw_num := pin_to_sw (sw_pins e) pin_pos, last_time := time\<rparr>)"

definition button_cnt_timer :: "app \<Rightarrow> app" where
  "button_cnt_timer s = app_do Submit_button_work
     (s\<lparr>timer_running := False, sw_onoff_state := (if button_press_cnt s = 1 then 1 else 0), button_press_cnt := 0, work_pending := True\<rparr>)"

definition button_pressed_worker :: "app_env \<Rightarrow> app \<Rightarrow> app option" where
  "button_pressed_worker e s =
     (let sw_idx = sw_num s; s = s\<lparr>work_pending := False\<rparr> in
      if sw_idx \<ge> length (onoff_states s) then None
      else if primary_addr s = BT_MESH_ADDR_UNASSIGNED then
        buf_add 1 (sw_onoff_state s) [] \<bind> (\<lambda>msg. app_gen_onoff_set_unack e sw_idx msg s)
      else if cli_addr e sw_idx = BT_MESH_ADDR_UNASSIGNED then Some s
      else do {
        msg \<leftarrow> msg_init PUB_SIZE GEN_ONOFF_SET;
        msg \<leftarrow> buf_add PUB_SIZE (sw_onoff_state s) msg;
        msg \<leftarrow> buf_add PUB_SIZE (trans_id s) msg;
        Some (app_do (Publish_client sw_idx msg) (s\<lparr>trans_id := trans_id s + 1\<rparr>))
      })"

definition init_led :: "nat \<Rightarrow> app \<Rightarrow> app" where
  "init_led i s = app_do (Set_led i 0) s"

definition app_main :: "u32 \<Rightarrow> app" where
  "app_main now = fold init_led [0, 1, 2, 3] \<lparr>onoff_states = replicate 4 \<lparr>on_current = 0, on_previous = 0\<rparr>, sw_num = 0, sw_onoff_state = 0,
     button_press_cnt = 0, trans_id = 0, last_time = now, primary_addr = 0, primary_net_idx = 0, timer_running = False,
     work_pending = False, app_log = []\<rparr>"

section \<open>The program as a system\<close>

datatype app_event = Message nat onoff_op "u8 list" | Provisioned u16 u16 | Reset | Interrupt u32 u32 | Timer_expires | Work_runs

text \<open>The timer expires when it runs, the work item runs when it has been submitted; the environment may change between events.\<close>

fun app_step :: "app_env \<Rightarrow> app_event \<Rightarrow> app \<Rightarrow> app option" where
  "app_step e (Message i op buf) s = app_deliver e i op buf s"
| "app_step e (Provisioned net_idx addr) s = Some (app_prov_complete net_idx addr s)"
| "app_step e Reset s = Some (app_prov_reset s)"
| "app_step e (Interrupt time pin_pos) s = Some (app_button_pressed e time pin_pos s)"
| "app_step e Timer_expires s = Some (if timer_running s then button_cnt_timer s else s)"
| "app_step e Work_runs s = (if work_pending s then button_pressed_worker e s else Some s)"

fun app_run :: "(app_env \<times> app_event) list \<Rightarrow> app \<Rightarrow> app option" where
  "app_run [] s = Some s"
| "app_run ((e, ev) # evs) s = app_step e ev s \<bind> app_run evs"

lemma app_run_append: "app_run (xs @ ys) s = app_run xs s \<bind> app_run ys"
  by (induction xs s rule: app_run.induct) (auto split: Option.bind_split)

lemma app_run_nothing: "m \<bind> app_run [] = m"
  by (cases m) simp_all

section \<open>Well-formed states\<close>

text \<open>What a call may be: an existing LED or model, a message of its model that fits the buffer.\<close>

fun call_ok :: "app_call \<Rightarrow> bool" where
  "call_ok (Set_led i b) = (i < 4)"
| "call_ok (Send_reply i msg) = (i < 4 \<and> take 2 msg = onoff_opcode GEN_ONOFF_STATUS \<and> length msg = 3)"
| "call_ok (Publish_server i msg) = (i < 4 \<and> take 2 msg = onoff_opcode GEN_ONOFF_STATUS \<and> length msg = 3)"
| "call_ok (Publish_client i msg) = (i < 4 \<and> take 2 msg = onoff_opcode GEN_ONOFF_SET \<and> length msg = 4 \<and> msg ! 2 \<le> 1)"
| "call_ok _ = True"

definition app_ok :: "app \<Rightarrow> bool" where
  "app_ok s \<longleftrightarrow> length (onoff_states s) = 4 \<and> sw_num s < 4 \<and> sw_onoff_state s \<le> 1 \<and> list_all call_ok (app_log s)"

fun event_ok :: "app_event \<Rightarrow> bool" where
  "event_ok (Message i op buf) = (i < 4)"
| "event_ok _ = True"

lemma pin_to_sw_range: "pin_to_sw pins p < 4"
  by (simp add: pin_to_sw_def)

lemmas app_buffers = msg_init_def buf_add_def buf_pull_def state_of_def app_do_def

lemma set_unack_result:
  assumes "i < length (onoff_states s)"
  shows "app_gen_onoff_set_unack e i (b # rest) s = Some (
     let st = onoff_states s ! i; change = (on_previous st \<noteq> b \<and> srv_addr e i \<noteq> 0)
     in s\<lparr>onoff_states := (onoff_states s)[i := \<lparr>on_current = b, on_previous = (if change then b else on_previous st)\<rparr>],
       app_log := app_log s @ Set_led i b # (if change then [Publish_server i [0x82, 0x04, b]] else [])\<rparr>)"
  using assms by (cases "onoff_states s ! i") (simp add: app_gen_onoff_set_unack_def app_buffers Let_def)

lemma get_result:
  assumes "i < length (onoff_states s)"
  shows "app_gen_onoff_get i buf s = Some (s\<lparr>app_log := app_log s @ [Send_reply i [0x82, 0x04, on_current (onoff_states s ! i)]]\<rparr>)"
  using assms by (simp add: app_gen_onoff_get_def app_buffers)

lemma worker_result:
  assumes "sw_num s < length (onoff_states s)" "primary_addr s \<noteq> 0"
  shows "button_pressed_worker e s = Some (let s = s\<lparr>work_pending := False\<rparr> in if cli_addr e (sw_num s) = 0 then s
     else s\<lparr>trans_id := trans_id s + 1, app_log := app_log s @ [Publish_client (sw_num s) [0x82, 0x02, sw_onoff_state s, trans_id s]]\<rparr>)"
  using assms by (simp add: button_pressed_worker_def app_buffers Let_def not_le)

lemma worker_unprovisioned:
  assumes "sw_num s < length (onoff_states s)" "primary_addr s = 0"
  shows "button_pressed_worker e s = app_gen_onoff_set_unack e (sw_num s) [sw_onoff_state s] (s\<lparr>work_pending := False\<rparr>)"
  using assms by (simp add: button_pressed_worker_def app_buffers Let_def not_le)

lemma app_step_ok:
  assumes "app_ok s" "event_ok ev"
  shows "returns (app_step e ev s) app_ok"
proof (cases ev)
  case (Message i op buf)
  then have i: "i < length (onoff_states s)" "i < 4" using assms by (simp_all add: app_ok_def)
  show ?thesis
  proof (cases "length buf < onoff_min_len op")
    case True
    then show ?thesis using Message assms by (simp add: app_deliver_def)
  next
    case long: False
    show ?thesis
    proof (cases "op = GEN_ONOFF_GET")
      case True
      then show ?thesis using Message assms i by (simp add: app_deliver_def get_result app_ok_def)
    next
      case False
      then obtain b rest where buf: "buf = b # rest" using long by (cases buf; cases op) auto
      show ?thesis using Message assms i long False buf
        by (cases op) (simp_all add: app_deliver_def app_gen_onoff_set_def set_unack_result get_result app_gen_onoff_status_def buf_pull_def app_ok_def Let_def)
    qed
  qed
next
  case Work_runs
  show ?thesis
  proof (cases "primary_addr s = 0")
    case True
    then show ?thesis using Work_runs assms by (simp add: worker_unprovisioned set_unack_result app_ok_def Let_def)
  next
    case False
    then show ?thesis using Work_runs assms by (simp add: worker_result app_ok_def Let_def)
  qed
qed (use assms in \<open>auto simp: app_ok_def app_prov_complete_def app_prov_reset_def app_do_def app_button_pressed_def button_cnt_timer_def
    Let_def pin_to_sw_range\<close>)

lemma app_main_ok: "app_ok (app_main now)"
  by (simp add: app_ok_def app_main_def init_led_def app_do_def)

text \<open>
  C31: In the on/off sample every message, interrupt, expiry and work item, in any order, is handled
  without reading or writing past a buffer or an array, and keeps the state well formed: a valid
  button, an on/off value, and only complete status and set messages of the right opcode handed to
  the stack.
\<close>

theorem app_stays_well_formed:
  assumes "list_all (\<lambda>(e, ev). event_ok ev) evs"
  shows "returns (app_run evs (app_main now)) app_ok"
proof -
  have "returns (app_run evs s) app_ok" if "app_ok s" for s
    using assms that
  proof (induction evs s rule: app_run.induct)
    case (2 e ev evs s)
    then show ?case using app_step_ok [of s ev e] by (auto simp: returns_eq_Some)
  qed simp
  then show ?thesis using app_main_ok .
qed

section \<open>What is published\<close>

text \<open>The values an LED was set to, and those its server has published.\<close>

fun led_values :: "nat \<Rightarrow> app_call list \<Rightarrow> u8 list" where
  "led_values i [] = []"
| "led_values i (Set_led j b # cs) = (if j = i then b # led_values i cs else led_values i cs)"
| "led_values i (c # cs) = led_values i cs"

fun published :: "nat \<Rightarrow> app_call list \<Rightarrow> u8 list" where
  "published i [] = []"
| "published i (Publish_server j msg # cs) = (if j = i then msg ! 2 # published i cs else published i cs)"
| "published i (c # cs) = published i cs"

lemma led_values_append [simp]: "led_values i (xs @ ys) = led_values i xs @ led_values i ys"
  by (induction i xs rule: led_values.induct) auto

lemma published_append [simp]: "published i (xs @ ys) = published i xs @ published i ys"
  by (induction i xs rule: published.induct) auto

lemma remdups_adj_snoc: "xs \<noteq> [] \<Longrightarrow> remdups_adj (xs @ [x]) = (if last xs = x then remdups_adj xs else remdups_adj xs @ [x])"
  by (induction xs rule: remdups_adj.induct) auto

definition up_to_date :: "nat \<Rightarrow> app \<Rightarrow> bool" where
  "up_to_date i s \<longleftrightarrow> (let leds = led_values i (app_log s); st = onoff_states s ! i in
     leds \<noteq> [] \<and> on_current st = last leds \<and> on_previous st = last leds \<and> published i (app_log s) = tl (remdups_adj leds))"

lemma up_to_date_quiet:
  assumes "up_to_date i s" "onoff_states s' ! i = onoff_states s ! i" "app_log s' = app_log s @ cs" "led_values i cs = []" "published i cs = []"
  shows "up_to_date i s'"
  using assms by (simp add: up_to_date_def Let_def)

lemma up_to_date_set:
  assumes "up_to_date i s" "j < length (onoff_states s)" "srv_addr e i \<noteq> 0" "app_gen_onoff_set_unack e j (b # rest) s = Some s'"
  shows "up_to_date i s'"
proof (cases "j = i")
  case True
  have "remdups_adj (led_values i (app_log s)) \<noteq> []" using assms(1) by (simp add: up_to_date_def Let_def)
  then show ?thesis using assms True
    by (auto simp: set_unack_result up_to_date_def Let_def remdups_adj_snoc tl_append2)
next
  case False
  then show ?thesis using assms by (auto simp: set_unack_result Let_def intro!: up_to_date_quiet [OF assms(1)])
qed

lemma up_to_date_step:
  assumes "up_to_date i s" "app_ok s" "event_ok ev" "srv_addr e i \<noteq> 0" "app_step e ev s = Some s'"
  shows "up_to_date i s'"
proof (cases ev)
  case (Message j op buf)
  then have j: "j < length (onoff_states s)" using assms by (simp add: app_ok_def)
  show ?thesis
  proof (cases "length buf < onoff_min_len op \<or> op = GEN_ONOFF_GET \<or> op = GEN_ONOFF_STATUS")
    case True
    then show ?thesis using Message assms j
      by (cases op) (auto simp: app_deliver_def get_result app_gen_onoff_status_def bind_eq_Some_conv split: if_splits intro!: up_to_date_quiet [OF assms(1)])
  next
    case False
    then obtain b rest where buf: "buf = b # rest" by (cases buf; cases op) auto
    obtain t where t: "app_gen_onoff_set_unack e j buf s = Some t" "length (onoff_states t) = length (onoff_states s)"
      using j buf by (simp add: set_unack_result Let_def)
    have "up_to_date i t" by (rule up_to_date_set [OF assms(1) j assms(4)]) (use t buf in simp)
    then show ?thesis using Message assms False t j
      by (cases op) (auto simp: app_deliver_def app_gen_onoff_set_def get_result split: if_splits intro: up_to_date_quiet)
  qed
next
  case Work_runs
  have sw: "sw_num s < length (onoff_states s)" using assms(2) by (simp add: app_ok_def)
  show ?thesis
  proof (cases "work_pending s \<and> primary_addr s = 0")
    case True
    have "up_to_date i (s\<lparr>work_pending := False\<rparr>)" using assms(1) by (simp add: up_to_date_def)
    then show ?thesis using Work_runs assms True sw up_to_date_set [of i "s\<lparr>work_pending := False\<rparr>" "sw_num s" e "sw_onoff_state s" "[]" s']
      by (simp add: worker_unprovisioned)
  next
    case False
    then show ?thesis using Work_runs assms sw
      by (cases "work_pending s") (auto simp: worker_result Let_def split: if_splits intro!: up_to_date_quiet [OF assms(1)])
  qed
qed (use assms in \<open>auto simp: app_prov_complete_def app_prov_reset_def app_do_def app_button_pressed_def button_cnt_timer_def
    Let_def intro!: up_to_date_quiet [OF assms(1)] split: if_splits\<close>)

text \<open>
  C32: A server of the on/off sample that has a publication address from the start publishes exactly
  the changes of its LED: the values published are those the LED was set to, without repetitions,
  whatever sets it.
\<close>

theorem changes_are_published:
  assumes "list_all (\<lambda>(e, ev). event_ok ev \<and> srv_addr e i \<noteq> 0) evs" "i < 4"
  shows "returns (app_run evs (app_main now)) (\<lambda>s. published i (app_log s) = tl (remdups_adj (led_values i (app_log s))))"
proof -
  have "returns (app_run evs s) (up_to_date i)" if "app_ok s" "up_to_date i s" for s
    using assms(1) that
  proof (induction evs s rule: app_run.induct)
    case (2 e ev evs s)
    obtain s' where "app_step e ev s = Some s'" "app_ok s'" using app_step_ok [of s ev e] 2 by (auto simp: returns_eq_Some)
    then show ?case using 2 up_to_date_step [of i s ev e s'] by simp
  qed simp
  moreover have "i \<in> {0, 1, 2, 3}" using assms(2) by auto
  then have "up_to_date i (app_main now)" by (auto simp: up_to_date_def app_main_def init_led_def app_do_def)
  ultimately have "returns (app_run evs (app_main now)) (up_to_date i)" using app_main_ok by blast
  then show ?thesis by (rule returns_mono) (simp add: up_to_date_def Let_def)
qed

text \<open>A server without an address does not note what it has not published.\<close>

theorem change_not_published:
  assumes "i < 4" "srv_addr e i = 0" "srv_addr e' i \<noteq> 0"
  shows "returns (app_run [(e, Message i GEN_ONOFF_SET_UNACK [1, 0]), (e', Message i GEN_ONOFF_SET_UNACK [0, 1])] (app_main now))
     (\<lambda>s. led_values i (app_log s) = [0, 1, 0] \<and> published i (app_log s) = [])"
proof -
  have "i \<in> {0, 1, 2, 3}" using assms(1) by auto
  then show ?thesis using assms(2,3)
    by (auto simp: app_deliver_def set_unack_result app_main_def init_led_def app_do_def Let_def)
qed

section \<open>Presses\<close>

text \<open>The interrupts that count: those at least 250 ms after the one before.\<close>

fun counted_presses :: "nat \<Rightarrow> (u32 \<times> u32) list \<Rightarrow> (u32 \<times> u32) list" where
  "counted_presses before [] = []"
| "counted_presses before ((t, p) # ps) = (if unat t < before + 250 then [] else [(t, p)]) @ counted_presses (unat t) ps"

definition pressed :: "app_env \<Rightarrow> (u32 \<times> u32) list \<Rightarrow> (u32 \<times> u32) list \<Rightarrow> app \<Rightarrow> app" where
  "pressed e ps counted s = s\<lparr>last_time := (if ps = [] then last_time s else fst (last ps)),
     button_press_cnt := button_press_cnt s + of_nat (length counted),
     sw_num := (if counted = [] then sw_num s else pin_to_sw (sw_pins e) (snd (last counted))),
     timer_running := (timer_running s \<or> button_press_cnt s = 0 \<and> counted \<noteq> []),
     app_log := app_log s @ (if button_press_cnt s = 0 \<and> counted \<noteq> [] then [Start_button_timer] else [])\<rparr>"

lemma interrupt_counted:
  assumes "unat (last_time s) < 2 ^ 32 - 250"
  shows "app_button_pressed e t p s = pressed e [(t, p)] (counted_presses (unat (last_time s)) [(t, p)]) s"
proof -
  have "unat (last_time s + 250) = unat (last_time s) + 250" using assms by (simp add: unat_word_ariths)
  then have "t < last_time s + 250 \<longleftrightarrow> unat t < unat (last_time s) + 250" by (simp add: word_less_nat_alt)
  then show ?thesis by (simp add: app_button_pressed_def pressed_def app_do_def Let_def)
qed

lemma pressed_twice:
  assumes "unat (button_press_cnt s) + length cs < 256" "ps' \<noteq> []"
  shows "pressed e ps' cs' (pressed e ps cs s) = pressed e (ps @ ps') (cs @ cs') s"
proof (cases "cs = []")
  case True
  then show ?thesis using assms by (cases "cs' = []") (simp_all add: pressed_def add.assoc)
next
  case False
  have "unat (button_press_cnt s + of_nat (length cs)) = unat (button_press_cnt s) + length cs"
    using assms(1) by (simp add: unat_word_ariths unat_of_nat)
  then have "button_press_cnt s + of_nat (length cs) \<noteq> 0" using False by auto
  then show ?thesis using assms False by (simp add: pressed_def add.assoc)
qed

lemma counted_length: "length (counted_presses before ps) \<le> length ps"
  by (induction before ps rule: counted_presses.induct) auto

lemma interrupts_counted:
  assumes "list_all (\<lambda>(t, p). unat t < 2 ^ 32 - 250) ps" "unat (last_time s) < 2 ^ 32 - 250"
    and "unat (button_press_cnt s) + length ps < 256"
  shows "app_run (map (\<lambda>(t, p). (e, Interrupt t p)) ps) s = Some (pressed e ps (counted_presses (unat (last_time s)) ps) s)"
  using assms
proof (induction ps arbitrary: s)
  case Nil
  then show ?case by (simp add: pressed_def)
next
  case (Cons tp ps)
  obtain t p where tp: "tp = (t, p)" by fastforce
  let ?c = "counted_presses (unat (last_time s)) [(t, p)]"
  let ?s = "pressed e [(t, p)] ?c s"
  have one: "length ?c \<le> 1" using counted_length [of _ "[(t, p)]"] by simp
  have last: "last_time ?s = t" by (simp add: pressed_def)
  have "unat (button_press_cnt ?s) \<le> unat (button_press_cnt s) + 1"
    using one Cons.prems(3) by (auto simp: pressed_def unat_word_ariths)
  then have "app_run (map (\<lambda>(t, p). (e, Interrupt t p)) ps) ?s = Some (pressed e ps (counted_presses (unat t) ps) ?s)"
    using Cons.IH [of ?s] Cons.prems tp last by simp
  moreover have "pressed e ps (counted_presses (unat t) ps) ?s = pressed e (tp # ps) (counted_presses (unat (last_time s)) (tp # ps)) s"
  proof (cases "ps = []")
    case True
    then show ?thesis using tp by (simp add: pressed_def)
  next
    case False
    then show ?thesis using pressed_twice [of s ?c ps e _ "[(t, p)]"] one Cons.prems(3) tp by simp
  qed
  ultimately show ?case using tp Cons.prems(2) by (simp add: interrupt_counted del: counted_presses.simps(2))
qed

text \<open>
  C33: The presses of the on/off sample within one run of its timer that come at least 250 ms after
  the interrupt before decide one action, when fewer than 256 interrupts come, all of them at times
  below 2^32 - 250 ms, and nothing between the expiry and the work item: it is on when there was one
  such press and off otherwise (the comment of the program has a button invert its LED before
  provisioning, which the code does not do), and it goes to the button pressed last: to its own LED
  when the node is not provisioned, else as one set message to the publication address of its
  client, if it has one.
\<close>

theorem presses_decide:
  assumes ok: "app_ok s" and quiet: "button_press_cnt s = 0" "\<not> timer_running s"
    and times: "list_all (\<lambda>(t, p). unat t < 2 ^ 32 - 250) ps" "unat (last_time s) < 2 ^ 32 - 250" "length ps < 256"
    and counted: "counted_presses (unat (last_time s)) ps = cs" "cs \<noteq> []"
  shows "returns (app_run (map (\<lambda>(t, p). (e, Interrupt t p)) ps @ [(e, Timer_expires), (e, Work_runs)]) s)
    (\<lambda>s'. let i = pin_to_sw (sw_pins e) (snd (last cs)); on = (if length cs = 1 then 1 else 0) in
       button_press_cnt s' = 0 \<and> \<not> timer_running s' \<and>
       (if primary_addr s = 0
        then on_current (onoff_states s' ! i) = on \<and> (\<forall>j. j \<noteq> i \<longrightarrow> onoff_states s' ! j = onoff_states s ! j) \<and>
          led_values i (app_log s') = led_values i (app_log s) @ [on]
        else onoff_states s' = onoff_states s \<and> app_log s' = app_log s @ [Start_button_timer, Submit_button_work] @
          (if cli_addr e i = 0 then [] else [Publish_client i [0x82, 0x02, on, trans_id s]])))"
proof -
  let ?s = "pressed e ps cs s"
  let ?t = "button_cnt_timer ?s"
  have run: "app_run (map (\<lambda>(t, p). (e, Interrupt t p)) ps) s = Some ?s"
    using interrupts_counted [of ps s e] times quiet counted by simp
  have "length cs < 256" using counted_length [of _ ps] times(3) counted(1) by (metis le_less_trans)
  then have "unat (of_nat (length cs) :: u8) = length cs" by (simp add: unat_of_nat)
  then have one: "(of_nat (length cs) :: u8) = 1 \<longleftrightarrow> length cs = 1" by (metis of_nat_1 unat_1)
  have t: "timer_running ?s" "sw_num ?t = pin_to_sw (sw_pins e) (snd (last cs))" "sw_onoff_state ?t = (if length cs = 1 then 1 else 0)"
    "work_pending ?t" "primary_addr ?t = primary_addr s" "onoff_states ?t = onoff_states s" "trans_id ?t = trans_id s"
    "app_log ?t = app_log s @ [Start_button_timer, Submit_button_work]" "button_press_cnt ?t = 0" "\<not> timer_running ?t"
    using quiet counted(2) by (simp_all add: pressed_def button_cnt_timer_def app_do_def one)
  have i: "sw_num ?t < length (onoff_states ?t)" using ok t by (simp add: app_ok_def pin_to_sw_range)
  have "app_run (map (\<lambda>(t, p). (e, Interrupt t p)) ps @ [(e, Timer_expires), (e, Work_runs)]) s = button_pressed_worker e ?t"
    using run t(1,4) by (simp add: app_run_append) (simp add: app_run_nothing)
  then show ?thesis
  proof (cases "primary_addr s = 0")
    case True
    then show ?thesis using i t \<open>_ = button_pressed_worker e ?t\<close>
      by (simp add: worker_unprovisioned set_unack_result Let_def)
  next
    case False
    then show ?thesis using i t \<open>_ = button_pressed_worker e ?t\<close>
      by (simp add: worker_result Let_def)
  qed
qed

definition example_env :: app_env where
  "example_env = \<lparr>srv_addr = \<lambda>i. 0xC001, cli_addr = \<lambda>i. 0xC000, sw_pins = [11, 12, 24, 25]\<rparr>"

lemma app_stays_well_formed_witness:
  "returns (app_run [(example_env, Message 2 GEN_ONOFF_SET [1, 7]), (example_env, Provisioned 0 0x100), (example_env, Interrupt 900 4096),
     (example_env, Timer_expires), (example_env, Work_runs)] (app_main 0)) app_ok"
  by (rule app_stays_well_formed) simp

lemma changes_are_published_witness:
  "returns (app_run [(example_env, Message 2 GEN_ONOFF_SET [1, 7]), (example_env, Message 2 GEN_ONOFF_SET [1, 8]),
       (example_env, Message 2 GEN_ONOFF_SET_UNACK [0, 9])] (app_main 0))
     (\<lambda>s. published 2 (app_log s) = tl (remdups_adj (led_values 2 (app_log s))))"
  by (rule changes_are_published) (simp_all add: example_env_def)

text \<open>The second button is pressed within the second of the first one: its message says off, the first one's is lost.\<close>

lemma presses_decide_witness:
  "returns (app_run (map (\<lambda>(t, p). (example_env, Interrupt t p)) [(300, 2048), (400, 2048), (700, 4096)] @
       [(example_env, Timer_expires), (example_env, Work_runs)]) (app_prov_complete 0 0x100 (app_main 0)))
     (\<lambda>s'. app_log s' = app_log (app_main 0) @ [Start_button_timer, Submit_button_work, Publish_client 1 [0x82, 0x02, 0, 0]])"
proof -
  have c: "counted_presses (unat (last_time (app_prov_complete 0 0x100 (app_main 0)))) [(300, 2048), (400, 2048), (700, 4096)] = [(300, 2048), (700, 4096)]"
    by (simp add: app_prov_complete_def app_main_def init_led_def app_do_def)
  have k: "pin_to_sw (sw_pins example_env) 4096 = 1" by (simp add: pin_to_sw_def example_env_def push_bit_eq_mult)
  have ok: "app_ok (app_prov_complete 0 0x100 (app_main 0))" using app_main_ok [of 0] by (simp add: app_ok_def app_prov_complete_def)
  show ?thesis
    by (rule returns_mono [OF presses_decide [OF ok _ _ _ _ _ c]])
      (simp_all add: app_prov_complete_def app_main_def init_led_def app_do_def k Let_def, simp add: example_env_def)
qed

end
