(* ===== verification/WpanUsb.thy ===== *)
theory WpanUsb
  imports Prelude
begin

text \<open>
  samples/net/wpanusb/src/wpanusb.c: an IEEE 802.15.4 radio behind USB control requests. The
  handler of the requests queues packets, a thread executes them, received frames go to the host. A
  packet is the list of its fragments; how bytes are laid out in fragments (\<open>fragments\<close>), the results of the
  radio driver and of USB transfers are given. \<open>None\<close> is a read past the end of a fragment.
\<close>

section \<open>State\<close>

datatype wpan_call = Wpan_tx "u8 list" | Wpan_set_channel u8 | Wpan_filter_ieee "u8 list" | Wpan_filter_short "u8 list"
  | Wpan_filter_pan_id "u8 list" | Wpan_start | Wpan_stop

record wpan =
  wpan_queue :: "u8 list list list"
  wpan_log :: "wpan_call list"
  to_host :: "u8 list list"

text \<open>
  \<open>tx_result k\<close> is what the radio returns for attempt \<open>k\<close> of a transmission, \<open>transferred\<close> the number of
  bytes a USB transfer reports; \<open>hw_filter\<close> is the capability IEEE802154_HW_FILTER.
\<close>

record wpan_env =
  pkt_available :: bool
  fragments :: "u8 list \<Rightarrow> u8 list list"
  tx_result :: "nat \<Rightarrow> int"
  wpan_hw_filter :: bool
  transferred :: "u8 list \<Rightarrow> int"

abbreviation EINVAL :: int where "EINVAL \<equiv> 22"
abbreviation ENOMEM :: int where "ENOMEM \<equiv> 12"

text \<open>\<open>enum wpanusb_requests\<close>.\<close>

abbreviation RESET :: u8 where "RESET \<equiv> 0"
abbreviation TX :: u8 where "TX \<equiv> 1"
abbreviation SET_CHANNEL :: u8 where "SET_CHANNEL \<equiv> 4"
abbreviation START :: u8 where "START \<equiv> 5"
abbreviation STOP :: u8 where "STOP \<equiv> 6"
abbreviation SET_SHORT_ADDR :: u8 where "SET_SHORT_ADDR \<equiv> 7"
abbreviation SET_PAN_ID :: u8 where "SET_PAN_ID \<equiv> 8"
abbreviation SET_IEEE_ADDR :: u8 where "SET_IEEE_ADDR \<equiv> 9"

definition wpan_do :: "wpan_call \<Rightarrow> wpan \<Rightarrow> wpan" where
  "wpan_do c s = s\<lparr>wpan_log := wpan_log s @ [c]\<rparr>"

definition pull_byte :: "u8 list \<Rightarrow> (u8 \<times> u8 list) option" where
  "pull_byte buf = (case buf of [] \<Rightarrow> None | b # bs \<Rightarrow> Some (b, bs))"

definition read_bytes :: "nat \<Rightarrow> u8 list \<Rightarrow> u8 list option" where
  "read_bytes n buf = (if n \<le> length buf then Some (take n buf) else None)"

section \<open>Requests of the host\<close>

definition wpanusb_vendor_handler :: "wpan_env \<Rightarrow> u8 \<Rightarrow> u16 \<Rightarrow> u8 list \<Rightarrow> wpan \<Rightarrow> int \<times> wpan" where
  "wpanusb_vendor_handler e bRequest wIndex data s =
     (if \<not> pkt_available e then (- ENOMEM, s)
      else let pkt = [bRequest] @ (if bRequest = TX then [ucast wIndex] else []) @ data
           in (0, s\<lparr>wpan_queue := wpan_queue s @ [fragments e pkt]\<rparr>))"

section \<open>Commands\<close>

definition wpan_set_channel :: "u8 list \<Rightarrow> wpan \<Rightarrow> wpan option" where
  "wpan_set_channel data s = read_bytes 2 data \<bind> (\<lambda>req. Some (wpan_do (Wpan_set_channel (req ! 1)) s))"

definition set_ieee_addr :: "wpan_env \<Rightarrow> u8 list \<Rightarrow> wpan \<Rightarrow> wpan option" where
  "set_ieee_addr e data s = (if wpan_hw_filter e then read_bytes 8 data \<bind> (\<lambda>addr. Some (wpan_do (Wpan_filter_ieee addr) s)) else Some s)"

definition set_short_addr :: "wpan_env \<Rightarrow> u8 list \<Rightarrow> wpan \<Rightarrow> wpan option" where
  "set_short_addr e data s = (if wpan_hw_filter e then read_bytes 2 data \<bind> (\<lambda>addr. Some (wpan_do (Wpan_filter_short addr) s)) else Some s)"

definition set_pan_id :: "wpan_env \<Rightarrow> u8 list \<Rightarrow> wpan \<Rightarrow> wpan option" where
  "set_pan_id e data s = (if wpan_hw_filter e then read_bytes 2 data \<bind> (\<lambda>pan. Some (wpan_do (Wpan_filter_pan_id pan) s)) else Some s)"

text \<open>The loop of \<open>tx\<close>: attempt \<open>k\<close>, with \<open>retries\<close> more allowed; the number of attempts made is returned as well.\<close>

fun tx_attempts :: "wpan_env \<Rightarrow> u8 list \<Rightarrow> nat \<Rightarrow> nat \<Rightarrow> wpan \<Rightarrow> int \<times> wpan" where
  "tx_attempts e frame k 0 s = (tx_result e k, wpan_do (Wpan_tx frame) s)"
| "tx_attempts e frame k (Suc retries) s =
     (let s = wpan_do (Wpan_tx frame) s
      in if tx_result e k \<noteq> 0 then tx_attempts e frame (k + 1) retries s else (tx_result e k, s))"

definition wpan_tx :: "wpan_env \<Rightarrow> u8 list \<Rightarrow> wpan \<Rightarrow> (int \<times> wpan) option" where
  "wpan_tx e buf s = do {
     (seq, buf) \<leftarrow> pull_byte buf;
     let (ret, s) = tx_attempts e buf 0 3 s;
     let seq = (if ret \<noteq> 0 then 0 else seq);
     let s = s\<lparr>to_host := to_host s @ [[seq]]\<rparr>;
     Some (if transferred e [seq] \<noteq> 1 then - EINVAL else 0, s)
   }"

definition tx_thread_round :: "wpan_env \<Rightarrow> wpan \<Rightarrow> wpan option" where
  "tx_thread_round e s = (case wpan_queue s of
     [] \<Rightarrow> Some s
   | pkt # pkts \<Rightarrow>
       let s = s\<lparr>wpan_queue := pkts\<rparr> in do {
         (cmd, buf) \<leftarrow> pull_byte (last pkt);
         if cmd = RESET then Some s
         else if cmd = TX then wpan_tx e buf s \<bind> (\<lambda>(_, s). Some s)
         else if cmd = START then Some (wpan_do Wpan_start s)
         else if cmd = STOP then Some (wpan_do Wpan_stop s)
         else if cmd = SET_CHANNEL then wpan_set_channel buf s
         else if cmd = SET_IEEE_ADDR then set_ieee_addr e buf s
         else if cmd = SET_SHORT_ADDR then set_short_addr e buf s
         else if cmd = SET_PAN_ID then set_pan_id e buf s
         else Some s
       })"

section \<open>Frames from the radio\<close>

definition wpan_net_recv_data :: "wpan_env \<Rightarrow> nat \<Rightarrow> u8 list \<Rightarrow> u8 \<Rightarrow> wpan \<Rightarrow> int \<times> wpan" where
  "wpan_net_recv_data e mtu frame lqi s =
     (if length frame > mtu then (- ENOMEM, s)
      else let tx_buf = [of_nat (length frame)] @ frame @ [lqi]
           in (if transferred e tx_buf \<noteq> int (length frame) + 2 then - EINVAL else transferred e tx_buf,
               s\<lparr>to_host := to_host s @ [tx_buf]\<rparr>))"

section \<open>What a request does\<close>

record request =
  rq_env :: wpan_env
  rq_cmd :: u8
  rq_index :: u16
  rq_data :: "u8 list"

text \<open>The number of attempts: up to the first that succeeds, four at most.\<close>

definition attempts :: "wpan_env \<Rightarrow> nat" where
  "attempts e = (if tx_result e 0 = 0 then 1 else if tx_result e 1 = 0 then 2 else if tx_result e 2 = 0 then 3 else 4)"

definition sent_at_last :: "wpan_env \<Rightarrow> bool" where
  "sent_at_last e \<longleftrightarrow> (\<exists>k \<in> {0, 1, 2, 3}. tx_result e k = 0)"

definition radio_effect :: "request \<Rightarrow> wpan_call list" where
  "radio_effect r = (let e = rq_env r; c = rq_cmd r; d = rq_data r in
     if c = TX then replicate (attempts e) (Wpan_tx d)
     else if c = START then [Wpan_start]
     else if c = STOP then [Wpan_stop]
     else if c = SET_CHANNEL then [Wpan_set_channel (d ! 1)]
     else if c = SET_IEEE_ADDR \<and> wpan_hw_filter e then [Wpan_filter_ieee (take 8 d)]
     else if c = SET_SHORT_ADDR \<and> wpan_hw_filter e then [Wpan_filter_short (take 2 d)]
     else if c = SET_PAN_ID \<and> wpan_hw_filter e then [Wpan_filter_pan_id (take 2 d)]
     else [])"

definition host_answer :: "request \<Rightarrow> u8 list list" where
  "host_answer r = (if rq_cmd r = TX then [[if sent_at_last (rq_env r) then ucast (rq_index r) else 0]] else [])"

fun data_needed :: "u8 \<Rightarrow> nat" where
  "data_needed c = (if c = SET_CHANNEL \<or> c = SET_SHORT_ADDR \<or> c = SET_PAN_ID then 2 else if c = SET_IEEE_ADDR then 8 else 0)"

text \<open>A packet fits one fragment, and the data are those the command reads.\<close>

definition request_fits :: "request \<Rightarrow> bool" where
  "request_fits r \<longleftrightarrow> pkt_available (rq_env r) \<and> data_needed (rq_cmd r) \<le> length (rq_data r) \<and>
     (let pkt = [rq_cmd r] @ (if rq_cmd r = TX then [ucast (rq_index r)] else []) @ rq_data r in fragments (rq_env r) pkt = [pkt])"

definition handle_request :: "request \<Rightarrow> wpan \<Rightarrow> wpan" where
  "handle_request r s = snd (wpanusb_vendor_handler (rq_env r) (rq_cmd r) (rq_index r) (rq_data r) s)"

fun execute_all :: "request list \<Rightarrow> wpan \<Rightarrow> wpan option" where
  "execute_all [] s = Some s"
| "execute_all (r # rs) s = tx_thread_round (rq_env r) s \<bind> execute_all rs"

definition request_bytes :: "request \<Rightarrow> u8 list" where
  "request_bytes r = [rq_cmd r] @ (if rq_cmd r = TX then [ucast (rq_index r)] else []) @ rq_data r"

lemma tx_attempts_result:
  "tx_attempts e frame 0 3 s = (if sent_at_last e then 0 else tx_result e 3, s\<lparr>wpan_log := wpan_log s @ replicate (attempts e) (Wpan_tx frame)\<rparr>)"
  by (simp add: eval_nat_numeral attempts_def sent_at_last_def wpan_do_def Let_def)

lemma handled:
  "request_fits r \<Longrightarrow> handle_request r s = s\<lparr>wpan_queue := wpan_queue s @ [[request_bytes r]]\<rparr>"
  by (simp add: handle_request_def wpanusb_vendor_handler_def request_fits_def request_bytes_def Let_def)

lemma all_handled:
  "list_all request_fits rs \<Longrightarrow> fold handle_request rs s = s\<lparr>wpan_queue := wpan_queue s @ map (\<lambda>r. [request_bytes r]) rs\<rparr>"
  by (induction rs arbitrary: s) (simp_all add: handled)

lemma executed:
  assumes "request_fits r" "wpan_queue s = [request_bytes r] # pkts"
  shows "tx_thread_round (rq_env r) s = Some (s\<lparr>wpan_queue := pkts, wpan_log := wpan_log s @ radio_effect r, to_host := to_host s @ host_answer r\<rparr>)"
proof (cases "rq_cmd r = TX")
  case True
  have "tx_result (rq_env r) 3 \<noteq> 0" if "\<not> sent_at_last (rq_env r)" using that by (simp add: sent_at_last_def)
  then show ?thesis using assms(2) True
    by (simp add: tx_thread_round_def request_bytes_def pull_byte_def wpan_tx_def tx_attempts_result radio_effect_def host_answer_def Let_def)
next
  case False
  have len: "data_needed (rq_cmd r) \<le> length (rq_data r)" using assms(1) by (simp add: request_fits_def)
  note defs = tx_thread_round_def request_bytes_def pull_byte_def radio_effect_def host_answer_def Let_def wpan_do_def
    wpan_set_channel_def set_ieee_addr_def set_short_addr_def set_pan_id_def read_bytes_def
  consider "rq_cmd r \<in> {RESET, START, STOP}" | "rq_cmd r = SET_CHANNEL" | "rq_cmd r = SET_IEEE_ADDR" | "rq_cmd r = SET_SHORT_ADDR"
    | "rq_cmd r = SET_PAN_ID" | "rq_cmd r \<notin> {RESET, START, STOP, SET_CHANNEL, SET_IEEE_ADDR, SET_SHORT_ADDR, SET_PAN_ID}"
    by blast
  then show ?thesis using assms(2) len False by cases (auto simp: defs)
qed

lemma all_executed:
  "list_all request_fits rs \<Longrightarrow> wpan_queue s = map (\<lambda>r. [request_bytes r]) rs \<Longrightarrow>
     execute_all rs s = Some (s\<lparr>wpan_queue := [], wpan_log := wpan_log s @ concat (map radio_effect rs), to_host := to_host s @ concat (map host_answer rs)\<rparr>)"
  by (induction rs arbitrary: s) (simp_all add: executed)

text \<open>
  C34: Requests for which a packet can be allocated and takes one fragment, and which hold the data
  their command reads, are executed by the USB bridge one by one in the order they came: settings
  with the bytes of the request (those of addresses only when the radio filters frames), start and
  stop, a transmission with its frame, repeated until it succeeds but at most four times, and
  answered by its sequence number, or by 0 when every attempt failed; reset and unknown commands do
  nothing. A transmission in two fragments is not executed like this (theorem
  long_frame_is_a_command).
\<close>

theorem requests_executed_in_order:
  assumes "list_all request_fits rs" "wpan_queue s = []"
  shows "returns (execute_all rs (fold handle_request rs s)) (\<lambda>s'. wpan_queue s' = [] \<and>
     wpan_log s' = wpan_log s @ concat (map radio_effect rs) \<and> to_host s' = to_host s @ concat (map host_answer rs))"
  using all_handled [OF assms(1), of s] all_executed [OF assms(1)] assms(2) by simp

text \<open>
  Buffers hold 128 bytes (prj.conf). A frame of 127 bytes takes two of them, and the thread reads its command
  from the last one.
\<close>

theorem long_frame_is_a_command:
  assumes "length frame = 127" "pkt_available e" "wpan_queue s = []"
    and two: "\<And>bs. 128 < length bs \<Longrightarrow> length bs \<le> 256 \<Longrightarrow> fragments e bs = [take 128 bs, drop 128 bs]"
    and "last frame = STOP"
  shows "tx_thread_round e (snd (wpanusb_vendor_handler e TX w frame s)) = Some (s\<lparr>wpan_log := wpan_log s @ [Wpan_stop]\<rparr>)"
proof -
  obtain ys where ys: "frame = ys @ [STOP]" "length ys = 126"
    using assms(1,5) by (cases frame rule: rev_cases) auto
  have "fragments e ([TX, ucast w] @ frame) = [take 128 ([TX, ucast w] @ frame), [STOP]]"
    using two [of "[TX, ucast w] @ frame"] ys by simp
  then show ?thesis using assms(2,3)
    by (simp add: tx_thread_round_def wpanusb_vendor_handler_def pull_byte_def wpan_do_def Let_def)
qed

section \<open>Received frames\<close>

text \<open>The host takes a transfer apart by its first byte.\<close>

definition take_frame :: "u8 list \<Rightarrow> (u8 list \<times> u8) option" where
  "take_frame bs = (case bs of [] \<Rightarrow> None | n # rest \<Rightarrow> if length rest = unat n + 1 then Some (butlast rest, last rest) else None)"

lemma received_frame_arrives:
  assumes "mtu \<le> 127" "length frame \<le> mtu"
  shows "\<exists>bs. to_host (snd (wpan_net_recv_data e mtu frame lqi s)) = to_host s @ [bs] \<and> take_frame bs = Some (frame, lqi)"
  using assms by (auto simp: wpan_net_recv_data_def take_frame_def Let_def unat_of_nat)

lemma oversized_frame_refused: "mtu < length frame \<Longrightarrow> wpan_net_recv_data e mtu frame lqi s = (- ENOMEM, s)"
  by (simp add: wpan_net_recv_data_def)

definition example_request :: "u8 \<Rightarrow> u16 \<Rightarrow> u8 list \<Rightarrow> request" where
  "example_request c w d = \<lparr>rq_env = \<lparr>pkt_available = True, fragments = \<lambda>bs. [bs], tx_result = \<lambda>k. if k < 2 then - 5 else 0,
     wpan_hw_filter = True, transferred = \<lambda>bs. int (length bs)\<rparr>, rq_cmd = c, rq_index = w, rq_data = d\<rparr>"

lemma requests_executed_in_order_witness:
  "returns (execute_all [example_request SET_CHANNEL 0 [0, 26], example_request START 0 [], example_request TX 9 [0x41, 0x88, 1]]
      (fold handle_request [example_request SET_CHANNEL 0 [0, 26], example_request START 0 [], example_request TX 9 [0x41, 0x88, 1]]
        \<lparr>wpan_queue = [], wpan_log = [], to_host = []\<rparr>))
     (\<lambda>s'. wpan_log s' = [Wpan_set_channel 26, Wpan_start, Wpan_tx [0x41, 0x88, 1], Wpan_tx [0x41, 0x88, 1], Wpan_tx [0x41, 0x88, 1]] \<and>
       to_host s' = [[9]])"
  by (rule returns_mono [OF requests_executed_in_order])
    (simp_all add: example_request_def request_fits_def radio_effect_def host_answer_def attempts_def sent_at_last_def Let_def numeral_3_eq_3)

end
