(* ===== verification/HidKeys.thy ===== *)
theory HidKeys
  imports Prelude
begin

text \<open>
  samples/subsys/usb/hid-cdc/src/main.c, the translation of text to key presses: \<open>ascii_to_hid\<close> and
  \<open>needs_shift\<close>. The usage codes of the keys are those of the HID keyboard page, which the USB header
  names \<open>HID_KEY_...\<close>; what a key with or without Shift means to a host is \<open>us_typed\<close>.
\<close>

section \<open>Usage codes\<close>

abbreviation HID_KEY_1 :: int where "HID_KEY_1 \<equiv> 30"
abbreviation HID_KEY_2 :: int where "HID_KEY_2 \<equiv> 31"
abbreviation HID_KEY_3 :: int where "HID_KEY_3 \<equiv> 32"
abbreviation HID_KEY_4 :: int where "HID_KEY_4 \<equiv> 33"
abbreviation HID_KEY_5 :: int where "HID_KEY_5 \<equiv> 34"
abbreviation HID_KEY_6 :: int where "HID_KEY_6 \<equiv> 35"
abbreviation HID_KEY_7 :: int where "HID_KEY_7 \<equiv> 36"
abbreviation HID_KEY_8 :: int where "HID_KEY_8 \<equiv> 37"
abbreviation HID_KEY_9 :: int where "HID_KEY_9 \<equiv> 38"
abbreviation HID_KEY_0 :: int where "HID_KEY_0 \<equiv> 39"
abbreviation HID_KEY_SPACE :: int where "HID_KEY_SPACE \<equiv> 44"
abbreviation HID_KEY_MINUS :: int where "HID_KEY_MINUS \<equiv> 45"
abbreviation HID_KEY_EQUAL :: int where "HID_KEY_EQUAL \<equiv> 46"
abbreviation HID_KEY_LEFTBRACE :: int where "HID_KEY_LEFTBRACE \<equiv> 47"
abbreviation HID_KEY_RIGHTBRACE :: int where "HID_KEY_RIGHTBRACE \<equiv> 48"
abbreviation HID_KEY_BACKSLASH :: int where "HID_KEY_BACKSLASH \<equiv> 49"
abbreviation HID_KEY_SEMICOLON :: int where "HID_KEY_SEMICOLON \<equiv> 51"
abbreviation HID_KEY_APOSTROPHE :: int where "HID_KEY_APOSTROPHE \<equiv> 52"
abbreviation HID_KEY_GRAVE :: int where "HID_KEY_GRAVE \<equiv> 53"
abbreviation HID_KEY_COMMA :: int where "HID_KEY_COMMA \<equiv> 54"
abbreviation HID_KEY_DOT :: int where "HID_KEY_DOT \<equiv> 55"
abbreviation HID_KEY_SLASH :: int where "HID_KEY_SLASH \<equiv> 56"
abbreviation HID_KEY_CAPSLOCK :: u8 where "HID_KEY_CAPSLOCK \<equiv> 57"
abbreviation HID_KEY_DELETE :: int where "HID_KEY_DELETE \<equiv> 76"

section \<open>The code\<close>

definition key_of :: "(u8 \<times> int) list \<Rightarrow> u8 \<Rightarrow> int" where
  "key_of cases c = (case map_of cases c of Some k \<Rightarrow> k | None \<Rightarrow> -1)"

definition ascii_to_hid :: "u8 \<Rightarrow> int" where
  "ascii_to_hid ascii =
     (if ascii < 32 then -1
      else if ascii < 48 then
        key_of [(32, HID_KEY_SPACE), (33, HID_KEY_1), (34, HID_KEY_APOSTROPHE), (35, HID_KEY_3),
                (36, HID_KEY_4), (37, HID_KEY_5), (38, HID_KEY_7), (39, HID_KEY_APOSTROPHE),
                (40, HID_KEY_9), (41, HID_KEY_0), (42, HID_KEY_8), (43, HID_KEY_EQUAL),
                (44, HID_KEY_COMMA), (45, HID_KEY_MINUS), (46, HID_KEY_DOT), (47, HID_KEY_SLASH)] ascii
      else if ascii < 58 then (if ascii = 48 then HID_KEY_0 else uint ascii - 19)
      else if ascii < 65 then
        key_of [(58, HID_KEY_SEMICOLON), (59, HID_KEY_SEMICOLON), (60, HID_KEY_COMMA), (61, HID_KEY_EQUAL),
                (62, HID_KEY_DOT), (63, HID_KEY_SLASH), (64, HID_KEY_2)] ascii
      else if ascii < 91 then uint ascii - 61
      else if ascii < 97 then
        key_of [(91, HID_KEY_LEFTBRACE), (92, HID_KEY_BACKSLASH), (93, HID_KEY_RIGHTBRACE),
                (94, HID_KEY_6), (95, HID_KEY_MINUS), (96, HID_KEY_GRAVE)] ascii
      else if ascii < 123 then uint ascii - 93
      else if ascii < 128 then
        key_of [(123, HID_KEY_LEFTBRACE), (124, HID_KEY_BACKSLASH), (125, HID_KEY_RIGHTBRACE),
                (126, HID_KEY_GRAVE), (127, HID_KEY_DELETE)] ascii
      else -1)"

definition needs_shift :: "u8 \<Rightarrow> bool" where
  "needs_shift ascii =
     (if ascii < 33 \<or> ascii = 39 then False
      else if 33 \<le> ascii \<and> ascii < 44 then True
      else if 44 \<le> ascii \<and> ascii < 58 then False
      else if ascii = 59 \<or> ascii = 61 then False
      else if 58 \<le> ascii \<and> ascii < 91 then True
      else if 91 \<le> ascii \<and> ascii < 94 then False
      else if ascii = 94 \<or> ascii = 95 then True
      else if 95 < ascii \<and> ascii < 123 then False
      else if 122 < ascii \<and> ascii < 127 then True
      else False)"

section \<open>What a host makes of a key\<close>

text \<open>
  The printing keys of the US keyboard in the order of their usage codes: the ten digit keys with
  what Shift makes of them, then the space bar and the punctuation keys.
\<close>

definition us_digits :: "(int \<times> char \<times> char) list" where
  "us_digits = zip [30..39] (zip ''1234567890'' ''!@#$%^&*()'')"

definition us_punctuation :: "(int \<times> char \<times> char) list" where
  "us_punctuation = zip ([44..49] @ [51..56])
     (zip ([CHR '' '', CHR ''-'', CHR ''='', CHR ''['', CHR '']'', CHR 0x5C, CHR '';'', CHR 0x27, CHR 0x60] @ '',./'')
          ([CHR '' '', CHR ''_'', CHR ''+'', CHR ''{'', CHR ''}'', CHR ''|'', CHR '':'', CHR 0x22, CHR ''~''] @ ''<>?''))"

definition us_typed :: "bool \<Rightarrow> int \<Rightarrow> u8 option" where
  "us_typed shift k =
     (if 4 \<le> k \<and> k < 30 then Some (word_of_int (k - 4) + (if shift then 65 else 97))
      else map_option (\<lambda>(plain, shifted). of_char (if shift then shifted else plain))
             (map_of (us_digits @ us_punctuation) k))"

definition printable :: "u8 \<Rightarrow> bool" where
  "printable c \<longleftrightarrow> 32 \<le> c \<and> c < 127"

section \<open>The layout\<close>

lemma printable_in_list: "printable c \<Longrightarrow> c \<in> set (map word_of_nat [32..<127])"
proof -
  assume "printable c"
  then have "unat c \<in> set [32..<127]"
    unfolding atLeastLessThan_upt [symmetric] printable_def by (simp add: word_le_nat_alt word_less_nat_alt)
  then have "word_of_nat (unat c) \<in> set (map word_of_nat [32..<127] :: u8 list)"
    by (metis image_eqI list.set_map)
  then show ?thesis by (metis of_nat_unat ucast_id)
qed

lemma layout_checked:
  "list_all (\<lambda>c. us_typed (needs_shift c) (ascii_to_hid c) = Some c) (map word_of_nat [32..<127])"
  by code_simp

lemma keys_bounded: "list_all (\<lambda>c. 4 \<le> ascii_to_hid c \<and> ascii_to_hid c < 57) (map word_of_nat [32..<127])"
  by code_simp

lemma printable_key: "printable c \<Longrightarrow> 4 \<le> ascii_to_hid c \<and> ascii_to_hid c < 57"
  using keys_bounded printable_in_list by (auto simp only: list_all_iff)

lemma typed_back: "printable c \<Longrightarrow> us_typed (needs_shift c) (ascii_to_hid c) = Some c"
  using layout_checked printable_in_list by (auto simp only: list_all_iff)

lemma no_key: "c < 32 \<or> 127 < c \<Longrightarrow> ascii_to_hid c = -1"
  by (auto simp: ascii_to_hid_def word_less_nat_alt)

end
