(* ===== verification/HidCdc.thy ===== *)
theory HidCdc
  imports HidKeys HciUart
begin

text \<open>
  samples/subsys/usb/hid-cdc/src/main.c: a USB mouse (\<open>HID_0\<close>), a USB keyboard (\<open>HID_1\<close>) and two serial
  ports (\<open>CDC_0\<close>, \<open>CDC_1\<close>). Interrupt handlers put events into \<open>evt_fifo\<close>; the main thread takes them out
  and sends reports and texts. The main thread runs as a list of actions, \<open>todo\<close>, so that interrupts
  may come between any two of them. \<open>None\<close> is a write through the null pointer that
  \<open>app_evt_alloc\<close> returns when the pool is empty, or a read past the end of \<open>string\<close>.
\<close>

section \<open>State\<close>

datatype evt = GPIO_BUTTON_0 | GPIO_BUTTON_1 | GPIO_BUTTON_2 | GPIO_BUTTON_3
  | CDC_UP | CDC_DOWN | CDC_LEFT | CDC_RIGHT | CDC_UNKNOWN | CDC_STRING
  | HID_MOUSE_CLEAR | HID_KBD_CLEAR | HID_KBD_STRING

datatype hid_dev = HID_0 | HID_1
datatype cdc_dev = CDC_0 | CDC_1

datatype hid_text = Banner0 | Banner1 | Gpio0 | Gpio1 | Gpio2 | Gpio3 | Unknown | Up | Down | Left | Right
  | Set_str | Endl | User "u8 list"

text \<open>
  The actions of the main thread: waiting for a semaphore, \<open>hid_int_ep_write\<close>, \<open>write_data\<close> of a
  constant text or of \<open>string\<close>, the steps that put an event, and the two halves of typing a character.
\<close>

datatype act = Take_evt_sem | Take_usb_sem | Ep_write hid_dev "u8 list" | Write_data cdc_dev hid_text | Write_string cdc_dev
  | If_string | Put_evt evt | Give_evt_sem | Reset_pointer | Type_char | Next_char | Free_evt

record hid =
  evt_fifo :: "evt list"
  pool_used :: nat
  evt_sem :: bool
  usb_sem :: bool
  reports_pending :: nat
  data_buf_mouse :: "u8 list"
  data_buf_kbd :: "u8 list"
  hid_string :: "u8 list"
  str_pointer :: u8
  todo :: "act list"
  hid_reports :: "(hid_dev \<times> u8 list) list"
  cdc_texts :: "(cdc_dev \<times> hid_text) list"

text \<open>
  \<open>reports_pending\<close> counts the reports the USB stack has accepted and not yet delivered to the host.
  The buffers of the ports are kept up to \<open>chr_ptr_mouse\<close> and \<open>chr_ptr_kbd\<close>, their lengths; the
  bytes beyond are zero. \<open>hid_string\<close> is the whole array.
\<close>

abbreviation FIFO_ELEM_COUNT :: nat where "FIFO_ELEM_COUNT \<equiv> 255"
abbreviation PORT_SIZE :: nat where "PORT_SIZE \<equiv> 64"
abbreviation ENTER :: u8 where "ENTER \<equiv> 13"

definition cstr :: "u8 list \<Rightarrow> u8 list" where
  "cstr a = takeWhile (\<lambda>b. b \<noteq> 0) a"

definition hid_strlen :: "hid \<Rightarrow> nat" where
  "hid_strlen s = length (cstr (hid_string s))"

section \<open>Events\<close>

definition app_evt_flush :: "hid \<Rightarrow> hid" where
  "app_evt_flush s = s\<lparr>evt_fifo := [], pool_used := pool_used s - length (evt_fifo s)\<rparr>"

definition app_evt_alloc :: "hid \<Rightarrow> bool \<times> hid" where
  "app_evt_alloc s =
     (if pool_used s < FIFO_ELEM_COUNT then (True, s\<lparr>pool_used := pool_used s + 1\<rparr>)
      else let s = app_evt_flush s
           in (False, if pool_used s < FIFO_ELEM_COUNT then s\<lparr>pool_used := pool_used s + 1\<rparr> else s))"

definition put_evt :: "evt \<Rightarrow> hid \<Rightarrow> hid option" where
  "put_evt e s = (let (ok, s) = app_evt_alloc s in if ok then Some (s\<lparr>evt_fifo := evt_fifo s @ [e]\<rparr>) else None)"

definition post_evt :: "evt \<Rightarrow> hid \<Rightarrow> hid option" where
  "post_evt e s = map_option (evt_sem_update (\<lambda>_. True)) (put_evt e s)"

section \<open>Interrupts\<close>

fun button_evt :: "nat \<Rightarrow> evt" where
  "button_evt 0 = GPIO_BUTTON_0"
| "button_evt (Suc 0) = GPIO_BUTTON_1"
| "button_evt (Suc (Suc 0)) = GPIO_BUTTON_2"
| "button_evt _ = GPIO_BUTTON_3"

definition btn :: "nat \<Rightarrow> hid \<Rightarrow> hid option" where
  "btn n s = post_evt (button_evt n) s"

definition in_ready_cb :: "hid \<Rightarrow> hid" where
  "in_ready_cb s = s\<lparr>usb_sem := True\<rparr>"

definition ascii :: "string \<Rightarrow> u8 list" where
  "ascii t = map of_char t"

definition mouse_command :: "u8 list \<Rightarrow> evt" where
  "mouse_command w =
     (if w = ascii ''up'' then CDC_UP else if w = ascii ''down'' then CDC_DOWN
      else if w = ascii ''right'' then CDC_RIGHT else if w = ascii ''left'' then CDC_LEFT else CDC_UNKNOWN)"

definition flush_buffer_mouse :: "hid \<Rightarrow> hid" where
  "flush_buffer_mouse s = s\<lparr>data_buf_mouse := []\<rparr>"

definition flush_buffer_kbd :: "hid \<Rightarrow> hid" where
  "flush_buffer_kbd s = s\<lparr>data_buf_kbd := []\<rparr>"

text \<open>One portion that the mouse port has read, then the loop over the portions; the same for the keyboard port.\<close>

definition mouse_portion :: "u8 list \<Rightarrow> hid \<Rightarrow> hid option" where
  "mouse_portion rx s = do {
     let b = data_buf_mouse s @ rx;
     s \<leftarrow> (if last b = ENTER then post_evt (mouse_command (cstr (butlast b))) (flush_buffer_mouse s)
           else Some (s\<lparr>data_buf_mouse := b\<rparr>));
     Some (if PORT_SIZE \<le> length (data_buf_mouse s) then flush_buffer_mouse s else s)
   }"

definition strcpy :: "u8 list \<Rightarrow> u8 list \<Rightarrow> u8 list" where
  "strcpy dest src = (let w = cstr src @ [0] in w @ drop (length w) dest)"

definition kbd_portion :: "u8 list \<Rightarrow> hid \<Rightarrow> hid option" where
  "kbd_portion rx s =
     (let b = data_buf_kbd s @ rx
      in if last b = ENTER then post_evt CDC_STRING (flush_buffer_kbd (s\<lparr>hid_string := strcpy (hid_string s) (butlast b @ [0])\<rparr>))
         else Some (s\<lparr>data_buf_kbd := b\<rparr>))"

lemma uart_fifo_read_shrinks: "(rx, u') = uart_fifo_read len u \<Longrightarrow> rx \<noteq> [] \<Longrightarrow> length (concat u') < length (concat u)"
  by (cases u) (auto split: if_splits)

function mouse_loop :: "uart \<Rightarrow> hid \<Rightarrow> hid option" where
  "mouse_loop u s =
     (let (rx, u') = uart_fifo_read (PORT_SIZE - length (data_buf_mouse s)) u
      in if rx = [] then Some s else mouse_portion rx s \<bind> mouse_loop u')"
  by auto
termination
  by (relation "measure (\<lambda>(u, _). length (concat u))") (auto dest: uart_fifo_read_shrinks)

function kbd_loop :: "uart \<Rightarrow> hid \<Rightarrow> hid option" where
  "kbd_loop u s =
     (let (rx, u') = uart_fifo_read (PORT_SIZE - length (data_buf_kbd s)) u
      in if rx = [] then Some s else kbd_portion rx s \<bind> kbd_loop u')"
  by auto
termination
  by (relation "measure (\<lambda>(u, _). length (concat u))") (auto dest: uart_fifo_read_shrinks)

declare mouse_loop.simps [simp del] kbd_loop.simps [simp del]

section \<open>The main thread\<close>

definition mouse_report :: "u8 \<Rightarrow> u8 \<Rightarrow> u8 \<Rightarrow> u8 list" where
  "mouse_report btns x y = [btns, x, y, 0]"

definition kbd_report :: "u8 \<Rightarrow> u8 \<Rightarrow> u8 list" where
  "kbd_report modifiers key = [modifiers, 0, 0, 0, 0, 0, 0, key]"

abbreviation MOUSE_BTN_LEFT :: u8 where "MOUSE_BTN_LEFT \<equiv> 1"
abbreviation HID_KBD_MODIFIER_RIGHT_SHIFT :: u8 where "HID_KBD_MODIFIER_RIGHT_SHIFT \<equiv> 0x20"

definition send_report :: "hid_dev \<Rightarrow> u8 list \<Rightarrow> act list" where
  "send_report d rep = [Take_usb_sem, Ep_write d rep]"

definition clear_mouse_report :: "act list" where
  "clear_mouse_report = [Put_evt HID_MOUSE_CLEAR, Give_evt_sem]"

definition clear_kbd_report :: "act list" where
  "clear_kbd_report = [Put_evt HID_KBD_CLEAR, Give_evt_sem]"

definition move_mouse :: "u8 list \<Rightarrow> hid_text \<Rightarrow> act list" where
  "move_mouse rep t = send_report HID_0 rep @ [Write_data CDC_0 t] @ clear_mouse_report"

fun handle_evt :: "u8 \<Rightarrow> u8 \<Rightarrow> evt \<Rightarrow> act list" where
  "handle_evt r1 r2 GPIO_BUTTON_0 = move_mouse (mouse_report 0 r1 r2) Gpio0"
| "handle_evt r1 r2 GPIO_BUTTON_1 = move_mouse (mouse_report MOUSE_BTN_LEFT 0 0) Gpio1"
| "handle_evt r1 r2 GPIO_BUTTON_2 = [Write_data CDC_1 Gpio2, If_string]"
| "handle_evt r1 r2 GPIO_BUTTON_3 =
     send_report HID_1 (kbd_report 0 HID_KEY_CAPSLOCK) @ [Write_data CDC_1 Gpio3] @ clear_kbd_report"
| "handle_evt r1 r2 CDC_UP = move_mouse (mouse_report 0 0 0xE0) Up"
| "handle_evt r1 r2 CDC_DOWN = move_mouse (mouse_report 0 0 0x20) Down"
| "handle_evt r1 r2 CDC_RIGHT = move_mouse (mouse_report 0 0x20 0) Right"
| "handle_evt r1 r2 CDC_LEFT = move_mouse (mouse_report 0 0xE0 0) Left"
| "handle_evt r1 r2 CDC_UNKNOWN = [Write_data CDC_0 Unknown, Write_data CDC_1 Unknown]"
| "handle_evt r1 r2 CDC_STRING =
     [Write_data CDC_0 Set_str, Write_string CDC_0, Write_data CDC_0 Endl,
      Write_data CDC_1 Set_str, Write_string CDC_1, Write_data CDC_1 Endl]"
| "handle_evt r1 r2 HID_MOUSE_CLEAR = send_report HID_0 (mouse_report 0 0 0)"
| "handle_evt r1 r2 HID_KBD_CLEAR = send_report HID_1 (kbd_report 0 0)"
| "handle_evt r1 r2 HID_KBD_STRING = [Type_char, Next_char]"

definition type_char :: "u8 \<Rightarrow> act list" where
  "type_char c =
     (let ch = ascii_to_hid c
      in if ch = -1 then []
         else send_report HID_1 (kbd_report (if needs_shift c then HID_KBD_MODIFIER_RIGHT_SHIFT else 0) (word_of_int ch)))"

definition next_char :: "nat \<Rightarrow> u8 \<Rightarrow> act list" where
  "next_char n p = (if unat p < n then [Put_evt HID_KBD_STRING, Give_evt_sem] else if n = unat p then clear_kbd_report else [])"

text \<open>
  One action, with the actions after it already in \<open>todo\<close>. \<open>ok\<close> is whether the USB stack accepts a
  report; the program does not look at the answer.
\<close>

fun run_act :: "bool \<Rightarrow> act \<Rightarrow> hid \<Rightarrow> hid option" where
  "run_act ok Take_evt_sem s = Some (if evt_sem s then s\<lparr>evt_sem := False\<rparr> else s\<lparr>todo := Take_evt_sem # todo s\<rparr>)"
| "run_act ok Take_usb_sem s = Some (if usb_sem s then s\<lparr>usb_sem := False\<rparr> else s\<lparr>todo := Take_usb_sem # todo s\<rparr>)"
| "run_act ok (Ep_write d rep) s =
     Some (if ok then s\<lparr>hid_reports := hid_reports s @ [(d, rep)], reports_pending := reports_pending s + 1\<rparr> else s)"
| "run_act ok (Write_data d t) s = Some (s\<lparr>cdc_texts := cdc_texts s @ [(d, t)]\<rparr>)"
| "run_act ok (Write_string d) s = Some (s\<lparr>cdc_texts := cdc_texts s @ [(d, User (cstr (hid_string s)))]\<rparr>)"
| "run_act ok If_string s =
     Some (if 0 < hid_strlen s then s\<lparr>todo := [Put_evt HID_KBD_STRING, Reset_pointer, Give_evt_sem] @ todo s\<rparr> else s)"
| "run_act ok (Put_evt e) s = put_evt e s"
| "run_act ok Give_evt_sem s = Some (s\<lparr>evt_sem := True\<rparr>)"
| "run_act ok Reset_pointer s = Some (s\<lparr>str_pointer := 0\<rparr>)"
| "run_act ok Type_char s =
     (if unat (str_pointer s) < length (hid_string s)
      then Some (s\<lparr>todo := type_char (hid_string s ! unat (str_pointer s)) @ todo s\<rparr>) else None)"
| "run_act ok Next_char s =
     Some (s\<lparr>str_pointer := str_pointer s + 1, todo := next_char (hid_strlen s) (str_pointer s + 1) @ todo s\<rparr>)"
| "run_act ok Free_evt s = Some (s\<lparr>pool_used := pool_used s - 1\<rparr>)"

definition main_step :: "bool \<Rightarrow> u8 \<Rightarrow> u8 \<Rightarrow> hid \<Rightarrow> hid option" where
  "main_step ok r1 r2 s = (case todo s of
     a # as \<Rightarrow> run_act ok a (s\<lparr>todo := as\<rparr>)
   | [] \<Rightarrow> (case evt_fifo s of
       [] \<Rightarrow> Some (s\<lparr>todo := [Take_evt_sem]\<rparr>)
     | e # es \<Rightarrow> Some (s\<lparr>evt_fifo := es, todo := handle_evt r1 r2 e @ [Free_evt]\<rparr>)))"

section \<open>Start-up and runs\<close>

text \<open>
  What \<open>main\<close> asks for before its loop: the devices, the callbacks of the buttons whose ports are
  known, and the USB stack. \<open>False\<close> is an early return.
\<close>

definition callbacks_configure :: "bool \<Rightarrow> int" where
  "callbacks_configure gpio = (if \<not> gpio then -6 else 0)"

definition hid_start :: "(hid_dev \<Rightarrow> bool) \<Rightarrow> (cdc_dev \<Rightarrow> bool) \<Rightarrow> bool list \<Rightarrow> int \<Rightarrow> bool" where
  "hid_start hids cdcs ports usb \<longleftrightarrow>
     hids HID_0 \<and> hids HID_1 \<and> cdcs CDC_0 \<and> cdcs CDC_1 \<and> list_all (\<lambda>p. callbacks_configure p = 0) ports \<and> usb = 0"

definition hid_init :: hid where
  "hid_init = \<lparr>evt_fifo = [], pool_used = 0, evt_sem = False, usb_sem = True, reports_pending = 0,
     data_buf_mouse = [], data_buf_kbd = [], hid_string = replicate 64 0, str_pointer = 0,
     todo = [Take_evt_sem], hid_reports = [], cdc_texts = [(CDC_0, Banner0), (CDC_1, Banner1)]\<rparr>"

text \<open>
  What can happen: a step of the main thread, a button, data at a port, the delivery of a report.
\<close>

datatype hid_input = Main bool u8 u8 | Button nat | Mouse_rx uart | Kbd_rx uart | Report_sent

fun hid_step :: "hid_input \<Rightarrow> hid \<Rightarrow> hid option" where
  "hid_step (Main ok r1 r2) s = main_step ok r1 r2 s"
| "hid_step (Button n) s = btn n s"
| "hid_step (Mouse_rx u) s = mouse_loop u s"
| "hid_step (Kbd_rx u) s = kbd_loop u s"
| "hid_step Report_sent s =
     (case reports_pending s of 0 \<Rightarrow> Some s | Suc n \<Rightarrow> Some (in_ready_cb (s\<lparr>reports_pending := n\<rparr>)))"

fun hid_run :: "hid_input list \<Rightarrow> hid \<Rightarrow> hid option" where
  "hid_run [] s = Some s"
| "hid_run (i # is) s = hid_step i s \<bind> hid_run is"

end
