(* ===== verification/HidEvents.thy ===== *)
theory HidEvents
  imports HidCdc
begin

text \<open>
  What holds of the events and reports of samples/subsys/usb/hid-cdc in every run: the blocks of the
  pool are accounted for, no event is forgotten, at most one report is on its way to the host. What
  goes wrong when the host refuses a report, and what the two serial ports make of a line.
\<close>

section \<open>The state in every run\<close>

text \<open>The rest of a handler: the semaphore is taken just before each report, and the event is freed last.\<close>

fun paired :: "act list \<Rightarrow> bool" where
  "paired [] = False"
| "paired (Free_evt # as) = (as = [])"
| "paired (Take_usb_sem # as) = (case as of Ep_write d r # bs \<Rightarrow> paired bs | _ \<Rightarrow> False)"
| "paired (Ep_write d r # as) = False"
| "paired (Take_evt_sem # as) = False"
| "paired (a # as) = paired as"

definition working :: "act list \<Rightarrow> bool" where
  "working t = (case t of [] \<Rightarrow> False | a # as \<Rightarrow> a \<noteq> Take_evt_sem)"

definition holding :: "act list \<Rightarrow> bool" where
  "holding t = (case t of Ep_write d r # as \<Rightarrow> True | _ \<Rightarrow> False)"

definition thread_ok :: "act list \<Rightarrow> bool" where
  "thread_ok t = (case t of [] \<Rightarrow> True | a # as \<Rightarrow>
     (case a of Take_evt_sem \<Rightarrow> as = [] | Ep_write d r \<Rightarrow> paired as | _ \<Rightarrow> paired t))"

definition thread_wf :: "hid \<Rightarrow> bool" where
  "thread_wf s \<longleftrightarrow> thread_ok (todo s) \<and> reports_pending s + of_bool (usb_sem s) + of_bool (holding (todo s)) \<le> 1"

definition queue_wf :: "hid \<Rightarrow> bool" where
  "queue_wf s \<longleftrightarrow> pool_used s = length (evt_fifo s) + of_bool (working (todo s)) \<and> pool_used s \<le> FIFO_ELEM_COUNT \<and>
     (todo s = [Take_evt_sem] \<and> evt_fifo s \<noteq> [] \<longrightarrow> evt_sem s)"

definition text_wf :: "hid \<Rightarrow> bool" where
  "text_wf s \<longleftrightarrow> length (hid_string s) = 64 \<and> 0 \<in> set (hid_string s) \<and>
     length (data_buf_mouse s) < PORT_SIZE \<and> length (data_buf_kbd s) \<le> PORT_SIZE"

lemmas wf_defs = thread_wf_def queue_wf_def text_wf_def

subsection \<open>Lists of actions\<close>

lemma type_char_cases: "type_char c = [] \<or> (\<exists>rep. type_char c = [Take_usb_sem, Ep_write HID_1 rep])"
  by (simp add: type_char_def send_report_def Let_def)

lemma next_char_cases: "next_char n p = [] \<or> (\<exists>e. next_char n p = [Put_evt e, Give_evt_sem])"
  by (simp add: next_char_def clear_kbd_report_def)

lemma paired_type_char [simp]: "paired (type_char c @ as) = paired as"
  using type_char_cases [of c] by auto

lemma paired_next_char [simp]: "paired (next_char n p @ as) = paired as"
  using next_char_cases [of n p] by auto

lemma paired_handler [simp]: "paired (handle_evt r1 r2 e @ [Free_evt])"
  by (cases e) (simp_all add: move_mouse_def send_report_def clear_mouse_report_def clear_kbd_report_def)

lemma paired_thread [simp]: "paired t \<Longrightarrow> thread_ok t" "paired t \<Longrightarrow> \<not> holding t" "paired t \<Longrightarrow> working t"
  by (cases t; auto simp: thread_ok_def holding_def working_def split: act.split list.splits; fail)+

lemma thread_states:
  "thread_ok (a # as) \<longleftrightarrow> (a = Take_evt_sem \<and> as = []) \<or> ((\<exists>d r. a = Ep_write d r) \<and> paired as) \<or> paired (a # as)"
  by (cases a) (auto simp: thread_ok_def)

lemma quiet_thread [simp]:
  "thread_ok []" "\<not> holding []" "\<not> working []" "thread_ok [Take_evt_sem]" "\<not> holding (Take_evt_sem # as)"
  "\<not> working (Take_evt_sem # as)" "holding (Ep_write d r # as)" "working (Ep_write d r # as)"
  "thread_ok (Ep_write d r # as) = paired as"
  by (simp_all add: thread_ok_def holding_def working_def)

lemma paired_not_waiting [simp]: "\<not> paired [Take_evt_sem]"
  by simp

lemma paired_nonempty [simp]: "paired t \<Longrightarrow> t \<noteq> [Take_evt_sem]"
  by auto

subsection \<open>Putting an event\<close>

lemma put_evt_cases:
  "put_evt e s = (if pool_used s < FIFO_ELEM_COUNT then Some (s\<lparr>pool_used := pool_used s + 1, evt_fifo := evt_fifo s @ [e]\<rparr>) else None)"
  by (simp add: put_evt_def app_evt_alloc_def Let_def)

lemma post_evt_cases:
  "post_evt e s = (if pool_used s < FIFO_ELEM_COUNT
     then Some (s\<lparr>pool_used := pool_used s + 1, evt_fifo := evt_fifo s @ [e], evt_sem := True\<rparr>) else None)"
  by (simp add: post_evt_def put_evt_cases)

definition hid_wf :: "hid \<Rightarrow> bool" where
  "hid_wf s \<longleftrightarrow> thread_wf s \<and> queue_wf s \<and> text_wf s"

text \<open>A posted event, in the form to which \<open>post_evt_cases\<close> rewrites it.\<close>

lemma posted_wf [simp]:
  "thread_wf (s\<lparr>pool_used := n, evt_fifo := es, evt_sem := b\<rparr>) = thread_wf s"
  "text_wf (s\<lparr>pool_used := n, evt_fifo := es, evt_sem := b\<rparr>) = text_wf s"
  "pool_used s < FIFO_ELEM_COUNT \<Longrightarrow> queue_wf s \<Longrightarrow> queue_wf (s\<lparr>pool_used := Suc (pool_used s), evt_fifo := evt_fifo s @ [e], evt_sem := True\<rparr>)"
  by (simp_all add: wf_defs)

lemma post_evt_wf: "post_evt e s = Some s' \<Longrightarrow> hid_wf s \<Longrightarrow> hid_wf s'"
  by (auto simp: post_evt_cases hid_wf_def split: if_splits)

subsection \<open>The ports\<close>

lemma port_updates_wf [simp]:
  "thread_wf (s\<lparr>data_buf_mouse := b\<rparr>) = thread_wf s" "thread_wf (s\<lparr>data_buf_kbd := b\<rparr>) = thread_wf s"
  "thread_wf (s\<lparr>hid_string := w\<rparr>) = thread_wf s"
  "queue_wf (s\<lparr>data_buf_mouse := b\<rparr>) = queue_wf s" "queue_wf (s\<lparr>data_buf_kbd := b\<rparr>) = queue_wf s"
  "queue_wf (s\<lparr>hid_string := w\<rparr>) = queue_wf s"
  by (simp_all add: wf_defs)

lemma strcpy_wf:
  assumes "length dest = 64" "length src \<le> 64" "0 \<in> set src"
  shows "length (strcpy dest src) = 64" "0 \<in> set (strcpy dest src)"
proof -
  obtain pre post where "src = pre @ 0 # post" "0 \<notin> set pre" using assms(3) by (metis split_list_first)
  then have "cstr src = pre" by (auto simp: cstr_def takeWhile_tail)
  then show "length (strcpy dest src) = 64" "0 \<in> set (strcpy dest src)"
    using assms \<open>src = pre @ 0 # post\<close> by (auto simp: strcpy_def Let_def)
qed

lemma emptied_wf [simp]: "text_wf s \<Longrightarrow> text_wf (s\<lparr>data_buf_mouse := []\<rparr>)" "text_wf s \<Longrightarrow> text_wf (s\<lparr>data_buf_kbd := []\<rparr>)"
  by (simp_all add: text_wf_def)

lemma mouse_portion_wf:
  assumes "mouse_portion rx s = Some s'" "length (data_buf_mouse s) + length rx \<le> PORT_SIZE" "hid_wf s"
  shows "hid_wf s'"
proof (cases "last (data_buf_mouse s @ rx) = ENTER")
  case True
  then obtain s2 where p: "post_evt (mouse_command (cstr (butlast (data_buf_mouse s @ rx)))) (flush_buffer_mouse s) = Some s2"
    and s': "s' = (if PORT_SIZE \<le> length (data_buf_mouse s2) then flush_buffer_mouse s2 else s2)"
    using assms(1) by (auto simp: mouse_portion_def Let_def split: Option.bind_splits)
  have "hid_wf (flush_buffer_mouse s)" using assms(3) by (simp add: hid_wf_def flush_buffer_mouse_def)
  with post_evt_wf [OF p] show ?thesis by (simp add: s' hid_wf_def flush_buffer_mouse_def)
next
  case False
  with assms show ?thesis by (auto simp: mouse_portion_def Let_def flush_buffer_mouse_def hid_wf_def text_wf_def)
qed

lemma kbd_portion_wf:
  assumes "kbd_portion rx s = Some s'" "length (data_buf_kbd s) + length rx \<le> PORT_SIZE" "rx \<noteq> []" "hid_wf s"
  shows "hid_wf s'"
proof (cases "last (data_buf_kbd s @ rx) = ENTER")
  case True
  let ?b = "butlast (data_buf_kbd s @ rx) @ [0]"
  let ?s = "flush_buffer_kbd (s\<lparr>hid_string := strcpy (hid_string s) ?b\<rparr>)"
  have "length ?b \<le> 64" "0 \<in> set ?b" using assms(2,3) by (auto simp: Suc_le_eq [symmetric])
  with assms(4) strcpy_wf [of "hid_string s" ?b] have "hid_wf ?s"
    by (simp add: hid_wf_def flush_buffer_kbd_def text_wf_def)
  moreover have "post_evt CDC_STRING ?s = Some s'" using True assms(1) by (simp add: kbd_portion_def Let_def)
  ultimately show ?thesis by (rule post_evt_wf [rotated])
next
  case False
  with assms show ?thesis by (auto simp: kbd_portion_def Let_def hid_wf_def text_wf_def)
qed

lemma mouse_loop_wf: "mouse_loop u s = Some s' \<Longrightarrow> hid_wf s \<Longrightarrow> hid_wf s'"
proof (induction u s rule: mouse_loop.induct)
  case (1 u s)
  obtain rx u' where r: "uart_fifo_read (PORT_SIZE - length (data_buf_mouse s)) u = (rx, u')" by fastforce
  have "length (data_buf_mouse s) \<le> PORT_SIZE" using "1.prems" by (simp add: hid_wf_def text_wf_def)
  then have "length (data_buf_mouse s) + length rx \<le> PORT_SIZE" using uart_fifo_read_result [OF r] by linarith
  with 1 r show ?case
    by (subst (asm) (2) mouse_loop.simps) (auto split: if_splits Option.bind_splits dest: mouse_portion_wf)
qed

lemma kbd_loop_wf: "kbd_loop u s = Some s' \<Longrightarrow> hid_wf s \<Longrightarrow> hid_wf s'"
proof (induction u s rule: kbd_loop.induct)
  case (1 u s)
  obtain rx u' where r: "uart_fifo_read (PORT_SIZE - length (data_buf_kbd s)) u = (rx, u')" by fastforce
  have "length (data_buf_kbd s) \<le> PORT_SIZE" using "1.prems" by (simp add: hid_wf_def text_wf_def)
  then have "length (data_buf_kbd s) + length rx \<le> PORT_SIZE" using uart_fifo_read_result [OF r] by linarith
  with 1 r show ?case
    by (subst (asm) (2) kbd_loop.simps) (auto split: if_splits Option.bind_splits dest: kbd_portion_wf)
qed

subsection \<open>The main thread\<close>

lemma paired_Take_usb: "paired (Take_usb_sem # as) \<longleftrightarrow> (\<exists>d r bs. as = Ep_write d r # bs \<and> paired bs)"
  by (auto split: list.splits act.splits)

lemma thread_next:
  assumes "thread_ok (a # as)" "\<And>d r. a \<noteq> Ep_write d r" "a \<noteq> Take_evt_sem"
  shows "paired (a # as)" "\<not> holding (a # as)" "working (a # as)"
  using assms by (auto simp: thread_states)

lemma run_act_text: "run_act ok a (s\<lparr>todo := as\<rparr>) = Some s' \<Longrightarrow> text_wf s \<Longrightarrow> text_wf s'"
  by (cases a) (auto simp: text_wf_def put_evt_cases split: if_splits)

lemma run_act_thread:
  assumes "run_act ok a (s\<lparr>todo := as\<rparr>) = Some s'" "todo s = a # as" "thread_wf s"
  shows "thread_wf s'"
proof (cases a)
  case Take_usb_sem
  with assms show ?thesis by (auto simp: thread_wf_def thread_states paired_Take_usb split: if_splits simp del: paired.simps)
next
  case Free_evt
  with assms show ?thesis by (auto simp: thread_wf_def thread_states)
qed (use assms in \<open>auto simp: thread_wf_def thread_states put_evt_cases split: if_splits\<close>)

lemma run_act_queue:
  assumes "run_act ok a (s\<lparr>todo := as\<rparr>) = Some s'" "todo s = a # as" "thread_wf s" "queue_wf s"
  shows "queue_wf s'"
proof (cases a)
  case Take_usb_sem
  with assms show ?thesis
    by (auto simp: thread_wf_def queue_wf_def thread_states paired_Take_usb split: if_splits simp del: paired.simps)
next
  case Free_evt
  with assms show ?thesis by (auto simp: thread_wf_def queue_wf_def thread_states)
qed (use assms in \<open>auto simp: thread_wf_def queue_wf_def thread_states put_evt_cases split: if_splits\<close>)

lemma get_evt_wf: "todo s = [] \<Longrightarrow> hid_wf s \<Longrightarrow> main_step ok r1 r2 s = Some s' \<Longrightarrow> hid_wf s'"
  by (auto simp: main_step_def hid_wf_def wf_defs split: list.splits)

lemma main_step_wf: "main_step ok r1 r2 s = Some s' \<Longrightarrow> hid_wf s \<Longrightarrow> hid_wf s'"
proof (cases "todo s")
  case (Cons a as)
  then show "main_step ok r1 r2 s = Some s' \<Longrightarrow> hid_wf s \<Longrightarrow> hid_wf s'"
    by (simp add: main_step_def hid_wf_def run_act_text run_act_thread run_act_queue)
qed (simp add: get_evt_wf)

lemma hid_step_wf: "hid_step i s = Some s' \<Longrightarrow> hid_wf s \<Longrightarrow> hid_wf s'"
proof (cases i)
  case Report_sent
  then show "hid_step i s = Some s' \<Longrightarrow> hid_wf s \<Longrightarrow> hid_wf s'"
    by (auto simp: hid_wf_def wf_defs in_ready_cb_def split: nat.splits)
qed (auto simp: btn_def dest: main_step_wf post_evt_wf mouse_loop_wf kbd_loop_wf)

lemma hid_run_wf: "hid_run is s = Some s' \<Longrightarrow> hid_wf s \<Longrightarrow> hid_wf s'"
  by (induction "is" arbitrary: s) (auto split: Option.bind_splits dest: hid_step_wf)

lemma hid_init_wf: "hid_wf hid_init"
  by (simp add: hid_wf_def wf_defs hid_init_def)

lemma cstr_shorter: "0 \<in> set a \<Longrightarrow> length (cstr a) < length a"
  unfolding cstr_def by (induction a) auto

lemma text_wf_strlen: "text_wf s \<Longrightarrow> hid_strlen s < 64"
  using cstr_shorter [of "hid_string s"] by (simp add: hid_strlen_def text_wf_def)

text \<open>
  C35: In every run of the hid-cdc sample, however interrupts fall between the actions of the main
  thread: at most one report is on its way to the host or about to be written, the thread never
  waits while an event is queued without its semaphore being given, each block of the event pool is
  accounted for, and the string stays terminated.
\<close>

theorem events_and_reports_in_order:
  assumes "hid_run is hid_init = Some s"
  shows "reports_pending s + of_bool (usb_sem s) + of_bool (holding (todo s)) \<le> 1 \<and>
    (todo s = [Take_evt_sem] \<and> \<not> evt_sem s \<longrightarrow> evt_fifo s = []) \<and>
    pool_used s = length (evt_fifo s) + of_bool (working (todo s)) \<and> pool_used s \<le> FIFO_ELEM_COUNT \<and>
    hid_strlen s < 64"
proof -
  have wf: "thread_wf s" "queue_wf s" "text_wf s"
    using hid_run_wf [OF assms hid_init_wf] by (simp_all add: hid_wf_def)
  show ?thesis using wf(1,2) text_wf_strlen [OF wf(3)] by (auto simp: thread_wf_def queue_wf_def)
qed

lemma events_and_reports_in_order_witness:
  "\<exists>s. hid_run [Button 1, Main True 0 0, Main True 0 0, Main True 0 0, Button 2] hid_init = Some s \<and>
     evt_fifo s = [GPIO_BUTTON_2] \<and> holding (todo s) \<and> reports_pending s = 0 \<and> pool_used s = 2"
proof -
  let ?is = "[Button 1, Main True 0 0, Main True 0 0, Main True 0 0, Button 2]"
  have "returns (hid_run ?is hid_init) (\<lambda>s. evt_fifo s = [GPIO_BUTTON_2] \<and> holding (todo s) \<and> working (todo s))" by code_simp
  then obtain s where s: "hid_run ?is hid_init = Some s" "evt_fifo s = [GPIO_BUTTON_2]" "holding (todo s)" "working (todo s)"
    by (elim returnsE) blast
  from events_and_reports_in_order [OF s(1)] s show ?thesis by (intro exI [of _ s]) simp
qed

section \<open>A report that is refused\<close>

text \<open>The semaphore is gone and no report is under way that could bring it back.\<close>

definition keyboard_dead :: "hid \<Rightarrow> bool" where
  "keyboard_dead s \<longleftrightarrow> thread_ok (todo s) \<and> \<not> holding (todo s) \<and> \<not> usb_sem s \<and> reports_pending s = 0"

lemma dead_same [simp]:
  "keyboard_dead (s\<lparr>data_buf_mouse := b\<rparr>) = keyboard_dead s" "keyboard_dead (s\<lparr>data_buf_kbd := b\<rparr>) = keyboard_dead s"
  "keyboard_dead (s\<lparr>hid_string := b\<rparr>) = keyboard_dead s"
  "keyboard_dead (s\<lparr>pool_used := n, evt_fifo := es, evt_sem := v\<rparr>) = keyboard_dead s"
  by (simp_all add: keyboard_dead_def)

definition stays_dead :: "hid \<Rightarrow> hid option \<Rightarrow> bool" where
  "stays_dead s m \<longleftrightarrow> (\<forall>s'. m = Some s' \<longrightarrow> keyboard_dead s' \<and> hid_reports s' = hid_reports s)"

lemma mouse_portion_dead: "keyboard_dead s \<Longrightarrow> stays_dead s (mouse_portion rx s)"
  by (cases "last (data_buf_mouse s @ rx) = ENTER")
     (simp_all add: mouse_portion_def Let_def post_evt_cases flush_buffer_mouse_def stays_dead_def)

lemma kbd_portion_dead: "keyboard_dead s \<Longrightarrow> stays_dead s (kbd_portion rx s)"
  by (cases "last (data_buf_kbd s @ rx) = ENTER")
     (simp_all add: kbd_portion_def Let_def post_evt_cases flush_buffer_kbd_def stays_dead_def)

lemma stays_dead_bind:
  assumes "stays_dead s m" "\<And>t. keyboard_dead t \<Longrightarrow> m = Some t \<Longrightarrow> stays_dead t (f t)"
  shows "stays_dead s (m \<bind> f)"
proof (cases m)
  case None
  then show ?thesis by (simp add: stays_dead_def)
next
  case (Some t)
  with assms(1) have t: "keyboard_dead t" "hid_reports t = hid_reports s" by (simp_all add: stays_dead_def)
  from assms(2) [OF t(1) Some] show ?thesis by (simp add: Some stays_dead_def t(2))
qed

lemma stays_dead_Some [simp]: "keyboard_dead s \<Longrightarrow> stays_dead s (Some s)"
  by (simp add: stays_dead_def)

lemma mouse_loop_dead: "keyboard_dead s \<Longrightarrow> stays_dead s (mouse_loop u s)"
proof (induction u s rule: mouse_loop.induct)
  case (1 u s)
  obtain rx u' where r: "uart_fifo_read (PORT_SIZE - length (data_buf_mouse s)) u = (rx, u')" by fastforce
  show ?case
  proof (cases "rx = []")
    case False
    show ?thesis
      by (subst mouse_loop.simps) (simp add: r False stays_dead_bind mouse_portion_dead "1.prems" "1.IH" [OF r [symmetric] refl False])
  next
    case True
    then show ?thesis by (subst mouse_loop.simps) (simp add: r "1.prems")
  qed
qed

lemma kbd_loop_dead: "keyboard_dead s \<Longrightarrow> stays_dead s (kbd_loop u s)"
proof (induction u s rule: kbd_loop.induct)
  case (1 u s)
  obtain rx u' where r: "uart_fifo_read (PORT_SIZE - length (data_buf_kbd s)) u = (rx, u')" by fastforce
  show ?case
  proof (cases "rx = []")
    case False
    show ?thesis
      by (subst kbd_loop.simps) (simp add: r False stays_dead_bind kbd_portion_dead "1.prems" "1.IH" [OF r [symmetric] refl False])
  next
    case True
    then show ?thesis by (subst kbd_loop.simps) (simp add: r "1.prems")
  qed
qed

lemma run_act_dead:
  assumes "keyboard_dead s" "todo s = a # as"
  shows "stays_dead s (run_act ok a (s\<lparr>todo := as\<rparr>))"
proof (cases a)
  case Take_usb_sem
  with assms show ?thesis by (simp add: stays_dead_def keyboard_dead_def)
next
  case Free_evt
  with assms show ?thesis by (auto simp: stays_dead_def keyboard_dead_def thread_states)
next
  case Next_char
  with assms have "paired as" by (simp add: keyboard_dead_def thread_states)
  with Next_char assms show ?thesis by (simp add: stays_dead_def keyboard_dead_def)
qed (use assms in \<open>simp_all add: stays_dead_def keyboard_dead_def thread_states put_evt_cases\<close>)

lemma main_step_dead: "keyboard_dead s \<Longrightarrow> stays_dead s (main_step ok r1 r2 s)"
proof (cases "todo s")
  case Nil
  then show "keyboard_dead s \<Longrightarrow> stays_dead s (main_step ok r1 r2 s)"
    by (cases "evt_fifo s") (simp_all add: main_step_def stays_dead_def keyboard_dead_def)
qed (simp add: main_step_def run_act_dead)

lemma post_evt_dead: "keyboard_dead s \<Longrightarrow> stays_dead s (post_evt e s)"
  by (simp add: stays_dead_def post_evt_cases)

lemma hid_step_dead: "keyboard_dead s \<Longrightarrow> stays_dead s (hid_step i s)"
proof (cases i)
  case Report_sent
  then show "keyboard_dead s \<Longrightarrow> stays_dead s (hid_step i s)" by (simp add: keyboard_dead_def stays_dead_def)
qed (simp_all add: main_step_dead btn_def mouse_loop_dead kbd_loop_dead post_evt_dead)

lemma hid_run_dead: "keyboard_dead s \<Longrightarrow> stays_dead s (hid_run is s)"
proof (induction "is" arbitrary: s)
  case (Cons i "is")
  show ?case by (simp add: stays_dead_bind hid_step_dead Cons)
qed simp

text \<open>
  C37: When the USB stack refuses a report, in any reachable state, no later report is ever sent:
  the semaphore taken for it is never given again, whatever happens afterwards.
\<close>

theorem refused_report_is_the_last:
  assumes "hid_run js hid_init = Some s" "todo s = Ep_write d rep # as"
    and "hid_run (Main False r1 r2 # is) s = Some s'"
  shows "hid_reports s' = hid_reports s"
proof -
  have "keyboard_dead (s\<lparr>todo := as\<rparr>)"
    using hid_run_wf [OF assms(1) hid_init_wf] assms(2) by (auto simp: hid_wf_def wf_defs keyboard_dead_def)
  from hid_run_dead [OF this, of "is"] assms(2,3) show ?thesis by (simp add: main_step_def stays_dead_def)
qed

lemma refused_report_is_the_last_witness:
  "\<exists>s s'. hid_run [Button 1, Main True 0 0, Main True 0 0, Main True 0 0] hid_init = Some s \<and>
     hid_run (Main False 0 0 # replicate 12 (Main True 0 0) @ [Report_sent, Button 0, Main True 1 1]) s = Some s' \<and>
     hid_reports s' = hid_reports s"
proof -
  let ?js = "[Button 1, Main True 0 0, Main True 0 0, Main True 0 0]"
  let ?is = "replicate 12 (Main True 0 0) @ [Report_sent, Button 0, Main True 1 1]"
  have "returns (hid_run ?js hid_init) (\<lambda>s. (\<exists>d rep as. todo s = Ep_write d rep # as) \<and> hid_run (Main False 0 0 # ?is) s \<noteq> None)"
  proof (rule returns_mono)
    show "returns (hid_run ?js hid_init) (\<lambda>s. holding (todo s) \<and> \<not> Option.is_none (hid_run (Main False 0 0 # ?is) s))"
      by code_simp
    show "(\<exists>d rep as. todo s = Ep_write d rep # as) \<and> hid_run (Main False 0 0 # ?is) s \<noteq> None"
      if "holding (todo s) \<and> \<not> Option.is_none (hid_run (Main False 0 0 # ?is) s)" for s
      using that by (auto simp: holding_def Option.is_none_def split: list.splits act.splits)
  qed
  then obtain s s' d rep as where "hid_run ?js hid_init = Some s" "todo s = Ep_write d rep # as"
    "hid_run (Main False 0 0 # ?is) s = Some s'" by (elim returnsE) blast
  from this refused_report_is_the_last [OF this] show ?thesis by blast
qed

section \<open>The pool runs out\<close>

definition is_press :: "hid_input \<Rightarrow> bool" where
  "is_press i = (case i of Button n \<Rightarrow> True | _ \<Rightarrow> False)"

definition is_main :: "hid_input \<Rightarrow> bool" where
  "is_main i = (case i of Main ok r1 r2 \<Rightarrow> True | _ \<Rightarrow> False)"

lemma is_press_simps [simp]:
  "is_press (Button n)" "\<not> is_press (Main ok r1 r2)" "\<not> is_press (Mouse_rx u)" "\<not> is_press (Kbd_rx u)" "\<not> is_press Report_sent"
  by (simp_all add: is_press_def)

lemma blocked_main: "todo s = Take_usb_sem # as \<Longrightarrow> \<not> usb_sem s \<Longrightarrow> main_step ok r1 r2 s = Some s"
  by (simp add: main_step_def)

theorem presses_exhaust_the_pool:
  assumes "todo s = Take_usb_sem # as" "\<not> usb_sem s" "pool_used s \<le> FIFO_ELEM_COUNT"
    and "list_all (\<lambda>i. is_press i \<or> is_main i) is"
  shows "hid_run is s = None \<longleftrightarrow> FIFO_ELEM_COUNT < pool_used s + length (filter is_press is)"
  using assms
proof (induction "is" arbitrary: s)
  case (Cons i "is")
  show ?case
  proof (cases i)
    case (Button n)
    show ?thesis
    proof (cases "pool_used s < FIFO_ELEM_COUNT")
      case True
      let ?s = "s\<lparr>pool_used := pool_used s + 1, evt_fifo := evt_fifo s @ [button_evt n], evt_sem := True\<rparr>"
      have "hid_run is ?s = None \<longleftrightarrow> FIFO_ELEM_COUNT < pool_used ?s + length (filter is_press is)"
        by (rule Cons.IH) (use Cons.prems True in simp_all)
      with True Button show ?thesis by (simp add: btn_def post_evt_cases is_press_simps)
    next
      case False
      with Button Cons.prems show ?thesis by (simp add: btn_def post_evt_cases is_press_simps)
    qed
  qed (use Cons in \<open>simp_all add: is_press_simps is_main_def blocked_main\<close>)
qed simp

section \<open>Lines at the ports\<close>

lemma take_of_shorter: "uart_fifo_read n (c # cs) = (c, cs)" if "length c \<le> n"
  using that by simp

text \<open>A line that ends with the last byte of a portion, in portions that fit.\<close>

lemma mouse_line:
  assumes "[] \<notin> set u" "u \<noteq> []" "data_buf_mouse s @ concat u = w @ [ENTER]" "ENTER \<notin> set w" "length w < PORT_SIZE"
    and "pool_used s < FIFO_ELEM_COUNT"
  shows "mouse_loop u s = post_evt (mouse_command (cstr w)) (flush_buffer_mouse s)"
  using assms
proof (induction u arbitrary: s)
  case (Cons c u)
  let ?b = "data_buf_mouse s"
  have len: "length ?b + length c + length (concat u) = Suc (length w)"
    using arg_cong [OF Cons.prems(3), of length] by simp
  then have fits: "length c \<le> PORT_SIZE - length ?b" using Cons.prems(5) by linarith
  have c: "c \<noteq> []" using Cons.prems(1) by auto
  show ?case
  proof (cases "u = []")
    case True
    with Cons.prems(3) have b: "?b @ c = w @ [ENTER]" by simp
    let ?s = "s\<lparr>data_buf_mouse := [], pool_used := Suc (pool_used s), evt_fifo := evt_fifo s @ [mouse_command (cstr w)], evt_sem := True\<rparr>"
    have "mouse_portion c s = Some ?s"
      using b Cons.prems(6) by (simp add: mouse_portion_def Let_def flush_buffer_mouse_def post_evt_cases)
    moreover have "mouse_loop [] ?s = Some ?s" by (subst mouse_loop.simps) simp
    ultimately show ?thesis using True c fits Cons.prems(6)
      by (subst mouse_loop.simps) (simp add: flush_buffer_mouse_def post_evt_cases)
  next
    case False
    with Cons.prems(1) have "concat u \<noteq> []" by (cases u) auto
    have "(?b @ c) @ concat u = w @ [ENTER]" using Cons.prems(3) by simp
    then have w: "w = (?b @ c) @ butlast (concat u)"
      using \<open>concat u \<noteq> []\<close> by (metis butlast_append butlast_snoc)
    then have notr: "last (?b @ c) \<noteq> ENTER" using Cons.prems(4) c by (metis UnCI append_is_Nil_conv last_in_set set_append)
    have short: "length (?b @ c) < PORT_SIZE" using w Cons.prems(5) by (metis le_add1 length_append order_le_less_trans)
    let ?s = "s\<lparr>data_buf_mouse := ?b @ c\<rparr>"
    have "mouse_portion c s = Some ?s" using notr short by (simp add: mouse_portion_def Let_def)
    moreover have "mouse_loop u ?s = post_evt (mouse_command (cstr w)) (flush_buffer_mouse ?s)"
      by (rule Cons.IH) (use Cons.prems False in simp_all)
    ultimately show ?thesis using c fits
      by (subst mouse_loop.simps) (simp add: flush_buffer_mouse_def)
  qed
qed simp

theorem commands_are_recognised:
  assumes "data_buf_mouse s = []" "[] \<notin> set u" "concat u = ascii t @ [ENTER]"
    and "(t, e) \<in> {(''up'', CDC_UP), (''down'', CDC_DOWN), (''right'', CDC_RIGHT), (''left'', CDC_LEFT)}"
    and "pool_used s < FIFO_ELEM_COUNT"
  shows "\<exists>s'. hid_step (Mouse_rx u) s = Some s' \<and> evt_sem s' \<and> data_buf_mouse s' = [] \<and>
    evt_fifo s' = evt_fifo s @ [e]"
proof -
  have t: "ENTER \<notin> set (ascii t)" "length (ascii t) < PORT_SIZE" "cstr (ascii t) = ascii t"
    using assms(4) by (auto simp: ascii_def cstr_def)
  have "mouse_loop u s = post_evt (mouse_command (cstr (ascii t))) (flush_buffer_mouse s)"
    by (rule mouse_line) (use assms t in auto)
  then show ?thesis using assms(4,5)
    by (auto simp: t(3) post_evt_cases flush_buffer_mouse_def mouse_command_def ascii_def cstr_def)
qed

section \<open>A keyboard line that is too long\<close>

lemma full_kbd_loop: "length (data_buf_kbd s) = PORT_SIZE \<Longrightarrow> kbd_loop u s = Some s"
  by (subst kbd_loop.simps) (cases u; simp)

definition kbd_text :: "hid \<Rightarrow> u8 list \<times> u8 list" where
  "kbd_text s = (data_buf_kbd s, hid_string s)"

definition keeps_text :: "hid \<Rightarrow> hid option \<Rightarrow> bool" where
  "keeps_text s m \<longleftrightarrow> (\<forall>s'. m = Some s' \<longrightarrow> kbd_text s' = kbd_text s)"

lemma keeps_text_bind:
  assumes "keeps_text s m" "\<And>t. kbd_text t = kbd_text s \<Longrightarrow> m = Some t \<Longrightarrow> keeps_text t (f t)"
  shows "keeps_text s (m \<bind> f)"
proof (cases m)
  case (Some t)
  with assms(1) have t: "kbd_text t = kbd_text s" by (simp add: keeps_text_def)
  from assms(2) [OF t Some] show ?thesis by (simp add: Some keeps_text_def t)
qed (simp add: keeps_text_def)

lemma mouse_loop_text: "keeps_text s (mouse_loop u s)"
proof (induction u s rule: mouse_loop.induct)
  case (1 u s)
  obtain rx u' where r: "uart_fifo_read (PORT_SIZE - length (data_buf_mouse s)) u = (rx, u')" by fastforce
  have p: "keeps_text s (mouse_portion rx s)"
    by (cases "last (data_buf_mouse s @ rx) = ENTER")
       (simp_all add: mouse_portion_def Let_def post_evt_cases flush_buffer_mouse_def keeps_text_def kbd_text_def)
  show ?case
  proof (cases "rx = []")
    case False
    show ?thesis
      by (subst mouse_loop.simps) (simp add: r False keeps_text_bind p "1.IH" [OF r [symmetric] refl False])
  next
    case True
    then show ?thesis by (subst mouse_loop.simps) (simp add: r keeps_text_def)
  qed
qed

lemma run_act_keeps_text: "keeps_text s (run_act ok a (s\<lparr>todo := as\<rparr>))"
  by (cases a) (simp_all add: keeps_text_def kbd_text_def put_evt_cases)

lemma hid_step_text: "length (data_buf_kbd s) = PORT_SIZE \<Longrightarrow> keeps_text s (hid_step i s)"
proof (cases i)
  case (Main ok r1 r2)
  then show "keeps_text s (hid_step i s)"
    by (cases "todo s"; cases "evt_fifo s")
       (simp_all add: main_step_def run_act_keeps_text, simp_all add: keeps_text_def kbd_text_def)
next
  case Report_sent
  then show "keeps_text s (hid_step i s)"
    by (cases "reports_pending s") (simp_all add: keeps_text_def kbd_text_def in_ready_cb_def)
qed (simp_all add: btn_def mouse_loop_text full_kbd_loop, simp_all add: keeps_text_def kbd_text_def post_evt_cases)

lemma hid_run_text: "length (data_buf_kbd s) = PORT_SIZE \<Longrightarrow> keeps_text s (hid_run is s)"
proof (induction "is" arbitrary: s)
  case (Cons i "is")
  have "keeps_text t (hid_run is t)" if "kbd_text t = kbd_text s" for t
    by (rule Cons.IH) (use Cons.prems that in \<open>simp add: kbd_text_def\<close>)
  then show ?case by (simp add: keeps_text_bind hid_step_text Cons.prems)
qed (simp add: keeps_text_def)

theorem long_line_blocks_the_keyboard_port:
  assumes "data_buf_kbd s = []" "PORT_SIZE \<le> length bs" "ENTER \<notin> set (take PORT_SIZE bs)"
    and "hid_run (Kbd_rx [bs] # is) s = Some s'"
  shows "hid_string s' = hid_string s \<and> data_buf_kbd s' = take PORT_SIZE bs"
proof -
  let ?b = "take PORT_SIZE bs"
  let ?s = "s\<lparr>data_buf_kbd := ?b\<rparr>"
  have "last ?b \<noteq> ENTER" using assms(2,3) by (metis last_in_set length_greater_0_conv length_take min.absorb2 zero_less_numeral)
  moreover have "bs \<noteq> []" using assms(2) by auto
  ultimately have "kbd_loop [bs] s = Some ?s"
    using assms(1) by (subst kbd_loop.simps) (simp add: kbd_portion_def full_kbd_loop assms(2))
  with assms(4) hid_run_text [of ?s "is"] show ?thesis by (simp add: keeps_text_def kbd_text_def assms(2))
qed

end
