(* ===== verification/HidTyping.thy ===== *)
theory HidTyping
  imports HidEvents
begin

text \<open>
  Typing \<open>string\<close> on the keyboard of samples/subsys/usb/hid-cdc after button 2: the reports that are
  sent, and what a host reads out of them. The host takes a key for pressed when it is in a report
  and was not in the one before.
\<close>

section \<open>What the host reads\<close>

definition new_keys :: "u8 list \<Rightarrow> u8 list \<Rightarrow> u8 list" where
  "new_keys prev rep = filter (\<lambda>k. k \<noteq> 0 \<and> k \<notin> set (drop 2 prev)) (drop 2 rep)"

definition host_shift :: "u8 list \<Rightarrow> bool" where
  "host_shift rep \<longleftrightarrow> bit (rep ! 0) 1 \<or> bit (rep ! 0) 5"

fun host_text :: "u8 list \<Rightarrow> u8 list list \<Rightarrow> u8 list" where
  "host_text prev [] = []"
| "host_text prev (rep # reps) =
     List.map_filter (\<lambda>k. us_typed (host_shift rep) (uint k)) (new_keys prev rep) @ host_text rep reps"

definition released :: "u8 list" where
  "released = kbd_report 0 0"

definition char_report :: "u8 \<Rightarrow> u8 list" where
  "char_report c = kbd_report (if needs_shift c then HID_KBD_MODIFIER_RIGHT_SHIFT else 0) (word_of_int (ascii_to_hid c))"

text \<open>A character is heard when its key is not the one that is already down.\<close>

fun heard :: "int \<Rightarrow> u8 list \<Rightarrow> u8 list" where
  "heard k [] = []"
| "heard k (c # cs) = (if ascii_to_hid c = k then [] else [c]) @ heard (ascii_to_hid c) cs"

lemma new_keys_kbd [simp]:
  "new_keys (kbd_report m k) (kbd_report m' k') = (if k' = 0 \<or> k' = k then [] else [k'])"
  by (auto simp: new_keys_def kbd_report_def)

lemma host_shift_kbd [simp]: "host_shift (char_report c) = needs_shift c"
  by (simp add: host_shift_def char_report_def kbd_report_def bit_numeral_rec bit_1_iff)

lemma key_word:
  assumes "printable c"
  shows "uint (word_of_int (ascii_to_hid c) :: u8) = ascii_to_hid c"
  using printable_key [OF assms] by (simp add: uint_word_of_int)

lemma key_word_eq:
  assumes "printable c" "0 \<le> k" "k < 57"
  shows "(word_of_int (ascii_to_hid c) :: u8) = word_of_int k \<longleftrightarrow> ascii_to_hid c = k"
proof -
  have "uint (word_of_int k :: u8) = k" using assms(2,3) by (simp add: uint_word_of_int)
  with key_word [OF assms(1)] show ?thesis by metis
qed

lemma host_text_chars:
  assumes "list_all printable cs" "0 \<le> k" "k < 57"
  shows "host_text (kbd_report m (word_of_int k)) (map char_report cs @ [released]) = heard k cs"
  using assms
proof (induction cs arbitrary: m k)
  case (Cons c cs)
  let ?k = "ascii_to_hid c"
  have c: "printable c" "4 \<le> ?k" "?k < 57" using Cons.prems(1) printable_key by auto
  have nz: "(word_of_int ?k :: u8) \<noteq> 0" using key_word_eq [OF c(1), of 0] c(2) by simp
  have rest: "host_text (char_report c) (map char_report cs @ [released]) = heard ?k cs"
    by (subst (1) char_report_def, rule Cons.IH) (use Cons.prems c in auto)
  have "new_keys (kbd_report m (word_of_int k)) (char_report c) = (if ?k = k then [] else [word_of_int ?k])"
    using nz key_word_eq [OF c(1) Cons.prems(2,3)] by (simp add: char_report_def)
  with rest show ?case using c by (simp add: map_filter_simps key_word typed_back)
qed (simp add: released_def map_filter_simps)

lemma heard_length: "length (heard k cs) \<le> length cs"
  by (induction cs arbitrary: k) (auto simp: le_SucI)

lemma heard_Cons_all: "heard k (c # cs) = c # cs \<longleftrightarrow> ascii_to_hid c \<noteq> k \<and> heard (ascii_to_hid c) cs = cs"
  using heard_length [of "ascii_to_hid c" cs] by auto

lemma heard_all: "heard k cs = cs \<longleftrightarrow> (cs \<noteq> [] \<longrightarrow> ascii_to_hid (hd cs) \<noteq> k) \<and> successively (\<lambda>a b. ascii_to_hid a \<noteq> ascii_to_hid b) cs"
proof (induction cs arbitrary: k)
  case (Cons c cs)
  show ?case unfolding heard_Cons_all Cons by (cases cs) auto
qed simp

section \<open>The reports\<close>

definition hid_round :: "u8 \<Rightarrow> u8 \<Rightarrow> hid \<Rightarrow> hid option" where
  "hid_round r1 r2 s = hid_step (Main True r1 r2) s \<bind> hid_step Report_sent"

text \<open>Between two events, with nothing on its way to the host.\<close>

definition hid_ready :: "hid \<Rightarrow> bool" where
  "hid_ready s \<longleftrightarrow> todo s = [] \<and> usb_sem s \<and> reports_pending s = 0 \<and> pool_used s = length (evt_fifo s) \<and>
     length (hid_string s) = 64 \<and> hid_strlen s < 64"

lemmas round_defs = hid_round_def main_step_def in_ready_cb_def put_evt_cases numeral_eq_Suc

lemma send_char:
  assumes "hid_ready s" "evt_fifo s = [HID_KBD_STRING]" "unat (str_pointer s) < 64"
    and "c = hid_string s ! unat (str_pointer s)" "printable c"
  shows "iterate 5 (hid_round r1 r2) s = Some (s\<lparr>evt_fifo := [], str_pointer := str_pointer s + 1,
    hid_reports := hid_reports s @ [(HID_1, char_report c)],
    todo := next_char (hid_strlen s) (str_pointer s + 1) @ [Free_evt]\<rparr>)"
proof -
  have "ascii_to_hid c \<noteq> -1" using printable_key [OF assms(5)] by simp
  with assms(1-4) show ?thesis
    by (cases s) (simp add: round_defs hid_ready_def type_char_def send_report_def char_report_def hid_strlen_def)
qed

lemma send_next:
  assumes "todo s = [Put_evt e, Give_evt_sem, Free_evt]" "pool_used s = 1" "evt_fifo s = []" "reports_pending s = 0"
  shows "iterate 3 (hid_round r1 r2) s = Some (s\<lparr>evt_fifo := [e], evt_sem := True, todo := []\<rparr>)"
  using assms by (cases s) (simp add: round_defs)

lemma send_release:
  assumes "hid_ready s" "evt_fifo s = [HID_KBD_CLEAR]"
  shows "iterate 4 (hid_round r1 r2) s = Some (s\<lparr>evt_fifo := [], pool_used := 0,
    hid_reports := hid_reports s @ [(HID_1, released)], todo := []\<rparr>)"
  using assms by (cases s) (simp add: round_defs hid_ready_def send_report_def released_def)

section \<open>From the button to the host\<close>

lemma iterate_then:
  assumes "iterate m f s = Some t" "iterate n f t = Some t'"
  shows "iterate (m + n) f s = Some t'"
  using assms by (simp add: iterate_add)

lemma cstr_nth: "p < length (cstr a) \<Longrightarrow> a ! p = cstr a ! p"
  by (simp add: cstr_def takeWhile_nth)

lemma after_char:
  assumes "unat p < n" "n < 64"
  shows "unat (p + 1) = Suc (unat p)"
    and "next_char n (p + 1) = [Put_evt (if Suc (unat p) < n then HID_KBD_STRING else HID_KBD_CLEAR), Give_evt_sem]"
proof -
  show "unat (p + 1) = Suc (unat p)" using assms by (simp add: unat_plus_if_size word_size)
  with assms(1) show "next_char n (p + 1) = [Put_evt (if Suc (unat p) < n then HID_KBD_STRING else HID_KBD_CLEAR), Give_evt_sem]"
    by (simp add: next_char_def clear_kbd_report_def)
qed

lemma type_one:
  assumes "hid_ready s" "evt_fifo s = [HID_KBD_STRING]" "unat (str_pointer s) < hid_strlen s"
    and "c = hid_string s ! unat (str_pointer s)" "printable c"
  shows "iterate (5 + 3) (hid_round r1 r2) s = Some (s\<lparr>
    evt_fifo := [if Suc (unat (str_pointer s)) < hid_strlen s then HID_KBD_STRING else HID_KBD_CLEAR], evt_sem := True,
    str_pointer := str_pointer s + 1, hid_reports := hid_reports s @ [(HID_1, char_report c)], todo := []\<rparr>)"
proof -
  have len: "hid_strlen s < 64" using assms(1) by (simp add: hid_ready_def)
  let ?t = "s\<lparr>evt_fifo := [], str_pointer := str_pointer s + 1, hid_reports := hid_reports s @ [(HID_1, char_report c)],
    todo := next_char (hid_strlen s) (str_pointer s + 1) @ [Free_evt]\<rparr>"
  have "iterate 5 (hid_round r1 r2) s = Some ?t" by (rule send_char) (use assms len in simp_all)
  moreover have "iterate 3 (hid_round r1 r2) ?t =
      Some (?t\<lparr>evt_fifo := [if Suc (unat (str_pointer s)) < hid_strlen s then HID_KBD_STRING else HID_KBD_CLEAR], evt_sem := True, todo := []\<rparr>)"
    by (rule send_next) (use assms(1,2) after_char(2) [OF assms(3) len] in \<open>simp_all add: hid_ready_def\<close>)
  ultimately show ?thesis using iterate_then by fastforce
qed

lemma type_rest:
  assumes "hid_ready s" "evt_fifo s = [HID_KBD_STRING]" "unat (str_pointer s) < hid_strlen s"
    and "list_all printable (cstr (hid_string s))"
  shows "\<exists>n s'. iterate n (hid_round r1 r2) s = Some s' \<and> hid_ready s' \<and> evt_fifo s' = [] \<and> hid_string s' = hid_string s \<and>
    hid_reports s' = hid_reports s @ map (Pair HID_1) (map char_report (drop (unat (str_pointer s)) (cstr (hid_string s))) @ [released])"
  using assms
proof (induction "hid_strlen s - unat (str_pointer s)" arbitrary: s rule: less_induct)
  case less
  let ?w = "cstr (hid_string s)" and ?p = "unat (str_pointer s)"
  let ?c = "hid_string s ! ?p"
  let ?s = "s\<lparr>evt_fifo := [if Suc ?p < hid_strlen s then HID_KBD_STRING else HID_KBD_CLEAR], evt_sem := True,
    str_pointer := str_pointer s + 1, hid_reports := hid_reports s @ [(HID_1, char_report ?c)], todo := []\<rparr>"
  have len: "hid_strlen s = length ?w" "hid_strlen s < 64" using less.prems(1) by (simp_all add: hid_strlen_def hid_ready_def)
  have c: "?c = ?w ! ?p" using less.prems(3) len by (simp add: cstr_nth)
  have pc: "printable ?c" using less.prems(3,4) len c by (simp add: list_all_length)
  note p1 = after_char(1) [OF less.prems(3) len(2)]
  have drop: "drop ?p ?w = ?c # drop (Suc ?p) ?w"
    using less.prems(3) len(1) c by (simp add: Cons_nth_drop_Suc)
  note s1 = type_one [OF less.prems(1-3) refl pc, of r1 r2]
  have same: "hid_strlen ?s = hid_strlen s" by (simp add: hid_strlen_def)
  have r: "hid_ready ?s" using less.prems(1,2) by (simp add: hid_ready_def same)
  show ?case
  proof (cases "Suc ?p < hid_strlen s")
    case True
    have "\<exists>n s'. iterate n (hid_round r1 r2) ?s = Some s' \<and> hid_ready s' \<and> evt_fifo s' = [] \<and> hid_string s' = hid_string ?s \<and>
      hid_reports s' = hid_reports ?s @ map (Pair HID_1) (map char_report (drop (unat (str_pointer ?s)) (cstr (hid_string ?s))) @ [released])"
      by (rule less.hyps) (use True less.prems r same p1 in auto)
    then obtain n s' where rest: "iterate n (hid_round r1 r2) ?s = Some s'" "hid_ready s'" "evt_fifo s' = []" "hid_string s' = hid_string s"
      "hid_reports s' = hid_reports s @ map (Pair HID_1) (map char_report (drop ?p ?w) @ [released])"
      by (auto simp: p1 drop)
    from iterate_then [OF s1 rest(1)] rest(2-) show ?thesis by blast
  next
    case False
    then have e: "evt_fifo ?s = [HID_KBD_CLEAR]" by simp
    have last: "drop ?p ?w = [?c]" using False len(1) drop by simp
    show ?thesis
      by (rule exI, rule exI, rule conjI, rule iterate_then [OF s1 send_release [OF r e]])
         (use less.prems(1) in \<open>simp add: hid_ready_def hid_strlen_def last\<close>)
  qed
qed

text \<open>The keyboard at rest: the main thread waits for an event, and the host has taken every report.\<close>

definition hid_waiting :: "hid \<Rightarrow> bool" where
  "hid_waiting s \<longleftrightarrow> todo s = [Take_evt_sem] \<and> \<not> evt_sem s \<and> evt_fifo s = [] \<and> usb_sem s \<and> reports_pending s = 0 \<and>
     pool_used s = 0 \<and> length (hid_string s) = 64 \<and> hid_strlen s < 64"

lemma press_button:
  assumes "hid_waiting s" "0 < hid_strlen s"
  obtains t s' where "btn 2 s = Some t" "iterate 8 (hid_round r1 r2) t = Some s'" "hid_ready s'" "evt_fifo s' = [HID_KBD_STRING]"
    "str_pointer s' = 0" "hid_string s' = hid_string s" "hid_reports s' = hid_reports s"
proof
  let ?t = "s\<lparr>pool_used := 1, evt_fifo := [GPIO_BUTTON_2], evt_sem := True\<rparr>"
  let ?s = "s\<lparr>evt_fifo := [HID_KBD_STRING], pool_used := 1, evt_sem := True, str_pointer := 0, todo := [],
    cdc_texts := cdc_texts s @ [(CDC_1, Gpio2)]\<rparr>"
  show "btn 2 s = Some ?t" using assms by (simp add: btn_def post_evt_cases hid_waiting_def numeral_2_eq_2)
  show "iterate 8 (hid_round r1 r2) ?t = Some ?s"
    using assms by (cases s) (simp add: round_defs hid_waiting_def hid_strlen_def)
  show "hid_ready ?s" using assms by (simp add: hid_ready_def hid_waiting_def hid_strlen_def)
qed simp_all

lemma back_to_waiting:
  assumes "hid_ready s" "evt_fifo s = []"
  obtains n s' where "iterate n (hid_round r1 r2) s = Some s'" "hid_waiting s'" "hid_reports s' = hid_reports s" "hid_string s' = hid_string s"
proof
  let ?s = "s\<lparr>todo := [Take_evt_sem], evt_sem := False\<rparr>"
  show "iterate (if evt_sem s then 3 else 1) (hid_round r1 r2) s = Some ?s"
    using assms by (cases s) (auto simp add: round_defs hid_ready_def)
  show "hid_waiting ?s" using assms by (simp add: hid_waiting_def hid_ready_def hid_strlen_def)
qed simp_all

lemma string_is_typed:
  assumes "hid_waiting s" "cstr (hid_string s) = w" "w \<noteq> []" "list_all printable w"
  obtains t n s' where "btn 2 s = Some t" "iterate n (hid_round r1 r2) t = Some s'" "hid_waiting s'" "hid_string s' = hid_string s"
    "hid_reports s' = hid_reports s @ map (Pair HID_1) (map char_report w @ [released])"
proof -
  have "0 < hid_strlen s" using assms(2,3) by (simp add: hid_strlen_def)
  with assms(1) obtain t u where t: "btn 2 s = Some t" "iterate 8 (hid_round r1 r2) t = Some u" and u: "hid_ready u"
    "evt_fifo u = [HID_KBD_STRING]" "str_pointer u = 0" "hid_string u = hid_string s" "hid_reports u = hid_reports s"
    by (rule press_button)
  have "unat (str_pointer u) < hid_strlen u" using u assms(2,3) by (simp add: hid_strlen_def)
  from type_rest [OF u(1,2) this, of r1 r2] u assms(2,4) obtain n v where
    v: "iterate n (hid_round r1 r2) u = Some v" "hid_ready v" "evt_fifo v = []" "hid_string v = hid_string s"
    "hid_reports v = hid_reports s @ map (Pair HID_1) (map char_report w @ [released])" by auto
  obtain m x where x: "iterate m (hid_round r1 r2) v = Some x" "hid_waiting x" "hid_reports x = hid_reports v" "hid_string x = hid_string v"
    using back_to_waiting [OF v(2,3)] by blast
  from that [OF t(1) iterate_then [OF iterate_then [OF t(2) v(1)] x(1)] x(2)] x v show thesis by simp
qed

text \<open>
  C36: Button 2 with a string of printable characters sends reports from which a host with a US
  keyboard reads the string without every character whose key is that of the character before it:
  exactly the string when no two neighbours share a key. The main thread then waits again.
\<close>

theorem host_reads_the_string:
  assumes "hid_waiting s" "cstr (hid_string s) = w" "w \<noteq> []" "list_all printable w"
  shows "\<exists>t n s' reps. btn 2 s = Some t \<and> iterate n (hid_round r1 r2) t = Some s' \<and> hid_waiting s' \<and>
    hid_reports s' = hid_reports s @ map (Pair HID_1) (reps @ [released]) \<and>
    host_text released (reps @ [released]) = heard 0 w \<and>
    (host_text released (reps @ [released]) = w \<longleftrightarrow> successively (\<lambda>a b. ascii_to_hid a \<noteq> ascii_to_hid b) w)"
proof -
  obtain t n s' where run: "btn 2 s = Some t" "iterate n (hid_round r1 r2) t = Some s'" "hid_waiting s'"
    "hid_reports s' = hid_reports s @ map (Pair HID_1) (map char_report w @ [released])"
    by (rule string_is_typed [OF assms])
  have "host_text released (map char_report w @ [released]) = heard 0 w"
    using host_text_chars [OF assms(4), of 0 0] by (simp add: released_def)
  moreover have "printable (hd w)" using assms(3,4) by (cases w) auto
  then have "ascii_to_hid (hd w) \<noteq> 0" using printable_key by fastforce
  ultimately show ?thesis using run heard_all [of 0 w] assms(3)
    by (intro exI [of _ t] exI [of _ n] exI [of _ s'] exI [of _ "map char_report w"]) simp
qed

lemma host_reads_the_string_witness:
  "heard 0 (ascii ''hello'') = ascii ''helo'' \<and>
   (\<exists>t n s' reps. btn 2 (hid_init\<lparr>hid_string := strcpy (replicate 64 0) (ascii ''hello'' @ [0])\<rparr>) = Some t \<and>
      iterate n (hid_round 0 0) t = Some s' \<and> host_text released (reps @ [released]) = ascii ''helo'')"
proof -
  let ?s = "hid_init\<lparr>hid_string := strcpy (replicate 64 0) (ascii ''hello'' @ [0])\<rparr>"
  have "hid_waiting ?s" by code_simp
  moreover have "cstr (hid_string ?s) = ascii ''hello''" "ascii ''hello'' \<noteq> []" "list_all printable (ascii ''hello'')"
    by code_simp+
  moreover have "heard 0 (ascii ''hello'') = ascii ''helo''" by code_simp
  ultimately show ?thesis using host_reads_the_string [of ?s "ascii ''hello''" 0 0] by metis
qed

section \<open>A new string while the old one is being typed\<close>

definition stray_report :: "u8 \<Rightarrow> (hid_dev \<times> u8 list) list" where
  "stray_report c = (if ascii_to_hid c = -1 then [] else [(HID_1, char_report c)])"

lemma any_key: "ascii_to_hid c = -1 \<or> 4 \<le> ascii_to_hid c \<and> ascii_to_hid c < 77"
proof -
  consider "printable c" | "c = 127" | "c < 32 \<or> 127 < c" unfolding printable_def by force
  then show ?thesis using printable_key no_key by cases (fastforce, simp add: ascii_to_hid_def key_of_def, simp)
qed

lemma stray_report_holds: "(HID_1, released) \<notin> set (stray_report c)"
  using any_key [of c]
  by (auto simp: stray_report_def released_def char_report_def kbd_report_def word_of_int_eq_0_iff dvd_imp_le_int
      dest: zdvd_imp_le)

lemma drop_string_event:
  assumes "todo s = [Next_char, Free_evt]" "evt_fifo s = [CDC_STRING]" "usb_sem s" "reports_pending s = 0" "pool_used s = 2"
    and "hid_strlen s < unat (str_pointer s + 1)"
  shows "iterate (2 + (8 + 0)) (hid_round r1 r2) s = Some (s\<lparr>evt_fifo := [], pool_used := 0, str_pointer := str_pointer s + 1, todo := [],
    cdc_texts := cdc_texts s @ [(CDC_0, Set_str), (CDC_0, User (cstr (hid_string s))), (CDC_0, Endl),
      (CDC_1, Set_str), (CDC_1, User (cstr (hid_string s))), (CDC_1, Endl)]\<rparr>)"
  using assms by (cases s) (simp add: round_defs next_char_def hid_strlen_def)

lemma stray_char:
  assumes "todo s = []" "evt_fifo s = [HID_KBD_STRING, e]" "usb_sem s" "reports_pending s = 0"
    and "unat (str_pointer s) < length (hid_string s)" "c = hid_string s ! unat (str_pointer s)"
  shows "iterate (if ascii_to_hid c = -1 then 2 else 4) (hid_round r1 r2) s =
    Some (s\<lparr>evt_fifo := [e], todo := [Next_char, Free_evt], hid_reports := hid_reports s @ stray_report c\<rparr>)"
  using assms by (cases s) (simp add: round_defs type_char_def send_report_def char_report_def stray_report_def)

lemma strcpy_line:
  assumes "0 \<notin> set w" "length w < 64" "length a = 64"
  shows "cstr (strcpy a (w @ [0])) = w" "length (strcpy a (w @ [0])) = 64"
proof -
  have w: "cstr (w @ 0 # xs) = w" for xs using assms(1) by (induction w) (auto simp: cstr_def)
  show "cstr (strcpy a (w @ [0])) = w" "length (strcpy a (w @ [0])) = 64"
    using assms(2,3) by (simp_all add: strcpy_def Let_def w)
qed

theorem shorter_string_leaves_the_key_down:
  assumes "hid_ready s" "evt_fifo s = [HID_KBD_STRING]" "data_buf_kbd s = []"
    and "0 \<notin> set w" "length w \<le> unat (str_pointer s)" "unat (str_pointer s) < 63"
  shows "\<exists>t n s' reps. hid_step (Kbd_rx [w @ [ENTER]]) s = Some t \<and> iterate n (hid_round r1 r2) t = Some s' \<and>
    hid_waiting s' \<and> cstr (hid_string s') = w \<and> hid_reports s' = hid_reports s @ reps \<and> (HID_1, released) \<notin> set reps"
proof -
  let ?a = "strcpy (hid_string s) (w @ [0])"
  let ?c = "?a ! unat (str_pointer s)"
  let ?t = "s\<lparr>hid_string := ?a, pool_used := 2, evt_fifo := [HID_KBD_STRING, CDC_STRING], evt_sem := True\<rparr>"
  have s: "todo s = []" "usb_sem s" "reports_pending s = 0" "pool_used s = 1" "length (hid_string s) = 64"
    using assms(1,2) by (simp_all add: hid_ready_def)
  have a: "cstr ?a = w" "length ?a = 64" by (rule strcpy_line; use assms(4-6) s in simp)+
  have "kbd_portion (w @ [ENTER]) s = Some ?t"
    using assms(2,3) s by (cases s) (simp add: kbd_portion_def flush_buffer_kbd_def post_evt_cases numeral_2_eq_2)
  then have t: "hid_step (Kbd_rx [w @ [ENTER]]) s = Some ?t"
    using assms(3,5,6) by (simp, subst kbd_loop.simps) (simp, subst kbd_loop.simps, simp)
  let ?u = "?t\<lparr>evt_fifo := [CDC_STRING], todo := [Next_char, Free_evt], hid_reports := hid_reports ?t @ stray_report ?c\<rparr>"
  have u: "iterate (if ascii_to_hid ?c = -1 then 2 else 4) (hid_round r1 r2) ?t = Some ?u"
    by (rule stray_char) (use assms(6) s a in simp_all)
  have p1: "unat (str_pointer s + 1) = Suc (unat (str_pointer s))"
    using assms(6) by (simp add: unat_plus_if_size word_size)
  have len: "hid_strlen ?u = length w" using a by (simp add: hid_strlen_def)
  obtain v where v: "iterate (2 + (8 + 0)) (hid_round r1 r2) ?u = Some v" "hid_ready v" "evt_fifo v = []" "hid_string v = ?a"
    "hid_reports v = hid_reports s @ stray_report ?c"
  proof
    show "iterate (2 + (8 + 0)) (hid_round r1 r2) ?u = Some (?u\<lparr>evt_fifo := [], pool_used := 0, str_pointer := str_pointer ?u + 1, todo := [],
        cdc_texts := cdc_texts ?u @ [(CDC_0, Set_str), (CDC_0, User (cstr (hid_string ?u))), (CDC_0, Endl),
          (CDC_1, Set_str), (CDC_1, User (cstr (hid_string ?u))), (CDC_1, Endl)]\<rparr>)"
      by (rule drop_string_event) (use s assms(5) len in \<open>simp_all add: p1\<close>)
  qed (use s a assms(5,6) in \<open>simp_all add: hid_ready_def hid_strlen_def\<close>)
  obtain m x where x: "iterate m (hid_round r1 r2) v = Some x" "hid_waiting x" "hid_reports x = hid_reports v" "hid_string x = hid_string v"
    using back_to_waiting [OF v(2,3)] by blast
  from t iterate_then [OF iterate_then [OF u v(1)] x(1)] x(2-) v(4,5) a(1) stray_report_holds [of ?c] show ?thesis by metis
qed

end
