(* ===== verification/Spec2Isabelle.thy ===== *)
theory Spec2Isabelle
  imports NodeBehaviour Accuracy Dispatch Hazards EnigmaThreads SerialRadio Battery Philosophers HciUart Eddystone Pong PongLink Qsort DynamicCmd ZperfUnits ZperfSession ZperfReceiver ZperfCounts ZperfUploader OnOffApp WpanUsb HidKeys HidCdc HidEvents HidTyping
begin

text \<open>
  A verification library for the repository's sample applications, independent C programs on the
  Zephyr RTOS. Each program that has logic of its own is modelled in its own theories; samples
  that only call drivers or protocol libraries are left out. Paths are relative to src/samples/.

  How the models are made.

  \<^item> An operation of the code is a function of the same name. Globals and function-local statics are
    the fields of a record; C integers are words of their width where they can wrap, and
    naturals or integers where a proof or the type bounds them; C's \<open>float\<close> and \<open>double\<close> are
    rationals rounded to binary32 and binary64 after every operation (\<open>CFloat\<close>).
  \<^item> \<open>None\<close> is undefined behaviour of C (division by zero, a float outside the integer type it is cast
    to, signed overflow, an access beyond an array or a message buffer) or a loop that does not end.
    A statement \<open>returns m Q\<close> says that the computation \<open>m\<close> has a result and that it satisfies \<open>Q\<close>.
  \<^item> Calls to Zephyr are outputs, recorded in order in a field of the state (\<open>trace\<close>, \<open>radio_log\<close>, \<open>asked\<close>,
    \<open>calls\<close>); what Zephyr returns is an input, an argument or the record of answers of the theory
    (\<open>env\<close>, \<open>radio_env\<close>). No behaviour of Zephyr is defined except the documented behaviour that
    a statement names.

  Shared by all: \<open>Prelude\<close>: integer types, conversions, truncating division, \<open>returns\<close>, lists.

  The mesh lighting node, boards/nrf/mesh/onoff_level_lighting_vnd_app/src.

  The node keeps one light: lightness, colour temperature and Delta UV, each with a present value and
  a target (mesh/device_composition.h: \<open>struct light_ctl_state\<close>). OnOff, Level, Lightness (actual and
  linear) and CTL messages are views of it (mesh/state_binding.c). A set message checks its payload
  and its transaction identifier, records a target through \<open>set_target\<close>, computes the steps of the
  transition (\<open>set_transition_values\<close>) and arms a timer whose expiries submit one of seven work items
  (mesh/transition.c). The handler of the work item moves the present values one step and, at the
  end, stops the timer and submits the work item that makes the present values equal to the
  targets (mesh/no_transition_work_handler.c). What changes is saved from a work item and restored at
  the next boot (storage.c, main.c). Buttons publish client messages (mesh/publisher.c, app_gpio.c);
  the LEDs show the light (main.c).

  \<^item> \<open>CFloat\<close>: a locale of rounding functions (monotone, exact on representable numbers, with an error
    bound), interpreted for binary32 and binary64. \<open>Newton\<close>: the steps of the square root iteration
    in rounded arithmetic approach the root and then repeat, which ends the loop.
  \<^item> \<open>Node\<close>, \<open>MsgBuf\<close>: the state, the boundary to Zephyr, the message buffers (a buffer is a list
    of bytes with a capacity, \<open>net_buf_simple_pull\<close> beyond the end is \<open>None\<close>).
  \<^item> \<open>Storage\<close>, \<open>LightOutput\<close>, \<open>StateBinding\<close>, \<open>Transition\<close>: storage.c, the LEDs, state_binding.c,
    transition.c.
  \<^item> \<open>SetServer\<close>, \<open>Reports\<close>, \<open>GenOnOff\<close>, \<open>GenLevel\<close>, \<open>Lightness\<close>, \<open>LightCtl\<close>, \<open>GenPower\<close>, \<open>Composition\<close>:
    mesh/device_composition.c, by group of models; \<open>Composition\<close> has the opcode tables.
  \<^item> \<open>NodeMain\<close>, \<open>Buttons\<close>: main.c, ble_mesh.c, no_transition_work_handler.c; publisher.c, app_gpio.c.
  \<^item> \<open>Ramp\<close>: the locale \<open>ramp_handler\<close>, the contract of a transition's work handler, interpreted for
    the seven handlers: values stay between start and target, and the counter runs out.
    \<open>Moves\<close>: the same for the unbounded Move transitions (\<open>move_handler\<close>, two interpretations).
  \<^item> \<open>SetProtocol\<close>: the locales \<open>set_server\<close> (fourteen interpretations), \<open>delta_server\<close> and
    \<open>move_server\<close> (four each): what every handler that starts a transition does with a malformed, a
    repeated and an accepted message. \<open>Journeys\<close>: \<open>set_journey\<close> joins a \<open>set_server\<close> with the
    \<open>ramp_handler\<close> whose work it arms: from the message to the settled light. \<open>Servers\<close>: the
    properties this gives for each server.
  \<^item> \<open>NodeSystem\<close>, \<open>NodeBehaviour\<close>: the stimuli of the node, the states reachable after a boot, the
    invariant \<open>node_inv\<close>, and the abstract lamp the node refines. \<open>Hazards\<close>: the stimuli the code
    does not guard against, and that leaving them out is necessary.
  \<^item> \<open>Persistence\<close>: what survives a power cycle. \<open>Accuracy\<close>: how exact the conversions are. \<open>Dispatch\<close>:
    the opcode tables of an element do not overlap, so each message has one handler.

  Bounds and fuel. A transition has at most ten steps (DEVICE_SPECIFIC_RESOLUTION), so eleven expiries
  of its timer end it; \<open>transition_counter_set\<close> gives the bound. The loop of \<open>sqrt\<close> is a
  \<open>partial_function\<close> without fuel, whose value is \<open>None\<close> where it does not end; \<open>Newton\<close> proves that it
  ends for every argument the program passes (\<open>linear_to_actual_accurate\<close>).

  Assumptions. Handlers, expiries and work items run one after the other, each to its end. The timer
  started by \<open>k_timer_start\<close> submits its work item until \<open>k_timer_stop\<close> (field \<open>armed\<close>), the access
  layer delivers a message to the handler of its opcode when the payload has the table's minimum
  length (\<open>deliver\<close>), settings_load hands the stored entries to the handler one by one
  (\<open>load_entries\<close>). The statements about reachable states leave out the stimuli that the predicate
  \<open>occurs\<close> excludes, because the code does not handle them: a temperature range that is empty or
  does not contain the present temperature (the LED computation then divides by zero or casts a
  negative float), a delta whose sum with the level leaves 32 bits, and the settling work item run
  while a timer is already armed again. They are recorded as findings. The board has four LEDs and
  four buttons where the source asks (the board with one button has \<open>publish_one_button\<close>); shifts and conversions of negative integers are those of
  two's complement, as the compilers of the supported boards define them.

  The on/off sample, boards/nrf/mesh/onoff-app/src/main.c, an older and smaller node. \<open>OnOffApp\<close>: its OnOff
  models, its debounced and counted buttons, and the program as a sequence of events with a
  well-formedness invariant; what is published is read off the log of calls.

  The rotor machine, userspace/shared_mem/src.

  \<^item> \<open>Enigma\<close>: enc.c and the wheels of main.c. Lemmas: each wheel with its reverse table is a
    bijection, the reflector its own inverse, so a letter is decrypted by the setting that encrypted it.
  \<^item> \<open>EnigmaThreads\<close>: main.c. The text loop, then the threads PT, ENC and CT as turns that hold the
    semaphore \<open>allforone\<close>. The semaphore is assumed to go to the thread that has waited longest; then no
    turn spins on a buffer while it holds the semaphore, and every message comes out once.

  The serial radio, net/wpan_serial/src/main.c.

  \<^item> \<open>Slip\<close>: the framing of both directions, byte by byte; the buffer of the sender is bounded, that of the
    receiver drops what does not fit. Lemmas follow a frame through the interrupt handler.
  \<^item> \<open>SerialRadio\<close>: the requests of the host and the reports. Lemmas say which lengths each request needs.

  The USB radio, net/wpanusb/src/wpanusb.c. \<open>WpanUsb\<close>: the requests of the host, the thread that executes
  them, and received frames. How a packet is split into buffers is a parameter.

  The battery monitor, boards/nrf/battery/src. \<open>Battery\<close>: the divider, a sample with its unsigned
  scaling, the discharge curve with its search and interpolation, the time stamp.

  The dining philosophers, philosophers/src/main.c. \<open>Philosophers\<close>: the threads as an \<open>inductive\<close> step
  relation over the program counters; the order of the forks gives a measure that excludes a
  circular wait. The fork is any kernel object of which a taken one blocks. phil_obj_abstract.h lists six
  forks; with more philosophers the program has no fork to take (\<open>init_objects\<close> is \<open>None\<close>).

  HCI over UART, bluetooth/hci_uart/src/main.c. \<open>HciUart\<close>: the interrupt handler as a loop over the
  portions the line delivers, the packets it queues, the sender and the assertion event.

  The Eddystone beacon, bluetooth/eddystone/src/main.c. \<open>Eddystone\<close>: every characteristic, the table
  of the service, restarting, the idle time-out. A reachable state is one after any sequence of these;
  lemmas show what a locked beacon refuses and which writes are undefined. A write is undefined where a
  copy leaves its destination or a variable is read that was not set (\<open>copy_byte\<close>, \<open>copy_fits\<close>), so the
  length checks of the handlers are part of that statement.

  Pong on two boards, boards/bbc_microbit/pong/src.

  \<^item> \<open>Pong\<close>: main.c, the game; the invariant keeps ball and paddle on the virtual screen.
  \<^item> \<open>PongLink\<close>: ble.c, the state machine of the connection, the messages, and the parser of advertising
    data. The theorems that span the two files let the calls of one board be the events of the other.

  The shell module, subsys/shell/shell_module/src.

  \<^item> \<open>Qsort\<close>: qsort.c. The locale \<open>cmp_order\<close> states what a comparison must promise; for any
    comparison the routine ends with a permutation, and for those of the locale with a sorted one.
    The depth of the stack is part of the model.
  \<^item> \<open>DynamicCmd\<close>: dynamic_cmd.c, with \<open>cmp_order\<close> interpreted for its comparison of strings. The table
    of commands refines a finite set.

  zperf, a measurement of network throughput, net/zperf/src.

  \<^item> \<open>ZperfUnits\<close>: shell_utils.c and the time arithmetic of zperf_internal.h. Lemmas say which numbers
    are printed as decimal fractions of their unit, and what a size with a suffix is read as.
  \<^item> \<open>ZperfSession\<close>: zperf_session.c, the search for the session of a packet, by what it finds and
    what it leaves alone. \<open>ZperfReceiver\<close>: zperf_udp_receiver.c and zperf_tcp_receiver.c; no
    two UDP sessions have the same client. \<open>ZperfCounts\<close>: what is counted over a sequence of packets.
  \<^item> \<open>ZperfUploader\<close>: zperf_udp_uploader.c and zperf_tcp_uploader.c. The readings of the clock are a list,
    which bounds the loops; the delay between packets is a control loop with an invariant. The wait is the
  busy wait of the builds without CONFIG_ARCH_POSIX.

  The USB mouse and keyboard, subsys/usb/hid-cdc/src/main.c. \<open>HidKeys\<close>: \<open>ascii_to_hid\<close> and \<open>needs_shift\<close>, which
  agree with the US layout for every printable character. \<open>HidCdc\<close>: the pool and queue of events, the
  handlers of the serial ports, of the buttons and of the delivered report, and the main thread as a list of
  actions, one of them per step, so that interrupts may fall between any two. \<open>HidEvents\<close>: what holds in every
  run (\<open>hid_wf\<close>), the end of all reports after a refused one, the exhaustion of the pool, a recognised command
  line, and a keyboard line that is too long. \<open>HidTyping\<close>: from the press of button 2 to what the host reads,
  and a string that is replaced while it is typed. A text written to a serial port is one action, the waits
  for DTR are left out.

  Not modelled. Of the lighting node: advertising and provisioning callbacks that only call the stack, the
  MCUmgr server (smp_svr.c), GPIO configuration, text of log messages beyond their format string.
  Of the other samples: those whose code is a sequence of calls to a driver or a protocol library
  and prints what they return (sensors, displays, flash, CAN, USB classes, sockets, CoAP, MQTT, LwM2M, the
  attribute tables of the Bluetooth samples): a model would consist of parameters. The Bluetooth
  protect application and its backups are tables and callbacks of this kind. Demonstrations of
  scheduling and power states (metairq_dispatch, system_off, timing) depend on the kernel itself.
\<close>

end
